(* ===== verification/Sponge_Prelude.thy ===== *)
theory Sponge_Prelude
  imports Main "HOL-Library.Word"
begin

text \<open>
  Shared vocabulary of the development: the machine types of the C++ sources, the outcome of a
  C++ operation (\<open>result\<close>: a value, or the way the operation failed), the part of
  \<^verbatim>\<open>std::string\<close> the sources use, and the generic facts on words, lists and
  results that the component theories rest on.
\<close>

section \<open>Machine types\<close>

text \<open>
  The sources are compiled for a 64-bit Linux target: \<^verbatim>\<open>size_t\<close> and
  \<^verbatim>\<open>uint64_t\<close> are 64 bits wide, \<^verbatim>\<open>unsigned int\<close> and
  \<^verbatim>\<open>uint32_t\<close> 32 bits. Arithmetic on a word wraps exactly as unsigned arithmetic
  does in C++; conversions between widths are written out as \<open>ucast\<close>.
\<close>

type_synonym u8 = "8 word"
type_synonym u16 = "16 word"
type_synonym u32 = "32 word"
type_synonym u64 = "64 word"
type_synonym bytes = "u8 list"

section \<open>Outcomes\<close>

text \<open>
  An operation either returns a value (\<open>Inr\<close>) or fails (\<open>Inl\<close>). The failures are the
  ones the sources can produce: an access outside a string or container and a shift by a negative
  count (undefined behaviour in C++), the exceptions they throw, and a loop that never ends.
\<close>

datatype cpp_error =
    OutOfBounds
  | OutOfRange string
  | RuntimeError string
  | BadOptionalAccess
  | InvalidArgument string
  | LengthError string
  | SystemError string int
  | BadShift
  | Diverges

type_synonym 'a result = "cpp_error + 'a"

named_theorems result_simps \<open>rewriting of sequenced outcomes\<close>

fun bindR :: "'a result \<Rightarrow> ('a \<Rightarrow> 'b result) \<Rightarrow> 'b result" where
  "bindR (Inl e) f = Inl e"
| "bindR (Inr x) f = f x"

declare bindR.simps [result_simps]

lemma bindR_assoc [result_simps]: "bindR (bindR m f) g = bindR m (\<lambda>x. bindR (f x) g)"
  by (cases m) simp_all

lemma bindR_Inr_right [simp]: "bindR m Inr = m"
  by (cases m) simp_all

lemma bindR_eq_InrE:
  assumes "bindR m f = Inr y"
  obtains x where "m = Inr x" and "f x = Inr y"
  using assms by (cases m) simp_all

lemma bindR_eq_Inr_iff: "bindR m f = Inr y \<longleftrightarrow> (\<exists>x. m = Inr x \<and> f x = Inr y)"
  by (cases m) simp_all

lemma bindR_eq_Inl: "bindR m f = Inl e \<longleftrightarrow> m = Inl e \<or> (\<exists>x. m = Inr x \<and> f x = Inl e)"
  by (cases m) simp_all

lemma bindR_cong [fundef_cong]:
  "m = m' \<Longrightarrow> (\<And>x. m' = Inr x \<Longrightarrow> f x = g x) \<Longrightarrow> bindR m f = bindR m' g"
  by (cases m') simp_all

definition check_that :: "bool \<Rightarrow> cpp_error \<Rightarrow> unit result" where
  "check_that b e = (if b then Inr () else Inl e)"

lemma check_that_simps [simp]:
  "check_that True e = Inr ()"
  "check_that False e = Inl e"
  by (simp_all add: check_that_def)

section \<open>Words and natural numbers\<close>

named_theorems word_nat \<open>reading word arithmetic as arithmetic on natural numbers\<close>

lemma unat_of_nat_small [word_nat]:
  "n < 2 ^ LENGTH('a) \<Longrightarrow> unat (of_nat n :: 'a::len word) = n"
  by (simp add: unat_of_nat)

lemma word_eq_of_nat: "unat a = n \<Longrightarrow> a = of_nat n"
  by auto

lemma unat_add_small [word_nat]:
  fixes a b :: "'a::len word"
  assumes "unat a + unat b < 2 ^ LENGTH('a)"
  shows "unat (a + b) = unat a + unat b"
  using assms unat_add_lem by blast

lemma unat_diff_small [word_nat]:
  fixes a b :: "'a::len word"
  assumes "unat b \<le> unat a"
  shows "unat (a - b) = unat a - unat b"
  using assms by (simp add: unat_sub word_le_nat_alt)

lemma unat_diff_wraps:
  fixes a b :: "'a::len word"
  assumes "unat a < unat b"
  shows "unat (a - b) = 2 ^ LENGTH('a) + unat a - unat b"
  using assms unsigned_less [of b, where 'a = nat] by (simp add: unat_sub_if_size word_le_nat_alt word_size)

lemma unat_Suc_small [word_nat]:
  fixes a :: "'a::len word"
  assumes "Suc (unat a) < 2 ^ LENGTH('a)"
  shows "unat (a + 1) = Suc (unat a)"
  using assms by (simp add: unat_word_ariths)

lemma unat_Suc_below:
  fixes a b :: "'a::len word"
  assumes "a < b"
  shows "unat (a + 1) = Suc (unat a)"
proof (rule unat_Suc_small)
  have "unat a < unat b" using assms by (simp add: word_less_nat_alt)
  also have "unat b < 2 ^ LENGTH('a)" by simp
  finally show "Suc (unat a) < 2 ^ LENGTH('a)"
    using \<open>unat a < unat b\<close> \<open>unat b < 2 ^ LENGTH('a)\<close> by linarith
qed

lemma unat_step_measure: "(a :: 'a::len word) < b \<Longrightarrow> unat b - unat (a + 1) < unat b - unat a"
  using unat_Suc_below [of a b] by (simp add: word_less_nat_alt)

lemma unat_ucast_mod:
  "unat (ucast (a :: 'a::len word) :: 'b::len word) = unat a mod 2 ^ LENGTH('b)"
  by (simp add: unsigned_ucast_eq take_bit_eq_mod)

lemma ucast_eq_of_nat: "unat a = n \<Longrightarrow> ucast a = of_nat n"
  by (auto simp: word_unat_eq_iff unat_ucast_mod unat_of_nat)

lemma unat_ucast_up:
  assumes "LENGTH('a::len) \<le> LENGTH('b::len)"
  shows "unat (ucast (a :: 'a word) :: 'b word) = unat a"
proof -
  have "unat a < 2 ^ LENGTH('a)" by simp
  also have "(2 :: nat) ^ LENGTH('a) \<le> 2 ^ LENGTH('b)" using assms by simp
  finally show ?thesis by (simp add: unat_ucast_mod)
qed

lemma unat_ucast_small [word_nat]:
  "unat a < 2 ^ LENGTH('b) \<Longrightarrow> unat (ucast (a :: 'a::len word) :: 'b::len word) = unat a"
  by (simp add: unat_ucast_mod)

lemma unat_lt_size: "unat (a :: 'a::len word) < 2 ^ LENGTH('a)"
  by simp

lemma unat_min [word_nat]: "unat (min a b :: 'a::len word) = min (unat a) (unat b)"
  by (simp add: min_def word_le_nat_alt)

lemma unat_max [word_nat]: "unat (max a b :: 'a::len word) = max (unat a) (unat b)"
  by (simp add: max_def word_le_nat_alt)

lemma unat_u8_lt [simp]: "unat (x :: u8) < 256"
  using unat_lt_size [of x] by simp

lemma unat_u16_lt [simp]: "unat (x :: u16) < 65536"
  using unat_lt_size [of x] by simp

lemma unat_u32_lt [simp]: "unat (x :: u32) < 4294967296"
  using unat_lt_size [of x] by simp

lemma unat_u64_lt [simp]: "unat (x :: u64) < 18446744073709551616"
  using unat_lt_size [of x] by simp

lemma unat_ucast_8_16 [simp, word_nat]: "unat (ucast (x :: u8) :: u16) = unat x"
  by (simp add: unat_ucast_up)

lemma unat_ucast_8_32 [simp, word_nat]: "unat (ucast (x :: u8) :: u32) = unat x"
  by (simp add: unat_ucast_up)

lemma unat_ucast_8_64 [simp, word_nat]: "unat (ucast (x :: u8) :: u64) = unat x"
  by (simp add: unat_ucast_up)

lemma unat_ucast_16_32 [simp, word_nat]: "unat (ucast (x :: u16) :: u32) = unat x"
  by (simp add: unat_ucast_up)

lemma unat_ucast_16_64 [simp, word_nat]: "unat (ucast (x :: u16) :: u64) = unat x"
  by (simp add: unat_ucast_up)

lemma unat_ucast_32_64 [simp, word_nat]: "unat (ucast (x :: u32) :: u64) = unat x"
  by (simp add: unat_ucast_up)

lemma unat_times4 [simp, word_nat]:
  "unat (4 * ucast (d :: u8) :: u64) = 4 * unat d"
  "unat (ucast (d :: u8) * 4 :: u64) = 4 * unat d"
proof -
  have "4 * unat d < 18446744073709551616" using unat_u8_lt [of d] by linarith
  then show "unat (4 * ucast d :: u64) = 4 * unat d" "unat (ucast d * 4 :: u64) = 4 * unat d"
    by (simp_all add: unat_word_ariths)
qed

section \<open>Strings of bytes\<close>

text \<open>
  \<^verbatim>\<open>std::string\<close> as a list of bytes. \<open>str_size\<close> is
  \<^verbatim>\<open>size()\<close>/\<^verbatim>\<open>length()\<close>; \<open>str_get\<close> and \<open>str_put\<close>
  are \<^verbatim>\<open>operator[]\<close> in a read and in an assignment, which fail outside the
  string; \<open>str_head\<close> is \<^verbatim>\<open>substr(0, n)\<close>; \<open>str_resize\<close> is
  \<^verbatim>\<open>resize(n)\<close>, which truncates or fills with zeros.
\<close>

definition str_size :: "'a list \<Rightarrow> u64" where
  "str_size s = of_nat (length s)"

definition str_get :: "'a list \<Rightarrow> u64 \<Rightarrow> 'a result" where
  "str_get s i = (if unat i < length s then Inr (s ! unat i) else Inl OutOfBounds)"

definition str_put :: "'a list \<Rightarrow> u64 \<Rightarrow> 'a \<Rightarrow> 'a list result" where
  "str_put s i v = (if unat i < length s then Inr (s[unat i := v]) else Inl OutOfBounds)"

definition str_head :: "'a list \<Rightarrow> u64 \<Rightarrow> 'a list" where
  "str_head s n = take (unat n) s"

definition str_resize :: "bytes \<Rightarrow> u64 \<Rightarrow> bytes" where
  "str_resize s n = take (unat n) s @ replicate (unat n - length s) 0"

lemma str_resize_pad: "length s \<le> unat n \<Longrightarrow> str_resize s n = s @ replicate (unat n - length s) 0"
  by (simp add: str_resize_def)

lemma unat_str_size [word_nat]: "length s < 2 ^ 64 \<Longrightarrow> unat (str_size s) = length s"
  by (simp add: str_size_def unat_of_nat)

lemma unat_str_size_le: "unat (str_size s) \<le> length s"
  by (simp add: str_size_def unat_of_nat)

lemma str_get_Inr [simp]: "unat i < length s \<Longrightarrow> str_get s i = Inr (s ! unat i)"
  by (simp add: str_get_def)

lemma str_put_Inr [simp]: "unat i < length s \<Longrightarrow> str_put s i v = Inr (s[unat i := v])"
  by (simp add: str_put_def)

lemma length_str_head [simp]: "length (str_head s n) = min (length s) (unat n)"
  by (simp add: str_head_def)

section \<open>Lists\<close>

lemma take_Suc_update:
  "n < length xs \<Longrightarrow> take (Suc n) (xs[n := v]) = take n xs @ [v]"
  by (simp add: take_Suc_conv_app_nth)

lemma drop_take_Suc_nth:
  assumes "i < j" and "j \<le> length xs"
  shows "drop i (take j xs) = xs ! i # drop (Suc i) (take j xs)"
  using assms by (metis Cons_nth_drop_Suc length_take min.absorb2 nth_take)

lemma nth_takeWhile_holds: "j < length (takeWhile P xs) \<Longrightarrow> P (xs ! j)"
  by (induction xs arbitrary: j) (auto simp: nth_Cons split: nat.splits if_splits)

lemma take_drop_split: "a \<le> b \<Longrightarrow> take b xs = take a xs @ drop a (take b xs)"
  by (metis append_take_drop_id min.absorb1 take_take)

lemma drop_take_append:
  assumes "a \<le> b" and "b \<le> c"
  shows "drop a (take b xs) @ drop b (take c xs) = drop a (take c xs)"
proof -
  have "drop a (take c xs) = drop a (take b xs @ drop b (take c xs))"
    using take_drop_split [OF assms(2), of xs] by simp
  also have "\<dots> = drop a (take b xs) @ drop b (take c xs)"
    using assms by (cases "a \<le> length xs") simp_all
  finally show ?thesis by simp
qed

lemma nth_drop_take: "i + j < n \<Longrightarrow> n \<le> length xs \<Longrightarrow> drop i (take n xs) ! j = xs ! (i + j)"
  by simp

end
