(* ===== verification/Byte_Stream.thy ===== *)
theory Byte_Stream
  imports Sponge_Prelude
begin

text \<open>
  \<^verbatim>\<open>libsponge/byte_stream.hh\<close> and \<^verbatim>\<open>.cc\<close>: the in-order byte
  stream with a fixed-size buffer. The state keeps every member at its width; the two loops that
  move bytes are translated with the index arithmetic of the source. The component's contract is
  a bounded FIFO queue (\<open>StreamSpec\<close> and the locale \<open>bounded_fifo\<close>), which the code is shown to
  refine as long as the capacity is below \<open>2 ^ 32\<close>, the range of its \<^verbatim>\<open>unsigned
  int\<close> cursor.
\<close>

section \<open>State and operations\<close>

record ByteStream =
  BS_capacity :: u64
  BS_buffer :: bytes
  endOfBuffer :: u32
  bytesRead :: u32
  bytesWritten :: u32
  isInputEnded :: bool
  BS_error :: bool

definition ByteStream_new :: "u64 \<Rightarrow> ByteStream" where
  "ByteStream_new capacity =
     \<lparr>BS_capacity = capacity, BS_buffer = replicate (unat capacity) 0x20, endOfBuffer = 0,
      bytesRead = 0, bytesWritten = 0, isInputEnded = False, BS_error = False\<rparr>"

definition ByteStream_remaining_capacity :: "ByteStream \<Rightarrow> u64" where
  "ByteStream_remaining_capacity s = BS_capacity s - ucast (endOfBuffer s)"

text \<open>
  The loop counter is an \<^verbatim>\<open>unsigned int\<close> compared with a \<^verbatim>\<open>size_t\<close>
  bound: above \<open>2 ^ 32 - 1\<close> it would never reach it. The fuel is one more than the bound, so it
  only runs out in that case.
\<close>

fun ByteStream_write_loop ::
  "nat \<Rightarrow> u32 \<Rightarrow> u64 \<Rightarrow> bytes \<Rightarrow> ByteStream \<Rightarrow> ByteStream result" where
  "ByteStream_write_loop 0 i writeSize data s = Inl Diverges"
| "ByteStream_write_loop (Suc fuel) i writeSize data s =
     (if ucast i < writeSize
      then bindR (str_get data (ucast i)) (\<lambda>b.
           bindR (str_put (BS_buffer s) (ucast (endOfBuffer s)) b) (\<lambda>buf.
           ByteStream_write_loop fuel (i + 1) writeSize data
             (s\<lparr>BS_buffer := buf, endOfBuffer := endOfBuffer s + 1\<rparr>)))
      else Inr s)"

definition ByteStream_write :: "ByteStream \<Rightarrow> bytes \<Rightarrow> (u64 \<times> ByteStream) result" where
  "ByteStream_write s data =
     (let writeSize = min (str_size data) (ByteStream_remaining_capacity s)
      in bindR (ByteStream_write_loop (Suc (unat writeSize)) 0 writeSize data s) (\<lambda>s'.
         Inr (writeSize, s'\<lparr>bytesWritten := bytesWritten s' + ucast writeSize\<rparr>)))"

definition ByteStream_peek_output :: "ByteStream \<Rightarrow> u64 \<Rightarrow> bytes" where
  "ByteStream_peek_output s len = str_head (BS_buffer s) len"

function ByteStream_pop_loop :: "u32 \<Rightarrow> u32 \<Rightarrow> u64 \<Rightarrow> bytes \<Rightarrow> bytes result" where
  "ByteStream_pop_loop i eob len buf =
     (if i < eob
      then bindR (str_get buf (ucast i)) (\<lambda>b.
           bindR (str_put buf (ucast i - len) b) (\<lambda>buf'.
           ByteStream_pop_loop (i + 1) eob len buf'))
      else Inr buf)"
  by pat_completeness auto
termination
proof (relation "measure (\<lambda>(i, eob, len, buf). unat eob - unat i)")
  fix i eob :: u32 and len :: u64 and buf b buf' :: bytes
  assume "i < eob"
  then show "((i + 1, eob, len, buf'), (i, eob, len, buf))
      \<in> measure (\<lambda>(i, eob, len, buf). unat eob - unat i)"
    using unat_Suc_below [of i eob] by (simp add: word_less_nat_alt)
qed simp

declare ByteStream_pop_loop.simps [simp del]

definition ByteStream_pop_output :: "ByteStream \<Rightarrow> u64 \<Rightarrow> ByteStream result" where
  "ByteStream_pop_output s len =
     bindR (ByteStream_pop_loop (ucast len) (endOfBuffer s) len (BS_buffer s)) (\<lambda>buf.
     Inr (s\<lparr>BS_buffer := buf, endOfBuffer := endOfBuffer s - ucast len,
            bytesRead := bytesRead s + ucast len\<rparr>))"

definition ByteStream_read :: "ByteStream \<Rightarrow> u64 \<Rightarrow> (bytes \<times> ByteStream) result" where
  "ByteStream_read s len =
     (let read_len = (if len < ucast (endOfBuffer s) then len else ucast (endOfBuffer s));
          readStr = ByteStream_peek_output s read_len
      in bindR (ByteStream_pop_output s read_len) (\<lambda>s'. Inr (readStr, s')))"

definition ByteStream_end_input :: "ByteStream \<Rightarrow> ByteStream" where
  "ByteStream_end_input s = s\<lparr>isInputEnded := True\<rparr>"

definition ByteStream_set_error :: "ByteStream \<Rightarrow> ByteStream" where
  "ByteStream_set_error s = s\<lparr>BS_error := True\<rparr>"

definition ByteStream_input_ended :: "ByteStream \<Rightarrow> bool" where
  "ByteStream_input_ended s = isInputEnded s"

definition ByteStream_error :: "ByteStream \<Rightarrow> bool" where
  "ByteStream_error s = BS_error s"

definition ByteStream_buffer_size :: "ByteStream \<Rightarrow> u64" where
  "ByteStream_buffer_size s = ucast (endOfBuffer s)"

definition ByteStream_buffer_empty :: "ByteStream \<Rightarrow> bool" where
  "ByteStream_buffer_empty s \<longleftrightarrow> endOfBuffer s = 0"

definition ByteStream_eof :: "ByteStream \<Rightarrow> bool" where
  "ByteStream_eof s \<longleftrightarrow> isInputEnded s \<and> ByteStream_buffer_empty s"

definition ByteStream_bytes_written :: "ByteStream \<Rightarrow> u64" where
  "ByteStream_bytes_written s = ucast (bytesWritten s)"

definition ByteStream_bytes_read :: "ByteStream \<Rightarrow> u64" where
  "ByteStream_bytes_read s = ucast (bytesRead s)"


section \<open>The abstract stream\<close>

text \<open>
  The contract: a queue of at most \<open>sp_cap\<close> bytes with two running totals. The totals are kept
  modulo \<open>2 ^ 32\<close>, as \<^verbatim>\<open>bytes_written()\<close> and \<^verbatim>\<open>bytes_read()\<close>
  report them.
\<close>

record StreamSpec =
  sp_cap :: nat
  sp_queue :: bytes
  sp_written :: nat
  sp_popped :: nat
  sp_ended :: bool
  sp_error :: bool

definition spec_accept :: "StreamSpec \<Rightarrow> bytes \<Rightarrow> nat" where
  "spec_accept sp data = min (length data) (sp_cap sp - length (sp_queue sp))"

definition spec_write :: "StreamSpec \<Rightarrow> bytes \<Rightarrow> StreamSpec" where
  "spec_write sp data =
     (let k = spec_accept sp data
      in sp\<lparr>sp_queue := sp_queue sp @ take k data, sp_written := (sp_written sp + k) mod 2 ^ 32\<rparr>)"

definition spec_pop :: "StreamSpec \<Rightarrow> nat \<Rightarrow> StreamSpec" where
  "spec_pop sp k =
     sp\<lparr>sp_queue := drop k (sp_queue sp), sp_popped := (sp_popped sp + k) mod 2 ^ 32\<rparr>"

definition ByteStream_contents :: "ByteStream \<Rightarrow> bytes" where
  "ByteStream_contents s = take (unat (endOfBuffer s)) (BS_buffer s)"

definition ByteStream_abs :: "ByteStream \<Rightarrow> StreamSpec" where
  "ByteStream_abs s =
     \<lparr>sp_cap = unat (BS_capacity s), sp_queue = ByteStream_contents s,
      sp_written = unat (bytesWritten s), sp_popped = unat (bytesRead s),
      sp_ended = isInputEnded s, sp_error = BS_error s\<rparr>"

definition ByteStream_inv :: "ByteStream \<Rightarrow> bool" where
  "ByteStream_inv s \<longleftrightarrow>
     unat (BS_capacity s) < 2 ^ 32 \<and> length (BS_buffer s) = unat (BS_capacity s)
     \<and> unat (endOfBuffer s) \<le> unat (BS_capacity s)"

lemma ByteStream_inv_new: "unat capacity < 2 ^ 32 \<Longrightarrow> ByteStream_inv (ByteStream_new capacity)"
  by (simp add: ByteStream_inv_def ByteStream_new_def)

lemma length_contents: "ByteStream_inv s \<Longrightarrow> length (ByteStream_contents s) = unat (endOfBuffer s)"
  by (simp add: ByteStream_inv_def ByteStream_contents_def)

lemma contents_le_capacity: "ByteStream_inv s \<Longrightarrow> length (ByteStream_contents s) \<le> unat (BS_capacity s)"
  by (simp add: length_contents) (simp add: ByteStream_inv_def)

lemma buffer_empty_iff: "ByteStream_inv s \<Longrightarrow> ByteStream_buffer_empty s \<longleftrightarrow> ByteStream_contents s = []"
  using length_contents [of s]
  by (auto simp: ByteStream_buffer_empty_def unat_eq_0 simp flip: length_0_conv)

lemma eof_iff: "ByteStream_inv s \<Longrightarrow> ByteStream_eof s \<longleftrightarrow> isInputEnded s \<and> ByteStream_contents s = []"
  by (simp add: ByteStream_eof_def buffer_empty_iff)

lemma unat_remaining_capacity:
  "ByteStream_inv s \<Longrightarrow>
   unat (ByteStream_remaining_capacity s) = unat (BS_capacity s) - length (ByteStream_contents s)"
  by (simp add: length_contents)
    (simp add: ByteStream_inv_def ByteStream_remaining_capacity_def word_nat)

section \<open>The two byte-moving loops\<close>

lemma ByteStream_write_loop_ok:
  assumes "unat writeSize < 2 ^ 32" and "unat writeSize \<le> length data"
    and "unat i \<le> unat writeSize" and "unat writeSize - unat i < fuel"
    and "unat (endOfBuffer s) + (unat writeSize - unat i) \<le> length (BS_buffer s)"
    and "length (BS_buffer s) < 2 ^ 32"
  shows "ByteStream_write_loop fuel i writeSize data s =
    Inr (s\<lparr>BS_buffer := take (unat (endOfBuffer s)) (BS_buffer s)
              @ drop (unat i) (take (unat writeSize) data)
              @ drop (unat (endOfBuffer s) + (unat writeSize - unat i)) (BS_buffer s),
            endOfBuffer := endOfBuffer s + of_nat (unat writeSize - unat i)\<rparr>)"
  using assms(3-)
proof (induction fuel arbitrary: i s)
  case 0
  then show ?case by simp
next
  case (Suc fuel)
  show ?case
  proof (cases "unat i < unat writeSize")
    case False
    then show ?thesis using Suc.prems by (simp add: word_less_nat_alt)
  next
    case True
    let ?e = "unat (endOfBuffer s)"
    let ?s = "s\<lparr>BS_buffer := (BS_buffer s)[?e := data ! unat i], endOfBuffer := endOfBuffer s + 1\<rparr>"
    have i1: "unat (i + 1) = Suc (unat i)"
      using True assms(1) by (intro unat_Suc_small) simp
    have e1: "unat (endOfBuffer s + 1) = Suc ?e"
      using True Suc.prems by (intro unat_Suc_small) simp
    have step: "ByteStream_write_loop (Suc fuel) i writeSize data s =
        ByteStream_write_loop fuel (i + 1) writeSize data ?s"
      using True Suc.prems assms(2) by (simp add: word_less_nat_alt)
    have ih: "ByteStream_write_loop fuel (i + 1) writeSize data ?s =
      Inr (?s\<lparr>BS_buffer := take (Suc ?e) (BS_buffer ?s)
              @ drop (Suc (unat i)) (take (unat writeSize) data)
              @ drop (Suc ?e + (unat writeSize - Suc (unat i))) (BS_buffer ?s),
            endOfBuffer := endOfBuffer s + 1 + of_nat (unat writeSize - Suc (unat i))\<rparr>)"
      using Suc.IH [of "i + 1" ?s] Suc.prems True i1 e1 by simp
    have n: "unat writeSize - unat i = Suc (unat writeSize - Suc (unat i))"
      using True by simp
    show ?thesis
      unfolding step ih
      using True Suc.prems assms(2)
      by (simp add: n take_Suc_update drop_take_Suc_nth [of "unat i" "unat writeSize" data] add.commute)
  qed
qed


lemma ByteStream_pop_loop_ok:
  assumes "unat len \<le> unat i" and "unat i \<le> unat eob" and "unat eob \<le> length buf"
  shows "\<exists>buf'. ByteStream_pop_loop i eob len buf = Inr buf' \<and> length buf' = length buf
    \<and> take (unat eob - unat len) buf' = take (unat i - unat len) buf @ drop (unat i) (take (unat eob) buf)"
  using assms
proof (induction i eob len buf rule: ByteStream_pop_loop.induct)
  case (1 i eob len buf)
  show ?case
  proof (cases "i < eob")
    case False
    with "1.prems" have "unat i = unat eob" by (simp add: word_less_nat_alt)
    with False show ?thesis by (simp add: ByteStream_pop_loop.simps)
  next
    case True
    then have lt: "unat i < unat eob" by (simp add: word_less_nat_alt)
    let ?k = "unat i - unat len"
    let ?buf = "buf[?k := buf ! unat i]"
    have k: "unat (ucast i - len :: u64) = ?k"
      using "1.prems" by (simp add: unat_diff_small)
    have i1: "unat (i + 1) = Suc (unat i)" using True by (rule unat_Suc_below)
    have g: "str_get buf (ucast i) = Inr (buf ! unat i)"
      using lt "1.prems" by simp
    have p: "str_put buf (ucast i - len) (buf ! unat i) = Inr ?buf"
      using lt "1.prems" k by simp
    have step: "ByteStream_pop_loop i eob len buf = ByteStream_pop_loop (i + 1) eob len ?buf"
      using True by (subst ByteStream_pop_loop.simps) (simp add: g p)
    obtain buf' where r: "ByteStream_pop_loop (i + 1) eob len ?buf = Inr buf'" "length buf' = length buf"
      "take (unat eob - unat len) buf' = take (Suc ?k) ?buf @ drop (Suc (unat i)) (take (unat eob) ?buf)"
      using "1.IH" [OF True g p] "1.prems" lt i1 by (auto simp: Suc_diff_le)
    have "drop (Suc (unat i)) (take (unat eob) ?buf) = drop (Suc (unat i)) (take (unat eob) buf)"
      by (simp add: take_update_swap)
    with r step show ?thesis
      using lt "1.prems" by (simp add: take_Suc_update drop_take_Suc_nth [of "unat i" "unat eob" buf])
  qed
qed

section \<open>The operations refine the abstract stream\<close>

lemma ByteStream_write_refines:
  assumes inv: "ByteStream_inv s" and len: "length data < 2 ^ 64"
  shows "\<exists>s'. ByteStream_write s data = Inr (of_nat (spec_accept (ByteStream_abs s) data), s')
    \<and> ByteStream_inv s' \<and> ByteStream_abs s' = spec_write (ByteStream_abs s) data"
proof -
  define k where "k = spec_accept (ByteStream_abs s) data"
  let ?w = "min (str_size data) (ByteStream_remaining_capacity s)"
  let ?e = "unat (endOfBuffer s)"
  let ?s = "s\<lparr>BS_buffer := take ?e (BS_buffer s) @ take k data @ drop (?e + k) (BS_buffer s),
              endOfBuffer := endOfBuffer s + of_nat k\<rparr>"
  have w: "unat ?w = k"
    using inv len
    by (simp add: word_nat unat_remaining_capacity spec_accept_def ByteStream_abs_def k_def)
  have k: "k \<le> length data" "?e + k \<le> length (BS_buffer s)" "length (BS_buffer s) < 2 ^ 32"
    using inv length_contents [OF inv]
    by (auto simp: spec_accept_def ByteStream_abs_def ByteStream_inv_def k_def)
  have loop: "ByteStream_write_loop (Suc (unat ?w)) 0 ?w data s = Inr ?s"
    using ByteStream_write_loop_ok [of ?w data 0 "Suc (unat ?w)" s] k unfolding w by simp
  have "ByteStream_write s data = Inr (?w, ?s\<lparr>bytesWritten := bytesWritten ?s + ucast ?w\<rparr>)"
    by (simp only: ByteStream_write_def Let_def loop bindR.simps)
  then have run: "ByteStream_write s data = Inr (of_nat k, ?s\<lparr>bytesWritten := bytesWritten s + of_nat k\<rparr>)"
    using ucast_eq_of_nat [OF w, where ?'b = 32] word_eq_of_nat [OF w] by simp
  have e: "unat (endOfBuffer s + of_nat k) = ?e + k"
    using k by (simp add: word_nat)
  show ?thesis
    unfolding k_def [symmetric] run using e k inv
    by (simp add: ByteStream_inv_def ByteStream_abs_def spec_write_def)
      (simp add: ByteStream_contents_def unat_word_ariths unat_of_nat mod_simps
        k_def [unfolded ByteStream_abs_def ByteStream_contents_def, symmetric])
qed


lemma ByteStream_pop_refines:
  assumes inv: "ByteStream_inv s" and len: "unat len \<le> length (ByteStream_contents s)"
  shows "\<exists>s'. ByteStream_pop_output s len = Inr s' \<and> ByteStream_inv s'
    \<and> ByteStream_abs s' = spec_pop (ByteStream_abs s) (unat len)"
proof -
  have le: "unat len \<le> unat (endOfBuffer s)"
    using len by (simp add: length_contents [OF inv])
  then have lt: "unat len < 2 ^ 32"
    using le_less_trans [OF le unat_u32_lt] by simp
  then have c: "unat (ucast len :: u32) = unat len" by (simp add: unat_ucast_mod)
  obtain buf where buf: "ByteStream_pop_loop (ucast len) (endOfBuffer s) len (BS_buffer s) = Inr buf"
    "length buf = length (BS_buffer s)"
    "take (unat (endOfBuffer s) - unat len) buf = drop (unat len) (ByteStream_contents s)"
    using ByteStream_pop_loop_ok [of len "ucast len" "endOfBuffer s" "BS_buffer s"] le c inv
    by (auto simp: ByteStream_inv_def ByteStream_contents_def)
  have "unat (endOfBuffer s - ucast len) = unat (endOfBuffer s) - unat len"
    using le c by (simp add: unat_diff_small)
  moreover have "unat (endOfBuffer s) - unat len \<le> unat (BS_capacity s)"
    using inv unfolding ByteStream_inv_def by linarith
  ultimately show ?thesis
    using buf inv c
    by (simp add: ByteStream_pop_output_def ByteStream_inv_def ByteStream_abs_def spec_pop_def
        ByteStream_contents_def unat_word_ariths)
qed

lemma ByteStream_read_refines:
  assumes inv: "ByteStream_inv s"
  shows "\<exists>s'. ByteStream_read s len = Inr (take (unat len) (ByteStream_contents s), s') \<and> ByteStream_inv s'
    \<and> ByteStream_abs s' = spec_pop (ByteStream_abs s) (min (unat len) (length (ByteStream_contents s)))"
proof -
  let ?r = "if len < ucast (endOfBuffer s) then len else ucast (endOfBuffer s)"
  have r: "unat ?r = min (unat len) (length (ByteStream_contents s))"
    by (simp add: length_contents [OF inv] word_less_nat_alt)
  then obtain s' where s': "ByteStream_pop_output s ?r = Inr s'" "ByteStream_inv s'"
    "ByteStream_abs s' = spec_pop (ByteStream_abs s) (unat ?r)"
    using ByteStream_pop_refines [OF inv, of ?r] by auto
  have "ByteStream_peek_output s ?r = take (unat len) (ByteStream_contents s)"
    unfolding ByteStream_peek_output_def str_head_def r
    using length_contents [OF inv] by (simp add: ByteStream_contents_def min.commute)
  with s' r show ?thesis
    by (simp only: ByteStream_read_def Let_def bindR.simps) simp
qed

lemma ByteStream_abs_simps [simp]:
  "sp_cap (ByteStream_abs s) = unat (BS_capacity s)"
  "sp_queue (ByteStream_abs s) = ByteStream_contents s"
  "sp_written (ByteStream_abs s) = unat (bytesWritten s)"
  "sp_popped (ByteStream_abs s) = unat (bytesRead s)"
  "sp_ended (ByteStream_abs s) = isInputEnded s"
  "sp_error (ByteStream_abs s) = BS_error s"
  by (simp_all add: ByteStream_abs_def)

text \<open>What a client sees of a write, a pop and a read, field by field.\<close>

lemma ByteStream_writeE:
  assumes "ByteStream_inv s" and "length data < 2 ^ 64"
  obtains s' k where "ByteStream_write s data = Inr (of_nat k, s')" "ByteStream_inv s'"
    "k = min (length data) (unat (BS_capacity s) - length (ByteStream_contents s))"
    "ByteStream_contents s' = ByteStream_contents s @ take k data"
    "BS_capacity s' = BS_capacity s" "bytesRead s' = bytesRead s"
    "bytesWritten s' = bytesWritten s + of_nat k"
    "isInputEnded s' = isInputEnded s" "BS_error s' = BS_error s"
proof -
  obtain s' where s': "ByteStream_write s data = Inr (of_nat (spec_accept (ByteStream_abs s) data), s')"
    "ByteStream_inv s'" "ByteStream_abs s' = spec_write (ByteStream_abs s) data"
    using ByteStream_write_refines [OF assms] by blast
  let ?k = "spec_accept (ByteStream_abs s) data"
  note eqs = s'(3) [THEN arg_cong, of sp_cap] s'(3) [THEN arg_cong, of sp_queue]
    s'(3) [THEN arg_cong, of sp_written] s'(3) [THEN arg_cong, of sp_popped]
    s'(3) [THEN arg_cong, of sp_ended] s'(3) [THEN arg_cong, of sp_error]
  have "bytesWritten s' = bytesWritten s + of_nat ?k"
    using eqs(3) by (simp add: word_unat_eq_iff spec_write_def Let_def unat_word_ariths unat_of_nat mod_simps)
  with s'(1,2) eqs show thesis
    by (intro that [of ?k s']) (simp_all add: spec_write_def Let_def spec_accept_def word_unat_eq_iff)
qed

lemma ByteStream_popE:
  assumes "ByteStream_abs s' = spec_pop (ByteStream_abs s) k"
  shows "ByteStream_contents s' = drop k (ByteStream_contents s)" "BS_capacity s' = BS_capacity s"
    "bytesWritten s' = bytesWritten s" "bytesRead s' = bytesRead s + of_nat k"
    "isInputEnded s' = isInputEnded s" "BS_error s' = BS_error s"
proof -
  note eqs = assms [THEN arg_cong, of sp_cap] assms [THEN arg_cong, of sp_queue]
    assms [THEN arg_cong, of sp_written] assms [THEN arg_cong, of sp_popped]
    assms [THEN arg_cong, of sp_ended] assms [THEN arg_cong, of sp_error]
  show "bytesRead s' = bytesRead s + of_nat k"
    using eqs(4) by (simp add: word_unat_eq_iff spec_pop_def unat_word_ariths unat_of_nat mod_simps)
qed (use assms [THEN arg_cong, of sp_cap] assms [THEN arg_cong, of sp_queue]
    assms [THEN arg_cong, of sp_written] assms [THEN arg_cong, of sp_ended]
    assms [THEN arg_cong, of sp_error] in \<open>simp_all add: spec_pop_def word_unat_eq_iff\<close>)

lemma ByteStream_readE:
  assumes "ByteStream_inv s"
  obtains s' where "ByteStream_read s len = Inr (take (unat len) (ByteStream_contents s), s')"
    "ByteStream_inv s'" "ByteStream_contents s' = drop (unat len) (ByteStream_contents s)"
    "BS_capacity s' = BS_capacity s" "bytesWritten s' = bytesWritten s"
    "bytesRead s' = bytesRead s + of_nat (min (unat len) (length (ByteStream_contents s)))"
    "isInputEnded s' = isInputEnded s" "BS_error s' = BS_error s"
proof -
  obtain s' where s': "ByteStream_read s len = Inr (take (unat len) (ByteStream_contents s), s')"
    "ByteStream_inv s'"
    "ByteStream_abs s' = spec_pop (ByteStream_abs s) (min (unat len) (length (ByteStream_contents s)))"
    using ByteStream_read_refines [OF assms] by blast
  have "drop (min (unat len) (length (ByteStream_contents s))) (ByteStream_contents s)
      = drop (unat len) (ByteStream_contents s)"
    by (cases "unat len \<le> length (ByteStream_contents s)") simp_all
  with s' show thesis
    using that ByteStream_popE [OF s'(3)] by metis
qed


section \<open>The queue interface\<close>

text \<open>
  What the reassembler and the sender rely on: a bounded queue whose writes take as much as
  fits and whose reads return the oldest elements. A run of such operations never loses,
  duplicates or reorders anything.
\<close>

datatype 'a fifo_op = Put "'a list" | Get u64

fun fifo_run ::
  "('s \<Rightarrow> 'a list \<Rightarrow> (u64 \<times> 's) result) \<Rightarrow> ('s \<Rightarrow> u64 \<Rightarrow> ('a list \<times> 's) result)
   \<Rightarrow> 'a fifo_op list \<Rightarrow> 's \<Rightarrow> ('a list \<times> 'a list \<times> 's) result" where
  "fifo_run w r [] s = Inr ([], [], s)"
| "fifo_run w r (Put d # ops) s =
     bindR (w s d) (\<lambda>(n, s1).
     bindR (fifo_run w r ops s1) (\<lambda>(a, g, s2). Inr (take (unat n) d @ a, g, s2)))"
| "fifo_run w r (Get n # ops) s =
     bindR (r s n) (\<lambda>(x, s1).
     bindR (fifo_run w r ops s1) (\<lambda>(a, g, s2). Inr (a, x @ g, s2)))"

fun op_small :: "'a fifo_op \<Rightarrow> bool" where
  "op_small (Put d) \<longleftrightarrow> length d < 2 ^ 64"
| "op_small (Get n) \<longleftrightarrow> True"

locale bounded_fifo =
  fixes fifo_write :: "'s \<Rightarrow> 'a list \<Rightarrow> (u64 \<times> 's) result"
    and fifo_read :: "'s \<Rightarrow> u64 \<Rightarrow> ('a list \<times> 's) result"
    and contents :: "'s \<Rightarrow> 'a list"
    and cap :: "'s \<Rightarrow> nat"
    and invar :: "'s \<Rightarrow> bool"
  assumes write_law: "invar s \<Longrightarrow> length d < 2 ^ 64 \<Longrightarrow>
      \<exists>s'. fifo_write s d = Inr (of_nat (min (length d) (cap s - length (contents s))), s')
        \<and> invar s' \<and> cap s' = cap s
        \<and> contents s' = contents s @ take (min (length d) (cap s - length (contents s))) d"
    and read_law: "invar s \<Longrightarrow>
      \<exists>s'. fifo_read s n = Inr (take (unat n) (contents s), s')
        \<and> invar s' \<and> cap s' = cap s \<and> contents s' = drop (unat n) (contents s)"
    and bounded: "invar s \<Longrightarrow> length (contents s) \<le> cap s"
begin

lemma run_total:
  assumes "invar s" and "list_all op_small ops"
  shows "\<exists>a g s'. fifo_run fifo_write fifo_read ops s = Inr (a, g, s') \<and> invar s'
    \<and> cap s' = cap s \<and> contents s @ a = g @ contents s'"
  using assms
proof (induction ops arbitrary: s)
  case Nil
  then show ?case by simp
next
  case (Cons op ops)
  show ?case
  proof (cases op)
    case (Put d)
    let ?k = "min (length d) (cap s - length (contents s))"
    obtain s1 where s1: "fifo_write s d = Inr (of_nat ?k, s1)" "invar s1" "cap s1 = cap s"
      "contents s1 = contents s @ take ?k d"
      using write_law [OF Cons.prems(1), of d] Cons.prems(2) Put by auto
    moreover obtain a g s2 where "fifo_run fifo_write fifo_read ops s1 = Inr (a, g, s2)" "invar s2"
      "cap s2 = cap s1" "contents s1 @ a = g @ contents s2"
      using Cons.IH [OF s1(2)] Cons.prems(2) by auto
    moreover have "unat (of_nat ?k :: u64) = ?k"
      using Cons.prems(2) Put by (intro unat_of_nat_small) auto
    ultimately show ?thesis using Put by simp
  next
    case (Get n)
    obtain s1 where s1: "fifo_read s n = Inr (take (unat n) (contents s), s1)" "invar s1"
      "cap s1 = cap s" "contents s1 = drop (unat n) (contents s)"
      using read_law [OF Cons.prems(1), of n] by auto
    moreover obtain a g s2 where "fifo_run fifo_write fifo_read ops s1 = Inr (a, g, s2)" "invar s2"
      "cap s2 = cap s1" "contents s1 @ a = g @ contents s2"
      using Cons.IH [OF s1(2)] Cons.prems(2) by auto
    ultimately show ?thesis using Get
      by simp (metis append_assoc append_take_drop_id)
  qed
qed

end

interpretation stream: bounded_fifo ByteStream_write ByteStream_read ByteStream_contents
  "\<lambda>s. unat (BS_capacity s)" ByteStream_inv
proof
  fix s and d :: bytes
  assume "ByteStream_inv s" and "length d < 2 ^ 64"
  then show "\<exists>s'. ByteStream_write s d =
      Inr (of_nat (min (length d) (unat (BS_capacity s) - length (ByteStream_contents s))), s')
    \<and> ByteStream_inv s' \<and> unat (BS_capacity s') = unat (BS_capacity s)
    \<and> ByteStream_contents s' = ByteStream_contents s
        @ take (min (length d) (unat (BS_capacity s) - length (ByteStream_contents s))) d"
    by (rule ByteStream_writeE) auto
next
  fix s and n :: u64
  assume "ByteStream_inv s"
  then show "\<exists>s'. ByteStream_read s n = Inr (take (unat n) (ByteStream_contents s), s')
    \<and> ByteStream_inv s' \<and> unat (BS_capacity s') = unat (BS_capacity s)
    \<and> ByteStream_contents s' = drop (unat n) (ByteStream_contents s)"
    by (rule ByteStream_readE [of s n]) auto
qed (rule contents_le_capacity)


section \<open>Properties\<close>

lemma ByteStream_new_contents [simp]: "ByteStream_contents (ByteStream_new capacity) = []"
  by (simp add: ByteStream_contents_def ByteStream_new_def)

lemma ByteStream_new_capacity [simp]: "BS_capacity (ByteStream_new capacity) = capacity"
  by (simp add: ByteStream_new_def)

text \<open>Every sequence of writes and reads on a fresh stream runs to completion without an
  out-of-bounds access, and the bytes accepted by the writes are, in order, the bytes returned by
  the reads followed by the bytes still buffered; the buffer never exceeds the capacity.\<close>

lemma ByteStream_fifo:
  assumes "unat capacity < 2 ^ 32" and "list_all op_small ops"
  shows "\<exists>accepted returned s.
    fifo_run ByteStream_write ByteStream_read ops (ByteStream_new capacity) = Inr (accepted, returned, s)
    \<and> accepted = returned @ ByteStream_contents s
    \<and> length (ByteStream_contents s) \<le> unat capacity"
  using stream.run_total [OF ByteStream_inv_new [OF assms(1)] assms(2)] contents_le_capacity
  by fastforce

lemma ByteStream_fifo_example:
  "\<exists>accepted returned s.
    fifo_run ByteStream_write ByteStream_read [Put [1, 2, 3], Get 1, Put [4, 5]] (ByteStream_new 3)
      = Inr (accepted, returned, s)
    \<and> accepted = returned @ ByteStream_contents s
    \<and> length (ByteStream_contents s) \<le> unat (3 :: u64)"
  by (rule ByteStream_fifo) simp_all

text \<open>C17: write, pop and read refine the abstract bounded queue: write accepts exactly what fits and
  returns how much, pop of at most the buffered length and read of any length remove the oldest
  bytes; none of them faults and all keep the invariant.\<close>

theorem ByteStream_refines_queue:
  assumes "ByteStream_inv s" and "length data < 2 ^ 64"
    and "unat len \<le> length (ByteStream_contents s)"
  shows "(\<exists>s'. ByteStream_write s data = Inr (of_nat (spec_accept (ByteStream_abs s) data), s')
          \<and> ByteStream_inv s' \<and> ByteStream_abs s' = spec_write (ByteStream_abs s) data)
    \<and> (\<exists>s'. ByteStream_pop_output s len = Inr s' \<and> ByteStream_inv s'
          \<and> ByteStream_abs s' = spec_pop (ByteStream_abs s) (unat len))
    \<and> (\<exists>s'. ByteStream_read s n = Inr (take (unat n) (ByteStream_contents s), s') \<and> ByteStream_inv s'
          \<and> ByteStream_abs s'
             = spec_pop (ByteStream_abs s) (min (unat n) (length (ByteStream_contents s))))"
  using ByteStream_write_refines [OF assms(1,2)] ByteStream_pop_refines [OF assms(1,3)]
    ByteStream_read_refines [OF assms(1)] by blast

theorem ByteStream_refines_queue_witness:
  "(\<exists>s'. ByteStream_write (ByteStream_new 4) [7] =
        Inr (of_nat (spec_accept (ByteStream_abs (ByteStream_new 4)) [7]), s')
      \<and> ByteStream_inv s' \<and> ByteStream_abs s' = spec_write (ByteStream_abs (ByteStream_new 4)) [7])
    \<and> (\<exists>s'. ByteStream_pop_output (ByteStream_new 4) 0 = Inr s' \<and> ByteStream_inv s'
          \<and> ByteStream_abs s' = spec_pop (ByteStream_abs (ByteStream_new 4)) (unat (0 :: u64)))
    \<and> (\<exists>s'. ByteStream_read (ByteStream_new 4) 9 =
            Inr (take (unat (9 :: u64)) (ByteStream_contents (ByteStream_new 4)), s') \<and> ByteStream_inv s'
          \<and> ByteStream_abs s' = spec_pop (ByteStream_abs (ByteStream_new 4))
             (min (unat (9 :: u64)) (length (ByteStream_contents (ByteStream_new 4)))))"
  by (rule ByteStream_refines_queue) (simp_all add: ByteStream_inv_new)

text \<open>Popping more than is buffered is not checked: the cursor wraps below zero and the next
  write of a byte goes out of the buffer's bounds.\<close>

lemma ByteStream_pop_past_end:
  assumes inv: "ByteStream_inv s" and past: "length (ByteStream_contents s) < unat len"
    and small: "unat len + unat (BS_capacity s) < 2 ^ 32"
  shows "\<exists>s'. ByteStream_pop_output s len = Inr s' \<and> ByteStream_write s' [b] = Inl OutOfBounds"
proof -
  let ?e = "unat (endOfBuffer s)"
  have e: "?e < unat len" using past by (simp add: length_contents [OF inv])
  have c: "unat (ucast len :: u32) = unat len"
    using small by (simp add: unat_ucast_mod)
  then have "\<not> ucast len < endOfBuffer s" using e by (simp add: word_less_nat_alt)
  then have "ByteStream_pop_loop (ucast len) (endOfBuffer s) len (BS_buffer s) = Inr (BS_buffer s)"
    by (subst ByteStream_pop_loop.simps) simp
  then obtain s' where pop: "ByteStream_pop_output s len = Inr s'"
    and s': "endOfBuffer s' = endOfBuffer s - ucast len" "BS_buffer s' = BS_buffer s"
      "BS_capacity s' = BS_capacity s"
    by (simp add: ByteStream_pop_output_def)
  have w: "unat (endOfBuffer s') = 2 ^ 32 + ?e - unat len"
    using e c by (simp add: s' unat_sub_if')
  then have out: "\<not> unat (endOfBuffer s') < length (BS_buffer s')"
    using small inv s' by (simp add: ByteStream_inv_def)
  have "unat (BS_capacity s) \<noteq> unat (endOfBuffer s')"
    using small w by simp
  then have "ByteStream_remaining_capacity s' \<noteq> 0"
    by (auto simp: ByteStream_remaining_capacity_def s'(3))
  then have "0 < ByteStream_remaining_capacity s'" "0 < str_size [b]"
    by (simp_all add: str_size_def word_greater_zero_iff)
  with pop out show ?thesis
    by (simp add: ByteStream_write_def str_put_def)
qed


lemma ByteStream_pop_past_end_example:
  "\<exists>s'. ByteStream_pop_output (ByteStream_new 8) 1 = Inr s' \<and> ByteStream_write s' [65] = Inl OutOfBounds"
  by (rule ByteStream_pop_past_end) (simp_all add: ByteStream_inv_new)

text \<open>Peeking within the buffered length shows the oldest bytes; asking for more than is
  buffered (up to the capacity) returns stale bytes of the backing string after them.\<close>

lemma ByteStream_peek:
  assumes inv: "ByteStream_inv s" and len: "unat len \<le> unat (BS_capacity s)"
  shows "length (ByteStream_peek_output s len) = unat len
    \<and> take (length (ByteStream_contents s)) (ByteStream_peek_output s len)
       = take (unat len) (ByteStream_contents s)"
proof
  show "length (ByteStream_peek_output s len) = unat len"
    using inv len by (simp add: ByteStream_peek_output_def ByteStream_inv_def)
  show "take (length (ByteStream_contents s)) (ByteStream_peek_output s len)
       = take (unat len) (ByteStream_contents s)"
    using length_contents [OF inv]
    by (simp add: ByteStream_peek_output_def ByteStream_contents_def str_head_def min.commute)
qed

lemma ByteStream_peek_example:
  "length (ByteStream_peek_output (ByteStream_new 4) 3) = unat (3 :: u64)
    \<and> take (length (ByteStream_contents (ByteStream_new 4))) (ByteStream_peek_output (ByteStream_new 4) 3)
       = take (unat (3 :: u64)) (ByteStream_contents (ByteStream_new 4))"
  by (rule ByteStream_peek) (simp_all add: ByteStream_inv_new)

end
