(* ===== verification/Stream_Reassembler.thy ===== *)
theory Stream_Reassembler
  imports Byte_Stream
begin

text \<open>
  \<^verbatim>\<open>libsponge/stream_reassembler.hh\<close> and \<^verbatim>\<open>.cc\<close>: the reassembler
  keeps a window of \<open>capacity\<close> byte slots ahead of the assembled stream, fills the slots a
  substring covers and moves the filled prefix into the output stream. The window is abstracted
  to a list of optional bytes (\<open>SR_slots\<close>); on it, \<open>create_segment\<close> is \<open>fill\<close> and
  \<open>write_segment\<close> drops the filled prefix.
\<close>

section \<open>State and operations\<close>

record StreamReassembler =
  SR_output :: ByteStream
  SR_capacity :: u64
  received_EOF :: bool
  SR_buffer :: bytes
  SR_written :: bytes
  num_unassembled_bytes :: u64

definition StreamReassembler_new :: "u64 \<Rightarrow> StreamReassembler" where
  "StreamReassembler_new capacity =
     \<lparr>SR_output = ByteStream_new capacity, SR_capacity = capacity, received_EOF = False,
      SR_buffer = replicate (unat capacity) 0x20, SR_written = replicate (unat capacity) 0,
      num_unassembled_bytes = 0\<rparr>"

function create_segment_loop ::
  "u64 \<Rightarrow> u64 \<Rightarrow> u64 \<Rightarrow> u64 \<Rightarrow> bytes \<Rightarrow> StreamReassembler \<Rightarrow> StreamReassembler result" where
  "create_segment_loop it r_index first_unassembled index data sr =
     (if it < r_index
      then bindR (str_get (SR_written sr) (it - first_unassembled)) (\<lambda>w.
           if w = 0
           then bindR (str_get data (it - index)) (\<lambda>b.
                bindR (str_put (SR_buffer sr) (it - first_unassembled) b) (\<lambda>buf.
                bindR (str_put (SR_written sr) (it - first_unassembled) 1) (\<lambda>wr.
                create_segment_loop (it + 1) r_index first_unassembled index data
                  (sr\<lparr>SR_buffer := buf, SR_written := wr,
                      num_unassembled_bytes := num_unassembled_bytes sr + 1\<rparr>))))
           else create_segment_loop (it + 1) r_index first_unassembled index data sr)
      else Inr sr)"
  by pat_completeness auto
termination
  by (relation "measure (\<lambda>(it, r, f, i, d, s). unat r - unat it)")
    (auto intro: unat_step_measure)

declare create_segment_loop.simps [simp del]

definition create_segment ::
  "u64 \<Rightarrow> u64 \<Rightarrow> u64 \<Rightarrow> u64 \<Rightarrow> bytes \<Rightarrow> StreamReassembler \<Rightarrow> StreamReassembler result" where
  "create_segment first_unassembled index l_index r_index data sr =
     (if l_index \<ge> r_index then Inr sr
      else create_segment_loop l_index r_index first_unassembled index data sr)"

function count_assembled :: "u64 \<Rightarrow> u64 \<Rightarrow> bytes \<Rightarrow> u64 \<Rightarrow> u64 result" where
  "count_assembled it capacity written num_assembled_bytes =
     (if it < capacity
      then bindR (str_get written it) (\<lambda>w.
           if w = 0 then Inr num_assembled_bytes
           else count_assembled (it + 1) capacity written (num_assembled_bytes + 1))
      else Inr num_assembled_bytes)"
  by pat_completeness auto
termination
  by (relation "measure (\<lambda>(it, c, w, n). unat c - unat it)")
    (auto intro: unat_step_measure)

declare count_assembled.simps [simp del]

definition write_segment :: "StreamReassembler \<Rightarrow> StreamReassembler result" where
  "write_segment sr =
     bindR (count_assembled 0 (SR_capacity sr) (SR_written sr) 0) (\<lambda>n.
     bindR (ByteStream_write (SR_output sr) (str_head (SR_buffer sr) n)) (\<lambda>(_, out).
     Inr (sr\<lparr>SR_output := out,
             SR_buffer := drop (unat n) (SR_buffer sr) @ replicate (unat n) 0x20,
             SR_written := drop (unat n) (SR_written sr) @ replicate (unat n) 0,
             num_unassembled_bytes := num_unassembled_bytes sr - n\<rparr>)))"

definition push_substring :: "StreamReassembler \<Rightarrow> bytes \<Rightarrow> u64 \<Rightarrow> bool \<Rightarrow> StreamReassembler result" where
  "push_substring sr data index eof =
     (let first_unassembled = ByteStream_bytes_written (SR_output sr);
          first_unacceptable = first_unassembled + SR_capacity sr - ByteStream_buffer_size (SR_output sr);
          l_index = max first_unassembled index;
          r_index = min first_unacceptable (index + str_size data);
          sr1 = (if eof \<and> r_index = index + str_size data then sr\<lparr>received_EOF := True\<rparr> else sr)
      in bindR (create_segment first_unassembled index l_index r_index data sr1) (\<lambda>sr2.
         bindR (write_segment sr2) (\<lambda>sr3.
         Inr (if received_EOF sr3 \<and> num_unassembled_bytes sr3 = 0
              then sr3\<lparr>SR_output := ByteStream_end_input (SR_output sr3)\<rparr> else sr3))))"

definition unassembled_bytes :: "StreamReassembler \<Rightarrow> u64" where
  "unassembled_bytes sr = num_unassembled_bytes sr"

definition reassembler_empty :: "StreamReassembler \<Rightarrow> bool" where
  "reassembler_empty sr \<longleftrightarrow> num_unassembled_bytes sr = 0"

section \<open>The window as a list of optional bytes\<close>

definition SR_slots :: "StreamReassembler \<Rightarrow> u8 option list" where
  "SR_slots sr = map2 (\<lambda>w b. if w = 0 then None else Some b) (SR_written sr) (SR_buffer sr)"

definition fill :: "nat \<Rightarrow> nat \<Rightarrow> (nat \<Rightarrow> 'a) \<Rightarrow> 'a option list \<Rightarrow> 'a option list" where
  "fill a b f xs =
     map (\<lambda>j. if xs ! j = None \<and> a \<le> j \<and> j < b then Some (f j) else xs ! j) [0..<length xs]"

definition filled :: "'a option list \<Rightarrow> nat" where
  "filled xs = length (filter (\<lambda>x. x \<noteq> None) xs)"

lemma length_fill [simp]: "length (fill a b f xs) = length xs"
  by (simp add: fill_def)

lemma nth_fill:
  "j < length xs \<Longrightarrow>
   fill a b f xs ! j = (if xs ! j = None \<and> a \<le> j \<and> j < b then Some (f j) else xs ! j)"
  by (simp add: fill_def)

lemma fill_empty: "b \<le> a \<Longrightarrow> fill a b f xs = xs"
  by (rule nth_equalityI) (auto simp: nth_fill)

lemma fill_step:
  assumes "a < b" and "a < length xs"
  shows "fill a b f xs = fill (Suc a) b f (if xs ! a = None then xs[a := Some (f a)] else xs)"
  using assms by (intro nth_equalityI) (auto simp: nth_fill nth_list_update Suc_le_eq)

lemma filled_le: "filled xs \<le> length xs"
  by (simp add: filled_def)

lemma filled_update:
  "a < length xs \<Longrightarrow> xs ! a = None \<Longrightarrow> filled (xs[a := Some v]) = Suc (filled xs)"
  by (induction xs arbitrary: a) (auto simp: filled_def nth_Cons split: nat.splits)

lemma filled_append [simp]: "filled (xs @ ys) = filled xs + filled ys"
  by (simp add: filled_def)

lemma filled_replicate_None [simp]: "filled (replicate n None) = 0"
  by (simp add: filled_def)

lemma filled_eq_0_iff: "filled xs = 0 \<longleftrightarrow> (\<forall>j<length xs. xs ! j = None)"
  by (simp add: filled_def filter_empty_conv all_set_conv_all_nth)

lemma filled_all: "\<forall>x\<in>set xs. x \<noteq> None \<Longrightarrow> filled xs = length xs"
  by (simp add: filled_def)


definition SR_shape :: "StreamReassembler \<Rightarrow> bool" where
  "SR_shape sr \<longleftrightarrow> length (SR_buffer sr) = unat (SR_capacity sr)
     \<and> length (SR_written sr) = unat (SR_capacity sr)
     \<and> unat (num_unassembled_bytes sr) = filled (SR_slots sr)"

lemma length_SR_slots [simp]: "SR_shape sr \<Longrightarrow> length (SR_slots sr) = unat (SR_capacity sr)"
  by (simp add: SR_shape_def SR_slots_def)

lemma nth_SR_slots:
  "SR_shape sr \<Longrightarrow> j < unat (SR_capacity sr) \<Longrightarrow>
   SR_slots sr ! j = (if SR_written sr ! j = 0 then None else Some (SR_buffer sr ! j))"
  by (simp add: SR_shape_def SR_slots_def)

text \<open>Storing one byte in an empty slot.\<close>

lemma SR_slots_store:
  fixes b :: u8
  assumes "SR_shape sr" and "k < unat (SR_capacity sr)" and "SR_slots sr ! k = None"
    and "unat (SR_capacity sr) < 2 ^ 32"
  defines "sr' \<equiv> sr\<lparr>SR_buffer := (SR_buffer sr)[k := b], SR_written := (SR_written sr)[k := 1],
                   num_unassembled_bytes := num_unassembled_bytes sr + 1\<rparr>"
  shows "SR_slots sr' = (SR_slots sr)[k := Some b] \<and> SR_shape sr'"
proof -
  have slots: "SR_slots sr' = (SR_slots sr)[k := Some b]"
    using assms(1,2)
    by (intro nth_equalityI) (auto simp: sr'_def SR_slots_def SR_shape_def nth_list_update)
  have "filled (SR_slots sr) < length (SR_slots sr)"
    using filled_update [of k "SR_slots sr" b] filled_le [of "(SR_slots sr)[k := Some b]"] assms
    by simp
  then have "unat (num_unassembled_bytes sr + 1) = Suc (filled (SR_slots sr))"
    using assms(1,4) by (subst unat_Suc_small) (simp_all add: SR_shape_def SR_slots_def)
  then show ?thesis
    using assms(1-3) slots by (simp add: SR_shape_def filled_update) (simp add: sr'_def SR_shape_def)
qed

lemma create_segment_loop_ok:
  assumes "SR_shape sr" and "unat (SR_capacity sr) < 2 ^ 32"
    and "unat first \<le> unat it" and "unat index \<le> unat it" and "unat it \<le> unat r"
    and "unat r \<le> unat first + unat (SR_capacity sr)" and "unat r \<le> unat index + length data"
  shows "\<exists>sr'. create_segment_loop it r first index data sr = Inr sr' \<and> SR_shape sr'
    \<and> SR_slots sr' = fill (unat it - unat first) (unat r - unat first)
         (\<lambda>j. data ! (unat first + j - unat index)) (SR_slots sr)
    \<and> SR_output sr' = SR_output sr \<and> SR_capacity sr' = SR_capacity sr
    \<and> received_EOF sr' = received_EOF sr"
  using assms
proof (induction it r first index data sr rule: create_segment_loop.induct)
  case (1 it r first index data sr)
  let ?f = "\<lambda>j. data ! (unat first + j - unat index)"
  let ?k = "unat it - unat first"
  show ?case
  proof (cases "it < r")
    case False
    with "1.prems" show ?thesis
      by (simp add: create_segment_loop.simps fill_empty word_less_nat_alt)
  next
    case True
    then have lt: "unat it < unat r" by (simp add: word_less_nat_alt)
    have k: "unat (it - first) = ?k" "?k < unat (SR_capacity sr)"
      and d: "unat (it - index) = unat it - unat index" "unat it - unat index < length data"
      using "1.prems" lt by (auto simp: unat_diff_small)
    have len: "length (SR_written sr) = unat (SR_capacity sr)" "length (SR_buffer sr) = unat (SR_capacity sr)"
      using "1.prems"(1) by (simp_all add: SR_shape_def)
    have i1: "unat (it + 1) = Suc (unat it)" using True by (rule unat_Suc_below)
    have g: "str_get (SR_written sr) (it - first) = Inr (SR_written sr ! ?k)"
      using k len by simp
    have bounds: "unat first \<le> unat (it + 1)" "unat index \<le> unat (it + 1)" "unat (it + 1) \<le> unat r"
      using "1.prems" lt i1 by simp_all
    have sk: "Suc (unat it) - unat first = Suc ?k" using "1.prems" by simp
    show ?thesis
    proof (cases "SR_written sr ! ?k = 0")
      case False
      then have "SR_slots sr ! ?k \<noteq> None" using "1.prems"(1) k by (simp add: nth_SR_slots)
      then have step: "fill ?k (unat r - unat first) ?f (SR_slots sr)
          = fill (Suc ?k) (unat r - unat first) ?f (SR_slots sr)"
        using lt "1.prems" k by (subst fill_step) auto
      have "create_segment_loop it r first index data sr = create_segment_loop (it + 1) r first index data sr"
        using True False by (subst create_segment_loop.simps) (simp add: g)
      then show ?thesis
        using "1.IH"(2) [OF True g False "1.prems"(1,2) bounds "1.prems"(6,7)]
        unfolding step i1 sk by simp
    next
      case w0: True
      let ?sr = "sr\<lparr>SR_buffer := (SR_buffer sr)[?k := data ! (unat it - unat index)],
        SR_written := (SR_written sr)[?k := 1],
        num_unassembled_bytes := num_unassembled_bytes sr + 1\<rparr>"
      have none: "SR_slots sr ! ?k = None" using w0 "1.prems"(1) k by (simp add: nth_SR_slots)
      have store: "SR_slots ?sr = (SR_slots sr)[?k := Some (data ! (unat it - unat index))]" "SR_shape ?sr"
        using SR_slots_store [OF "1.prems"(1) k(2) none "1.prems"(2)] by auto
      have fk: "?f ?k = data ! (unat it - unat index)" using "1.prems" by simp
      have step: "fill ?k (unat r - unat first) ?f (SR_slots sr)
          = fill (Suc ?k) (unat r - unat first) ?f (SR_slots ?sr)"
        using lt "1.prems" k none fk store by (subst fill_step) simp_all
      have gd: "str_get data (it - index) = Inr (data ! (unat it - unat index))"
        using d by simp
      have pb: "str_put (SR_buffer sr) (it - first) (data ! (unat it - unat index)) =
          Inr ((SR_buffer sr)[?k := data ! (unat it - unat index)])"
        and pw: "str_put (SR_written sr) (it - first) 1 = Inr ((SR_written sr)[?k := 1])"
        using k len by simp_all
      have "create_segment_loop it r first index data sr = create_segment_loop (it + 1) r first index data ?sr"
        using True w0 by (subst create_segment_loop.simps) (simp add: g gd pb pw)
      then show ?thesis
        using "1.IH"(1) [OF True g w0 gd pb pw store(2)] "1.prems" bounds
        unfolding step i1 sk by simp
    qed
  qed
qed


section \<open>Moving the filled prefix into the output\<close>

definition ready :: "'a option list \<Rightarrow> nat" where
  "ready xs = length (takeWhile (\<lambda>x. x \<noteq> None) xs)"

lemma ready_le: "ready xs \<le> length xs"
  by (simp add: ready_def length_takeWhile_le)

lemma ready_Some: "j < ready xs \<Longrightarrow> xs ! j \<noteq> None"
  unfolding ready_def by (rule nth_takeWhile_holds)

lemma ready_None: "ready xs < length xs \<Longrightarrow> xs ! ready xs = None"
  using nth_length_takeWhile [of "\<lambda>x. x \<noteq> None" xs] by (simp add: ready_def)

lemma count_assembled_ok:
  assumes "unat it \<le> unat capacity" and "length written = unat capacity"
  shows "count_assembled it capacity written n =
    Inr (n + of_nat (length (takeWhile (\<lambda>w. w \<noteq> 0) (drop (unat it) written))))"
  using assms
proof (induction it capacity written n rule: count_assembled.induct)
  case (1 it capacity written n)
  show ?case
  proof (cases "it < capacity")
    case False
    then show ?thesis
      using "1.prems" by (subst count_assembled.simps) (simp add: word_less_nat_alt)
  next
    case True
    then have lt: "unat it < length written" using "1.prems" by (simp add: word_less_nat_alt)
    have i1: "unat (it + 1) = Suc (unat it)" using True by (rule unat_Suc_below)
    have g: "str_get written it = Inr (written ! unat it)" using lt by simp
    have tw: "takeWhile (\<lambda>w. w \<noteq> 0) (drop (unat it) written) =
        (if written ! unat it = 0 then []
         else written ! unat it # takeWhile (\<lambda>w. w \<noteq> 0) (drop (Suc (unat it)) written))"
      using lt by (simp add: Cons_nth_drop_Suc [symmetric])
    show ?thesis
    proof (cases "written ! unat it = 0")
      case True
      then show ?thesis
        using \<open>it < capacity\<close> g tw by (subst count_assembled.simps) simp
    next
      case False
      then show ?thesis
        using "1.IH" [OF True g False] \<open>it < capacity\<close> g tw i1 lt "1.prems"
        by (subst count_assembled.simps) (simp add: algebra_simps)
    qed
  qed
qed

lemma ready_SR_slots:
  "SR_shape sr \<Longrightarrow> length (takeWhile (\<lambda>w. w \<noteq> 0) (SR_written sr)) = ready (SR_slots sr)"
proof -
  have "length ws = length bs \<Longrightarrow>
    length (takeWhile (\<lambda>w. w \<noteq> 0) ws) = ready (map2 (\<lambda>w b. if w = 0 then None else Some b) ws bs)"
    for ws bs :: bytes
    by (induction ws bs rule: list_induct2) (simp_all add: ready_def)
  then show "SR_shape sr \<Longrightarrow> ?thesis"
    by (simp add: SR_slots_def SR_shape_def)
qed

lemma take_ready_buffer:
  assumes "SR_shape sr" and "n \<le> ready (SR_slots sr)"
  shows "take n (SR_buffer sr) = map the (take n (SR_slots sr))"
proof (rule nth_equalityI)
  have le: "n \<le> unat (SR_capacity sr)"
    using assms ready_le [of "SR_slots sr"] by simp
  then show "length (take n (SR_buffer sr)) = length (map the (take n (SR_slots sr)))"
    using assms(1) by (simp add: SR_shape_def SR_slots_def)
  fix j assume "j < length (take n (SR_buffer sr))"
  then have j: "j < n" "j < ready (SR_slots sr)" using assms(2) by auto
  then have "SR_slots sr ! j \<noteq> None" by (intro ready_Some)
  then have "SR_slots sr ! j = Some (SR_buffer sr ! j)"
    using j le nth_SR_slots [OF assms(1), of j] by (simp split: if_splits)
  then show "take n (SR_buffer sr) ! j = map the (take n (SR_slots sr)) ! j"
    using j le assms(1) by simp
qed

lemma filled_take_ready: "filled (take (ready xs) xs) = ready xs"
proof -
  have "take (ready xs) xs = takeWhile (\<lambda>x. x \<noteq> None) xs"
    unfolding ready_def by (rule takeWhile_eq_take [symmetric])
  moreover have "filled (takeWhile (\<lambda>x. x \<noteq> None) xs) = ready xs"
    unfolding ready_def by (rule filled_all) (auto dest: set_takeWhileD)
  ultimately show ?thesis by simp
qed

lemma write_segment_ok:
  assumes shape: "SR_shape sr" and out: "ByteStream_inv (SR_output sr)"
    and cap: "BS_capacity (SR_output sr) = SR_capacity sr"
    and room: "length (ByteStream_contents (SR_output sr)) + ready (SR_slots sr) \<le> unat (SR_capacity sr)"
  obtains sr' n where "n = ready (SR_slots sr)" "write_segment sr = Inr sr'" "SR_shape sr'"
    "SR_slots sr' = drop n (SR_slots sr) @ replicate n None"
    "SR_capacity sr' = SR_capacity sr" "received_EOF sr' = received_EOF sr"
    "ByteStream_inv (SR_output sr')" "BS_capacity (SR_output sr') = SR_capacity sr"
    "ByteStream_contents (SR_output sr') = ByteStream_contents (SR_output sr) @ map the (take n (SR_slots sr))"
    "bytesWritten (SR_output sr') = bytesWritten (SR_output sr) + of_nat n"
    "bytesRead (SR_output sr') = bytesRead (SR_output sr)"
    "isInputEnded (SR_output sr') = isInputEnded (SR_output sr)"
    "BS_error (SR_output sr') = BS_error (SR_output sr)"
proof -
  define n where "n = ready (SR_slots sr)"
  have cap32: "unat (SR_capacity sr) < 2 ^ 32"
    using out cap by (simp add: ByteStream_inv_def)
  have n_le: "n \<le> unat (SR_capacity sr)"
    using ready_le [of "SR_slots sr"] shape by (simp add: n_def)
  then have un: "unat (of_nat n :: u64) = n" using cap32 by (intro unat_of_nat_small) simp
  have cnt: "count_assembled 0 (SR_capacity sr) (SR_written sr) 0 = Inr (of_nat n)"
    using count_assembled_ok [of 0 "SR_capacity sr" "SR_written sr" 0] shape
    by (simp add: ready_SR_slots n_def SR_shape_def)
  have head: "str_head (SR_buffer sr) (of_nat n) = map the (take n (SR_slots sr))"
    using take_ready_buffer [OF shape, of n] unfolding str_head_def un by (simp add: n_def)
  have hlen: "length (map the (take n (SR_slots sr))) = n"
    using shape n_le by simp
  obtain out' k where "ByteStream_write (SR_output sr) (map the (take n (SR_slots sr))) = Inr (of_nat k, out')"
    "ByteStream_inv out'"
    "k = min (length (map the (take n (SR_slots sr))))
       (unat (BS_capacity (SR_output sr)) - length (ByteStream_contents (SR_output sr)))"
    "ByteStream_contents out' = ByteStream_contents (SR_output sr) @ take k (map the (take n (SR_slots sr)))"
    "BS_capacity out' = BS_capacity (SR_output sr)" "bytesRead out' = bytesRead (SR_output sr)"
    "bytesWritten out' = bytesWritten (SR_output sr) + of_nat k"
    "isInputEnded out' = isInputEnded (SR_output sr)" "BS_error out' = BS_error (SR_output sr)"
  proof (rule ByteStream_writeE [OF out])
    show "length (map the (take n (SR_slots sr))) < 2 ^ 64"
      unfolding hlen using n_le cap32 by simp
  qed
  moreover have "min n (unat (BS_capacity (SR_output sr)) - length (ByteStream_contents (SR_output sr))) = n"
    using room unfolding cap n_def by simp
  ultimately have w: "ByteStream_write (SR_output sr) (map the (take n (SR_slots sr))) = Inr (of_nat n, out')"
    "ByteStream_inv out'"
    "ByteStream_contents out' = ByteStream_contents (SR_output sr) @ map the (take n (SR_slots sr))"
    "BS_capacity out' = BS_capacity (SR_output sr)" "bytesRead out' = bytesRead (SR_output sr)"
    "bytesWritten out' = bytesWritten (SR_output sr) + of_nat n"
    "isInputEnded out' = isInputEnded (SR_output sr)" "BS_error out' = BS_error (SR_output sr)"
    using hlen by simp_all
  let ?sr = "sr\<lparr>SR_output := out', SR_buffer := drop n (SR_buffer sr) @ replicate n 0x20,
             SR_written := drop n (SR_written sr) @ replicate n 0,
             num_unassembled_bytes := num_unassembled_bytes sr - of_nat n\<rparr>"
  have run: "write_segment sr = Inr ?sr"
    by (simp add: write_segment_def cnt head w(1) un)
  have slots: "SR_slots ?sr = drop n (SR_slots sr) @ replicate n None"
    using shape by (simp add: SR_slots_def SR_shape_def zip_append drop_map drop_zip zip_replicate)
  have "filled (SR_slots sr) = n + filled (drop n (SR_slots sr))"
    using filled_append [of "take n (SR_slots sr)" "drop n (SR_slots sr)"]
      filled_take_ready [of "SR_slots sr"] by (simp add: n_def)
  moreover have num: "unat (num_unassembled_bytes sr) = filled (SR_slots sr)"
    using shape by (simp add: SR_shape_def)
  ultimately have "unat (of_nat n :: u64) \<le> unat (num_unassembled_bytes sr)"
    and rest: "filled (SR_slots sr) - n = filled (drop n (SR_slots sr))"
    using un by simp_all
  then have "unat (num_unassembled_bytes sr - of_nat n) = filled (drop n (SR_slots sr))"
    by (simp only: unat_diff_small un num)
  then have "unat (num_unassembled_bytes ?sr) = filled (SR_slots ?sr)"
    unfolding slots by simp
  moreover have "length (SR_buffer ?sr) = unat (SR_capacity sr)" "length (SR_written ?sr) = unat (SR_capacity sr)"
    using shape n_le by (simp_all add: SR_shape_def)
  ultimately have "SR_shape ?sr"
    unfolding SR_shape_def by simp
  then show thesis
    by (rule that [OF n_def run _ slots]) (simp_all add: w cap)
qed


section \<open>The invariant and one push\<close>

definition SR_next :: "StreamReassembler \<Rightarrow> nat" where
  "SR_next sr = unat (bytesWritten (SR_output sr))"

definition SR_window :: "StreamReassembler \<Rightarrow> nat" where
  "SR_window sr = unat (SR_capacity sr) - length (ByteStream_contents (SR_output sr))"

definition SR_inv :: "StreamReassembler \<Rightarrow> bool" where
  "SR_inv sr \<longleftrightarrow> SR_shape sr \<and> ByteStream_inv (SR_output sr)
     \<and> BS_capacity (SR_output sr) = SR_capacity sr
     \<and> (\<forall>j<unat (SR_capacity sr). SR_slots sr ! j \<noteq> None \<longrightarrow> j < SR_window sr)
     \<and> (0 < unat (SR_capacity sr) \<longrightarrow> SR_slots sr ! 0 = None)"

lemma SR_invD:
  assumes "SR_inv sr"
  shows "SR_shape sr" "ByteStream_inv (SR_output sr)" "BS_capacity (SR_output sr) = SR_capacity sr"
    "unat (SR_capacity sr) < 2 ^ 32"
    "length (ByteStream_contents (SR_output sr)) + SR_window sr = unat (SR_capacity sr)"
    "\<And>j. j < unat (SR_capacity sr) \<Longrightarrow> SR_slots sr ! j \<noteq> None \<Longrightarrow> j < SR_window sr"
  using assms contents_le_capacity [of "SR_output sr"]
  by (auto simp: SR_inv_def SR_window_def ByteStream_inv_def)

lemma SR_slots_new: "SR_slots (StreamReassembler_new capacity) = replicate (unat capacity) None"
  by (simp add: SR_slots_def StreamReassembler_new_def zip_replicate)

lemma SR_inv_new: "unat capacity < 2 ^ 32 \<Longrightarrow> SR_inv (StreamReassembler_new capacity)"
  by (simp add: SR_inv_def SR_shape_def SR_slots_new)
    (simp add: StreamReassembler_new_def ByteStream_inv_new)

text \<open>The window after the bytes of a substring at absolute position \<open>i\<close> have been stored.\<close>

definition SR_filled :: "StreamReassembler \<Rightarrow> bytes \<Rightarrow> nat \<Rightarrow> u8 option list" where
  "SR_filled sr data i =
     fill (max (SR_next sr) i - SR_next sr)
          (min (SR_next sr + SR_window sr) (i + length data) - SR_next sr)
          (\<lambda>j. data ! (SR_next sr + j - i)) (SR_slots sr)"

lemma first_unacceptable:
  assumes "SR_inv sr"
  shows "unat (ByteStream_bytes_written (SR_output sr) + SR_capacity sr
           - ByteStream_buffer_size (SR_output sr)) = SR_next sr + SR_window sr"
    and "unat (ByteStream_bytes_written (SR_output sr)) = SR_next sr"
proof -
  have c: "unat (SR_capacity sr) < 2 ^ 32" by (rule SR_invD(4) [OF assms])
  have t: "unat (ByteStream_bytes_written (SR_output sr)) = SR_next sr" "SR_next sr < 2 ^ 32"
    by (simp_all add: ByteStream_bytes_written_def SR_next_def)
  have b: "unat (ByteStream_buffer_size (SR_output sr)) = length (ByteStream_contents (SR_output sr))"
    using SR_invD(2) [OF assms] by (simp add: ByteStream_buffer_size_def length_contents)
  have sum: "unat (ByteStream_bytes_written (SR_output sr) + SR_capacity sr)
      = SR_next sr + unat (SR_capacity sr)"
    using c t by (simp add: unat_add_small)
  show "unat (ByteStream_bytes_written (SR_output sr) + SR_capacity sr
           - ByteStream_buffer_size (SR_output sr)) = SR_next sr + SR_window sr"
    using SR_invD(5) [OF assms] by (simp add: unat_diff_small sum b)
  show "unat (ByteStream_bytes_written (SR_output sr)) = SR_next sr" by (rule t)
qed

lemma create_segment_ok:
  assumes inv: "SR_inv sr" and len: "length data < 2 ^ 63"
  defines "first \<equiv> ByteStream_bytes_written (SR_output sr)"
    and "unacceptable \<equiv> ByteStream_bytes_written (SR_output sr) + SR_capacity sr
           - ByteStream_buffer_size (SR_output sr)"
  shows "\<exists>sr'. create_segment first index (max first index)
         (min unacceptable (index + str_size data)) data sr = Inr sr'
    \<and> SR_shape sr' \<and> SR_slots sr' = SR_filled sr data (unat index)
    \<and> SR_output sr' = SR_output sr \<and> SR_capacity sr' = SR_capacity sr
    \<and> received_EOF sr' = received_EOF sr"
proof -
  note fu = first_unacceptable [OF inv, folded first_def unacceptable_def]
  have size: "unat (str_size data) = length data" using len by (simp add: word_nat)
  have bound: "SR_next sr + SR_window sr < 2 ^ 63"
  proof -
    have "SR_window sr < 2 ^ 32" using SR_invD(4,5) [OF inv] by linarith
    moreover have "SR_next sr < 2 ^ 32" by (simp add: SR_next_def)
    ultimately show ?thesis by simp
  qed
  let ?l = "max first index" and ?r = "min unacceptable (index + str_size data)"
  show ?thesis
  proof (cases "?l \<ge> ?r")
    case True
    then have "max (SR_next sr) (unat index) \<ge> unat ?r"
      by (simp add: word_le_nat_alt unat_max fu)
    then have "min (SR_next sr + SR_window sr) (unat index + length data) \<le> max (SR_next sr) (unat index)"
    proof (cases "unat index + length data < 2 ^ 64")
      case True
      then have "unat ?r = min (SR_next sr + SR_window sr) (unat index + length data)"
        using size fu by (simp add: unat_min unat_add_small)
      then show ?thesis using \<open>max (SR_next sr) (unat index) \<ge> unat ?r\<close> by simp
    next
      case False
      then have "SR_next sr + SR_window sr \<le> unat index" using bound len by simp
      then show ?thesis by simp
    qed
    then have "SR_filled sr data (unat index) = SR_slots sr"
      by (simp add: SR_filled_def fill_empty)
    with True SR_invD(1) [OF inv] show ?thesis by (simp add: create_segment_def)
  next
    case False
    then have lt: "max (SR_next sr) (unat index) < unat ?r"
      by (simp add: word_le_nat_alt unat_max fu not_le)
    then have "unat index < unat (index + str_size data)" by (simp add: unat_min)
    then have nowrap: "unat (index + str_size data) = unat index + length data"
      using size len unfolding unat_plus_if' by (simp split: if_splits)
    then have r: "unat ?r = min (SR_next sr + SR_window sr) (unat index + length data)"
      by (simp add: unat_min fu)
    have w: "SR_window sr \<le> unat (SR_capacity sr)" by (simp add: SR_window_def)
    show ?thesis
      using create_segment_loop_ok [of sr first ?l index ?r data, OF SR_invD(1,4) [OF inv]] lt r w False fu
      by (simp add: create_segment_def SR_filled_def unat_max)
  qed
qed


lemma SR_frame_EOF [simp]:
  "SR_shape (sr\<lparr>received_EOF := b\<rparr>) = SR_shape sr"
  "SR_slots (sr\<lparr>received_EOF := b\<rparr>) = SR_slots sr"
  "SR_next (sr\<lparr>received_EOF := b\<rparr>) = SR_next sr"
  "SR_window (sr\<lparr>received_EOF := b\<rparr>) = SR_window sr"
  "SR_inv (sr\<lparr>received_EOF := b\<rparr>) = SR_inv sr"
  "SR_filled (sr\<lparr>received_EOF := b\<rparr>) data i = SR_filled sr data i"
  by (simp_all add: SR_shape_def SR_slots_def SR_next_def SR_window_def SR_inv_def SR_filled_def)

lemma ByteStream_end_input_simps [simp]:
  "ByteStream_inv (ByteStream_end_input s) = ByteStream_inv s"
  "ByteStream_contents (ByteStream_end_input s) = ByteStream_contents s"
  "BS_capacity (ByteStream_end_input s) = BS_capacity s"
  "bytesWritten (ByteStream_end_input s) = bytesWritten s"
  "bytesRead (ByteStream_end_input s) = bytesRead s"
  "isInputEnded (ByteStream_end_input s)"
  "BS_error (ByteStream_end_input s) = BS_error s"
  "endOfBuffer (ByteStream_end_input s) = endOfBuffer s"
  by (simp_all add: ByteStream_end_input_def ByteStream_inv_def ByteStream_contents_def)

lemma SR_slots_output [simp]: "SR_slots (sr\<lparr>SR_output := out\<rparr>) = SR_slots sr"
  by (simp add: SR_slots_def)

lemma SR_inv_end_input [simp]:
  "SR_inv (sr\<lparr>SR_output := ByteStream_end_input (SR_output sr)\<rparr>) = SR_inv sr"
  by (simp add: SR_inv_def SR_shape_def SR_slots_def SR_window_def)

lemma SR_filled_in_window:
  assumes "SR_inv sr" and "j < unat (SR_capacity sr)" and "SR_filled sr data i ! j \<noteq> None"
  shows "j < SR_window sr"
  using assms SR_invD(6) [OF assms(1,2)] SR_invD(1) [OF assms(1)]
  by (auto simp: SR_filled_def nth_fill split: if_splits)

lemma length_SR_filled [simp]: "length (SR_filled sr data i) = length (SR_slots sr)"
  by (simp add: SR_filled_def)

lemma ready_filled_room:
  assumes "SR_inv sr"
  shows "ready (SR_filled sr data i) \<le> SR_window sr"
proof (cases "ready (SR_filled sr data i)")
  case 0
  then show ?thesis by simp
next
  case (Suc m)
  then have "m < unat (SR_capacity sr)"
    using ready_le [of "SR_filled sr data i"] SR_invD(1) [OF assms] by simp
  then show ?thesis
    using SR_filled_in_window [OF assms, of m data i] ready_Some [of m "SR_filled sr data i"] Suc
    by simp
qed

lemma SR_inv_after_write:
  assumes inv: "SR_inv sr" and n: "n = ready (SR_filled sr data i)"
    and shape: "SR_shape sr'" and cap: "SR_capacity sr' = SR_capacity sr"
    and slots: "SR_slots sr' = drop n (SR_filled sr data i) @ replicate n None"
    and out: "ByteStream_inv (SR_output sr')" "BS_capacity (SR_output sr') = SR_capacity sr"
    and contents: "length (ByteStream_contents (SR_output sr'))
       = length (ByteStream_contents (SR_output sr)) + n"
  shows "SR_inv sr'"
proof -
  have len: "length (SR_filled sr data i) = unat (SR_capacity sr)"
    using SR_invD(1) [OF inv] by simp
  have nle: "n \<le> unat (SR_capacity sr)"
    using n ready_le [of "SR_filled sr data i"] len by simp
  have w: "SR_window sr' = SR_window sr - n"
    by (simp add: SR_window_def cap contents)
  have "j < SR_window sr'" if "j < unat (SR_capacity sr)" "SR_slots sr' ! j \<noteq> None" for j
  proof -
    have "n + j < unat (SR_capacity sr)"
      using that nle len by (auto simp: slots nth_append split: if_splits)
    moreover have "SR_filled sr data i ! (n + j) \<noteq> None"
      using that nle len calculation by (auto simp: slots nth_append split: if_splits)
    ultimately have "n + j < SR_window sr" using SR_filled_in_window [OF inv] by blast
    then show ?thesis by (simp add: w)
  qed
  moreover have "SR_slots sr' ! 0 = None" if "0 < unat (SR_capacity sr)"
    using that nle len ready_None [of "SR_filled sr data i"] n
    by (cases "n < unat (SR_capacity sr)") (auto simp: slots nth_append)
  ultimately show ?thesis
    using shape out cap by (simp add: SR_inv_def)
qed

lemma push_substring_ok:
  assumes inv: "SR_inv sr" and len: "length data < 2 ^ 63"
  obtains sr' n where "push_substring sr data index eof = Inr sr'" "SR_inv sr'"
    "n = ready (SR_filled sr data (unat index))"
    "SR_slots sr' = drop n (SR_filled sr data (unat index)) @ replicate n None"
    "SR_capacity sr' = SR_capacity sr"
    "ByteStream_contents (SR_output sr') =
       ByteStream_contents (SR_output sr) @ map the (take n (SR_filled sr data (unat index)))"
    "bytesWritten (SR_output sr') = bytesWritten (SR_output sr) + of_nat n"
    "bytesRead (SR_output sr') = bytesRead (SR_output sr)"
    "BS_error (SR_output sr') = BS_error (SR_output sr)"
    "received_EOF sr' \<longleftrightarrow> received_EOF sr
       \<or> (eof \<and> unat (index + str_size data) \<le> SR_next sr + SR_window sr)"
    "isInputEnded (SR_output sr') \<longleftrightarrow> isInputEnded (SR_output sr)
       \<or> (received_EOF sr' \<and> filled (SR_slots sr') = 0)"
proof -
  let ?first = "ByteStream_bytes_written (SR_output sr)"
  let ?un = "?first + SR_capacity sr - ByteStream_buffer_size (SR_output sr)"
  let ?stop = "index + str_size data"
  let ?ok = "eof \<and> min ?un ?stop = ?stop"
  let ?sr1 = "if ?ok then sr\<lparr>received_EOF := True\<rparr> else sr"
  have ok: "?ok \<longleftrightarrow> eof \<and> unat ?stop \<le> SR_next sr + SR_window sr"
    using first_unacceptable [OF inv] by (simp add: word_le_nat_alt flip: min.absorb_iff2)
  have inv1: "SR_inv ?sr1" and same: "SR_output ?sr1 = SR_output sr" "SR_capacity ?sr1 = SR_capacity sr"
    "SR_filled ?sr1 data i = SR_filled sr data i" "received_EOF ?sr1 \<longleftrightarrow> received_EOF sr \<or> ?ok" for i
    using inv by auto
  obtain sr2 where sr2: "create_segment ?first index (max ?first index) (min ?un ?stop) data ?sr1 = Inr sr2"
    "SR_shape sr2" "SR_slots sr2 = SR_filled sr data (unat index)"
    "SR_output sr2 = SR_output sr" "SR_capacity sr2 = SR_capacity sr"
    "received_EOF sr2 \<longleftrightarrow> received_EOF sr \<or> ?ok"
    using create_segment_ok [OF inv1 len, of index] unfolding same by blast
  define n where "n = ready (SR_filled sr data (unat index))"
  have room: "length (ByteStream_contents (SR_output sr2)) + ready (SR_slots sr2) \<le> unat (SR_capacity sr2)"
    unfolding sr2 using SR_invD(5) [OF inv] ready_filled_room [OF inv, of data "unat index"] by linarith
  obtain sr3 where sr3: "write_segment sr2 = Inr sr3" "SR_shape sr3"
    "SR_slots sr3 = drop n (SR_filled sr data (unat index)) @ replicate n None"
    "SR_capacity sr3 = SR_capacity sr" "received_EOF sr3 \<longleftrightarrow> received_EOF sr \<or> ?ok"
    "ByteStream_inv (SR_output sr3)" "BS_capacity (SR_output sr3) = SR_capacity sr"
    "ByteStream_contents (SR_output sr3) =
       ByteStream_contents (SR_output sr) @ map the (take n (SR_filled sr data (unat index)))"
    "bytesWritten (SR_output sr3) = bytesWritten (SR_output sr) + of_nat n"
    "bytesRead (SR_output sr3) = bytesRead (SR_output sr)"
    "isInputEnded (SR_output sr3) = isInputEnded (SR_output sr)"
    "BS_error (SR_output sr3) = BS_error (SR_output sr)"
    using write_segment_ok [OF sr2(2) _ _ room] SR_invD(2,3) [OF inv] unfolding sr2 n_def by metis
  have len3: "length (ByteStream_contents (SR_output sr3)) = length (ByteStream_contents (SR_output sr)) + n"
    using sr3(8) ready_le [of "SR_filled sr data (unat index)"] by (simp add: n_def)
  have inv3: "SR_inv sr3"
    by (rule SR_inv_after_write [OF inv n_def sr3(2,4,3,6,7) len3])
  let ?sr4 = "if received_EOF sr3 \<and> num_unassembled_bytes sr3 = 0
              then sr3\<lparr>SR_output := ByteStream_end_input (SR_output sr3)\<rparr> else sr3"
  have run: "push_substring sr data index eof = Inr ?sr4"
    unfolding push_substring_def Let_def sr2(1) bindR.simps sr3(1) ..
  have slots4: "SR_slots ?sr4 = SR_slots sr3" by simp
  have inv4: "SR_inv ?sr4"
    using inv3 by simp
  have num: "num_unassembled_bytes sr3 = 0 \<longleftrightarrow> filled (SR_slots sr3) = 0"
    using sr3(2) by (simp add: SR_shape_def word_unat_eq_iff)
  show thesis
  proof (rule that [OF run inv4 n_def])
    show "SR_slots ?sr4 = drop n (SR_filled sr data (unat index)) @ replicate n None"
      unfolding slots4 by (rule sr3(3))
  qed (auto simp: sr3(4-) num ok)
qed


section \<open>Reassembling a given stream\<close>

text \<open>
  The specification: there is a stream \<open>S\<close>, every pushed substring is the slice of \<open>S\<close> at its
  index, and the reassembler knows a set of positions of \<open>S\<close>: those already moved to the output
  and those stored in the window.
\<close>

definition slice_of :: "bytes \<Rightarrow> bytes \<Rightarrow> nat \<Rightarrow> bool" where
  "slice_of S data i \<longleftrightarrow> i + length data \<le> length S \<and> data = take (length data) (drop i S)"

definition SR_known :: "StreamReassembler \<Rightarrow> nat \<Rightarrow> bool" where
  "SR_known sr p \<longleftrightarrow> p < SR_next sr
     \<or> (p - SR_next sr < unat (SR_capacity sr) \<and> SR_slots sr ! (p - SR_next sr) \<noteq> None)"

definition SR_holds :: "bytes \<Rightarrow> StreamReassembler \<Rightarrow> bool" where
  "SR_holds S sr \<longleftrightarrow> SR_next sr \<le> length S
     \<and> (\<forall>j b. j < unat (SR_capacity sr) \<longrightarrow> SR_slots sr ! j = Some b \<longrightarrow>
          SR_next sr + j < length S \<and> S ! (SR_next sr + j) = b)"

lemma slice_of_nth: "slice_of S data i \<Longrightarrow> k < length data \<Longrightarrow> data ! k = S ! (i + k)"
  unfolding slice_of_def by (metis add_leD1 nth_drop nth_take)

lemma not_known_next:
  assumes "SR_inv sr"
  shows "\<not> SR_known sr (SR_next sr)"
  using assms by (auto simp: SR_known_def SR_inv_def)

lemma SR_filled_holds:
  assumes inv: "SR_inv sr" and holds: "SR_holds S sr" and slice: "slice_of S data i"
    and j: "j < unat (SR_capacity sr)" and b: "SR_filled sr data i ! j = Some b"
  shows "SR_next sr + j < length S \<and> S ! (SR_next sr + j) = b"
proof (cases "SR_slots sr ! j")
  case (Some c)
  then show ?thesis
    using b j holds SR_invD(1) [OF inv] by (auto simp: SR_filled_def nth_fill SR_holds_def)
next
  case None
  then have "i \<le> SR_next sr + j" "SR_next sr + j < i + length data" "b = data ! (SR_next sr + j - i)"
    using b j SR_invD(1) [OF inv] by (auto simp: SR_filled_def nth_fill split: if_splits)
  moreover have "i + length data \<le> length S" using slice by (simp add: slice_of_def)
  ultimately show ?thesis
    using slice_of_nth [OF slice, of "SR_next sr + j - i"] by auto
qed

lemma SR_filled_known:
  assumes "SR_inv sr" and "j < unat (SR_capacity sr)"
  shows "SR_filled sr data i ! j \<noteq> None \<longleftrightarrow>
    SR_slots sr ! j \<noteq> None \<or> (i \<le> SR_next sr + j \<and> SR_next sr + j < i + length data \<and> j < SR_window sr)"
  using assms SR_invD(1) [OF assms(1)] by (auto simp: SR_filled_def nth_fill)

lemma push_known:
  assumes inv: "SR_inv sr" and n: "n = ready (SR_filled sr data i)"
    and slots: "SR_slots sr' = drop n (SR_filled sr data i) @ replicate n None"
    and cap: "SR_capacity sr' = SR_capacity sr" and nxt: "SR_next sr' = SR_next sr + n"
  shows "SR_known sr' p \<longleftrightarrow> SR_known sr p
    \<or> (i \<le> p \<and> p < i + length data \<and> p < SR_next sr + SR_window sr)"
proof -
  have len: "length (SR_filled sr data i) = unat (SR_capacity sr)"
    using SR_invD(1) [OF inv] by simp
  have nle: "n \<le> unat (SR_capacity sr)"
    using n ready_le [of "SR_filled sr data i"] len by simp
  have win: "SR_window sr \<le> unat (SR_capacity sr)" by (simp add: SR_window_def)
  consider "p < SR_next sr" | j where "p = SR_next sr + j" "j < n"
    | j where "p = SR_next sr + j" "n \<le> j" "j < unat (SR_capacity sr)"
    | "SR_next sr + unat (SR_capacity sr) \<le> p"
    by (metis add_diff_inverse_nat add_less_cancel_left not_le)
  then show ?thesis
  proof cases
    case 1
    then show ?thesis using nxt by (auto simp: SR_known_def)
  next
    case 2
    then have "SR_filled sr data i ! j \<noteq> None" using n ready_Some by blast
    with 2 show ?thesis
      using SR_filled_known [OF inv, of j data i] nle nxt by (auto simp: SR_known_def)
  next
    case 3
    then have "SR_slots sr' ! (j - n) = SR_filled sr data i ! j"
      using nle len diff_less_mono [of j "unat (SR_capacity sr)" n] by (simp add: slots nth_append)
    with 3 show ?thesis
      using SR_filled_known [OF inv, of j data i] nxt cap by (auto simp: SR_known_def)
  next
    case 4
    then have "\<not> SR_known sr p" by (auto simp: SR_known_def)
    moreover have "\<not> SR_known sr' p"
      using 4 nle nxt cap len by (auto simp: SR_known_def slots nth_append)
    ultimately show ?thesis using 4 win by auto
  qed
qed


lemma push_slice:
  assumes inv: "SR_inv sr" and holds: "SR_holds S sr" and S: "length S < 2 ^ 32"
    and slice: "slice_of S data (unat index) \<or> data = []"
  obtains sr' where "push_substring sr data index eof = Inr sr'" "SR_inv sr'" "SR_holds S sr'"
    "SR_capacity sr' = SR_capacity sr" "SR_next sr \<le> SR_next sr'"
    "\<forall>p. SR_known sr' p \<longleftrightarrow> SR_known sr p
       \<or> (unat index \<le> p \<and> p < unat index + length data \<and> p < SR_next sr + SR_window sr)"
    "ByteStream_contents (SR_output sr') =
       ByteStream_contents (SR_output sr) @ drop (SR_next sr) (take (SR_next sr') S)"
    "bytesRead (SR_output sr') = bytesRead (SR_output sr)"
    "BS_error (SR_output sr') = BS_error (SR_output sr)"
    "received_EOF sr' \<longleftrightarrow> received_EOF sr
       \<or> (eof \<and> unat index + length data \<le> SR_next sr + SR_window sr)"
    "isInputEnded (SR_output sr') \<longleftrightarrow> isInputEnded (SR_output sr)
       \<or> (received_EOF sr' \<and> filled (SR_slots sr') = 0)"
proof -
  have le: "unat index + length data \<le> length S \<or> data = []" using slice by (auto simp: slice_of_def)
  have len: "length data < 2 ^ 63" using le S by auto
  have sum: "unat (index + str_size data) = unat index + length data"
    using le S by (auto simp: unat_add_small word_nat str_size_def)
  define F where "F = SR_filled sr data (unat index)"
  obtain sr' n where r: "push_substring sr data index eof = Inr sr'" "SR_inv sr'"
    "n = ready F" "SR_slots sr' = drop n F @ replicate n None" "SR_capacity sr' = SR_capacity sr"
    "ByteStream_contents (SR_output sr') = ByteStream_contents (SR_output sr) @ map the (take n F)"
    "bytesWritten (SR_output sr') = bytesWritten (SR_output sr) + of_nat n"
    "bytesRead (SR_output sr') = bytesRead (SR_output sr)"
    "BS_error (SR_output sr') = BS_error (SR_output sr)"
    "received_EOF sr' \<longleftrightarrow> received_EOF sr
       \<or> (eof \<and> unat (index + str_size data) \<le> SR_next sr + SR_window sr)"
    "isInputEnded (SR_output sr') \<longleftrightarrow> isInputEnded (SR_output sr)
       \<or> (received_EOF sr' \<and> filled (SR_slots sr') = 0)"
    unfolding F_def by (rule push_substring_ok [OF inv len])
  have lenF: "length F = unat (SR_capacity sr)" using SR_invD(1) [OF inv] by (simp add: F_def)
  have nle: "n \<le> unat (SR_capacity sr)" using r(3) ready_le [of F] lenF by simp
  have byte: "SR_next sr + j < length S \<and> S ! (SR_next sr + j) = b"
    if "j < unat (SR_capacity sr)" "F ! j = Some b" for j b
  proof (cases "data = []")
    case True
    then have "F ! j = SR_slots sr ! j"
      using that SR_invD(1) [OF inv]
      by (auto simp: F_def SR_filled_def nth_fill max_def min_def SR_shape_def split: if_splits)
    then have "SR_slots sr ! j = Some b" using that(2) by simp
    then show ?thesis using holds that(1) by (simp add: SR_holds_def)
  next
    case False
    then show ?thesis using SR_filled_holds [OF inv holds _ that(1), of data "unat index"] slice that(2) by (simp add: F_def)
  qed
  have front: "SR_next sr + j < length S \<and> S ! (SR_next sr + j) = the (F ! j)" if "j < n" for j
    using byte [of j "the (F ! j)"] ready_Some [of j F] that r(3) nle by auto
  have nS: "SR_next sr + n \<le> length S"
    using front [of "n - 1"] holds by (cases n) (auto simp: SR_holds_def)
  have nxt: "SR_next sr' = SR_next sr + n"
    unfolding SR_next_def r(7) using nS S nle
    by (subst unat_add_small) (simp_all add: SR_next_def unat_of_nat_small)
  have bytes: "map the (take n F) = drop (SR_next sr) (take (SR_next sr') S)"
    using front nS nle lenF by (intro nth_equalityI) (auto simp: nxt)
  have "SR_holds S sr'"
    unfolding SR_holds_def
  proof (intro conjI allI impI)
    show "SR_next sr' \<le> length S" using nS nxt by simp
    fix j b assume j: "j < unat (SR_capacity sr')" and b: "SR_slots sr' ! j = Some b"
    then have "n + j < unat (SR_capacity sr)" "F ! (n + j) = Some b"
      using nle lenF r(5) by (auto simp: r(4) nth_append split: if_splits)
    then show "SR_next sr' + j < length S" "S ! (SR_next sr' + j) = b"
      using byte [of "n + j" b] by (simp_all add: nxt add.assoc)
  qed
  then show thesis
    using that [OF r(1,2) _ r(5)] push_known [OF inv r(3) [unfolded F_def] r(4) [unfolded F_def] r(5) nxt]
      r(6,8-) bytes nxt sum by simp
qed


section \<open>Runs: pushes interleaved with reads of the output\<close>

datatype reassembler_op = Push bytes u64 bool | ReadOut u64

fun reassembler_run :: "reassembler_op list \<Rightarrow> StreamReassembler \<Rightarrow> (bytes \<times> StreamReassembler) result" where
  "reassembler_run [] sr = Inr ([], sr)"
| "reassembler_run (Push data index eof # ops) sr =
     bindR (push_substring sr data index eof) (reassembler_run ops)"
| "reassembler_run (ReadOut n # ops) sr =
     bindR (ByteStream_read (SR_output sr) n) (\<lambda>(x, out).
     bindR (reassembler_run ops (sr\<lparr>SR_output := out\<rparr>)) (\<lambda>(got, sr'). Inr (x @ got, sr')))"

fun op_of_stream :: "bytes \<Rightarrow> reassembler_op \<Rightarrow> bool" where
  "op_of_stream S (Push data index eof) \<longleftrightarrow>
     (slice_of S data (unat index) \<or> data = []) \<and> (eof \<longrightarrow> unat index + length data = length S)"
| "op_of_stream S (ReadOut n) \<longleftrightarrow> True"

fun eof_with_data :: "reassembler_op \<Rightarrow> bool" where
  "eof_with_data (Push data index eof) \<longleftrightarrow> (eof \<longrightarrow> data \<noteq> [])"
| "eof_with_data (ReadOut n) \<longleftrightarrow> True"

lemma SR_read:
  assumes inv: "SR_inv sr" and holds: "SR_holds S sr"
  obtains out where
    "ByteStream_read (SR_output sr) n = Inr (take (unat n) (ByteStream_contents (SR_output sr)), out)"
    "SR_inv (sr\<lparr>SR_output := out\<rparr>)" "SR_holds S (sr\<lparr>SR_output := out\<rparr>)"
    "SR_next (sr\<lparr>SR_output := out\<rparr>) = SR_next sr"
    "\<forall>p. SR_known (sr\<lparr>SR_output := out\<rparr>) p = SR_known sr p"
    "ByteStream_contents out = drop (unat n) (ByteStream_contents (SR_output sr))"
    "isInputEnded out = isInputEnded (SR_output sr)"
proof -
  obtain out where out:
    "ByteStream_read (SR_output sr) n = Inr (take (unat n) (ByteStream_contents (SR_output sr)), out)"
    "ByteStream_inv out" "ByteStream_contents out = drop (unat n) (ByteStream_contents (SR_output sr))"
    "BS_capacity out = BS_capacity (SR_output sr)" "bytesWritten out = bytesWritten (SR_output sr)"
    "isInputEnded out = isInputEnded (SR_output sr)"
    using ByteStream_readE [OF SR_invD(2) [OF inv], of n] by metis
  let ?sr = "sr\<lparr>SR_output := out\<rparr>"
  have w: "SR_window sr \<le> SR_window ?sr" by (simp add: SR_window_def out(3))
  have nxt: "SR_next ?sr = SR_next sr" by (simp add: SR_next_def out(5))
  have "SR_inv ?sr"
    using inv out(2,4) w SR_invD(6) [OF inv]
    by (auto simp: SR_inv_def SR_shape_def intro: less_le_trans)
  moreover have "SR_holds S ?sr" using holds by (simp add: SR_holds_def nxt)
  moreover have "SR_known ?sr p = SR_known sr p" for p by (simp add: SR_known_def nxt)
  ultimately show thesis using that out nxt by blast
qed

definition eof_inv :: "bytes \<Rightarrow> StreamReassembler \<Rightarrow> bool" where
  "eof_inv S sr \<longleftrightarrow>
     (received_EOF sr \<longrightarrow> length S = 0 \<or> SR_known sr (length S - 1))
     \<and> (isInputEnded (SR_output sr) \<longrightarrow> SR_next sr = length S)"

lemma push_eof_inv:
  assumes inv: "SR_inv sr'" and holds: "SR_holds S sr'" "SR_next sr \<le> SR_next sr'"
    and known: "\<forall>p. SR_known sr' p \<longleftrightarrow> SR_known sr p
       \<or> (i \<le> p \<and> p < i + length data \<and> p < SR_next sr + SR_window sr)"
    and eof': "received_EOF sr' \<longleftrightarrow> received_EOF sr \<or> (eof \<and> i + length data \<le> SR_next sr + SR_window sr)"
    and ended: "isInputEnded (SR_output sr') \<longleftrightarrow> isInputEnded (SR_output sr)
       \<or> (received_EOF sr' \<and> filled (SR_slots sr') = 0)"
    and eof: "eof \<longrightarrow> data \<noteq> [] \<and> i + length data = length S" and start: "eof_inv S sr"
  shows "eof_inv S sr'"
proof -
  have le: "SR_next sr' \<le> length S" using holds by (simp add: SR_holds_def)
  have last: "length S = 0 \<or> SR_known sr' (length S - 1)" if "received_EOF sr'"
  proof (cases "received_EOF sr")
    case True
    then show ?thesis using start known by (auto simp: eof_inv_def)
  next
    case False
    then have "data \<noteq> []" "i + length data = length S" "i + length data \<le> SR_next sr + SR_window sr"
      using that eof' eof by auto
    then show ?thesis using known [rule_format, of "length S - 1"] by (cases data) auto
  qed
  moreover have "SR_next sr' = length S" if "isInputEnded (SR_output sr')"
  proof (cases "isInputEnded (SR_output sr)")
    case True
    then show ?thesis using start le holds(2) by (simp add: eof_inv_def)
  next
    case False
    then have "received_EOF sr'" "filled (SR_slots sr') = 0" using that ended by auto
    then have "length S = 0 \<or> length S - 1 < SR_next sr'"
      using last SR_invD(1) [OF inv] by (auto simp: SR_known_def filled_eq_0_iff)
    then show ?thesis using le by auto
  qed
  ultimately show ?thesis by (simp add: eof_inv_def)
qed

lemma reassembler_run_ok:
  assumes "SR_inv sr" and "SR_holds S sr" and "length S < 2 ^ 32" and "list_all (op_of_stream S) ops"
  shows "\<exists>got sr'. reassembler_run ops sr = Inr (got, sr') \<and> SR_inv sr' \<and> SR_holds S sr'
    \<and> SR_next sr \<le> SR_next sr' \<and> SR_capacity sr' = SR_capacity sr
    \<and> got @ ByteStream_contents (SR_output sr')
       = ByteStream_contents (SR_output sr) @ drop (SR_next sr) (take (SR_next sr') S)
    \<and> (\<forall>p. SR_known sr p \<longrightarrow> SR_known sr' p)
    \<and> (list_all eof_with_data ops \<longrightarrow> eof_inv S sr \<longrightarrow> eof_inv S sr')"
  using assms
proof (induction ops arbitrary: sr)
  case Nil
  then show ?case by simp
next
  case (Cons op ops)
  show ?case
  proof (cases op)
    case (Push data index eof)
    then have slice: "slice_of S data (unat index) \<or> data = []" and eof: "eof \<longrightarrow> unat index + length data = length S"
      using Cons.prems(4) by auto
    obtain sr1 where sr1: "push_substring sr data index eof = Inr sr1" "SR_inv sr1" "SR_holds S sr1"
      "SR_capacity sr1 = SR_capacity sr" "SR_next sr \<le> SR_next sr1"
      "\<forall>p. SR_known sr1 p \<longleftrightarrow> SR_known sr p
         \<or> (unat index \<le> p \<and> p < unat index + length data \<and> p < SR_next sr + SR_window sr)"
      "ByteStream_contents (SR_output sr1) =
         ByteStream_contents (SR_output sr) @ drop (SR_next sr) (take (SR_next sr1) S)"
      "bytesRead (SR_output sr1) = bytesRead (SR_output sr)"
      "BS_error (SR_output sr1) = BS_error (SR_output sr)"
      "received_EOF sr1 \<longleftrightarrow> received_EOF sr
         \<or> (eof \<and> unat index + length data \<le> SR_next sr + SR_window sr)"
      "isInputEnded (SR_output sr1) \<longleftrightarrow> isInputEnded (SR_output sr)
         \<or> (received_EOF sr1 \<and> filled (SR_slots sr1) = 0)"
      by (rule push_slice [OF Cons.prems(1-3) slice])
    obtain got sr' where IH: "reassembler_run ops sr1 = Inr (got, sr')" "SR_inv sr'" "SR_holds S sr'"
      "SR_next sr1 \<le> SR_next sr'" "SR_capacity sr' = SR_capacity sr1"
      "got @ ByteStream_contents (SR_output sr')
         = ByteStream_contents (SR_output sr1) @ drop (SR_next sr1) (take (SR_next sr') S)"
      "\<forall>p. SR_known sr1 p \<longrightarrow> SR_known sr' p"
      "list_all eof_with_data ops \<longrightarrow> eof_inv S sr1 \<longrightarrow> eof_inv S sr'"
      using Cons.IH [OF sr1(2,3) Cons.prems(3)] Cons.prems(4) by auto
    have "eof_inv S sr1" if "eof_with_data op" "eof_inv S sr"
      using push_eof_inv [OF sr1(2,3,5,6,10,11) _ that(2)] eof that(1) Push by simp
    moreover have "drop (SR_next sr) (take (SR_next sr1) S) @ drop (SR_next sr1) (take (SR_next sr') S)
        = drop (SR_next sr) (take (SR_next sr') S)"
      using sr1(5) IH(4) by (rule drop_take_append)
    ultimately show ?thesis
      using IH sr1 Push by auto
  next
    case (ReadOut n)
    obtain out where out:
      "ByteStream_read (SR_output sr) n = Inr (take (unat n) (ByteStream_contents (SR_output sr)), out)"
      "SR_inv (sr\<lparr>SR_output := out\<rparr>)" "SR_holds S (sr\<lparr>SR_output := out\<rparr>)"
      "SR_next (sr\<lparr>SR_output := out\<rparr>) = SR_next sr"
      "\<forall>p. SR_known (sr\<lparr>SR_output := out\<rparr>) p = SR_known sr p"
      "ByteStream_contents out = drop (unat n) (ByteStream_contents (SR_output sr))"
      "isInputEnded out = isInputEnded (SR_output sr)"
      by (rule SR_read [OF Cons.prems(1,2)])
    obtain got sr' where IH: "reassembler_run ops (sr\<lparr>SR_output := out\<rparr>) = Inr (got, sr')" "SR_inv sr'"
      "SR_holds S sr'" "SR_next sr \<le> SR_next sr'" "SR_capacity sr' = SR_capacity sr"
      "got @ ByteStream_contents (SR_output sr')
         = ByteStream_contents out @ drop (SR_next sr) (take (SR_next sr') S)"
      "\<forall>p. SR_known sr p \<longrightarrow> SR_known sr' p"
      "list_all eof_with_data ops \<longrightarrow> eof_inv S (sr\<lparr>SR_output := out\<rparr>) \<longrightarrow> eof_inv S sr'"
      using Cons.IH [OF out(2,3) Cons.prems(3)] Cons.prems(4) out(4,5) by auto
    have "eof_inv S (sr\<lparr>SR_output := out\<rparr>) = eof_inv S sr"
      by (simp add: eof_inv_def out(4,5,7))
    moreover have "take (unat n) (ByteStream_contents (SR_output sr)) @ got @ ByteStream_contents (SR_output sr')
        = ByteStream_contents (SR_output sr) @ drop (SR_next sr) (take (SR_next sr') S)"
      unfolding IH(6) out(6) by simp
    ultimately show ?thesis
      using IH out(1) ReadOut by auto
  qed
qed


lemma SR_new_simps [simp]:
  "SR_next (StreamReassembler_new capacity) = 0"
  "SR_capacity (StreamReassembler_new capacity) = capacity"
  "SR_output (StreamReassembler_new capacity) = ByteStream_new capacity"
  "received_EOF (StreamReassembler_new capacity) = False"
  by (simp_all add: StreamReassembler_new_def SR_next_def ByteStream_new_def)

lemma SR_holds_new: "SR_holds S (StreamReassembler_new capacity)"
  by (simp add: SR_holds_def SR_slots_new)

lemma eof_inv_new: "eof_inv S (StreamReassembler_new capacity)"
  by (simp add: eof_inv_def ByteStream_new_def)

text \<open>The bytes held, assembled or not, never exceed the capacity.\<close>

lemma SR_inv_total:
  assumes "SR_inv sr"
  shows "length (ByteStream_contents (SR_output sr)) + unat (unassembled_bytes sr) \<le> unat (SR_capacity sr)"
proof -
  have shape: "SR_shape sr" by (rule SR_invD(1) [OF assms])
  have "filled (drop (SR_window sr) (SR_slots sr)) = 0"
    unfolding filled_eq_0_iff
  proof (intro allI impI)
    fix j assume "j < length (drop (SR_window sr) (SR_slots sr))"
    then have "SR_window sr + j < unat (SR_capacity sr)" using shape by simp
    then show "drop (SR_window sr) (SR_slots sr) ! j = None"
      using SR_invD(6) [OF assms, of "SR_window sr + j"] shape by fastforce
  qed
  then have "filled (SR_slots sr) = filled (take (SR_window sr) (SR_slots sr))"
    using filled_append [of "take (SR_window sr) (SR_slots sr)" "drop (SR_window sr) (SR_slots sr)"] by simp
  also have "\<dots> \<le> SR_window sr"
    using filled_le [of "take (SR_window sr) (SR_slots sr)"] by simp
  finally show ?thesis
    using shape SR_invD(5) [OF assms] by (simp add: unassembled_bytes_def SR_shape_def)
qed

text \<open>A position is covered by a run when one of its pushes contains it.\<close>

fun op_covers :: "reassembler_op \<Rightarrow> nat \<Rightarrow> bool" where
  "op_covers (Push data index eof) p \<longleftrightarrow> unat index \<le> p \<and> p < unat index + length data"
| "op_covers (ReadOut n) p \<longleftrightarrow> False"

lemma reassembler_run_covers:
  assumes "SR_inv sr" and "SR_holds S sr" and "length S < 2 ^ 32" and "list_all (op_of_stream S) ops"
    and "length (ByteStream_contents (SR_output sr)) \<le> SR_next sr"
    and "length S \<le> unat (SR_capacity sr)"
    and "op \<in> set ops" and "op_covers op p" and "reassembler_run ops sr = Inr (got, sr')"
  shows "SR_known sr' p"
  using assms
proof (induction ops arbitrary: sr got)
  case Nil
  then show ?case by simp
next
  case (Cons x ops)
  show ?case
  proof (cases x)
    case (Push data index eof)
    then have slice: "slice_of S data (unat index) \<or> data = []" using Cons.prems(4) by simp
    obtain sr1 where sr1: "push_substring sr data index eof = Inr sr1" "SR_inv sr1" "SR_holds S sr1"
      "SR_capacity sr1 = SR_capacity sr" "SR_next sr \<le> SR_next sr1"
      "\<forall>p. SR_known sr1 p \<longleftrightarrow> SR_known sr p
         \<or> (unat index \<le> p \<and> p < unat index + length data \<and> p < SR_next sr + SR_window sr)"
      "ByteStream_contents (SR_output sr1) =
         ByteStream_contents (SR_output sr) @ drop (SR_next sr) (take (SR_next sr1) S)"
      by (rule push_slice [OF Cons.prems(1-3) slice, of eof]) (rule that; assumption)
    have tail: "reassembler_run ops sr1 = Inr (got, sr')" using Cons.prems(9) Push sr1(1) by simp
    show ?thesis
    proof (cases "op = x")
      case True
      then have p: "unat index \<le> p" "p < unat index + length data" using Push Cons.prems(8) by simp_all
      then have "p < length S" using slice by (auto simp: slice_of_def)
      then have "p < SR_next sr + SR_window sr" using Cons.prems(5,6) SR_invD(5) [OF Cons.prems(1)] by linarith
      then have "SR_known sr1 p" using p sr1(6) by simp
      then show ?thesis
        using reassembler_run_ok [OF sr1(2,3) Cons.prems(3), of ops] Cons.prems(4) tail by auto
    next
      case False
      have "length (ByteStream_contents (SR_output sr1)) \<le> SR_next sr1"
        using Cons.prems(5) sr1(5) unfolding sr1(7) by auto
      then show ?thesis
        using Cons.IH [OF sr1(2,3) Cons.prems(3) _ _ _ _ Cons.prems(8) tail] Cons.prems(4,6,7) False sr1(4)
        by simp
    qed
  next
    case (ReadOut n)
    obtain out where out:
      "ByteStream_read (SR_output sr) n = Inr (take (unat n) (ByteStream_contents (SR_output sr)), out)"
      "SR_inv (sr\<lparr>SR_output := out\<rparr>)" "SR_holds S (sr\<lparr>SR_output := out\<rparr>)"
      "SR_next (sr\<lparr>SR_output := out\<rparr>) = SR_next sr"
      "\<forall>p. SR_known (sr\<lparr>SR_output := out\<rparr>) p = SR_known sr p"
      "ByteStream_contents out = drop (unat n) (ByteStream_contents (SR_output sr))"
      "isInputEnded out = isInputEnded (SR_output sr)"
      by (rule SR_read [OF Cons.prems(1,2)])
    obtain got' where tail: "reassembler_run ops (sr\<lparr>SR_output := out\<rparr>) = Inr (got', sr')"
      using Cons.prems(9) ReadOut out(1) by (auto elim!: bindR_eq_InrE split: prod.splits)
    then show ?thesis
      using Cons.IH [OF out(2,3) Cons.prems(3) _ _ _ _ Cons.prems(8) tail] Cons.prems(4-8) ReadOut out(4,6)
      by auto
  qed
qed

text \<open>An empty last substring with nothing waiting: no byte moves, and the output ends.\<close>

lemma push_empty_eof:
  assumes inv: "SR_inv sr" and holds: "SR_holds S sr" and S: "length S < 2 ^ 32"
    and none: "filled (SR_slots sr) = 0" and fits: "length S \<le> SR_next sr + SR_window sr"
  shows "\<exists>sr'. push_substring sr [] (of_nat (length S)) True = Inr sr' \<and> SR_inv sr' \<and> SR_holds S sr'
    \<and> SR_next sr' = SR_next sr \<and> filled (SR_slots sr') = 0
    \<and> ByteStream_contents (SR_output sr') = ByteStream_contents (SR_output sr)
    \<and> isInputEnded (SR_output sr')"
proof -
  have idx: "unat (of_nat (length S) :: u64) = length S" using S by (intro unat_of_nat_small) simp
  have slice: "slice_of S [] (unat (of_nat (length S) :: u64))" unfolding idx by (simp add: slice_of_def)
  obtain sr' where sr: "push_substring sr [] (of_nat (length S)) True = Inr sr'" "SR_inv sr'" "SR_holds S sr'"
    "SR_next sr \<le> SR_next sr'"
    "\<forall>p. SR_known sr' p \<longleftrightarrow> SR_known sr p \<or> (unat (of_nat (length S) :: u64) \<le> p
       \<and> p < unat (of_nat (length S) :: u64) + length ([] :: bytes) \<and> p < SR_next sr + SR_window sr)"
    "ByteStream_contents (SR_output sr') =
       ByteStream_contents (SR_output sr) @ drop (SR_next sr) (take (SR_next sr') S)"
    "received_EOF sr' \<longleftrightarrow> received_EOF sr \<or> (True \<and> unat (of_nat (length S) :: u64)
       + length ([] :: bytes) \<le> SR_next sr + SR_window sr)"
    "isInputEnded (SR_output sr') \<longleftrightarrow> isInputEnded (SR_output sr)
       \<or> (received_EOF sr' \<and> filled (SR_slots sr') = 0)"
    using push_slice [OF inv holds S disjI1 [OF slice], of True] by metis
  have known: "SR_known sr p \<longleftrightarrow> p < SR_next sr" for p
    using none SR_invD(1) [OF inv] by (auto simp: SR_known_def filled_eq_0_iff)
  have known': "SR_known sr' p \<longleftrightarrow> p < SR_next sr" for p
    using sr(5) [rule_format, of p] known [of p] by auto
  have "\<not> SR_next sr < SR_next sr'"
  proof
    assume "SR_next sr < SR_next sr'"
    then have "SR_known sr' (SR_next sr)" by (simp add: SR_known_def)
    then show False using known' by simp
  qed
  then have same: "SR_next sr' = SR_next sr" using sr(4) by simp
  have "filled (SR_slots sr') = 0"
    unfolding filled_eq_0_iff
  proof (intro allI impI)
    fix j assume "j < length (SR_slots sr')"
    then show "SR_slots sr' ! j = None"
      using known' [of "SR_next sr + j"] same SR_invD(1) [OF sr(2)] by (simp add: SR_known_def)
  qed
  then show ?thesis using sr(1-3,6-8) fits idx same by simp
qed

section \<open>Properties\<close>

text \<open>C3: the reassembler delivers the stream in order: for any sequence of pushed slices of a
  stream \<open>S\<close> (reordered, overlapping, duplicated) interleaved with reads, no operation faults, and
  what has been read followed by what is waiting in the output is exactly a prefix of \<open>S\<close>.\<close>

theorem reassembler_delivers_prefix:
  assumes "unat capacity < 2 ^ 32" and "length S < 2 ^ 32" and "list_all (op_of_stream S) ops"
  shows "\<exists>got sr. reassembler_run ops (StreamReassembler_new capacity) = Inr (got, sr)
    \<and> got @ ByteStream_contents (SR_output sr) = take (SR_next sr) S
    \<and> length (ByteStream_contents (SR_output sr)) + unat (unassembled_bytes sr) \<le> unat capacity"
proof -
  obtain got sr where r: "reassembler_run ops (StreamReassembler_new capacity) = Inr (got, sr)"
    "SR_inv sr" "got @ ByteStream_contents (SR_output sr) = take (SR_next sr) S"
    "SR_capacity sr = capacity"
    using reassembler_run_ok [OF SR_inv_new [OF assms(1)] SR_holds_new assms(2,3)] by auto
  then show ?thesis
    using SR_inv_total [OF r(2)] by auto
qed


theorem reassembler_delivers_prefix_witness:
  "\<exists>got sr. reassembler_run [Push [3, 4] 2 True, ReadOut 1, Push [1, 2, 3] 0 False] (StreamReassembler_new 8)
        = Inr (got, sr)
    \<and> got @ ByteStream_contents (SR_output sr) = take (SR_next sr) [1, 2, 3, 4]
    \<and> length (ByteStream_contents (SR_output sr)) + unat (unassembled_bytes sr) \<le> unat (8 :: u64)"
  by (rule reassembler_delivers_prefix) (simp_all add: slice_of_def)

text \<open>C15: one push, exactly: the positions known afterwards are those known before and those of
  the substring that lie below the first unacceptable index; everything before the first unknown
  position is moved to the output, in order.\<close>

theorem push_substring_exact:
  assumes "SR_inv sr" and "SR_holds S sr" and "length S < 2 ^ 32" and "slice_of S data (unat index)"
  shows "\<exists>sr'. push_substring sr data index eof = Inr sr' \<and> SR_inv sr' \<and> SR_holds S sr'
    \<and> (\<forall>p. SR_known sr' p \<longleftrightarrow> SR_known sr p
         \<or> (unat index \<le> p \<and> p < unat index + length data \<and> p < SR_next sr + SR_window sr))
    \<and> (\<forall>p < SR_next sr'. SR_known sr' p) \<and> \<not> SR_known sr' (SR_next sr')
    \<and> ByteStream_contents (SR_output sr') =
       ByteStream_contents (SR_output sr) @ drop (SR_next sr) (take (SR_next sr') S)"
proof (rule push_slice [OF assms(1-3) disjI1 [OF assms(4)], of eof])
  fix sr' assume r: "push_substring sr data index eof = Inr sr'" "SR_inv sr'" "SR_holds S sr'"
    "\<forall>p. SR_known sr' p \<longleftrightarrow> SR_known sr p
       \<or> (unat index \<le> p \<and> p < unat index + length data \<and> p < SR_next sr + SR_window sr)"
    "ByteStream_contents (SR_output sr') =
       ByteStream_contents (SR_output sr) @ drop (SR_next sr) (take (SR_next sr') S)"
  moreover have "\<forall>p < SR_next sr'. SR_known sr' p" by (simp add: SR_known_def)
  moreover have "\<not> SR_known sr' (SR_next sr')" using r(2) by (rule not_known_next)
  ultimately show ?thesis by blast
qed

theorem push_substring_exact_witness:
  "\<exists>sr'. push_substring (StreamReassembler_new 4) [7, 8] 1 False = Inr sr' \<and> SR_inv sr' \<and> SR_holds [6, 7, 8] sr'
    \<and> (\<forall>p. SR_known sr' p \<longleftrightarrow> SR_known (StreamReassembler_new 4) p
         \<or> (unat (1 :: u64) \<le> p \<and> p < unat (1 :: u64) + length [7 :: u8, 8]
             \<and> p < SR_next (StreamReassembler_new 4) + SR_window (StreamReassembler_new 4)))
    \<and> (\<forall>p < SR_next sr'. SR_known sr' p) \<and> \<not> SR_known sr' (SR_next sr')
    \<and> ByteStream_contents (SR_output sr') =
       ByteStream_contents (SR_output (StreamReassembler_new 4))
         @ drop (SR_next (StreamReassembler_new 4)) (take (SR_next sr') [6, 7, 8])"
  by (rule push_substring_exact) (simp_all add: SR_inv_new SR_holds_new slice_of_def)

text \<open>C16: when every substring flagged as the last one carries data, the output stream is ended
  only after the whole stream has been delivered to it.\<close>

theorem reassembler_eof_complete:
  assumes "unat capacity < 2 ^ 32" and "length S < 2 ^ 32" and "list_all (op_of_stream S) ops"
    and "list_all eof_with_data ops"
  shows "\<exists>got sr. reassembler_run ops (StreamReassembler_new capacity) = Inr (got, sr)
    \<and> (ByteStream_input_ended (SR_output sr) \<longrightarrow> got @ ByteStream_contents (SR_output sr) = S)"
  using reassembler_run_ok [OF SR_inv_new [OF assms(1)] SR_holds_new assms(2,3)] assms(4)
    eof_inv_new [of S capacity]
  by (auto simp: eof_inv_def ByteStream_input_ended_def)

theorem reassembler_eof_complete_witness:
  "\<exists>got sr. reassembler_run [Push [2] 1 True, Push [1] 0 False] (StreamReassembler_new 4) = Inr (got, sr)
    \<and> (ByteStream_input_ended (SR_output sr) \<longrightarrow> got @ ByteStream_contents (SR_output sr) = [1, 2])"
  by (rule reassembler_eof_complete) (simp_all add: slice_of_def)


text \<open>C14: nothing is lost: when the stream fits in the capacity and the pushes together cover every
  position of it, in whatever order, the whole stream has been delivered.\<close>

theorem reassembler_complete:
  assumes "unat capacity < 2 ^ 32" and "length S \<le> unat capacity" and "list_all (op_of_stream S) ops"
    and "\<forall>p < length S. \<exists>op \<in> set ops. op_covers op p"
  shows "\<exists>got sr. reassembler_run ops (StreamReassembler_new capacity) = Inr (got, sr)
    \<and> got @ ByteStream_contents (SR_output sr) = S"
proof -
  have S: "length S < 2 ^ 32" using assms(1,2) by simp
  obtain got sr where r: "reassembler_run ops (StreamReassembler_new capacity) = Inr (got, sr)"
    "SR_inv sr" "SR_holds S sr" "got @ ByteStream_contents (SR_output sr) = take (SR_next sr) S"
    using reassembler_run_ok [OF SR_inv_new [OF assms(1)] SR_holds_new S assms(3)] by auto
  have "SR_known sr p" if p: "p < length S" for p
  proof -
    obtain op where op: "op \<in> set ops" "op_covers op p" using assms(4) p by auto
    show ?thesis
      by (rule reassembler_run_covers [OF SR_inv_new [OF assms(1)] SR_holds_new S assms(3) _ _ op r(1)])
        (simp_all add: assms(2))
  qed
  then have "\<not> SR_next sr < length S" using not_known_next [OF r(2)] by blast
  with r show ?thesis by simp
qed

theorem reassembler_complete_witness:
  "\<exists>got sr. reassembler_run [Push [2, 3] 1 True, Push [1, 2] 0 False] (StreamReassembler_new 4) = Inr (got, sr)
    \<and> got @ ByteStream_contents (SR_output sr) = [1, 2, 3]"
proof (rule reassembler_complete)
  show "\<forall>p < length [1, 2, 3 :: u8]. \<exists>op \<in> set [Push [2, 3] 1 True, Push [1, 2] 0 False]. op_covers op p"
    by auto
qed (simp_all add: slice_of_def)

text \<open>C38: an empty last substring ends the output too early: pushed on a fresh reassembler for a
  non-empty stream that fits, it ends the output although no byte has been assembled.\<close>

theorem reassembler_empty_eof_ends_early:
  assumes "unat capacity < 2 ^ 32" and "0 < length S" and "length S \<le> unat capacity"
  shows "\<exists>sr. push_substring (StreamReassembler_new capacity) [] (of_nat (length S)) True = Inr sr
    \<and> slice_of S [] (length S) \<and> ByteStream_input_ended (SR_output sr) \<and> ByteStream_contents (SR_output sr) = []"
proof -
  let ?R = "StreamReassembler_new capacity"
  have "length S < 2 ^ 32" using assms(1,3) by simp
  then show ?thesis
    using push_empty_eof [OF SR_inv_new [OF assms(1)] SR_holds_new, of S] assms(3)
    by (auto simp: SR_slots_new SR_window_def ByteStream_input_ended_def slice_of_def)
qed

theorem reassembler_empty_eof_ends_early_witness:
  "\<exists>sr. push_substring (StreamReassembler_new 8) [] (of_nat (length [1, 2, 3 :: u8])) True = Inr sr
    \<and> slice_of [1, 2, 3] [] (length [1, 2, 3 :: u8]) \<and> ByteStream_input_ended (SR_output sr)
    \<and> ByteStream_contents (SR_output sr) = []"
  by (rule reassembler_empty_eof_ends_early) simp_all

end
