(* ===== verification/Net_Buffer.thy ===== *)
theory Net_Buffer
  imports Sponge_Prelude
begin

text \<open>
  The strings packets are made of, from \<^verbatim>\<open>util/buffer.hh\<close> and
  \<^verbatim>\<open>util/buffer.cc\<close>: a reference-counted string that can discard bytes from its
  front (Buffer), a queue of them (BufferList) and a queue of views (BufferViewList). All three are
  shown to meet one contract: they hold a flat string, and discarding \<open>n\<close> bytes drops the first
  \<open>n\<close> bytes of it or throws.
\<close>

section \<open>Buffer\<close>

text \<open>
  The storage is shared and never written through, so a copy of a Buffer is the value itself; a null
  pointer is \<open>None\<close>.
\<close>

record Buffer =
  BF_storage :: "bytes option"
  starting_offset :: u64

definition Buffer_default :: Buffer where
  "Buffer_default = \<lparr>BF_storage = None, starting_offset = 0\<rparr>"

definition Buffer_of :: "bytes \<Rightarrow> Buffer" where
  "Buffer_of str = \<lparr>BF_storage = Some str, starting_offset = 0\<rparr>"

definition Buffer_str :: "Buffer \<Rightarrow> bytes" where
  "Buffer_str b = (case BF_storage b of None \<Rightarrow> [] | Some s \<Rightarrow> drop (unat (starting_offset b)) s)"

definition Buffer_at :: "Buffer \<Rightarrow> u64 \<Rightarrow> u8 result" where
  "Buffer_at b n =
     (if n < str_size (Buffer_str b) then str_get (Buffer_str b) n
      else Inl (OutOfRange ''basic_string_view::at''))"

definition Buffer_size :: "Buffer \<Rightarrow> u64" where
  "Buffer_size b = str_size (Buffer_str b)"

definition Buffer_copy :: "Buffer \<Rightarrow> bytes" where
  "Buffer_copy b = Buffer_str b"

definition Buffer_remove_prefix :: "Buffer \<Rightarrow> u64 \<Rightarrow> Buffer result" where
  "Buffer_remove_prefix b n =
     (if n > str_size (Buffer_str b) then Inl (OutOfRange ''Buffer::remove_prefix'')
      else let b' = b\<lparr>starting_offset := starting_offset b + n\<rparr>
           in Inr (case BF_storage b' of
                     None \<Rightarrow> b'
                   | Some s \<Rightarrow> if starting_offset b' = str_size s then b'\<lparr>BF_storage := None\<rparr> else b'))"

text \<open>The offset stays inside the storage, and a string fits in memory.\<close>

definition Buffer_inv :: "Buffer \<Rightarrow> bool" where
  "Buffer_inv b \<longleftrightarrow> (case BF_storage b of None \<Rightarrow> True
     | Some s \<Rightarrow> length s < 2 ^ 64 \<and> unat (starting_offset b) \<le> length s)"

lemma Buffer_inv_default [simp]: "Buffer_inv Buffer_default"
  by (simp add: Buffer_inv_def Buffer_default_def)

lemma Buffer_inv_of [simp]: "Buffer_inv (Buffer_of s) \<longleftrightarrow> length s < 2 ^ 64"
  by (simp add: Buffer_inv_def Buffer_of_def)

lemma Buffer_str_default [simp]: "Buffer_str Buffer_default = []"
  by (simp add: Buffer_str_def Buffer_default_def)

lemma Buffer_str_of [simp]: "Buffer_str (Buffer_of s) = s"
  by (simp add: Buffer_str_def Buffer_of_def)

lemma Buffer_str_small: "Buffer_inv b \<Longrightarrow> length (Buffer_str b) < 2 ^ 64"
  by (auto simp: Buffer_inv_def Buffer_str_def split: option.splits)

lemma unat_Buffer_size: "Buffer_inv b \<Longrightarrow> unat (Buffer_size b) = length (Buffer_str b)"
  using Buffer_str_small [of b] by (simp add: Buffer_size_def unat_str_size)

lemma Buffer_at_ok: "Buffer_inv b \<Longrightarrow> unat n < length (Buffer_str b) \<Longrightarrow> Buffer_at b n = Inr (Buffer_str b ! unat n)"
  using Buffer_str_small [of b] by (simp add: Buffer_at_def word_less_nat_alt unat_str_size)

lemma Buffer_remove_prefix_ok:
  assumes "Buffer_inv b" and "unat n \<le> length (Buffer_str b)"
  shows "\<exists>b'. Buffer_remove_prefix b n = Inr b' \<and> Buffer_inv b' \<and> Buffer_str b' = drop (unat n) (Buffer_str b)"
proof (cases "BF_storage b")
  case None
  then show ?thesis
    using assms by (auto simp: Buffer_remove_prefix_def Buffer_str_def Buffer_inv_def str_size_def unat_eq_zero)
next
  case (Some s)
  let ?off = "starting_offset b"
  have s: "length s < 2 ^ 64" "unat ?off \<le> length s" using assms(1) Some by (auto simp: Buffer_inv_def)
  have n: "unat n \<le> length s - unat ?off" using assms(2) Some by (simp add: Buffer_str_def)
  have off: "unat (?off + n) = unat ?off + unat n" using s n by (intro unat_add_small) simp
  have "\<not> n > str_size (Buffer_str b)"
    using assms Buffer_str_small [OF assms(1)] by (simp add: word_less_nat_alt unat_str_size)
  moreover have "?off + n = str_size s \<longleftrightarrow> unat ?off + unat n = length s"
    using off s(1) by (metis unat_str_size word_unat_eq_iff)
  ultimately show ?thesis
    using s n off Some
    by (auto simp: Buffer_remove_prefix_def Buffer_str_def Buffer_inv_def add.commute)
qed

lemma Buffer_remove_prefix_fails:
  assumes "Buffer_inv b" and "length (Buffer_str b) < unat n"
  shows "Buffer_remove_prefix b n = Inl (OutOfRange ''Buffer::remove_prefix'')"
  using assms Buffer_str_small [OF assms(1)]
  by (simp add: Buffer_remove_prefix_def word_less_nat_alt unat_str_size)

section \<open>BufferList\<close>

record BufferList =
  BL_buffers :: "Buffer list"

definition BufferList_default :: BufferList where
  "BufferList_default = \<lparr>BL_buffers = []\<rparr>"

definition BufferList_of_Buffer :: "Buffer \<Rightarrow> BufferList" where
  "BufferList_of_Buffer buffer = \<lparr>BL_buffers = [buffer]\<rparr>"

definition BufferList_append :: "BufferList \<Rightarrow> BufferList \<Rightarrow> BufferList" where
  "BufferList_append bl other = bl\<lparr>BL_buffers := foldl (\<lambda>bs buf. bs @ [buf]) (BL_buffers bl) (BL_buffers other)\<rparr>"

definition BufferList_of_string :: "bytes \<Rightarrow> BufferList" where
  "BufferList_of_string str =
     (let buf = Buffer_of str in BufferList_append BufferList_default (BufferList_of_Buffer buf))"

definition BufferList_to_Buffer :: "BufferList \<Rightarrow> Buffer result" where
  "BufferList_to_Buffer bl =
     (case BL_buffers bl of
        [] \<Rightarrow> Inr Buffer_default
      | [b] \<Rightarrow> Inr b
      | _ \<Rightarrow> Inl (RuntimeError ''BufferList: please use concatenate() to combine a multi-Buffer BufferList into one Buffer''))"

definition BufferList_concatenate :: "BufferList \<Rightarrow> bytes" where
  "BufferList_concatenate bl = foldl (\<lambda>ret buf. ret @ Buffer_str buf) [] (BL_buffers bl)"

definition BufferList_size :: "BufferList \<Rightarrow> u64" where
  "BufferList_size bl = foldl (\<lambda>ret buf. ret + Buffer_size buf) 0 (BL_buffers bl)"

text \<open>Each turn of the loop of remove_prefix ends it or removes the front buffer.\<close>

fun BufferList_remove_loop :: "u64 \<Rightarrow> Buffer list \<Rightarrow> Buffer list result" where
  "BufferList_remove_loop n [] =
     (if n > 0 then Inl (OutOfRange ''BufferList::remove_prefix'') else Inr [])"
| "BufferList_remove_loop n (b # bs) =
     (if n > 0
      then if n < str_size (Buffer_str b)
           then bindR (Buffer_remove_prefix b n) (\<lambda>b'. Inr (b' # bs))
           else BufferList_remove_loop (n - str_size (Buffer_str b)) bs
      else Inr (b # bs))"

definition BufferList_remove_prefix :: "BufferList \<Rightarrow> u64 \<Rightarrow> BufferList result" where
  "BufferList_remove_prefix bl n =
     bindR (BufferList_remove_loop n (BL_buffers bl)) (\<lambda>bs. Inr (bl\<lparr>BL_buffers := bs\<rparr>))"

definition BufferList_inv :: "BufferList \<Rightarrow> bool" where
  "BufferList_inv bl \<longleftrightarrow> list_all Buffer_inv (BL_buffers bl) \<and> length (BufferList_concatenate bl) < 2 ^ 64"

lemma foldl_snoc [simp]: "foldl (\<lambda>bs b. bs @ [b]) acc xs = acc @ xs"
  by (induction xs arbitrary: acc) simp_all

lemma foldl_append_map: "foldl (\<lambda>ret x. ret @ f x) acc xs = acc @ concat (map f xs)"
  by (induction xs arbitrary: acc) simp_all

lemma BufferList_concatenate_map:
  "BufferList_concatenate bl = concat (map Buffer_str (BL_buffers bl))"
  by (simp add: BufferList_concatenate_def foldl_append_map)

lemma BufferList_concatenate_simps [simp]:
  "BufferList_concatenate BufferList_default = []"
  "BufferList_concatenate (BufferList_of_Buffer b) = Buffer_str b"
  "BufferList_concatenate (BufferList_append bl bl') = BufferList_concatenate bl @ BufferList_concatenate bl'"
  "BufferList_concatenate (BufferList_of_string s) = s"
  by (simp_all add: BufferList_concatenate_map BufferList_default_def BufferList_of_Buffer_def
      BufferList_append_def BufferList_of_string_def)

lemma foldl_size:
  assumes "\<forall>x\<in>set xs. unat (sz x) = length (f x)"
    and "unat acc + length (concat (map f xs)) < 2 ^ 64"
  shows "unat (foldl (\<lambda>ret x. ret + sz x) acc xs :: u64) = unat acc + length (concat (map f xs))"
  using assms
proof (induction xs arbitrary: acc)
  case (Cons x xs)
  have "unat (acc + sz x) = unat acc + length (f x)" using Cons.prems by (simp add: unat_add_small)
  then show ?case using Cons.IH [of "acc + sz x"] Cons.prems by simp
qed simp

lemma unat_BufferList_size:
  assumes "BufferList_inv bl"
  shows "unat (BufferList_size bl) = length (BufferList_concatenate bl)"
  using assms unat_Buffer_size foldl_size [of "BL_buffers bl" Buffer_size Buffer_str 0]
  by (simp add: BufferList_size_def BufferList_inv_def list_all_iff BufferList_concatenate_map)

lemma BufferList_remove_loop_ok:
  assumes "list_all Buffer_inv bs" and "unat n \<le> length (concat (map Buffer_str bs))"
  shows "\<exists>bs'. BufferList_remove_loop n bs = Inr bs' \<and> list_all Buffer_inv bs'
    \<and> concat (map Buffer_str bs') = drop (unat n) (concat (map Buffer_str bs))"
  using assms
proof (induction n bs rule: BufferList_remove_loop.induct)
  case (1 n)
  then show ?case by (simp add: unat_eq_zero)
next
  case (2 n b bs)
  then have b: "Buffer_inv b" by simp
  note small = unat_str_size [OF Buffer_str_small [OF b]]
  consider "n = 0" | "n > 0" "unat n < length (Buffer_str b)" | "n > 0" "length (Buffer_str b) \<le> unat n"
    using word_neq_0_conv by fastforce
  then show ?case
  proof cases
    case 2
    then show ?thesis
      using Buffer_remove_prefix_ok [OF b, of n] "2.prems" small by (auto simp: word_less_nat_alt)
  next
    case 3
    then have "\<not> n < str_size (Buffer_str b)" "unat (n - str_size (Buffer_str b)) = unat n - length (Buffer_str b)"
      using small by (simp_all add: word_less_nat_alt unat_diff_small)
    then show ?thesis using "2.IH" [OF 3(1)] "2.prems" 3 by simp
  qed (use "2.prems" in simp)
qed

lemma BufferList_remove_loop_fails:
  assumes "list_all Buffer_inv bs" and "length (concat (map Buffer_str bs)) < unat n"
  shows "BufferList_remove_loop n bs = Inl (OutOfRange ''BufferList::remove_prefix'')"
  using assms
proof (induction n bs rule: BufferList_remove_loop.induct)
  case (1 n)
  then show ?case by (auto simp: word_less_nat_alt)
next
  case (2 n b bs)
  then have small: "unat (str_size (Buffer_str b)) = length (Buffer_str b)"
    by (simp add: unat_str_size [OF Buffer_str_small])
  have "n > 0" "\<not> n < str_size (Buffer_str b)"
    "unat (n - str_size (Buffer_str b)) = unat n - length (Buffer_str b)"
    using "2.prems" small by (auto simp: word_less_nat_alt unat_diff_small)
  then show ?case using "2.IH" "2.prems" by simp
qed

section \<open>BufferViewList\<close>

text \<open>A view (pointer and length) is the bytes it shows.\<close>

record BufferViewList =
  BV_views :: "bytes list"

definition BufferViewList_of_view :: "bytes \<Rightarrow> BufferViewList" where
  "BufferViewList_of_view str = \<lparr>BV_views = [str]\<rparr>"

definition BufferViewList_of_BufferList :: "BufferList \<Rightarrow> BufferViewList" where
  "BufferViewList_of_BufferList buffers = \<lparr>BV_views = foldl (\<lambda>vs x. vs @ [Buffer_str x]) [] (BL_buffers buffers)\<rparr>"

fun BufferViewList_remove_loop :: "u64 \<Rightarrow> bytes list \<Rightarrow> bytes list result" where
  "BufferViewList_remove_loop n [] =
     (if n > 0 then Inl (OutOfRange ''BufferListView::remove_prefix'') else Inr [])"
| "BufferViewList_remove_loop n (v # vs) =
     (if n > 0
      then if n < str_size v then Inr (drop (unat n) v # vs)
           else BufferViewList_remove_loop (n - str_size v) vs
      else Inr (v # vs))"

definition BufferViewList_remove_prefix :: "BufferViewList \<Rightarrow> u64 \<Rightarrow> BufferViewList result" where
  "BufferViewList_remove_prefix bv n =
     bindR (BufferViewList_remove_loop n (BV_views bv)) (\<lambda>vs. Inr (bv\<lparr>BV_views := vs\<rparr>))"

definition BufferViewList_size :: "BufferViewList \<Rightarrow> u64" where
  "BufferViewList_size bv = foldl (\<lambda>ret buf. ret + str_size buf) 0 (BV_views bv)"

definition BufferViewList_as_iovecs :: "BufferViewList \<Rightarrow> (bytes \<times> u64) list" where
  "BufferViewList_as_iovecs bv = foldl (\<lambda>ret x. ret @ [(x, str_size x)]) [] (BV_views bv)"

definition BufferViewList_contents :: "BufferViewList \<Rightarrow> bytes" where
  "BufferViewList_contents bv = concat (BV_views bv)"

definition BufferViewList_inv :: "BufferViewList \<Rightarrow> bool" where
  "BufferViewList_inv bv \<longleftrightarrow> length (BufferViewList_contents bv) < 2 ^ 64"

lemma BufferViewList_contents_of_BufferList [simp]:
  "BufferViewList_contents (BufferViewList_of_BufferList bl) = BufferList_concatenate bl"
  using foldl_append_map [of "\<lambda>x. [Buffer_str x]" "[]" "BL_buffers bl"]
  by (simp add: BufferViewList_contents_def BufferViewList_of_BufferList_def BufferList_concatenate_map)

lemma unat_BufferViewList_size:
  assumes "BufferViewList_inv bv"
  shows "unat (BufferViewList_size bv) = length (BufferViewList_contents bv)"
proof -
  have "unat (str_size v) = length v" if "v \<in> set (BV_views bv)" for v
  proof (rule unat_str_size)
    have "length v \<le> length (concat (BV_views bv))"
      using that by (auto dest!: split_list)
    then show "length v < 2 ^ 64" using assms by (simp add: BufferViewList_inv_def BufferViewList_contents_def)
  qed
  then show ?thesis
    using foldl_size [of "BV_views bv" str_size "\<lambda>v. v" 0] assms
    by (simp add: BufferViewList_size_def BufferViewList_inv_def BufferViewList_contents_def)
qed

lemma BufferViewList_remove_loop_ok:
  assumes "length (concat vs) < 2 ^ 64" and "unat n \<le> length (concat vs)"
  shows "\<exists>vs'. BufferViewList_remove_loop n vs = Inr vs' \<and> concat vs' = drop (unat n) (concat vs)"
  using assms
proof (induction n vs rule: BufferViewList_remove_loop.induct)
  case (1 n)
  then show ?case by (simp add: unat_eq_zero)
next
  case (2 n v vs)
  then have small: "unat (str_size v) = length v" by (simp add: unat_str_size)
  consider "n = 0" | "n > 0" "unat n < length v" | "n > 0" "length v \<le> unat n"
    using word_neq_0_conv by fastforce
  then show ?case
  proof cases
    case 2
    then show ?thesis using small by (simp add: word_less_nat_alt)
  next
    case 3
    then have "\<not> n < str_size v" "unat (n - str_size v) = unat n - length v"
      using small by (simp_all add: word_less_nat_alt unat_diff_small)
    then show ?thesis using "2.IH" [OF 3(1)] "2.prems" 3 by simp
  qed simp
qed

lemma BufferViewList_remove_loop_fails:
  assumes "length (concat vs) < unat n"
  shows "BufferViewList_remove_loop n vs = Inl (OutOfRange ''BufferListView::remove_prefix'')"
  using assms
proof (induction n vs rule: BufferViewList_remove_loop.induct)
  case (1 n)
  then show ?case by (auto simp: word_less_nat_alt)
next
  case (2 n v vs)
  then have "length v < unat n" by simp
  then have "length v < 2 ^ 64" by (rule less_trans) simp
  then have small: "unat (str_size v) = length v" by (rule unat_str_size)
  have "n > 0" "\<not> n < str_size v" "unat (n - str_size v) = unat n - length v"
    using "2.prems" small by (auto simp: word_less_nat_alt unat_diff_small)
  then show ?case using "2.IH" "2.prems" by simp
qed


section \<open>The contract\<close>

text \<open>Discarding several prefixes one after the other.\<close>

fun remove_run :: "('b \<Rightarrow> u64 \<Rightarrow> 'b result) \<Rightarrow> u64 list \<Rightarrow> 'b \<Rightarrow> 'b result" where
  "remove_run remove [] b = Inr b"
| "remove_run remove (n # ns) b = bindR (remove b n) (remove_run remove ns)"

locale discardable =
  fixes valid :: "'b \<Rightarrow> bool"
    and contents :: "'b \<Rightarrow> bytes"
    and total_size :: "'b \<Rightarrow> u64"
    and remove :: "'b \<Rightarrow> u64 \<Rightarrow> 'b result"
    and msg :: string
  assumes size_law: "valid b \<Longrightarrow> unat (total_size b) = length (contents b)"
    and remove_law: "valid b \<Longrightarrow> unat n \<le> length (contents b) \<Longrightarrow>
      \<exists>b'. remove b n = Inr b' \<and> valid b' \<and> contents b' = drop (unat n) (contents b)"
    and remove_fail: "valid b \<Longrightarrow> length (contents b) < unat n \<Longrightarrow> remove b n = Inl (OutOfRange msg)"
begin

lemma run_ok:
  assumes "valid b" and "sum_list (map unat ns) \<le> length (contents b)"
  shows "\<exists>b'. remove_run remove ns b = Inr b' \<and> valid b'
    \<and> contents b' = drop (sum_list (map unat ns)) (contents b)"
  using assms
proof (induction ns arbitrary: b)
  case (Cons n ns)
  obtain b1 where b1: "remove b n = Inr b1" "valid b1" "contents b1 = drop (unat n) (contents b)"
    using remove_law [OF Cons.prems(1), of n] Cons.prems(2) by auto
  then show ?case using Cons.IH [OF b1(2)] Cons.prems(2) by (simp add: add.commute)
qed simp

lemma run_fails:
  assumes "valid b" and "length (contents b) < sum_list (map unat ns)"
  shows "remove_run remove ns b = Inl (OutOfRange msg)"
  using assms
proof (induction ns arbitrary: b)
  case (Cons n ns)
  show ?case
  proof (cases "unat n \<le> length (contents b)")
    case True
    obtain b1 where b1: "remove b n = Inr b1" "valid b1" "contents b1 = drop (unat n) (contents b)"
      using remove_law [OF Cons.prems(1) True] by auto
    then show ?thesis using Cons.IH [OF b1(2)] Cons.prems(2) True by simp
  next
    case False
    then show ?thesis using remove_fail [OF Cons.prems(1), of n] by simp
  qed
qed simp

lemma run_sizes:
  assumes "valid b" and "remove_run remove ns b = Inr b'"
  shows "unat (total_size b) = sum_list (map unat ns) + unat (total_size b')"
proof -
  have le: "sum_list (map unat ns) \<le> length (contents b)"
    using run_fails [OF assms(1), of ns] assms(2) by fastforce
  then show ?thesis using run_ok [OF assms(1) le] assms size_law by auto
qed

end

interpretation buf: discardable Buffer_inv Buffer_str Buffer_size Buffer_remove_prefix "''Buffer::remove_prefix''"
  by unfold_locales (simp_all add: unat_Buffer_size Buffer_remove_prefix_ok Buffer_remove_prefix_fails)

interpretation buflist: discardable BufferList_inv BufferList_concatenate BufferList_size
  BufferList_remove_prefix "''BufferList::remove_prefix''"
proof unfold_locales
  show "unat (BufferList_size b) = length (BufferList_concatenate b)" if "BufferList_inv b" for b
    by (rule unat_BufferList_size [OF that])
  show "\<exists>b'. BufferList_remove_prefix b n = Inr b' \<and> BufferList_inv b'
      \<and> BufferList_concatenate b' = drop (unat n) (BufferList_concatenate b)"
    if "BufferList_inv b" "unat n \<le> length (BufferList_concatenate b)" for b n
    using that BufferList_remove_loop_ok [of "BL_buffers b" n]
    by (auto simp: BufferList_remove_prefix_def BufferList_inv_def BufferList_concatenate_map)
  show "BufferList_remove_prefix b n = Inl (OutOfRange ''BufferList::remove_prefix'')"
    if "BufferList_inv b" "length (BufferList_concatenate b) < unat n" for b n
    using that BufferList_remove_loop_fails [of "BL_buffers b" n]
    by (simp add: BufferList_remove_prefix_def BufferList_inv_def BufferList_concatenate_map)
qed

interpretation views: discardable BufferViewList_inv BufferViewList_contents BufferViewList_size
  BufferViewList_remove_prefix "''BufferListView::remove_prefix''"
proof unfold_locales
  show "unat (BufferViewList_size b) = length (BufferViewList_contents b)" if "BufferViewList_inv b" for b
    by (rule unat_BufferViewList_size [OF that])
  show "\<exists>b'. BufferViewList_remove_prefix b n = Inr b' \<and> BufferViewList_inv b'
      \<and> BufferViewList_contents b' = drop (unat n) (BufferViewList_contents b)"
    if "BufferViewList_inv b" "unat n \<le> length (BufferViewList_contents b)" for b n
    using that BufferViewList_remove_loop_ok [of "BV_views b" n]
    by (auto simp: BufferViewList_remove_prefix_def BufferViewList_inv_def BufferViewList_contents_def)
  show "BufferViewList_remove_prefix b n = Inl (OutOfRange ''BufferListView::remove_prefix'')"
    if "BufferViewList_inv b" "length (BufferViewList_contents b) < unat n" for b n
    using that BufferViewList_remove_loop_fails [of "BV_views b" n]
    by (simp add: BufferViewList_remove_prefix_def BufferViewList_contents_def)
qed

section \<open>Properties\<close>

text \<open>A buffer list and the view list over it are the same flat string: any sequence of
  removals, whatever the boundaries between the buffers, either leaves both with what remains of the
  concatenation or, when it asks for more bytes than there are, throws on both.\<close>

lemma buffer_views_agree:
  assumes "BufferList_inv bl"
  shows "(\<exists>bl' bv'. remove_run BufferList_remove_prefix ns bl = Inr bl'
      \<and> remove_run BufferViewList_remove_prefix ns (BufferViewList_of_BufferList bl) = Inr bv'
      \<and> sum_list (map unat ns) \<le> length (BufferList_concatenate bl)
      \<and> BufferList_concatenate bl' = drop (sum_list (map unat ns)) (BufferList_concatenate bl)
      \<and> BufferViewList_contents bv' = BufferList_concatenate bl')
    \<or> (remove_run BufferList_remove_prefix ns bl = Inl (OutOfRange ''BufferList::remove_prefix'')
      \<and> remove_run BufferViewList_remove_prefix ns (BufferViewList_of_BufferList bl)
          = Inl (OutOfRange ''BufferListView::remove_prefix'')
      \<and> length (BufferList_concatenate bl) < sum_list (map unat ns))"
proof -
  let ?bv = "BufferViewList_of_BufferList bl"
  have bv: "BufferViewList_inv ?bv" using assms by (simp add: BufferViewList_inv_def BufferList_inv_def)
  show ?thesis
  proof (cases "sum_list (map unat ns) \<le> length (BufferList_concatenate bl)")
    case True
    then show ?thesis using buflist.run_ok [OF assms True] views.run_ok [OF bv, of ns] by auto
  next
    case False
    then show ?thesis using buflist.run_fails [OF assms, of ns] views.run_fails [OF bv, of ns] by auto
  qed
qed

lemma buffer_views_agree_example:
  "let bl = BufferList_append (BufferList_of_string [1, 2]) (BufferList_of_string [3, 4, 5]); ns = [1, 3]
   in (\<exists>bl' bv'. remove_run BufferList_remove_prefix ns bl = Inr bl'
      \<and> remove_run BufferViewList_remove_prefix ns (BufferViewList_of_BufferList bl) = Inr bv'
      \<and> sum_list (map unat ns) \<le> length (BufferList_concatenate bl)
      \<and> BufferList_concatenate bl' = drop (sum_list (map unat ns)) (BufferList_concatenate bl)
      \<and> BufferViewList_contents bv' = BufferList_concatenate bl')
    \<or> (remove_run BufferList_remove_prefix ns bl = Inl (OutOfRange ''BufferList::remove_prefix'')
      \<and> remove_run BufferViewList_remove_prefix ns (BufferViewList_of_BufferList bl)
          = Inl (OutOfRange ''BufferListView::remove_prefix'')
      \<and> length (BufferList_concatenate bl) < sum_list (map unat ns))"
  unfolding Let_def
  by (rule buffer_views_agree)
    (simp add: BufferList_inv_def BufferList_append_def BufferList_of_string_def BufferList_default_def
      BufferList_of_Buffer_def BufferList_concatenate_def)

end
