(* ===== verification/Net_Parser.thy ===== *)
theory Net_Parser
  imports Net_Buffer
begin

text \<open>
  Parsing and unparsing of big-endian integers, from \<^verbatim>\<open>util/parser.hh\<close> and
  \<^verbatim>\<open>util/parser.cc\<close>. A parser operation takes the NetParser it runs on and returns the
  value with the NetParser left behind, or the exception it throws. Three judgements carry the
  proofs on the headers: \<open>parses\<close> (the operation consumes a given string and returns a given
  value), \<open>never_throws\<close>, and the round trip between \<open>be_bytes\<close> and \<open>be_word\<close>.
\<close>

unbundle bit_operations_syntax

section \<open>Parse results\<close>

datatype ParseResult = NoError | BadChecksum | PacketTooShort | WrongIPVersion | HeaderTooShort
  | TruncatedPacket | Unsupported

text \<open>The numeric value of the enumerators, by which \<open>as_string\<close> indexes its table.\<close>

fun ParseResult_index :: "ParseResult \<Rightarrow> u64" where
  "ParseResult_index NoError = 0"
| "ParseResult_index BadChecksum = 1"
| "ParseResult_index PacketTooShort = 2"
| "ParseResult_index WrongIPVersion = 3"
| "ParseResult_index HeaderTooShort = 4"
| "ParseResult_index TruncatedPacket = 5"
| "ParseResult_index Unsupported = 6"

definition as_string :: "ParseResult \<Rightarrow> string result" where
  "as_string r = str_get [''NoError'', ''BadChecksum'', ''PacketTooShort'', ''WrongIPVersion'',
     ''HeaderTooShort'', ''TruncatedPacket''] (ParseResult_index r)"

section \<open>NetParser\<close>

record NetParser =
  NP_buffer :: Buffer
  NP_error :: ParseResult

type_synonym 'a parser = "NetParser \<Rightarrow> ('a \<times> NetParser) result"

definition bindP :: "'a parser \<Rightarrow> ('a \<Rightarrow> 'b parser) \<Rightarrow> 'b parser" where
  "bindP m f = (\<lambda>p. bindR (m p) (\<lambda>(v, p'). f v p'))"

definition returnP :: "'a \<Rightarrow> 'a parser" where
  "returnP v = (\<lambda>p. Inr (v, p))"

definition NetParser_new :: "Buffer \<Rightarrow> NetParser" where
  "NetParser_new buffer = \<lparr>NP_buffer = buffer, NP_error = NoError\<rparr>"

definition NetParser_set_error :: "NetParser \<Rightarrow> ParseResult \<Rightarrow> NetParser" where
  "NetParser_set_error p res = p\<lparr>NP_error := res\<rparr>"

definition NetParser_error :: "NetParser \<Rightarrow> bool" where
  "NetParser_error p \<longleftrightarrow> NP_error p \<noteq> NoError"

definition NetParser_check_size :: "NetParser \<Rightarrow> u64 \<Rightarrow> NetParser" where
  "NetParser_check_size p size_needed =
     (if size_needed > Buffer_size (NP_buffer p) then NetParser_set_error p PacketTooShort else p)"

fun parse_int_loop :: "nat \<Rightarrow> u64 \<Rightarrow> Buffer \<Rightarrow> 'a::len word \<Rightarrow> 'a word result" where
  "parse_int_loop 0 i b ret = Inr ret"
| "parse_int_loop (Suc k) i b ret =
     bindR (Buffer_at b i) (\<lambda>x. parse_int_loop k (i + 1) b (push_bit 8 ret + ucast x))"

definition NetParser_parse_int :: "('a::len word) parser" where
  "NetParser_parse_int p =
     (let n = LENGTH('a) div 8; p1 = NetParser_check_size p (of_nat n)
      in if NetParser_error p1 then Inr (0, p1)
         else bindR (parse_int_loop n 0 (NP_buffer p1) 0) (\<lambda>ret.
              bindR (Buffer_remove_prefix (NP_buffer p1) (of_nat n)) (\<lambda>b.
              Inr (ret, p1\<lparr>NP_buffer := b\<rparr>))))"

definition NetParser_u32 :: "u32 parser" where
  "NetParser_u32 = NetParser_parse_int"

definition NetParser_u16 :: "u16 parser" where
  "NetParser_u16 = NetParser_parse_int"

definition NetParser_u8 :: "u8 parser" where
  "NetParser_u8 = NetParser_parse_int"

definition NetParser_remove_prefix :: "u64 \<Rightarrow> unit parser" where
  "NetParser_remove_prefix n p =
     (let p1 = NetParser_check_size p n
      in if NetParser_error p1 then Inr ((), p1)
         else bindR (Buffer_remove_prefix (NP_buffer p1) n) (\<lambda>b. Inr ((), p1\<lparr>NP_buffer := b\<rparr>)))"

text \<open>The loop that fills an array of bytes, such as an Ethernet address.\<close>

fun parse_array :: "nat \<Rightarrow> bytes parser" where
  "parse_array 0 = returnP []"
| "parse_array (Suc n) = bindP NetParser_u8 (\<lambda>x. bindP (parse_array n) (\<lambda>xs. returnP (x # xs)))"

section \<open>NetUnparser\<close>

definition NetUnparser_unparse_int :: "bytes \<Rightarrow> 'a::len word \<Rightarrow> bytes" where
  "NetUnparser_unparse_int s val =
     foldl (\<lambda>s i. s @ [ucast (drop_bit ((LENGTH('a) div 8 - i - 1) * 8) val AND 0xff)]) s [0..<LENGTH('a) div 8]"

definition NetUnparser_u32 :: "bytes \<Rightarrow> u32 \<Rightarrow> bytes" where
  "NetUnparser_u32 s val = NetUnparser_unparse_int s val"

definition NetUnparser_u16 :: "bytes \<Rightarrow> u16 \<Rightarrow> bytes" where
  "NetUnparser_u16 s val = NetUnparser_unparse_int s val"

definition NetUnparser_u8 :: "bytes \<Rightarrow> u8 \<Rightarrow> bytes" where
  "NetUnparser_u8 s val = NetUnparser_unparse_int s val"

definition unparse_array :: "bytes \<Rightarrow> bytes \<Rightarrow> bytes" where
  "unparse_array s xs = foldl NetUnparser_u8 s xs"

section \<open>Big-endian integers\<close>

definition be_word :: "bytes \<Rightarrow> 'a::len word" where
  "be_word xs = foldl (\<lambda>r x. push_bit 8 r + ucast x) 0 xs"

definition be_bytes :: "'a::len word \<Rightarrow> bytes" where
  "be_bytes v = map (\<lambda>i. ucast (drop_bit ((LENGTH('a) div 8 - i - 1) * 8) v AND 0xff)) [0..<LENGTH('a) div 8]"

definition be_nat :: "bytes \<Rightarrow> nat" where
  "be_nat xs = foldl (\<lambda>r x. r * 256 + unat x) 0 xs"

lemma foldl_snoc_map: "foldl (\<lambda>s i. s @ [f i]) s xs = s @ map f xs"
  by (induction xs arbitrary: s) simp_all

lemma unparse_int_eq [simp]: "NetUnparser_unparse_int s v = s @ be_bytes v"
  by (simp add: NetUnparser_unparse_int_def be_bytes_def foldl_snoc_map)

lemma length_be_bytes [simp]: "length (be_bytes (v :: 'a::len word)) = LENGTH('a) div 8"
  by (simp add: be_bytes_def)

lemma be_word_fold_of_nat:
  "foldl (\<lambda>r x. push_bit 8 r + ucast x) (of_nat n :: 'a::len word) xs
     = of_nat (foldl (\<lambda>r x. r * 256 + unat (x :: u8)) n xs)"
proof (induction xs arbitrary: n)
  case (Cons x xs)
  have "push_bit 8 (of_nat n :: 'a word) + ucast x = of_nat (n * 256 + unat x)"
    by (simp add: push_bit_eq_mult)
  then show ?case using Cons.IH [of "n * 256 + unat x"] by (simp only: foldl.simps)
qed simp

lemma be_word_of_nat: "be_word xs = (of_nat (be_nat xs) :: 'a::len word)"
  using be_word_fold_of_nat [of 0 xs, where 'a = 'a] by (simp add: be_word_def be_nat_def)

lemma low_byte: "(ucast ((x :: 'a::len word) AND 0xff) :: u8) = ucast x"
proof -
  have ff: "(0xff :: 'a word) = mask 8" by (simp add: mask_eq_exp_minus_1)
  show ?thesis
    unfolding ff by (rule bit_word_eqI) (auto simp: bit_simps dest: bit_imp_le_length)
qed

lemma unat_byte: "unat (ucast (drop_bit k (v :: 'a::len word) AND 0xff) :: u8) = unat v div 2 ^ k mod 256"
  unfolding low_byte unat_ucast_mod unat_drop_bit_eq by (simp add: drop_bit_eq_div)

lemma div_mod_step: "v div (k * 256) * 256 + v div k mod 256 = (v div k :: nat)"
  by (simp add: div_mult2_eq)

lemma be_bytes_8 [simp]: "be_bytes (v :: u8) = [v]"
  using low_byte [of v] by (simp add: be_bytes_def)

lemma be_bytes_16: "be_bytes (v :: u16) = [ucast (drop_bit 8 v AND 0xff), ucast (drop_bit 0 v AND 0xff)]"
  by (simp add: be_bytes_def upt_rec)

lemma be_bytes_32: "be_bytes (v :: u32) = [ucast (drop_bit 24 v AND 0xff), ucast (drop_bit 16 v AND 0xff),
    ucast (drop_bit 8 v AND 0xff), ucast (drop_bit 0 v AND 0xff)]"
  by (simp add: be_bytes_def upt_rec)

lemma be_word_be_bytes_16 [simp]: "be_word (be_bytes (v :: u16)) = v"
proof -
  have "be_nat (be_bytes v) = unat v div 2 ^ 8 mod 256 * 256 + unat v div 2 ^ 0 mod 256"
    unfolding be_bytes_16 be_nat_def foldl.simps unat_byte by simp
  also have "unat v div 2 ^ 8 mod 256 = unat v div 256"
    using unat_u16_lt [of v] by (simp add: less_mult_imp_div_less)
  also have "unat v div 256 * 256 + unat v div 2 ^ 0 mod 256 = unat v" by simp
  finally show ?thesis by (simp add: be_word_of_nat)
qed

lemma be_word_be_bytes_32 [simp]: "be_word (be_bytes (v :: u32)) = v"
proof -
  let ?n = "unat v"
  have "be_nat (be_bytes v) = ((?n div 2 ^ 24 mod 256 * 256 + ?n div 2 ^ 16 mod 256) * 256
      + ?n div 2 ^ 8 mod 256) * 256 + ?n div 2 ^ 0 mod 256"
    unfolding be_bytes_32 be_nat_def foldl.simps unat_byte by simp
  also have "?n div 2 ^ 24 mod 256 = ?n div (2 ^ 16 * 256)"
    using unat_u32_lt [of v] by (simp add: less_mult_imp_div_less)
  also have "?n div (2 ^ 16 * 256) * 256 + ?n div 2 ^ 16 mod 256 = ?n div (2 ^ 8 * 256)"
    unfolding div_mod_step by simp
  also have "?n div (2 ^ 8 * 256) * 256 + ?n div 2 ^ 8 mod 256 = ?n div (2 ^ 0 * 256)"
    unfolding div_mod_step by simp
  also have "?n div (2 ^ 0 * 256) * 256 + ?n div 2 ^ 0 mod 256 = ?n"
    unfolding div_mod_step by simp
  finally show ?thesis by (simp add: be_word_of_nat)
qed

lemma be_word_Cons_Nil [simp]: "be_word [x] = x"
  by (simp add: be_word_def)

lemma unparse_array_eq [simp]: "unparse_array s xs = s @ xs"
  unfolding unparse_array_def by (induction xs arbitrary: s) (simp_all add: NetUnparser_u8_def)


section \<open>Reasoning about parsers\<close>

text \<open>A parser with no error so far, in front of the bytes \<open>xs\<close>.\<close>

definition parser_at :: "NetParser \<Rightarrow> bytes \<Rightarrow> bool" where
  "parser_at p xs \<longleftrightarrow> Buffer_inv (NP_buffer p) \<and> Buffer_str (NP_buffer p) = xs \<and> NP_error p = NoError"

definition parses :: "'a parser \<Rightarrow> bytes \<Rightarrow> 'a \<Rightarrow> bytes \<Rightarrow> bool" where
  "parses m xs v ys \<longleftrightarrow> (\<forall>p. parser_at p xs \<longrightarrow> (\<exists>p'. m p = Inr (v, p') \<and> parser_at p' ys))"

lemma parses_return [intro]: "parses (returnP v) xs v xs"
  by (simp add: parses_def returnP_def)

lemma parses_bind:
  assumes "parses m xs v ys" and "parses (f v) ys w zs"
  shows "parses (bindP m f) xs w zs"
  unfolding parses_def
proof (intro allI impI)
  fix p :: NetParser assume "parser_at p xs"
  then obtain p1 where p1: "m p = Inr (v, p1)" "parser_at p1 ys" using assms(1) by (auto simp: parses_def)
  then obtain p2 where "f v p1 = Inr (w, p2)" "parser_at p2 zs" using assms(2) by (auto simp: parses_def)
  with p1 show "\<exists>p'. bindP m f p = Inr (w, p') \<and> parser_at p' zs" by (simp add: bindP_def)
qed

lemma parser_at_new: "length (Buffer_str b) < 2 ^ 64 \<Longrightarrow> Buffer_inv b \<Longrightarrow> parser_at (NetParser_new b) (Buffer_str b)"
  by (simp add: parser_at_def NetParser_new_def)

lemma parse_int_loop_ok:
  assumes "Buffer_inv b" and "unat i + k \<le> length (Buffer_str b)"
  shows "parse_int_loop k i b ret
    = Inr (foldl (\<lambda>r x. push_bit 8 r + ucast x) ret (take k (drop (unat i) (Buffer_str b))))"
  using assms(2)
proof (induction k arbitrary: i ret)
  case (Suc k)
  have "length (Buffer_str b) < 2 ^ 64" by (rule Buffer_str_small [OF assms(1)])
  then have i: "unat (i + 1) = Suc (unat i)" using Suc.prems by (intro unat_Suc_small) simp
  have "take (Suc k) (drop (unat i) (Buffer_str b))
      = Buffer_str b ! unat i # take k (drop (Suc (unat i)) (Buffer_str b))"
    using Suc.prems by (simp flip: Cons_nth_drop_Suc)
  then show ?case using Suc.IH [of "i + 1"] Suc.prems i Buffer_at_ok [OF assms(1), of i] by simp
qed simp

lemma check_size_iff:
  assumes "Buffer_inv (NP_buffer p)" and "n < 2 ^ 64"
  shows "NetParser_check_size p (of_nat n) =
    (if length (Buffer_str (NP_buffer p)) < n then p\<lparr>NP_error := PacketTooShort\<rparr> else p)"
  using assms unat_Buffer_size [OF assms(1)]
  by (simp add: NetParser_check_size_def NetParser_set_error_def word_less_nat_alt unat_of_nat)

lemma parses_int:
  fixes xs :: bytes
  assumes n: "LENGTH('a::len) div 8 = n" and le: "n \<le> length xs" and small: "n < 2 ^ 64"
  shows "parses (NetParser_parse_int :: 'a word parser) xs (be_word (take n xs)) (drop n xs)"
  unfolding parses_def
proof (intro allI impI)
  fix p :: NetParser assume "parser_at p xs"
  then have p: "Buffer_inv (NP_buffer p)" "Buffer_str (NP_buffer p) = xs" "NP_error p = NoError"
    by (simp_all add: parser_at_def)
  have un: "unat (of_nat n :: u64) = n" using small by (simp add: unat_of_nat)
  obtain b where b: "Buffer_remove_prefix (NP_buffer p) (of_nat n) = Inr b" "Buffer_inv b" "Buffer_str b = drop n xs"
    using Buffer_remove_prefix_ok [OF p(1), of "of_nat n"] p(2) le un by auto
  have "parse_int_loop n 0 (NP_buffer p) (0 :: 'a word) = Inr (be_word (take n xs))"
    using parse_int_loop_ok [OF p(1), of 0 n] p(2) le by (simp add: be_word_def)
  then show "\<exists>p'. (NetParser_parse_int p :: ('a word \<times> NetParser) result) = Inr (be_word (take n xs), p')
      \<and> parser_at p' (drop n xs)"
    using b p le check_size_iff [OF p(1) small]
    by (simp add: NetParser_parse_int_def n NetParser_error_def parser_at_def)
qed

lemma parses_u8 [intro]: "parses NetParser_u8 (v # ys) v ys"
  using parses_int [where 'a = 8, of 1 "v # ys"] by (simp add: NetParser_u8_def)

lemma parses_u16 [intro]: "parses NetParser_u16 (be_bytes v @ ys) v ys"
  using parses_int [where 'a = 16, of 2 "be_bytes v @ ys"] by (simp add: NetParser_u16_def)

lemma parses_u32 [intro]: "parses NetParser_u32 (be_bytes v @ ys) v ys"
  using parses_int [where 'a = 32, of 4 "be_bytes v @ ys"] by (simp add: NetParser_u32_def)

lemma parses_array [intro]: "length xs = n \<Longrightarrow> parses (parse_array n) (xs @ ys) xs ys"
proof (induction n arbitrary: xs)
  case 0
  then show ?case by (simp add: parses_return)
next
  case (Suc n)
  then obtain x xs' where xs: "xs = x # xs'" "length xs' = n" by (cases xs) auto
  have "parses (bindP (parse_array n) (\<lambda>xs. returnP (x # xs))) (xs' @ ys) (x # xs') ys"
    by (rule parses_bind [OF Suc.IH [OF xs(2)] parses_return])
  then show ?case unfolding xs(1) by (auto intro: parses_bind [OF parses_u8])
qed

lemma parses_remove:
  assumes "unat n \<le> length xs"
  shows "parses (NetParser_remove_prefix n) xs () (drop (unat n) xs)"
  unfolding parses_def
proof (intro allI impI)
  fix p :: NetParser assume "parser_at p xs"
  then have p: "Buffer_inv (NP_buffer p)" "Buffer_str (NP_buffer p) = xs" "NP_error p = NoError"
    by (simp_all add: parser_at_def)
  then obtain b where "Buffer_remove_prefix (NP_buffer p) n = Inr b" "Buffer_inv b" "Buffer_str b = drop (unat n) xs"
    using Buffer_remove_prefix_ok [OF p(1), of n] assms by auto
  moreover have "NetParser_check_size p n = p"
    using unat_Buffer_size [OF p(1)] p(2) assms by (simp add: NetParser_check_size_def word_less_nat_alt)
  ultimately show "\<exists>p'. NetParser_remove_prefix n p = Inr ((), p') \<and> parser_at p' (drop (unat n) xs)"
    using p by (simp add: NetParser_remove_prefix_def NetParser_error_def parser_at_def)
qed

text \<open>
  A parser operation that never throws, and that keeps an error once there is one.
\<close>

definition never_throws :: "'a parser \<Rightarrow> bool" where
  "never_throws m \<longleftrightarrow> (\<forall>p. Buffer_inv (NP_buffer p) \<longrightarrow>
     (\<exists>v p'. m p = Inr (v, p') \<and> Buffer_inv (NP_buffer p') \<and> (NetParser_error p \<longrightarrow> NetParser_error p')))"

lemma never_throws_return [intro]: "never_throws (returnP v)"
  by (simp add: never_throws_def returnP_def)

lemma never_throws_bind [intro]:
  assumes "never_throws m" and "\<And>v. never_throws (f v)"
  shows "never_throws (bindP m f)"
  unfolding never_throws_def
proof (intro allI impI)
  fix p :: NetParser assume "Buffer_inv (NP_buffer p)"
  then obtain v p1 where p1: "m p = Inr (v, p1)" "Buffer_inv (NP_buffer p1)" "NetParser_error p \<longrightarrow> NetParser_error p1"
    using assms(1) by (auto simp: never_throws_def)
  then obtain w p2 where "f v p1 = Inr (w, p2)" "Buffer_inv (NP_buffer p2)" "NetParser_error p1 \<longrightarrow> NetParser_error p2"
    using assms(2) by (fastforce simp: never_throws_def)
  with p1 show "\<exists>v p'. bindP m f p = Inr (v, p') \<and> Buffer_inv (NP_buffer p') \<and> (NetParser_error p \<longrightarrow> NetParser_error p')"
    by (simp add: bindP_def)
qed

lemma check_size_error:
  "NetParser_error (NetParser_check_size p n) \<longleftrightarrow> NetParser_error p \<or> n > Buffer_size (NP_buffer p)"
  "NP_buffer (NetParser_check_size p n) = NP_buffer p"
  by (simp_all add: NetParser_check_size_def NetParser_error_def NetParser_set_error_def)

lemma never_throws_int [intro]:
  assumes "LENGTH('a::len) div 8 < 2 ^ 64"
  shows "never_throws (NetParser_parse_int :: 'a word parser)"
  unfolding never_throws_def
proof (intro allI impI)
  fix p :: NetParser assume inv: "Buffer_inv (NP_buffer p)"
  let ?n = "LENGTH('a) div 8" and ?p = "NetParser_check_size p (of_nat (LENGTH('a) div 8))"
  show "\<exists>v p'. (NetParser_parse_int p :: ('a word \<times> NetParser) result) = Inr (v, p')
      \<and> Buffer_inv (NP_buffer p') \<and> (NetParser_error p \<longrightarrow> NetParser_error p')"
  proof (cases "NetParser_error ?p")
    case True
    then show ?thesis using inv by (simp add: NetParser_parse_int_def check_size_error(2))
  next
    case False
    then have "parser_at ?p (Buffer_str (NP_buffer p))" "?p = p"
      using inv
      by (auto simp: parser_at_def NetParser_error_def NetParser_check_size_def NetParser_set_error_def split: if_splits)
    moreover have "?n \<le> length (Buffer_str (NP_buffer p))"
      using False assms unat_Buffer_size [OF inv]
      by (simp add: check_size_error word_less_nat_alt unat_of_nat not_less)
    ultimately show ?thesis
      using parses_int [OF refl, where 'a = 'a, of "Buffer_str (NP_buffer p)"] assms
      by (fastforce simp: parses_def parser_at_def NetParser_error_def)
  qed
qed

lemma never_throws_u8 [intro]: "never_throws NetParser_u8"
  and never_throws_u16 [intro]: "never_throws NetParser_u16"
  and never_throws_u32 [intro]: "never_throws NetParser_u32"
  by (auto simp: NetParser_u8_def NetParser_u16_def NetParser_u32_def)

lemma never_throws_array [intro]: "never_throws (parse_array n)"
  by (induction n) auto

lemma never_throws_remove [intro]: "never_throws (NetParser_remove_prefix n)"
  unfolding never_throws_def
proof (intro allI impI)
  fix p :: NetParser assume inv: "Buffer_inv (NP_buffer p)"
  have "\<exists>b. Buffer_remove_prefix (NP_buffer p) n = Inr b \<and> Buffer_inv b" if "\<not> n > Buffer_size (NP_buffer p)"
    using Buffer_remove_prefix_ok [OF inv, of n] unat_Buffer_size [OF inv] that by (auto simp: word_less_nat_alt)
  then show "\<exists>v p'. NetParser_remove_prefix n p = Inr (v, p') \<and> Buffer_inv (NP_buffer p')
      \<and> (NetParser_error p \<longrightarrow> NetParser_error p')"
    using inv by (auto simp: NetParser_remove_prefix_def check_size_error Let_def)
qed

lemma never_throws_if [intro]: "never_throws a \<Longrightarrow> never_throws b \<Longrightarrow> never_throws (if c then a else b)"
  by simp

definition get_errorP :: "ParseResult parser" where
  "get_errorP p = Inr (NP_error p, p)"

lemma parses_get_error [intro]: "parses get_errorP xs NoError xs"
  by (simp add: parses_def get_errorP_def parser_at_def)

lemma never_throws_get_error [intro]: "never_throws get_errorP"
  by (simp add: never_throws_def get_errorP_def)

section \<open>The contract of a wire format\<close>

text \<open>
  What a header type promises: its serialization, followed by a rest it is compatible with, is
  parsed back to the same header and consumed exactly; and parsing arbitrary bytes never throws.
\<close>

locale wire_codec =
  fixes ok :: "'h \<Rightarrow> bytes \<Rightarrow> bool"
    and enc :: "'h \<Rightarrow> bytes result"
    and dec :: "'h \<Rightarrow> (ParseResult \<times> 'h) parser"
  assumes enc_dec: "ok h rest \<Longrightarrow> \<exists>bs. enc h = Inr bs \<and> (\<forall>h0. parses (dec h0) (bs @ rest) (NoError, h) rest)"
    and dec_total: "never_throws (dec h0)"
begin

lemma dec_buffer:
  assumes "ok h rest" and "enc h = Inr bs" and "Buffer_inv b" and "Buffer_str b = bs @ rest"
  shows "\<exists>p. dec h0 (NetParser_new b) = Inr ((NoError, h), p)
    \<and> Buffer_inv (NP_buffer p) \<and> Buffer_str (NP_buffer p) = rest \<and> NP_error p = NoError"
proof -
  have "parser_at (NetParser_new b) (bs @ rest)"
    using assms(3,4) by (simp add: parser_at_def NetParser_new_def)
  then show ?thesis using enc_dec [OF assms(1)] assms(2) by (auto simp: parses_def parser_at_def)
qed

lemma unambiguous:
  assumes "ok h rest" and "ok h' rest'" and "enc h = Inr bs" and "enc h' = Inr bs'"
    and "bs @ rest = bs' @ rest'" and "length (bs @ rest) < 2 ^ 64"
  shows "h = h' \<and> rest = rest'"
  using dec_buffer [OF assms(1,3), of "Buffer_of (bs @ rest)" h] assms(5,6)
    dec_buffer [OF assms(2,4), of "Buffer_of (bs @ rest)" h]
  by auto

lemma dec_any:
  assumes "Buffer_inv b"
  shows "\<exists>r h p. dec h0 (NetParser_new b) = Inr ((r, h), p) \<and> Buffer_inv (NP_buffer p)"
proof -
  have "Buffer_inv (NP_buffer (NetParser_new b))" using assms by (simp add: NetParser_new_def)
  then obtain v p where "dec h0 (NetParser_new b) = Inr (v, p)" "Buffer_inv (NP_buffer p)"
    using dec_total [of h0] unfolding never_throws_def by blast
  then show ?thesis by (cases v) auto
qed

end

section \<open>Properties\<close>

text \<open>Every integer written by the unparser is read back by the parser: for each of the three
  widths, parsing right where the integer was written returns it, consumes exactly its bytes, and
  leaves the parser without error in front of whatever follows.\<close>

lemma unparse_parse:
  "parses NetParser_u8 (NetUnparser_u8 [] a @ rest) a rest
   \<and> parses NetParser_u16 (NetUnparser_u16 [] b @ rest) b rest
   \<and> parses NetParser_u32 (NetUnparser_u32 [] c @ rest) c rest"
  by (auto simp: NetUnparser_u8_def NetUnparser_u16_def NetUnparser_u32_def)

text \<open>\<open>as_string\<close> has a name for every parse result but one: for Unsupported it reads past
  the end of its table.\<close>

lemma as_string_unsupported:
  "as_string r = Inl OutOfBounds \<longleftrightarrow> r = Unsupported"
  by (cases r) (simp_all add: as_string_def str_get_def)

end
