(* ===== verification/Internet_Checksum.thy ===== *)
theory Internet_Checksum
  imports Net_Parser
begin

text \<open>
  The Internet checksum of \<^verbatim>\<open>util/util.hh\<close> and \<^verbatim>\<open>util/util.cc\<close>: a
  32-bit sum of big-endian 16-bit words, folded with end-around carry and complemented. The lemmas
  read the sum as a natural number and the folding as a remainder modulo 65535.
\<close>

section \<open>The class\<close>

record InternetChecksum =
  IC_sum :: u32
  IC_parity :: bool

definition InternetChecksum_new :: "u32 \<Rightarrow> InternetChecksum" where
  "InternetChecksum_new initial_sum = \<lparr>IC_sum = initial_sum, IC_parity = False\<rparr>"

definition InternetChecksum_add_byte :: "InternetChecksum \<Rightarrow> u8 \<Rightarrow> InternetChecksum" where
  "InternetChecksum_add_byte c b =
     (let val = ucast b :: u16;
          val = (if \<not> IC_parity c then push_bit 8 val else val)
      in c\<lparr>IC_sum := IC_sum c + ucast val, IC_parity := \<not> IC_parity c\<rparr>)"

definition InternetChecksum_add :: "InternetChecksum \<Rightarrow> bytes \<Rightarrow> InternetChecksum" where
  "InternetChecksum_add c data = foldl InternetChecksum_add_byte c data"

lemma unat_fold_step: "unat (drop_bit 16 r + (r AND 0xffff) :: u32) = unat r div 65536 + unat r mod 65536"
proof -
  have "(0xffff :: u32) = mask 16" by (simp add: mask_eq_exp_minus_1)
  then have "r AND 0xffff = take_bit 16 r" by (simp add: take_bit_eq_mask)
  then have low: "unat (r AND 0xffff) = unat r mod 65536"
    by (simp only: unsigned_take_bit_eq) (simp add: take_bit_eq_mod)
  have high: "unat (drop_bit 16 r) = unat r div 65536"
    by (simp only: unat_drop_bit_eq) (simp add: drop_bit_eq_div)
  have "unat r div 65536 < 65536" using unat_u32_lt [of r] by (simp add: less_mult_imp_div_less)
  moreover have "unat r mod 65536 < 65536" by simp
  ultimately have "unat r div 65536 + unat r mod 65536 < 2 ^ 32" by simp
  then show ?thesis using low high by (simp add: unat_add_small)
qed

lemma fold_step_less: "65535 < (n :: nat) \<Longrightarrow> n div 65536 + n mod 65536 < n"
proof -
  assume "65535 < n"
  then have "0 < n div 65536" by (simp add: div_greater_zero_iff)
  moreover have "n = n div 65536 * 65536 + n mod 65536" by simp
  ultimately show ?thesis by linarith
qed

function checksum_fold :: "u32 \<Rightarrow> u32" where
  "checksum_fold ret = (if ret > 0xffff then checksum_fold (drop_bit 16 ret + (ret AND 0xffff)) else ret)"
  by pat_completeness auto
termination
proof (relation "measure unat")
  fix ret :: u32
  assume "ret > 0xffff"
  then have "65535 < unat ret" by (simp add: word_less_nat_alt)
  then show "(drop_bit 16 ret + (ret AND 0xffff), ret) \<in> measure unat"
    unfolding in_measure unat_fold_step by (rule fold_step_less)
qed simp

declare checksum_fold.simps [simp del]

definition InternetChecksum_value :: "InternetChecksum \<Rightarrow> u16" where
  "InternetChecksum_value c = ucast (NOT (checksum_fold (IC_sum c)))"

section \<open>The sum as a natural number\<close>

fun ck_sum :: "bool \<Rightarrow> bytes \<Rightarrow> nat" where
  "ck_sum parity [] = 0"
| "ck_sum parity (b # bs) = (if parity then unat b else 256 * unat b) + ck_sum (\<not> parity) bs"

lemma ck_sum_append [simp]:
  "ck_sum parity (xs @ ys) = ck_sum parity xs + ck_sum (parity = even (length xs)) ys"
proof (induction xs arbitrary: parity)
  case (Cons x xs)
  show ?case by (cases parity) (simp_all add: Cons.IH)
qed simp

lemma ck_sum_le: "ck_sum parity xs \<le> 65280 * length xs"
proof (induction xs arbitrary: parity)
  case (Cons b xs)
  have "unat b \<le> 255" using unat_u8_lt [of b] by linarith
  then show ?case using Cons.IH [of "\<not> parity"] by auto
qed simp

lemma ck_sum_be_bytes_16 [simp]: "ck_sum False (be_bytes (v :: u16)) = unat v"
proof -
  have "ck_sum False (be_bytes v) = 256 * (unat v div 2 ^ 8 mod 256) + unat v div 2 ^ 0 mod 256"
    unfolding be_bytes_16 by (simp only: ck_sum.simps unat_byte) simp
  also have "unat v div 2 ^ 8 mod 256 = unat v div 256"
    using unat_u16_lt [of v] by (simp add: less_mult_imp_div_less)
  finally show ?thesis by simp
qed

lemma add_byte_sum:
  "unat (ucast (if \<not> parity then push_bit 8 (ucast b :: u16) else ucast b) :: u32)
     = (if parity then unat b else 256 * unat (b :: u8))"
proof -
  have "256 * unat b < 65536" using unat_u8_lt [of b] by linarith
  then show ?thesis by (simp add: push_bit_eq_mult unat_word_ariths mult.commute)
qed

lemma InternetChecksum_add_sum:
  assumes "unat (IC_sum c) + ck_sum (IC_parity c) data < 2 ^ 32"
  shows "unat (IC_sum (InternetChecksum_add c data)) = unat (IC_sum c) + ck_sum (IC_parity c) data
    \<and> IC_parity (InternetChecksum_add c data) = (IC_parity c = even (length data))"
  using assms
proof (induction data arbitrary: c)
  case (Cons b data)
  let ?c = "InternetChecksum_add_byte c b"
  let ?v = "ucast (if \<not> IC_parity c then push_bit 8 (ucast b :: u16) else ucast b) :: u32"
  have "IC_sum ?c = IC_sum c + ?v" by (simp add: InternetChecksum_add_byte_def Let_def)
  moreover have "unat (IC_sum c + ?v) = unat (IC_sum c) + unat ?v"
    using Cons.prems add_byte_sum [of "IC_parity c" b] by (intro unat_add_small) simp
  ultimately have "unat (IC_sum ?c) = unat (IC_sum c) + (if IC_parity c then unat b else 256 * unat b)"
    using add_byte_sum [of "IC_parity c" b] by simp
  moreover have "IC_parity ?c = (\<not> IC_parity c)" by (simp add: InternetChecksum_add_byte_def Let_def)
  ultimately show ?case
    using Cons.IH [of ?c] Cons.prems by (simp add: InternetChecksum_add_def split: if_splits)
qed (simp add: InternetChecksum_add_def)

lemma InternetChecksum_add_append:
  "InternetChecksum_add (InternetChecksum_add c xs) ys = InternetChecksum_add c (xs @ ys)"
  by (simp add: InternetChecksum_add_def)

text \<open>End-around carry is reduction modulo 65535 to the range \<open>1..65535\<close> (zero stays zero).\<close>

definition ones_fold :: "nat \<Rightarrow> nat" where
  "ones_fold n = (if n = 0 then 0 else Suc ((n - 1) mod 65535))"

lemma ones_fold_step: "65535 < n \<Longrightarrow> ones_fold (n div 65536 + n mod 65536) = ones_fold n"
proof -
  assume n: "65535 < n"
  let ?q = "n div 65536" and ?r = "n mod 65536"
  have q: "0 < ?q" using n by (simp add: div_greater_zero_iff)
  have "n - 1 = (?q + ?r - 1) + ?q * 65535" using q by (simp add: algebra_simps)
  then have "(n - 1) mod 65535 = (?q + ?r - 1) mod 65535" by simp
  then show ?thesis using q n by (simp add: ones_fold_def)
qed

lemma ones_fold_small: "n \<le> 65535 \<Longrightarrow> ones_fold n = n"
  by (auto simp: ones_fold_def)

lemma ones_fold_le: "ones_fold n \<le> 65535"
proof -
  have "(n - 1) mod 65535 < 65535" by simp
  then show ?thesis by (auto simp: ones_fold_def)
qed

lemma unat_checksum_fold: "unat (checksum_fold r) = ones_fold (unat r)"
proof (induction r rule: checksum_fold.induct)
  case (1 r)
  show ?case
  proof (cases "r > 0xffff")
    case True
    then have "65535 < unat r" by (simp add: word_less_nat_alt)
    then show ?thesis
      using "1.IH" [OF True] True ones_fold_step by (simp add: checksum_fold.simps [of r] unat_fold_step)
  next
    case False
    then have "unat r \<le> 65535" by (simp add: word_less_nat_alt)
    then show ?thesis using False by (simp add: checksum_fold.simps [of r] ones_fold_small)
  qed
qed

lemma unat_checksum_value: "unat (InternetChecksum_value c) = 65535 - ones_fold (unat (IC_sum c))"
proof -
  let ?f = "checksum_fold (IC_sum c)"
  have le: "unat ?f \<le> 65535" using unat_checksum_fold ones_fold_le by metis
  have "NOT ?f = -1 - ?f" by (simp add: not_eq_complement)
  moreover have m: "unat (-1 :: u32) = 4294967295" by (simp add: unsigned_minus_1_eq_mask mask_eq_exp_minus_1)
  ultimately have "unat (NOT ?f) = 4294967295 - unat ?f"
    using unat_diff_small [of ?f "-1"] le by (simp only: m)
  then have "unat (ucast (NOT ?f) :: u16) = (4294967295 - unat ?f) mod 65536"
    by (simp add: unat_ucast_mod)
  also have "\<dots> = (65535 - unat ?f + 65535 * 65536) mod 65536"
    using le by simp
  also have "\<dots> = 65535 - unat ?f" unfolding mod_mult_self1 by simp
  finally show ?thesis by (simp add: InternetChecksum_value_def unat_checksum_fold)
qed

lemma checksum_zero_iff:
  "InternetChecksum_value c = 0 \<longleftrightarrow> 0 < unat (IC_sum c) \<and> unat (IC_sum c) mod 65535 = 0"
proof -
  let ?n = "unat (IC_sum c)"
  have "InternetChecksum_value c = 0 \<longleftrightarrow> ones_fold ?n = 65535"
    using unat_checksum_value [of c] ones_fold_le [of ?n] by (auto simp: word_unat_eq_iff)
  also have "\<dots> \<longleftrightarrow> 0 < ?n \<and> (?n - 1) mod 65535 = 65534" by (auto simp: ones_fold_def)
  also have "\<dots> \<longleftrightarrow> 0 < ?n \<and> ?n mod 65535 = 0"
    by (cases ?n) (auto simp: mod_Suc)
  finally show ?thesis .
qed

lemma complete_block: "m + (65535 - m mod 65535) = (m div 65535 + 1) * (65535 :: nat)"
proof -
  obtain q r where qr: "q = m div 65535" "r = m mod 65535" by blast
  then have "m = q * 65535 + r" "r < 65535" by simp_all
  then show ?thesis unfolding qr [symmetric] by simp
qed

lemma mod_cancel_small:
  fixes a b r m :: nat
  assumes eq: "(r + a) mod m = (r + b) mod m" and "a < m" and "b < m"
  shows "a = b"
proof -
  have *: "x = y" if "(r + x) mod m = (r + y) mod m" "x \<le> y" "y < m" for x y
  proof -
    have "m dvd (r + y) - (r + x)" 
      by (rule mod_eq_dvd_iff_nat [THEN iffD1]) (use that in simp_all)
    then have "m dvd y - x" by simp
    then show ?thesis using that(2,3) by (auto dest!: dvd_imp_le)
  qed
  show ?thesis using * [of a b] * [of b a] assms by (cases "a \<le> b") simp_all
qed

lemma ones_fold_complement: "(n + (65535 - ones_fold n)) mod 65535 = 0 \<and> 0 < n + (65535 - ones_fold n)"
proof (cases "n = 0")
  case False
  then have "n + (65535 - ones_fold n) = n - 1 + (65535 - (n - 1) mod 65535)"
    using ones_fold_le [of n] by (auto simp: ones_fold_def)
  also have "\<dots> = ((n - 1) div 65535 + 1) * 65535"
    by (rule complete_block)
  finally show ?thesis using False by simp
qed (simp add: ones_fold_def)


lemma checksum_of_data:
  assumes "unat initial + ck_sum False data < 2 ^ 32"
  shows "unat (InternetChecksum_value (InternetChecksum_add (InternetChecksum_new initial) data))
      = 65535 - ones_fold (unat initial + ck_sum False data)"
    and "InternetChecksum_value (InternetChecksum_add (InternetChecksum_new initial) data) = 0
      \<longleftrightarrow> 0 < unat initial + ck_sum False data \<and> (unat initial + ck_sum False data) mod 65535 = 0"
proof -
  have "unat (IC_sum (InternetChecksum_add (InternetChecksum_new initial) data)) = unat initial + ck_sum False data"
    using InternetChecksum_add_sum [of "InternetChecksum_new initial" data] assms
    by (simp add: InternetChecksum_new_def)
  then show "unat (InternetChecksum_value (InternetChecksum_add (InternetChecksum_new initial) data))
      = 65535 - ones_fold (unat initial + ck_sum False data)"
    and "InternetChecksum_value (InternetChecksum_add (InternetChecksum_new initial) data) = 0
      \<longleftrightarrow> 0 < unat initial + ck_sum False data \<and> (unat initial + ck_sum False data) mod 65535 = 0"
    by (simp_all only: unat_checksum_value checksum_zero_iff)
qed

lemma checksum_field:
  assumes "even (length pre)"
    and "unat initial + ck_sum False (pre @ be_bytes (0 :: u16) @ post) + 65535 < 2 ^ 32"
    and "c = InternetChecksum_value
               (InternetChecksum_add (InternetChecksum_new initial) (pre @ be_bytes (0 :: u16) @ post))"
  shows "InternetChecksum_value (InternetChecksum_add (InternetChecksum_new initial) (pre @ be_bytes c @ post)) = 0"
proof -
  define n where "n = unat initial + ck_sum False (pre @ be_bytes (0 :: u16) @ post)"
  have small: "n + 65535 < 2 ^ 32" using assms(2) unfolding n_def .
  then have c: "unat c = 65535 - ones_fold n"
    unfolding assms(3) n_def by (intro checksum_of_data(1)) simp
  have sum: "unat initial + ck_sum False (pre @ be_bytes c @ post) = n + unat c"
    using assms(1) by (simp add: n_def)
  show ?thesis
  proof (subst checksum_of_data(2))
    show "unat initial + ck_sum False (pre @ be_bytes c @ post) < 2 ^ 32"
      unfolding sum c using small by linarith
  qed (use ones_fold_complement [of n] in \<open>simp only: sum c\<close>)
qed

section \<open>Properties\<close>

text \<open>C26: computing the checksum with its field zero and storing it there makes the packet verify:
  the checksum of the completed packet is zero, for every content and every even position of the
  field, as long as the 32-bit sum does not overflow.\<close>

theorem checksum_verifies:
  assumes "even (length pre)" and "65280 * (length pre + length post) + 65535 < 2 ^ 32"
    and "c = InternetChecksum_value
               (InternetChecksum_add (InternetChecksum_new 0) (pre @ NetUnparser_u16 [] 0 @ post))"
  shows "InternetChecksum_value
           (InternetChecksum_add (InternetChecksum_new 0) (pre @ NetUnparser_u16 [] c @ post)) = 0"
proof -
  have "ck_sum False (pre @ be_bytes (0 :: u16) @ post) \<le> 65280 * (length pre + length post)"
    using assms(1) ck_sum_le [of False pre] ck_sum_le [of False post] by simp
  then show ?thesis
    using checksum_field [OF assms(1), of 0 post c] assms(2,3) by (simp add: NetUnparser_u16_def)
qed

theorem checksum_verifies_witness:
  "InternetChecksum_value (InternetChecksum_add (InternetChecksum_new 0) ([0x45, 0, 0, 0x28] @
     NetUnparser_u16 [] (InternetChecksum_value (InternetChecksum_add (InternetChecksum_new 0)
        ([0x45, 0, 0, 0x28] @ NetUnparser_u16 [] 0 @ [7]))) @ [7])) = 0"
  by (rule checksum_verifies) simp_all

text \<open>A packet that verifies no longer does when one of its bytes is changed.\<close>

lemma checksum_detects_byte:
  assumes "65280 * (length pre + length post + 1) < 2 ^ 32" and "x \<noteq> y"
    and "InternetChecksum_value (InternetChecksum_add (InternetChecksum_new 0) (pre @ x # post)) = 0"
  shows "InternetChecksum_value (InternetChecksum_add (InternetChecksum_new 0) (pre @ y # post)) \<noteq> 0"
proof
  assume zero: "InternetChecksum_value (InternetChecksum_add (InternetChecksum_new 0) (pre @ y # post)) = 0"
  let ?k = "if odd (length pre) then 1 else 256 :: nat"
  define r where "r = ck_sum False pre + ck_sum (even (length pre)) post"
  have sum: "ck_sum False (pre @ z # post) = r + ?k * unat z" for z by (simp add: r_def)
  have small: "unat (0 :: u32) + ck_sum False (pre @ z # post) < 2 ^ 32" for z
    using ck_sum_le [of False "pre @ z # post"] assms(1) by (simp del: ck_sum_append ck_sum.simps)
  have "(r + ?k * unat x) mod 65535 = (r + ?k * unat y) mod 65535"
    using assms(3) zero checksum_of_data(2) [OF small] by (simp only: sum) simp
  moreover have lt: "?k * unat z < 65535" for z :: u8
  proof -
    have "unat z \<le> 255" using unat_u8_lt [of z] by linarith
    then show ?thesis by auto
  qed
  ultimately have "?k * unat x = ?k * unat y" using lt by (blast intro: mod_cancel_small)
  then show False using assms(2) by (auto simp: word_unat_eq_iff split: if_splits)
qed

lemma checksum_detects_byte_example:
  "InternetChecksum_value (InternetChecksum_add (InternetChecksum_new 0) ([0xff] @ 0xfe # [])) \<noteq> 0"
proof (rule checksum_detects_byte)
  show "InternetChecksum_value (InternetChecksum_add (InternetChecksum_new 0) ([0xff] @ 0xff # [])) = 0"
    by (subst checksum_of_data(2) [of 0, simplified]) simp_all
qed simp_all

end
