(* ===== verification/Wrapping_Integers.thy ===== *)
theory Wrapping_Integers
  imports Sponge_Prelude
begin

text \<open>
  \<^verbatim>\<open>libsponge/wrapping_integers.hh\<close> and \<^verbatim>\<open>.cc\<close>: 32-bit
  sequence numbers relative to an initial sequence number, and their conversion to and from
  64-bit absolute sequence numbers. The facts the receiver and the sender need are collected in
  the locale \<open>seqno_codec\<close>, interpreted on \<open>wrap\<close> and \<open>unwrap\<close>.
\<close>

section \<open>The class and its operators\<close>

datatype WrappingInt32 = WrappingInt32 (raw_value: u32)

text \<open>\<^verbatim>\<open>operator-(WrappingInt32, WrappingInt32)\<close> returns an
  \<^verbatim>\<open>int32_t\<close>: the word is the two's complement pattern, read with \<open>sint\<close>.\<close>

definition wint_diff :: "WrappingInt32 \<Rightarrow> WrappingInt32 \<Rightarrow> u32" where
  "wint_diff a b = raw_value a - raw_value b"

definition wint_eq :: "WrappingInt32 \<Rightarrow> WrappingInt32 \<Rightarrow> bool" where
  "wint_eq a b \<longleftrightarrow> raw_value a = raw_value b"

definition wint_neq :: "WrappingInt32 \<Rightarrow> WrappingInt32 \<Rightarrow> bool" where
  "wint_neq a b \<longleftrightarrow> \<not> wint_eq a b"

definition wint_plus :: "WrappingInt32 \<Rightarrow> u32 \<Rightarrow> WrappingInt32" where
  "wint_plus a b = WrappingInt32 (raw_value a + b)"

definition wint_minus :: "WrappingInt32 \<Rightarrow> u32 \<Rightarrow> WrappingInt32" where
  "wint_minus a b = wint_plus a (- b)"

section \<open>wrap and unwrap\<close>

definition uint32_bits :: u64 where
  "uint32_bits = push_bit 32 1"

definition wrap :: "u64 \<Rightarrow> WrappingInt32 \<Rightarrow> WrappingInt32" where
  "wrap n isn =
     (let isn_raw = ucast (raw_value isn) :: u64;
          mod_result = ucast (((n mod uint32_bits) + (isn_raw mod uint32_bits)) mod uint32_bits) :: u32
      in WrappingInt32 mod_result)"

text \<open>
  The \<^verbatim>\<open>int64_t diff\<close> is the sign extension of the 32-bit difference; it is added
  to the unsigned checkpoint modulo \<open>2 ^ 64\<close>. The test on the signed sum is made on exact
  integers (the C++ expression has a defined value exactly where the sum fits in 64 bits).
\<close>

definition unwrap :: "WrappingInt32 \<Rightarrow> WrappingInt32 \<Rightarrow> u64 \<Rightarrow> u64" where
  "unwrap n isn checkpoint =
     (let diff = scast (wint_diff n (wrap checkpoint isn)) :: u64
      in checkpoint + diff + (if sint checkpoint + sint diff < 0 then uint32_bits else 0))"

section \<open>Reading the definitions as integer arithmetic\<close>

lemma uint32_bits_val [simp]: "uint32_bits = 4294967296"
  by (simp add: uint32_bits_def)

lemma WrappingInt32_eq_iff: "a = b \<longleftrightarrow> raw_value a = raw_value b"
  by (cases a; cases b) simp

lemma wint_eq_iff [simp]: "wint_eq a b \<longleftrightarrow> a = b"
  by (simp add: wint_eq_def WrappingInt32_eq_iff)

lemma wint_neq_iff [simp]: "wint_neq a b \<longleftrightarrow> a \<noteq> b"
  by (simp add: wint_neq_def)

lemma raw_wrap: "raw_value (wrap n isn) = ucast n + raw_value isn"
proof (rule word_unat_eq_iff [THEN iffD2])
  have "unat (raw_value isn) mod 4294967296 = unat (raw_value isn)"
    by (simp add: mod_less)
  moreover have "(unat n mod 4294967296 + unat (raw_value isn)) mod 18446744073709551616
      = unat n mod 4294967296 + unat (raw_value isn)"
  proof (rule mod_less)
    have "unat n mod 4294967296 < 4294967296" "unat (raw_value isn) < 4294967296" by simp_all
    then show "unat n mod 4294967296 + unat (raw_value isn) < 18446744073709551616" by linarith
  qed
  ultimately show "unat (raw_value (wrap n isn)) = unat (ucast n + raw_value isn)"
    by (simp add: wrap_def unat_ucast_mod unat_word_ariths unat_mod mod_simps)
qed

text \<open>The signed distance from the checkpoint to the sequence number, as an integer.\<close>

definition seq_dist :: "WrappingInt32 \<Rightarrow> WrappingInt32 \<Rightarrow> u64 \<Rightarrow> int" where
  "seq_dist n isn checkpoint = sint (wint_diff n (wrap checkpoint isn))"

lemma seq_dist_bounds: "- (2 ^ 31) \<le> seq_dist n isn c" "seq_dist n isn c < 2 ^ 31"
  using sint_range_size [of "wint_diff n (wrap c isn)"]
  by (simp_all add: seq_dist_def word_size)

lemma uint_scast64: "sint (scast (d :: u32) :: u64) = sint d"
proof -
  have "- (2 ^ 31) \<le> sint d" "sint d < 2 ^ 31"
    using sint_range_size [of d] by (simp_all add: word_size)
  then have "signed_take_bit 63 (sint d) = sint d"
    by (intro signed_take_bit_int_eq_self) simp_all
  then show ?thesis
    by (simp add: signed_scast_eq)
qed

lemma unwrap_int:
  "unwrap n isn c =
     word_of_int (uint c + seq_dist n isn c
       + (if sint c + seq_dist n isn c < 0 then 2 ^ 32 else 0))"
  by (simp add: unwrap_def Let_def uint_scast64 seq_dist_def)

lemma seq_dist_signed: "seq_dist (wrap x isn) isn c = signed_take_bit 31 (uint x - uint c)"
proof -
  have "wint_diff (wrap x isn) (wrap c isn) = (word_of_int (uint x - uint c) :: u32)"
    by (simp add: wint_diff_def raw_wrap)
  then have "seq_dist (wrap x isn) isn c = sint (word_of_int (uint x - uint c) :: u32)"
    by (simp only: seq_dist_def)
  also have "\<dots> = signed_take_bit 31 (uint x - uint c)"
    by (subst signed_of_int) simp
  finally show ?thesis .
qed

lemma seq_dist_mod: "seq_dist (wrap x isn) isn c mod 2 ^ 32 = (uint x - uint c) mod 2 ^ 32"
proof -
  have "take_bit 32 (signed_take_bit 31 (uint x - uint c)) = take_bit 32 (uint x - uint c)"
    by (rule take_bit_signed_take_bit) simp
  then show ?thesis
    by (simp add: seq_dist_signed take_bit_eq_mod)
qed

lemma seq_dist_wrap:
  assumes "- (2 ^ 31) \<le> uint x - uint c" and "uint x - uint c < 2 ^ 31"
  shows "seq_dist (wrap x isn) isn c = uint x - uint c"
  using assms by (simp add: seq_dist_signed signed_take_bit_int_eq_self)

lemma sint_small_u64: "uint (c :: u64) < 2 ^ 63 \<Longrightarrow> sint c = uint c"
  using signed_take_bit_int_eq_self [of 63 "uint c"] order_trans [OF _ uint_ge_0 [of c]]
  by (simp add: sint_uint)

lemma sint_large_u64:
  assumes "2 ^ 63 \<le> uint (c :: u64)"
  shows "sint c < 0"
proof (rule ccontr)
  assume "\<not> sint c < 0"
  then have pos: "0 \<le> sint c" by simp
  have lt: "sint c < 2 ^ 63" using sint_range_size [of c] by (simp add: word_size)
  have "uint c = take_bit 64 (sint c)" by (simp add: uint_sint)
  also have "\<dots> = sint c" using pos lt by (intro take_bit_int_eq_self) simp_all
  finally show False using assms lt by simp
qed

lemma wrap_cong: "uint x mod 2 ^ 32 = uint y mod 2 ^ 32 \<longleftrightarrow> wrap x isn = wrap y isn"
proof -
  have "ucast x = (ucast y :: u32) \<longleftrightarrow> uint x mod 2 ^ 32 = uint y mod 2 ^ 32"
    by (simp add: word_uint_eq_iff unsigned_ucast_eq take_bit_eq_mod)
  then show ?thesis
    by (simp add: WrappingInt32_eq_iff raw_wrap)
qed

lemma wrap_surj: "\<exists>x. n = wrap x isn"
  by (rule exI [of _ "ucast (raw_value n - raw_value isn)"])
    (simp add: WrappingInt32_eq_iff raw_wrap ucast_up_ucast_id is_up.rep_eq)


section \<open>Correctness of the conversion\<close>

text \<open>
  An absolute sequence number is near a checkpoint when it lies within half the 32-bit circle
  of it; below \<open>2 ^ 63\<close> the code's signed test is exact.
\<close>

definition near :: "u64 \<Rightarrow> u64 \<Rightarrow> bool" where
  "near x c \<longleftrightarrow> uint c < 2 ^ 63 \<and> uint x < 2 ^ 63
     \<and> - (2 ^ 31) \<le> uint x - uint c \<and> uint x - uint c < 2 ^ 31"

lemma unwrap_wrap_near: "near x c \<Longrightarrow> unwrap (wrap x isn) isn c = x"
  by (simp add: near_def unwrap_int seq_dist_wrap sint_small_u64 not_less)

lemma wrap_unwrap_any: "wrap (unwrap n isn c) isn = n"
proof -
  obtain x where n: "n = wrap x isn" using wrap_surj by blast
  let ?D = "seq_dist n isn c"
  let ?k = "if sint c + ?D < 0 then 2 ^ 32 else 0 :: int"
  have "uint (unwrap n isn c) mod 2 ^ 32 = (uint c + ?D + ?k) mod 2 ^ 64 mod 2 ^ 32"
    unfolding unwrap_int by (subst uint_word_of_int) simp
  also have "\<dots> = (uint c + ?D + ?k) mod 2 ^ 32"
    by (rule mod_mod_cancel) simp
  also have "\<dots> = (uint c + ?D mod 2 ^ 32) mod 2 ^ 32"
    by (simp add: mod_simps)
  also have "\<dots> = uint x mod 2 ^ 32"
    unfolding n seq_dist_mod by (simp add: mod_simps)
  finally show ?thesis
    using n wrap_cong by blast
qed

locale seqno_codec =
  fixes enc :: "u64 \<Rightarrow> 'w \<Rightarrow> 'w"
    and dec :: "'w \<Rightarrow> 'w \<Rightarrow> u64 \<Rightarrow> u64"
    and close :: "u64 \<Rightarrow> u64 \<Rightarrow> bool"
  assumes dec_enc: "close x c \<Longrightarrow> dec (enc x i) i c = x"
    and enc_dec: "enc (dec n i c) i = n"
begin

lemma enc_inj_close: "close x c \<Longrightarrow> close y c \<Longrightarrow> enc x i = enc y i \<Longrightarrow> x = y"
  by (metis dec_enc)

lemma dec_unique: "close x c \<Longrightarrow> enc x i = n \<Longrightarrow> dec n i c = x"
  using dec_enc by blast

lemma dec_inj: "dec m i c = dec n i c \<Longrightarrow> m = n"
  by (metis enc_dec)

end

interpretation seqno: seqno_codec wrap unwrap near
  by unfold_locales (rule unwrap_wrap_near, assumption, rule wrap_unwrap_any)


lemma uint_unwrap:
  assumes "uint c < 2 ^ 63"
  shows "uint (unwrap n isn c) =
    (if uint c + seq_dist n isn c < 0 then uint c + seq_dist n isn c + 2 ^ 32
     else uint c + seq_dist n isn c)"
proof -
  let ?v = "uint c + seq_dist n isn c + (if uint c + seq_dist n isn c < 0 then 2 ^ 32 else 0)"
  have range: "0 \<le> a \<Longrightarrow> a < 2 ^ 63 \<Longrightarrow> - (2 ^ 31) \<le> d \<Longrightarrow> d < 2 ^ 31 \<Longrightarrow>
    0 \<le> a + d + (if a + d < 0 then 2 ^ 32 else 0) \<and> a + d + (if a + d < 0 then 2 ^ 32 else 0) < 2 ^ 64"
    for a d :: int by auto
  have "0 \<le> ?v" and "?v < 2 ^ 64"
    using range [OF uint_ge_0 assms seq_dist_bounds] by blast+
  then have "?v mod 2 ^ 64 = ?v" by (rule mod_pos_pos_trivial)
  moreover have "uint (unwrap n isn c) = ?v mod 2 ^ 64"
    unfolding unwrap_int sint_small_u64 [OF assms] by (subst uint_word_of_int) simp
  ultimately show ?thesis by simp
qed

text \<open>C18: unwrap inverts wrap: an absolute sequence number within half the 32-bit circle of the
  checkpoint is recovered exactly from its 32-bit form.\<close>

theorem unwrap_wrap:
  assumes "near x checkpoint"
  shows "unwrap (wrap x isn) isn checkpoint = x"
  using assms by (rule seqno.dec_enc)

theorem unwrap_wrap_witness:
  "unwrap (wrap 4294967301 (WrappingInt32 4294967290)) (WrappingInt32 4294967290) 4294967200
     = 4294967301"
  by (rule unwrap_wrap) (simp add: near_def)

text \<open>Unwrap returns an absolute sequence number that wraps to its argument, and among all
  those none is closer to the checkpoint.\<close>

lemma unwrap_closest:
  assumes c: "uint checkpoint < 2 ^ 63" and y: "wrap y isn = n"
  shows "wrap (unwrap n isn checkpoint) isn = n
    \<and> \<bar>uint (unwrap n isn checkpoint) - uint checkpoint\<bar> \<le> \<bar>uint y - uint checkpoint\<bar>"
proof (intro conjI)
  let ?u = "uint (unwrap n isn checkpoint)"
  show w: "wrap (unwrap n isn checkpoint) isn = n" by (rule seqno.enc_dec)
  with y have "uint y mod 2 ^ 32 = ?u mod 2 ^ 32" by (metis wrap_cong)
  then obtain k where k: "uint y = ?u + 2 ^ 32 * k"
    by (metis mod_eqE)
  have ge: "0 \<le> uint y" by simp
  consider "k = 0" | "1 \<le> k" | "k \<le> -1" by linarith
  then show "\<bar>?u - uint checkpoint\<bar> \<le> \<bar>uint y - uint checkpoint\<bar>"
    using k ge uint_unwrap [OF c, of n isn] seq_dist_bounds [of n isn checkpoint]
    by cases (auto split: if_splits)
qed

lemma unwrap_closest_example:
  "wrap (unwrap (WrappingInt32 4294967295) (WrappingInt32 0) 0) (WrappingInt32 0)
      = WrappingInt32 4294967295
   \<and> \<bar>uint (unwrap (WrappingInt32 4294967295) (WrappingInt32 0) 0) - uint (0 :: u64)\<bar>
      \<le> \<bar>uint (4294967295 :: u64) - uint (0 :: u64)\<bar>"
  by (rule unwrap_closest) (simp_all add: wrap_def)

text \<open>Beyond \<open>2 ^ 63\<close> the signed test of unwrap misfires: with such a checkpoint, the
  sequence number of the checkpoint itself is unwrapped one whole circle too far.\<close>

lemma unwrap_high_checkpoint:
  assumes "2 ^ 63 \<le> uint checkpoint" and "uint checkpoint < 2 ^ 64 - 2 ^ 32"
  shows "unwrap (wrap checkpoint isn) isn checkpoint = checkpoint + 4294967296"
proof -
  have "sint checkpoint < 0"
    using assms(1) by (rule sint_large_u64)
  then show ?thesis
    by (simp add: unwrap_int seq_dist_wrap)
qed

lemma unwrap_high_checkpoint_example:
  "unwrap (wrap 9223372036854775808 (WrappingInt32 7)) (WrappingInt32 7) 9223372036854775808
     = 9223372036854775808 + 4294967296"
  by (rule unwrap_high_checkpoint) simp_all

end
