(* ===== verification/TCP_Segment.thy ===== *)
theory TCP_Segment
  imports Internet_Checksum Wrapping_Integers
begin

text \<open>
  TCP headers and segments, from \<^verbatim>\<open>tcp_helpers/tcp_header\<close> and
  \<^verbatim>\<open>tcp_helpers/tcp_segment\<close>: parsing and serialization with their checksum. Shown
  here: the header is a wire codec, a serialized segment parses back to itself, parsing never throws,
  and what the parser accepts although the header parser refused it.
\<close>

section \<open>TCPHeader\<close>

record TCPHeader =
  TH_sport :: u16
  TH_dport :: u16
  TH_seqno :: WrappingInt32
  TH_ackno :: WrappingInt32
  TH_doff :: u8
  TH_urg :: bool
  TH_ack :: bool
  TH_psh :: bool
  TH_rst :: bool
  TH_syn :: bool
  TH_fin :: bool
  TH_win :: u16
  TH_cksum :: u16
  TH_uptr :: u16

definition TCPHeader_LENGTH :: u64 where
  "TCPHeader_LENGTH = 20"

definition TCPHeader_new :: TCPHeader where
  "TCPHeader_new = \<lparr>TH_sport = 0, TH_dport = 0, TH_seqno = WrappingInt32 0, TH_ackno = WrappingInt32 0,
     TH_doff = ucast (TCPHeader_LENGTH div 4), TH_urg = False, TH_ack = False, TH_psh = False, TH_rst = False,
     TH_syn = False, TH_fin = False, TH_win = 0, TH_cksum = 0, TH_uptr = 0\<rparr>"

definition TCPHeader_parse :: "TCPHeader \<Rightarrow> (ParseResult \<times> TCPHeader) parser" where
  "TCPHeader_parse h =
     bindP NetParser_u16 (\<lambda>sport.
     bindP NetParser_u16 (\<lambda>dport.
     bindP NetParser_u32 (\<lambda>seqno.
     bindP NetParser_u32 (\<lambda>ackno.
     bindP NetParser_u8 (\<lambda>off_b.
     let doff = drop_bit 4 off_b in
     bindP NetParser_u8 (\<lambda>fl_b.
     bindP NetParser_u16 (\<lambda>win.
     bindP NetParser_u16 (\<lambda>cksum.
     bindP NetParser_u16 (\<lambda>uptr.
     let h' = h\<lparr>TH_sport := sport, TH_dport := dport, TH_seqno := WrappingInt32 seqno,
                TH_ackno := WrappingInt32 ackno, TH_doff := doff,
                TH_urg := (fl_b AND 0x20 \<noteq> 0), TH_ack := (fl_b AND 0x10 \<noteq> 0),
                TH_psh := (fl_b AND 0x08 \<noteq> 0), TH_rst := (fl_b AND 0x04 \<noteq> 0),
                TH_syn := (fl_b AND 0x02 \<noteq> 0), TH_fin := (fl_b AND 0x01 \<noteq> 0),
                TH_win := win, TH_cksum := cksum, TH_uptr := uptr\<rparr> in
     if doff < 5 then returnP (HeaderTooShort, h')
     else bindP (NetParser_remove_prefix (ucast doff * 4 - TCPHeader_LENGTH)) (\<lambda>_.
          bindP get_errorP (\<lambda>e.
          if e \<noteq> NoError then returnP (e, h') else returnP (NoError, h'))))))))))))"

definition flag_bit :: "bool \<Rightarrow> u8 \<Rightarrow> u8" where
  "flag_bit f m = (if f then m else 0)"

definition TCPHeader_flags :: "TCPHeader \<Rightarrow> u8" where
  "TCPHeader_flags h = flag_bit (TH_urg h) 0x20 OR flag_bit (TH_ack h) 0x10 OR flag_bit (TH_psh h) 0x08
     OR flag_bit (TH_rst h) 0x04 OR flag_bit (TH_syn h) 0x02 OR flag_bit (TH_fin h) 0x01"

definition TCPHeader_serialize :: "TCPHeader \<Rightarrow> bytes result" where
  "TCPHeader_serialize h =
     (if TH_doff h < 5 then Inl (RuntimeError ''TCP header too short'')
      else let ret = [];
               ret = NetUnparser_u16 ret (TH_sport h);
               ret = NetUnparser_u16 ret (TH_dport h);
               ret = NetUnparser_u32 ret (raw_value (TH_seqno h));
               ret = NetUnparser_u32 ret (raw_value (TH_ackno h));
               ret = NetUnparser_u8 ret (push_bit 4 (TH_doff h));
               ret = NetUnparser_u8 ret (TCPHeader_flags h);
               ret = NetUnparser_u16 ret (TH_win h);
               ret = NetUnparser_u16 ret (TH_cksum h);
               ret = NetUnparser_u16 ret (TH_uptr h)
           in Inr (str_resize ret (4 * ucast (TH_doff h))))"

text \<open>The comparison of headers leaves the ports and the checksum out.\<close>

definition TCPHeader_eq :: "TCPHeader \<Rightarrow> TCPHeader \<Rightarrow> bool" where
  "TCPHeader_eq h other \<longleftrightarrow> wint_eq (TH_seqno h) (TH_seqno other) \<and> wint_eq (TH_ackno h) (TH_ackno other)
     \<and> TH_doff h = TH_doff other \<and> TH_urg h = TH_urg other \<and> TH_ack h = TH_ack other \<and> TH_psh h = TH_psh other
     \<and> TH_rst h = TH_rst other \<and> TH_syn h = TH_syn other \<and> TH_fin h = TH_fin other \<and> TH_win h = TH_win other
     \<and> TH_uptr h = TH_uptr other"

section \<open>TCPSegment\<close>

record TCPSegment =
  TS_header :: TCPHeader
  TS_payload :: Buffer

definition TCPSegment_new :: TCPSegment where
  "TCPSegment_new = \<lparr>TS_header = TCPHeader_new, TS_payload = Buffer_default\<rparr>"

definition TCPSegment_parse :: "TCPSegment \<Rightarrow> Buffer \<Rightarrow> u32 \<Rightarrow> (ParseResult \<times> TCPSegment) result" where
  "TCPSegment_parse seg buffer datagram_layer_checksum =
     (let check = InternetChecksum_add (InternetChecksum_new datagram_layer_checksum) (Buffer_str buffer)
      in if InternetChecksum_value check \<noteq> 0 then Inr (BadChecksum, seg)
         else bindR (TCPHeader_parse (TS_header seg) (NetParser_new buffer)) (\<lambda>((_, h), p).
              Inr (NP_error p, seg\<lparr>TS_header := h, TS_payload := NP_buffer p\<rparr>)))"

definition TCPSegment_length_in_sequence_space :: "TCPSegment \<Rightarrow> u64" where
  "TCPSegment_length_in_sequence_space seg =
     str_size (Buffer_str (TS_payload seg)) + (if TH_syn (TS_header seg) then 1 else 0)
       + (if TH_fin (TS_header seg) then 1 else 0)"

definition TCPSegment_serialize :: "TCPSegment \<Rightarrow> u32 \<Rightarrow> BufferList result" where
  "TCPSegment_serialize seg datagram_layer_checksum =
     (let header_out = (TS_header seg)\<lparr>TH_cksum := 0\<rparr>
      in bindR (TCPHeader_serialize header_out) (\<lambda>hdr.
         let check = InternetChecksum_add (InternetChecksum_new datagram_layer_checksum) hdr;
             check = InternetChecksum_add check (Buffer_str (TS_payload seg));
             header_out = header_out\<lparr>TH_cksum := InternetChecksum_value check\<rparr>
         in bindR (TCPHeader_serialize header_out) (\<lambda>hdr'.
            Inr (BufferList_append (BufferList_append BufferList_default (BufferList_of_string hdr'))
                  (BufferList_of_Buffer (TS_payload seg))))))"


section \<open>The header on the wire\<close>

lemma flags_bits [simp]:
  "TCPHeader_flags h AND 0x20 \<noteq> 0 \<longleftrightarrow> TH_urg h"
  "TCPHeader_flags h AND 0x10 \<noteq> 0 \<longleftrightarrow> TH_ack h"
  "TCPHeader_flags h AND 0x08 \<noteq> 0 \<longleftrightarrow> TH_psh h"
  "TCPHeader_flags h AND 0x04 \<noteq> 0 \<longleftrightarrow> TH_rst h"
  "TCPHeader_flags h AND 0x02 \<noteq> 0 \<longleftrightarrow> TH_syn h"
  "TCPHeader_flags h AND 0x01 \<noteq> 0 \<longleftrightarrow> TH_fin h"
  by (cases "TH_urg h"; cases "TH_ack h"; cases "TH_psh h"; cases "TH_rst h"; cases "TH_syn h"; cases "TH_fin h";
      simp add: TCPHeader_flags_def flag_bit_def)+

lemma nibble_shift:
  assumes "unat (d :: u8) < 16"
  shows "drop_bit 4 (push_bit 4 d) = d"
proof -
  have "unat (push_bit 4 d) = unat d * 16"
    using assms by (simp add: push_bit_eq_mult unat_word_ariths mult.commute)
  then have "unat (drop_bit 4 (push_bit 4 d)) = unat d"
    by (simp only: unat_drop_bit_eq) (simp add: drop_bit_eq_div)
  then show ?thesis by (simp add: word_unat_eq_iff)
qed

definition TCPHeader_pre :: "TCPHeader \<Rightarrow> bytes" where
  "TCPHeader_pre h = be_bytes (TH_sport h) @ be_bytes (TH_dport h) @ be_bytes (raw_value (TH_seqno h))
     @ be_bytes (raw_value (TH_ackno h)) @ [push_bit 4 (TH_doff h), TCPHeader_flags h] @ be_bytes (TH_win h)"

definition TCPHeader_post :: "TCPHeader \<Rightarrow> bytes" where
  "TCPHeader_post h = be_bytes (TH_uptr h) @ replicate (4 * unat (TH_doff h) - 20) 0"

definition TCPHeader_ok :: "TCPHeader \<Rightarrow> bool" where
  "TCPHeader_ok h \<longleftrightarrow> 5 \<le> unat (TH_doff h) \<and> unat (TH_doff h) < 16"

lemma length_pre [simp]: "length (TCPHeader_pre h) = 16"
  by (simp add: TCPHeader_pre_def)

lemma TCPHeader_serialize_bytes:
  assumes "5 \<le> unat (TH_doff h)"
  shows "TCPHeader_serialize h = Inr (TCPHeader_pre h @ be_bytes (TH_cksum h) @ TCPHeader_post h)"
proof -
  have "\<not> TH_doff h < 5" using assms by (simp add: word_less_nat_alt)
  then show ?thesis
    using assms
    by (simp add: TCPHeader_serialize_def NetUnparser_u8_def NetUnparser_u16_def NetUnparser_u32_def
        str_resize_pad TCPHeader_pre_def TCPHeader_post_def)
qed

lemma TCPHeader_serialize_short:
  "unat (TH_doff h) < 5 \<Longrightarrow> TCPHeader_serialize h = Inl (RuntimeError ''TCP header too short'')"
  by (simp add: TCPHeader_serialize_def word_less_nat_alt)

lemma unat_header_skip:
  assumes "5 \<le> unat (d :: u8)"
  shows "unat (ucast d * 4 - TCPHeader_LENGTH) = 4 * unat d - 20"
  using assms by (simp add: TCPHeader_LENGTH_def unat_diff_small)

lemma TCPHeader_update_all:
  "h0\<lparr>TH_sport := TH_sport h, TH_dport := TH_dport h, TH_seqno := TH_seqno h, TH_ackno := TH_ackno h,
     TH_doff := TH_doff h, TH_urg := TH_urg h, TH_ack := TH_ack h, TH_psh := TH_psh h, TH_rst := TH_rst h,
     TH_syn := TH_syn h, TH_fin := TH_fin h, TH_win := TH_win h, TH_cksum := TH_cksum h,
     TH_uptr := TH_uptr h\<rparr> = (h :: TCPHeader)"
  by (cases h) simp

text \<open>The fields read from any twenty bytes, before the data offset is looked at.\<close>

lemma TCPHeader_parse_fields:
  assumes "raw_value (TH_seqno h) = seqno" and "raw_value (TH_ackno h) = ackno"
    and "parses (if TH_doff h < 5 then returnP (HeaderTooShort, h)
      else bindP (NetParser_remove_prefix (ucast (TH_doff h) * 4 - TCPHeader_LENGTH)) (\<lambda>_.
           bindP get_errorP (\<lambda>e. if e \<noteq> NoError then returnP (e, h) else returnP (NoError, h)))) rest v rest'"
    and "unat (TH_doff h) < 16"
  shows "parses (TCPHeader_parse h0) (TCPHeader_pre h @ be_bytes (TH_cksum h) @ be_bytes (TH_uptr h) @ rest) v rest'"
proof -
  have raw: "WrappingInt32 seqno = TH_seqno h" "WrappingInt32 ackno = TH_ackno h" using assms(1,2) by auto
  show ?thesis
    using assms(3)
    unfolding TCPHeader_parse_def Let_def TCPHeader_pre_def append_assoc append.simps assms(1,2)
    by (intro parses_bind [OF parses_u16] parses_bind [OF parses_u32] parses_bind [OF parses_u8])
      (simp add: nibble_shift [OF assms(4)] raw TCPHeader_update_all cong: if_cong)
qed

lemma TCPHeader_parse_serialized:
  assumes "TCPHeader_ok h"
  shows "parses (TCPHeader_parse h0) (TCPHeader_pre h @ be_bytes (TH_cksum h) @ TCPHeader_post h @ rest) (NoError, h) rest"
proof -
  have d: "5 \<le> unat (TH_doff h)" "unat (TH_doff h) < 16" using assms by (simp_all add: TCPHeader_ok_def)
  then have "\<not> TH_doff h < 5" by (simp add: word_less_nat_alt)
  moreover have "parses (NetParser_remove_prefix (ucast (TH_doff h) * 4 - TCPHeader_LENGTH))
      (replicate (4 * unat (TH_doff h) - 20) 0 @ rest) () rest"
    using parses_remove [of "ucast (TH_doff h) * 4 - TCPHeader_LENGTH"
        "replicate (4 * unat (TH_doff h) - 20) 0 @ rest"] d(1)
    by (simp add: unat_header_skip)
  ultimately show ?thesis
    unfolding TCPHeader_post_def append_assoc
    by (intro TCPHeader_parse_fields [OF refl refl _ d(2)])
      (auto intro!: parses_bind [OF _ parses_bind [OF parses_get_error]])
qed

lemma TCPHeader_parse_total: "never_throws (TCPHeader_parse h)"
  unfolding TCPHeader_parse_def Let_def by (intro never_throws_bind) auto

interpretation tcp_wire: wire_codec "\<lambda>h rest. TCPHeader_ok h" TCPHeader_serialize TCPHeader_parse
  by unfold_locales
    (auto simp: TCPHeader_serialize_bytes TCPHeader_ok_def TCPHeader_parse_serialized TCPHeader_parse_total)


section \<open>Segments on the wire\<close>

lemma TCPHeader_cksum_frame [simp]:
  "TCPHeader_pre (h\<lparr>TH_cksum := c\<rparr>) = TCPHeader_pre h"
  "TCPHeader_post (h\<lparr>TH_cksum := c\<rparr>) = TCPHeader_post h"
  "TCPHeader_ok (h\<lparr>TH_cksum := c\<rparr>) = TCPHeader_ok h"
  by (simp_all add: TCPHeader_pre_def TCPHeader_post_def TCPHeader_ok_def TCPHeader_flags_def)

lemma length_post: "TCPHeader_ok h \<Longrightarrow> length (TCPHeader_post h) = 4 * unat (TH_doff h) - 18"
  by (auto simp: TCPHeader_post_def TCPHeader_ok_def)

text \<open>The checksum a segment is serialized with.\<close>

definition TCPSegment_cksum :: "TCPSegment \<Rightarrow> u32 \<Rightarrow> u16" where
  "TCPSegment_cksum seg ck0 = InternetChecksum_value (InternetChecksum_add (InternetChecksum_new ck0)
     (TCPHeader_pre (TS_header seg) @ be_bytes (0 :: u16) @ TCPHeader_post (TS_header seg)
        @ Buffer_str (TS_payload seg)))"

text \<open>A segment small enough for the 32-bit checksum accumulator; every segment that fits in an
  IPv4 datagram is.\<close>

definition segment_fits :: "TCPSegment \<Rightarrow> u32 \<Rightarrow> bool" where
  "segment_fits seg ck0 \<longleftrightarrow>
     unat ck0 + 65280 * (60 + length (Buffer_str (TS_payload seg))) + 65535 < 2 ^ 32"

lemma TCPSegment_checksum_verifies:
  assumes "TCPHeader_ok (TS_header seg)" and "segment_fits seg ck0"
  shows "InternetChecksum_value (InternetChecksum_add (InternetChecksum_new ck0)
     (TCPHeader_pre (TS_header seg) @ be_bytes (TCPSegment_cksum seg ck0) @ TCPHeader_post (TS_header seg)
        @ Buffer_str (TS_payload seg))) = 0"
proof (rule checksum_field)
  let ?data = "TCPHeader_pre (TS_header seg) @ be_bytes (0 :: u16) @ TCPHeader_post (TS_header seg)
        @ Buffer_str (TS_payload seg)"
  have "length ?data \<le> 60 + length (Buffer_str (TS_payload seg))"
    using assms(1) by (auto simp: length_post TCPHeader_ok_def)
  then have "ck_sum False ?data \<le> 65280 * (60 + length (Buffer_str (TS_payload seg)))"
    using ck_sum_le [of False ?data] by (meson le_trans mult_le_mono2)
  then show "unat ck0 + ck_sum False ?data + 65535 < 2 ^ 32"
    using assms(2) by (simp add: segment_fits_def del: ck_sum_append)
qed (simp_all add: TCPSegment_cksum_def)

lemma TCPSegment_parse_good:
  assumes "Buffer_inv b"
    and "InternetChecksum_value (InternetChecksum_add (InternetChecksum_new ck0) (Buffer_str b)) = 0"
    and "parses (TCPHeader_parse (TS_header seg0)) (Buffer_str b) (r, h) rest"
  shows "\<exists>pl. TCPSegment_parse seg0 b ck0 = Inr (NoError, \<lparr>TS_header = h, TS_payload = pl\<rparr>)
    \<and> Buffer_inv pl \<and> Buffer_str pl = rest"
proof -
  have "parser_at (NetParser_new b) (Buffer_str b)" using assms(1) by (simp add: parser_at_def NetParser_new_def)
  then obtain p where "TCPHeader_parse (TS_header seg0) (NetParser_new b) = Inr ((r, h), p)" "parser_at p rest"
    using assms(3) by (auto simp: parses_def)
  then show ?thesis using assms(2) by (cases seg0) (simp add: TCPSegment_parse_def Let_def parser_at_def)
qed

text \<open>The bytes of a segment, in whatever buffer they arrive, parse back.\<close>

lemma TCPSegment_wire:
  assumes "TCPHeader_ok (TS_header seg)" and "segment_fits seg ck0"
  obtains bl where "TCPSegment_serialize seg ck0 = Inr bl"
    "length (BufferList_concatenate bl) = 4 * unat (TH_doff (TS_header seg)) + length (Buffer_str (TS_payload seg))"
    "Buffer_inv (TS_payload seg) \<Longrightarrow> BufferList_inv bl"
    "\<forall>b seg0. Buffer_inv b \<and> Buffer_str b = BufferList_concatenate bl \<longrightarrow>
      (\<exists>pl. TCPSegment_parse seg0 b ck0
          = Inr (NoError, \<lparr>TS_header = (TS_header seg)\<lparr>TH_cksum := TCPSegment_cksum seg ck0\<rparr>, TS_payload = pl\<rparr>)
        \<and> Buffer_inv pl \<and> Buffer_str pl = Buffer_str (TS_payload seg))"
proof -
  let ?c = "TCPSegment_cksum seg ck0" and ?h = "TS_header seg"
  define hdr where "hdr = TCPHeader_pre ?h @ be_bytes ?c @ TCPHeader_post ?h"
  define bl where "bl = BufferList_append (BufferList_append BufferList_default (BufferList_of_string hdr))
      (BufferList_of_Buffer (TS_payload seg))"
  have ser: "TCPSegment_serialize seg ck0 = Inr bl"
    using assms(1)
    by (simp add: TCPSegment_serialize_def TCPHeader_serialize_bytes InternetChecksum_add_append
        TCPSegment_cksum_def Let_def TCPHeader_ok_def bl_def hdr_def)
  have hdr: "length hdr = 4 * unat (TH_doff ?h)" "length hdr < 64"
    using assms(1) by (auto simp: hdr_def length_post TCPHeader_ok_def)
  have bytes: "BufferList_concatenate bl = hdr @ Buffer_str (TS_payload seg)" by (simp add: bl_def)
  show thesis
  proof (rule that [OF ser], goal_cases)
    case 1
    show ?case using hdr(1) by (simp add: bytes)
  next
    case 2
    have "length (Buffer_str (TS_payload seg)) < 70000" using assms(2) by (simp add: segment_fits_def)
    then show ?case
      using 2 hdr(2) by (simp add: BufferList_inv_def bytes)
        (simp add: bl_def BufferList_append_def BufferList_of_string_def BufferList_of_Buffer_def BufferList_default_def)
  next
    case 3
    show ?case
    proof (intro allI impI, elim conjE)
      fix b and seg0 :: TCPSegment
      assume b: "Buffer_inv b" "Buffer_str b = BufferList_concatenate bl"
      have "parses (TCPHeader_parse (TS_header seg0)) (Buffer_str b) (NoError, ?h\<lparr>TH_cksum := ?c\<rparr>) (Buffer_str (TS_payload seg))"
        using TCPHeader_parse_serialized [of "?h\<lparr>TH_cksum := ?c\<rparr>"] assms(1) by (simp add: b(2) bytes hdr_def)
      moreover have "InternetChecksum_value (InternetChecksum_add (InternetChecksum_new ck0) (Buffer_str b)) = 0"
        using TCPSegment_checksum_verifies [OF assms] by (simp add: b(2) bytes hdr_def)
      ultimately show "\<exists>pl. TCPSegment_parse seg0 b ck0 = Inr (NoError, \<lparr>TS_header = ?h\<lparr>TH_cksum := ?c\<rparr>, TS_payload = pl\<rparr>)
          \<and> Buffer_inv pl \<and> Buffer_str pl = Buffer_str (TS_payload seg)"
        using TCPSegment_parse_good [OF b(1)] by blast
    qed
  qed
qed

text \<open>Any bytes are parsed to some result, and without error only when the checksum holds.\<close>

lemma TCPSegment_parse_any:
  assumes "Buffer_inv b"
  obtains r seg' where "TCPSegment_parse seg b ck0 = Inr (r, seg')"
    "r = NoError \<longrightarrow> InternetChecksum_value (InternetChecksum_add (InternetChecksum_new ck0) (Buffer_str b)) = 0"
proof (cases "InternetChecksum_value (InternetChecksum_add (InternetChecksum_new ck0) (Buffer_str b)) = 0")
  case True
  obtain r h p where "TCPHeader_parse (TS_header seg) (NetParser_new b) = Inr ((r, h), p)"
    using tcp_wire.dec_any [OF assms, of "TS_header seg"] by blast
  then show thesis using that True by (simp add: TCPSegment_parse_def)
next
  case False
  then show thesis using that [of BadChecksum seg] by (simp add: TCPSegment_parse_def)
qed

section \<open>Properties\<close>

text \<open>C23: a segment survives the wire: what serialize produces parses without error to the same
  header (with the checksum filled in) and the same payload, for every header with a representable
  data offset, every payload an accumulator can sum, and whatever the receiving object held before.\<close>

theorem tcp_segment_roundtrip:
  assumes "TCPHeader_ok (TS_header seg)" and "segment_fits seg ck0"
  shows "\<exists>bl pl. TCPSegment_serialize seg ck0 = Inr bl
    \<and> TCPSegment_parse seg0 (Buffer_of (BufferList_concatenate bl)) ck0
        = Inr (NoError, \<lparr>TS_header = (TS_header seg)\<lparr>TH_cksum := TCPSegment_cksum seg ck0\<rparr>, TS_payload = pl\<rparr>)
    \<and> Buffer_str pl = Buffer_str (TS_payload seg)"
proof -
  obtain bl where bl: "TCPSegment_serialize seg ck0 = Inr bl"
    "length (BufferList_concatenate bl) = 4 * unat (TH_doff (TS_header seg)) + length (Buffer_str (TS_payload seg))"
    "\<forall>b seg0. Buffer_inv b \<and> Buffer_str b = BufferList_concatenate bl \<longrightarrow>
      (\<exists>pl. TCPSegment_parse seg0 b ck0
          = Inr (NoError, \<lparr>TS_header = (TS_header seg)\<lparr>TH_cksum := TCPSegment_cksum seg ck0\<rparr>, TS_payload = pl\<rparr>)
        \<and> Buffer_inv pl \<and> Buffer_str pl = Buffer_str (TS_payload seg))"
    by (rule TCPSegment_wire [OF assms])
  have "Buffer_inv (Buffer_of (BufferList_concatenate bl))"
    using assms bl(2) by (auto simp: segment_fits_def TCPHeader_ok_def)
  then show ?thesis using bl(1) bl(3) [rule_format, of "Buffer_of (BufferList_concatenate bl)" seg0] by auto
qed

theorem tcp_segment_roundtrip_witness:
  "let seg = \<lparr>TS_header = TCPHeader_new\<lparr>TH_seqno := WrappingInt32 77, TH_syn := True, TH_doff := 6\<rparr>,
              TS_payload = Buffer_of [1, 2, 3]\<rparr>
   in \<exists>bl pl. TCPSegment_serialize seg 5 = Inr bl
    \<and> TCPSegment_parse TCPSegment_new (Buffer_of (BufferList_concatenate bl)) 5
        = Inr (NoError, \<lparr>TS_header = (TS_header seg)\<lparr>TH_cksum := TCPSegment_cksum seg 5\<rparr>, TS_payload = pl\<rparr>)
    \<and> Buffer_str pl = Buffer_str (TS_payload seg)"
  unfolding Let_def by (rule tcp_segment_roundtrip) (simp_all add: TCPHeader_ok_def segment_fits_def)

text \<open>Parsing a segment never throws, whatever the bytes: it answers with a result, and a
  wrong checksum is reported as such with the object left as it was.\<close>

lemma tcp_parse_total:
  assumes "Buffer_inv b"
  shows "\<exists>r seg'. TCPSegment_parse seg b ck0 = Inr (r, seg')
    \<and> (InternetChecksum_value (InternetChecksum_add (InternetChecksum_new ck0) (Buffer_str b)) \<noteq> 0
        \<longrightarrow> r = BadChecksum \<and> seg' = seg)
    \<and> (InternetChecksum_value (InternetChecksum_add (InternetChecksum_new ck0) (Buffer_str b)) = 0
        \<longrightarrow> Buffer_inv (TS_payload seg'))"
  using tcp_wire.dec_any [OF assms, of "TS_header seg"] by (auto simp: TCPSegment_parse_def)

lemma tcp_parse_total_example:
  "\<exists>r seg'. TCPSegment_parse TCPSegment_new (Buffer_of [1, 2]) 0 = Inr (r, seg')
    \<and> r = BadChecksum \<and> seg' = TCPSegment_new"
proof -
  have "InternetChecksum_value (InternetChecksum_add (InternetChecksum_new 0) (Buffer_str (Buffer_of [1, 2]))) \<noteq> 0"
    by (subst checksum_of_data(2)) simp_all
  then show ?thesis using tcp_parse_total [of "Buffer_of [1, 2]" TCPSegment_new 0] by auto
qed

text \<open>The verdict of the header parser is ignored: a segment whose data offset is below the
  minimum is reported by the header parser as too short, and accepted by the segment parser with
  everything after the first twenty bytes as its payload.\<close>

lemma tcp_parse_accepts_short_offset:
  assumes "unat (TH_doff h) < 5"
    and "Buffer_inv b" and "Buffer_str b = TCPHeader_pre h @ be_bytes (TH_cksum h) @ be_bytes (TH_uptr h) @ rest"
    and "InternetChecksum_value (InternetChecksum_add (InternetChecksum_new ck0) (Buffer_str b)) = 0"
  shows "parses (TCPHeader_parse h0) (Buffer_str b) (HeaderTooShort, h) rest
    \<and> (\<exists>pl. TCPSegment_parse seg b ck0 = Inr (NoError, \<lparr>TS_header = h, TS_payload = pl\<rparr>) \<and> Buffer_str pl = rest)"
proof -
  have "TH_doff h < 5" using assms(1) by (simp add: word_less_nat_alt)
  then have "parses (TCPHeader_parse h0) (Buffer_str b) (HeaderTooShort, h) rest" for h0
    unfolding assms(3) using assms(1) by (intro TCPHeader_parse_fields) auto
  then show ?thesis using TCPSegment_parse_good [OF assms(2,4)] by blast
qed

lemma tcp_parse_accepts_short_offset_example:
  "let h = TCPHeader_new\<lparr>TH_doff := 4, TH_cksum := 0xbffe\<rparr>;
       b = Buffer_of (TCPHeader_pre h @ be_bytes (TH_cksum h) @ be_bytes (TH_uptr h) @ [0, 1])
   in parses (TCPHeader_parse TCPHeader_new) (Buffer_str b) (HeaderTooShort, h) [0, 1]
    \<and> (\<exists>pl. TCPSegment_parse TCPSegment_new b 0 = Inr (NoError, \<lparr>TS_header = h, TS_payload = pl\<rparr>) \<and> Buffer_str pl = [0, 1])"
  unfolding Let_def
proof (rule tcp_parse_accepts_short_offset)
  let ?h = "TCPHeader_new\<lparr>TH_doff := 4, TH_cksum := 0xbffe\<rparr>"
  show "InternetChecksum_value (InternetChecksum_add (InternetChecksum_new 0)
      (Buffer_str (Buffer_of (TCPHeader_pre ?h @ be_bytes (TH_cksum ?h) @ be_bytes (TH_uptr ?h) @ [0, 1])))) = 0"
    by (subst checksum_of_data(2))
      (simp_all add: TCPHeader_pre_def TCPHeader_new_def TCPHeader_flags_def flag_bit_def be_bytes_16 be_bytes_32)
qed simp_all

end
