(* ===== verification/TCP_Receiver.thy ===== *)
theory TCP_Receiver
  imports Stream_Reassembler TCP_Segment
begin

text \<open>
  The receiving half of a TCP connection, from \<^verbatim>\<open>tcp_receiver.hh\<close> and
  \<^verbatim>\<open>tcp_receiver.cc\<close>: it finds the place of a segment in the stream from its sequence
  number, hands its payload to the reassembler, and computes the acknowledgement and the window.
  Segments of a peer's stream, in any order and with any repetition, are shown to act on the
  reassembler as pushes of slices of that stream.
\<close>

section \<open>The class\<close>

record TCPReceiver =
  TR_reassembler :: StreamReassembler
  TR_capacity :: u64
  TR_isn :: WrappingInt32
  recievedSYN :: bool
  recievedFIN :: bool

definition TCPReceiver_new :: "u64 \<Rightarrow> TCPReceiver" where
  "TCPReceiver_new capacity = \<lparr>TR_reassembler = StreamReassembler_new capacity, TR_capacity = capacity,
     TR_isn = WrappingInt32 0, recievedSYN = False, recievedFIN = False\<rparr>"

definition TCPReceiver_stream_out :: "TCPReceiver \<Rightarrow> ByteStream" where
  "TCPReceiver_stream_out r = SR_output (TR_reassembler r)"

definition TCPReceiver_set_stream_out :: "TCPReceiver \<Rightarrow> ByteStream \<Rightarrow> TCPReceiver" where
  "TCPReceiver_set_stream_out r s = r\<lparr>TR_reassembler := (TR_reassembler r)\<lparr>SR_output := s\<rparr>\<rparr>"

definition TCPReceiver_segment_received :: "TCPReceiver \<Rightarrow> TCPSegment \<Rightarrow> TCPReceiver result" where
  "TCPReceiver_segment_received r seg =
     (let h = TS_header seg
      in if \<not> recievedSYN r \<and> \<not> TH_syn h then Inr r
         else let r1 = (if TH_syn h then r\<lparr>TR_isn := TH_seqno h, recievedSYN := True\<rparr> else r);
                  r2 = (if TH_fin h then r1\<lparr>recievedFIN := True\<rparr> else r1);
                  abs_seqno = unwrap (TH_seqno h) (TR_isn r2) (ByteStream_bytes_written (TCPReceiver_stream_out r2))
              in bindR (push_substring (TR_reassembler r2) (Buffer_copy (TS_payload seg))
                         (abs_seqno - (if TH_syn h then 0 else 1)) (TH_fin h)) (\<lambda>sr.
                 Inr (r2\<lparr>TR_reassembler := sr\<rparr>)))"

definition TCPReceiver_ackno :: "TCPReceiver \<Rightarrow> WrappingInt32 option" where
  "TCPReceiver_ackno r =
     (if recievedSYN r
      then Some (wint_plus (wint_plus (wint_plus (TR_isn r)
                   (ucast (ByteStream_bytes_written (TCPReceiver_stream_out r))))
                   (if recievedSYN r then 1 else 0))
                   (if reassembler_empty (TR_reassembler r) then (if recievedFIN r then 1 else 0) else 0))
      else None)"

definition TCPReceiver_window_size :: "TCPReceiver \<Rightarrow> u64" where
  "TCPReceiver_window_size r = ByteStream_remaining_capacity (TCPReceiver_stream_out r)"

definition TCPReceiver_unassembled_bytes :: "TCPReceiver \<Rightarrow> u64" where
  "TCPReceiver_unassembled_bytes r = unassembled_bytes (TR_reassembler r)"

section \<open>Segments of a peer's stream\<close>

text \<open>
  The segment carries the bytes of \<open>S\<close> from position \<open>i\<close> on: the SYN occupies sequence number 0,
  so position \<open>i\<close> has absolute sequence number \<open>i + 1\<close>; a FIN comes with the last byte.
\<close>

definition segment_at :: "WrappingInt32 \<Rightarrow> bytes \<Rightarrow> nat \<Rightarrow> TCPSegment \<Rightarrow> bool" where
  "segment_at isn S i seg \<longleftrightarrow> slice_of S (Buffer_str (TS_payload seg)) i
     \<and> TH_seqno (TS_header seg) = wrap (if TH_syn (TS_header seg) then 0 else of_nat (i + 1)) isn
     \<and> (TH_syn (TS_header seg) \<longrightarrow> i = 0)
     \<and> (TH_fin (TS_header seg) \<longrightarrow> i + length (Buffer_str (TS_payload seg)) = length S)"

text \<open>A bare segment occupies no sequence numbers: an acknowledgement, whatever its sequence number.\<close>

definition segment_bare :: "TCPSegment \<Rightarrow> bool" where
  "segment_bare seg \<longleftrightarrow> Buffer_str (TS_payload seg) = [] \<and> \<not> TH_syn (TS_header seg) \<and> \<not> TH_fin (TS_header seg)"

definition isn_known :: "WrappingInt32 \<Rightarrow> TCPReceiver \<Rightarrow> bool" where
  "isn_known isn r \<longleftrightarrow> (recievedSYN r \<longrightarrow> TR_isn r = isn)"

lemma wrap_0 [simp]: "wrap 0 isn = isn"
  by (simp add: WrappingInt32_eq_iff raw_wrap)

lemma near_of_nat:
  assumes "m < 2 ^ 31" and "n < 2 ^ 31"
  shows "near (of_nat m) (of_nat n)"
  using assms by (simp add: near_def unsigned_of_nat take_bit_nat_eq_self)

lemma bytes_written_next: "ByteStream_bytes_written (SR_output sr) = of_nat (SR_next sr)"
  by (simp add: ByteStream_bytes_written_def SR_next_def)

text \<open>One segment of the stream is one push of a slice, or nothing before the SYN.\<close>

lemma segment_received_push:
  assumes seg: "segment_at isn S i seg" and isn: "isn_known isn r"
    and S: "length S + 1 < 2 ^ 31" and holds: "SR_holds S (TR_reassembler r)"
    and syn: "recievedSYN r \<or> TH_syn (TS_header seg)"
  shows "TCPReceiver_segment_received r seg =
    bindR (push_substring (TR_reassembler r) (Buffer_str (TS_payload seg)) (of_nat i) (TH_fin (TS_header seg))) (\<lambda>sr.
    Inr (r\<lparr>TR_reassembler := sr, TR_isn := isn, recievedSYN := True,
           recievedFIN := (recievedFIN r \<or> TH_fin (TS_header seg))\<rparr>))"
proof -
  let ?h = "TS_header seg" and ?n = "SR_next (TR_reassembler r)"
  have i: "i + length (Buffer_str (TS_payload seg)) \<le> length S" using seg by (simp add: segment_at_def slice_of_def)
  have n: "?n \<le> length S" using holds by (simp add: SR_holds_def)
  have "near (if TH_syn ?h then 0 else of_nat (i + 1)) (of_nat ?n)"
    using near_of_nat [of 0 ?n] near_of_nat [of "i + 1" ?n] i n S by simp
  then have "unwrap (TH_seqno ?h) isn (of_nat ?n) = (if TH_syn ?h then 0 else of_nat (i + 1))"
    using seg by (simp add: segment_at_def seqno.dec_enc)
  moreover have "(if TH_syn ?h then 0 else of_nat (i + 1)) - (if TH_syn ?h then 0 else 1) = (of_nat i :: u64)"
    using seg by (auto simp: segment_at_def)
  moreover have "TH_syn ?h \<Longrightarrow> TH_seqno ?h = isn" using seg by (simp add: segment_at_def)
  moreover have "\<not> TH_syn ?h \<Longrightarrow> TR_isn r = isn \<and> recievedSYN r" using syn isn by (auto simp: isn_known_def)
  ultimately show ?thesis
    by (cases r; cases "TH_syn ?h"; cases "TH_fin ?h")
      (simp_all add: TCPReceiver_segment_received_def TCPReceiver_stream_out_def bytes_written_next Buffer_copy_def)
qed

text \<open>Either way the segment becomes at most one push that agrees with the stream.\<close>

lemma segment_received_op:
  assumes "segment_at isn S i seg \<or> segment_bare seg" and "isn_known isn r"
    and "length S + 1 < 2 ^ 31" and "SR_holds S (TR_reassembler r)"
    and syn: "recievedSYN r \<or> TH_syn (TS_header seg)"
  obtains j where "op_of_stream S (Push (Buffer_str (TS_payload seg)) j (TH_fin (TS_header seg)))"
    and "TCPReceiver_segment_received r seg =
      bindR (push_substring (TR_reassembler r) (Buffer_str (TS_payload seg)) j (TH_fin (TS_header seg))) (\<lambda>sr.
      Inr (r\<lparr>TR_reassembler := sr, TR_isn := isn, recievedSYN := True,
             recievedFIN := (recievedFIN r \<or> TH_fin (TS_header seg))\<rparr>))"
proof (cases "segment_bare seg")
  case True
  then have "recievedSYN r" "TR_isn r = isn" using assms(2) syn by (auto simp: segment_bare_def isn_known_def)
  then show ?thesis
    using True
    by (intro that [of "unwrap (TH_seqno (TS_header seg)) (TR_isn r) (ByteStream_bytes_written (TCPReceiver_stream_out r)) - 1"];
        cases r) (auto simp: segment_bare_def TCPReceiver_segment_received_def Buffer_copy_def)
next
  case False
  then have seg: "segment_at isn S i seg" using assms(1) by simp
  moreover have "unat (of_nat i :: u64) = i"
    using seg assms(3) by (auto simp: segment_at_def slice_of_def unat_of_nat)
  ultimately show ?thesis
    using segment_received_push [OF seg assms(2-5)] by (intro that [of "of_nat i"]) (auto simp: segment_at_def)
qed

section \<open>Runs\<close>

datatype receiver_op = Segment TCPSegment | Consume u64

fun receiver_run :: "receiver_op list \<Rightarrow> TCPReceiver \<Rightarrow> (bytes \<times> TCPReceiver) result" where
  "receiver_run [] r = Inr ([], r)"
| "receiver_run (Segment seg # ops) r = bindR (TCPReceiver_segment_received r seg) (receiver_run ops)"
| "receiver_run (Consume n # ops) r =
     bindR (ByteStream_read (TCPReceiver_stream_out r) n) (\<lambda>(data, s).
     bindR (receiver_run ops (TCPReceiver_set_stream_out r s)) (\<lambda>(rest, r'). Inr (data @ rest, r')))"

fun op_of_peer :: "WrappingInt32 \<Rightarrow> bytes \<Rightarrow> receiver_op \<Rightarrow> bool" where
  "op_of_peer isn S (Segment seg) \<longleftrightarrow> (\<exists>i. segment_at isn S i seg) \<or> segment_bare seg"
| "op_of_peer isn S (Consume n) \<longleftrightarrow> True"

lemma receiver_run_simulates:
  assumes "list_all (op_of_peer isn S) ops" and "isn_known isn r" and "length S + 1 < 2 ^ 31"
    and "SR_inv (TR_reassembler r)" and "SR_holds S (TR_reassembler r)"
  shows "\<exists>rops got r'. list_all (op_of_stream S) rops \<and> receiver_run ops r = Inr (got, r')
    \<and> reassembler_run rops (TR_reassembler r) = Inr (got, TR_reassembler r') \<and> isn_known isn r'"
  using assms
proof (induction ops arbitrary: r)
  case Nil
  then show ?case by (intro exI [of _ "[]"]) simp
next
  case (Cons op ops)
  show ?case
  proof (cases op)
    case (Segment seg)
    then obtain i where seg: "segment_at isn S i seg \<or> segment_bare seg" using Cons.prems(1) by auto
    show ?thesis
    proof (cases "recievedSYN r \<or> TH_syn (TS_header seg)")
      case False
      then have "receiver_run (op # ops) r = receiver_run ops r"
        by (simp add: Segment TCPReceiver_segment_received_def)
      then show ?thesis using Cons.IH [OF _ Cons.prems(2-5)] Cons.prems(1) by simp
    next
      case True
      let ?data = "Buffer_str (TS_payload seg)" and ?fin = "TH_fin (TS_header seg)"
      obtain j where j: "op_of_stream S (Push ?data j ?fin)" "TCPReceiver_segment_received r seg =
          bindR (push_substring (TR_reassembler r) ?data j ?fin) (\<lambda>sr. Inr (r\<lparr>TR_reassembler := sr, TR_isn := isn,
            recievedSYN := True, recievedFIN := (recievedFIN r \<or> ?fin)\<rparr>))"
        by (rule segment_received_op [OF seg Cons.prems(2,3,5) True])
      have S: "length S < 2 ^ 32" using Cons.prems(3) by simp
      have "slice_of S ?data (unat j) \<or> ?data = []" using j(1) by simp
      then obtain sr where sr: "push_substring (TR_reassembler r) ?data j ?fin = Inr sr" "SR_inv sr" "SR_holds S sr"
        by (rule push_slice [OF Cons.prems(4,5) S, of _ _ ?fin]) (rule that; assumption)
      let ?r = "r\<lparr>TR_reassembler := sr, TR_isn := isn, recievedSYN := True, recievedFIN := (recievedFIN r \<or> ?fin)\<rparr>"
      obtain rops got r' where IH: "list_all (op_of_stream S) rops" "receiver_run ops ?r = Inr (got, r')"
        "reassembler_run rops sr = Inr (got, TR_reassembler r')" "isn_known isn r'"
        using Cons.IH [of ?r] Cons.prems(1,3) sr by (auto simp: isn_known_def)
      then show ?thesis
        using sr j
        by (intro exI [of _ "Push ?data j ?fin # rops"] exI [of _ got] exI [of _ r']) (simp add: Segment)
    qed
  next
    case (Consume n)
    obtain out where out:
      "ByteStream_read (SR_output (TR_reassembler r)) n
         = Inr (take (unat n) (ByteStream_contents (SR_output (TR_reassembler r))), out)"
      "SR_inv ((TR_reassembler r)\<lparr>SR_output := out\<rparr>)" "SR_holds S ((TR_reassembler r)\<lparr>SR_output := out\<rparr>)"
      using SR_read [OF Cons.prems(4,5), of n] by metis
    let ?r = "TCPReceiver_set_stream_out r out"
    obtain rops got r' where IH: "list_all (op_of_stream S) rops" "receiver_run ops ?r = Inr (got, r')"
      "reassembler_run rops (TR_reassembler ?r) = Inr (got, TR_reassembler r')" "isn_known isn r'"
      using Cons.IH [of ?r] Cons.prems out by (auto simp: isn_known_def TCPReceiver_set_stream_out_def)
    then show ?thesis
      using out(1)
      by (intro exI [of _ "ReadOut n # rops"] exI [of _ "take (unat n) (ByteStream_contents (SR_output (TR_reassembler r))) @ got"]
          exI [of _ r']) (simp add: Consume TCPReceiver_stream_out_def TCPReceiver_set_stream_out_def)
  qed
qed


lemma receiver_run_ok:
  assumes "unat capacity < 2 ^ 32" and "length S + 1 < 2 ^ 31" and "list_all (op_of_peer isn S) ops"
  shows "\<exists>got r. receiver_run ops (TCPReceiver_new capacity) = Inr (got, r) \<and> isn_known isn r
    \<and> SR_inv (TR_reassembler r) \<and> SR_holds S (TR_reassembler r) \<and> SR_capacity (TR_reassembler r) = capacity
    \<and> got @ ByteStream_contents (TCPReceiver_stream_out r) = take (SR_next (TR_reassembler r)) S"
proof -
  let ?new = "TCPReceiver_new capacity"
  have new: "isn_known isn ?new" "TR_reassembler ?new = StreamReassembler_new capacity"
    by (simp_all add: TCPReceiver_new_def isn_known_def)
  obtain rops got r where r: "list_all (op_of_stream S) rops" "receiver_run ops ?new = Inr (got, r)"
    "reassembler_run rops (StreamReassembler_new capacity) = Inr (got, TR_reassembler r)" "isn_known isn r"
    using receiver_run_simulates [OF assms(3) new(1) assms(2)] SR_inv_new [OF assms(1)] SR_holds_new
    unfolding new(2) by blast
  have "length S < 2 ^ 32" using assms(2) by simp
  from reassembler_run_ok [OF SR_inv_new [OF assms(1)] SR_holds_new this r(1)] r(3)
  have "SR_inv (TR_reassembler r)" "SR_holds S (TR_reassembler r)" "SR_capacity (TR_reassembler r) = capacity"
    "got @ ByteStream_contents (TCPReceiver_stream_out r) = take (SR_next (TR_reassembler r)) S"
    by (auto simp: TCPReceiver_stream_out_def)
  with r show ?thesis by blast
qed

section \<open>The feedback to the peer\<close>

lemma ucast_32_add: "(ucast (a + b :: u64) :: u32) = ucast a + ucast b"
proof (rule word_unat_eq_iff [THEN iffD2])
  have "unat (ucast (a + b) :: u32) = (unat a + unat b) mod 2 ^ 64 mod 2 ^ 32"
    by (simp add: unat_ucast_mod unat_word_ariths)
  also have "\<dots> = (unat a + unat b) mod 2 ^ 32" by (rule mod_mod_cancel) simp
  finally show "unat (ucast (a + b) :: u32) = unat (ucast a + ucast b :: u32)"
    by (simp add: unat_ucast_mod unat_word_ariths mod_add_eq)
qed

lemma TCPReceiver_ackno_wrap:
  assumes "recievedSYN r"
  shows "TCPReceiver_ackno r = Some (wrap (of_nat (Suc (SR_next (TR_reassembler r))
    + (if reassembler_empty (TR_reassembler r) \<and> recievedFIN r then 1 else 0))) (TR_isn r))"
  using assms
  by (simp add: TCPReceiver_ackno_def TCPReceiver_stream_out_def bytes_written_next WrappingInt32_eq_iff
      wint_plus_def raw_wrap ucast_32_add)

lemma unat_window_size:
  assumes "SR_inv (TR_reassembler r)"
  shows "unat (TCPReceiver_window_size r) = SR_window (TR_reassembler r)"
  using assms unat_remaining_capacity SR_invD [OF assms]
  by (simp add: TCPReceiver_window_size_def TCPReceiver_stream_out_def SR_window_def)


section \<open>Properties\<close>

text \<open>C4: the receiver delivers the peer's stream: whatever segments of it arrive, in any order,
  overlapping and repeated, before or after the SYN, and however the application reads in between, no
  operation faults, and what was read followed by what is readable is a prefix of the stream.\<close>

theorem receiver_delivers_prefix:
  assumes "unat capacity < 2 ^ 32" and "length S + 1 < 2 ^ 31" and "list_all (op_of_peer isn S) ops"
  shows "\<exists>got r n. receiver_run ops (TCPReceiver_new capacity) = Inr (got, r)
    \<and> got @ ByteStream_contents (TCPReceiver_stream_out r) = take n S
    \<and> unat (ByteStream_bytes_written (TCPReceiver_stream_out r)) = n
    \<and> length (ByteStream_contents (TCPReceiver_stream_out r)) + unat (TCPReceiver_unassembled_bytes r) \<le> unat capacity"
proof -
  obtain got r where r: "receiver_run ops (TCPReceiver_new capacity) = Inr (got, r)" "SR_inv (TR_reassembler r)"
    "SR_capacity (TR_reassembler r) = capacity"
    "got @ ByteStream_contents (TCPReceiver_stream_out r) = take (SR_next (TR_reassembler r)) S"
    using receiver_run_ok [OF assms] by blast
  then show ?thesis
    using SR_inv_total [OF r(2)]
    by (auto simp: TCPReceiver_stream_out_def TCPReceiver_unassembled_bytes_def SR_next_def ByteStream_bytes_written_def)
qed

theorem receiver_delivers_prefix_witness:
  "let syn = \<lparr>TS_header = TCPHeader_new\<lparr>TH_seqno := wrap 0 (WrappingInt32 9), TH_syn := True\<rparr>, TS_payload = Buffer_of []\<rparr>;
       data = \<lparr>TS_header = TCPHeader_new\<lparr>TH_seqno := wrap 2 (WrappingInt32 9), TH_fin := True\<rparr>, TS_payload = Buffer_of [6, 7]\<rparr>
   in \<exists>got r n. receiver_run [Segment data, Segment syn, Segment data, Consume 1] (TCPReceiver_new 8) = Inr (got, r)
    \<and> got @ ByteStream_contents (TCPReceiver_stream_out r) = take n [5, 6, 7]
    \<and> unat (ByteStream_bytes_written (TCPReceiver_stream_out r)) = n
    \<and> length (ByteStream_contents (TCPReceiver_stream_out r)) + unat (TCPReceiver_unassembled_bytes r) \<le> unat (8 :: u64)"
  unfolding Let_def
proof (rule receiver_delivers_prefix)
  let ?isn = "WrappingInt32 9" and ?S = "[5, 6, 7] :: bytes"
  have "segment_at ?isn ?S 0 \<lparr>TS_header = TCPHeader_new\<lparr>TH_seqno := wrap 0 ?isn, TH_syn := True\<rparr>, TS_payload = Buffer_of []\<rparr>"
    "segment_at ?isn ?S 1 \<lparr>TS_header = TCPHeader_new\<lparr>TH_seqno := wrap 2 ?isn, TH_fin := True\<rparr>, TS_payload = Buffer_of [6, 7]\<rparr>"
    by (simp_all add: segment_at_def slice_of_def TCPHeader_new_def)
  then show "list_all (op_of_peer ?isn ?S)
     [Segment \<lparr>TS_header = TCPHeader_new\<lparr>TH_seqno := wrap 2 ?isn, TH_fin := True\<rparr>, TS_payload = Buffer_of [6, 7]\<rparr>,
      Segment \<lparr>TS_header = TCPHeader_new\<lparr>TH_seqno := wrap 0 ?isn, TH_syn := True\<rparr>, TS_payload = Buffer_of []\<rparr>,
      Segment \<lparr>TS_header = TCPHeader_new\<lparr>TH_seqno := wrap 2 ?isn, TH_fin := True\<rparr>, TS_payload = Buffer_of [6, 7]\<rparr>,
      Consume 1]"
    by auto
qed simp_all



text \<open>C39: a FIN on its own that overtakes the data before it is acknowledged at once: the stream is
  ended, nothing of the missing data has been assembled, and the acknowledgement steps over its first
  byte.\<close>

theorem receiver_acks_missing_byte:
  assumes "recievedSYN r" and "TR_isn r = isn" and "SR_inv (TR_reassembler r)" and "SR_holds S (TR_reassembler r)"
    and "length S + 1 < 2 ^ 31" and "reassembler_empty (TR_reassembler r)"
    and "SR_next (TR_reassembler r) < length S" and "length S \<le> SR_next (TR_reassembler r) + SR_window (TR_reassembler r)"
    and "segment_at isn S (length S) seg" and "Buffer_str (TS_payload seg) = []"
    and "TH_fin (TS_header seg)" and "\<not> TH_syn (TS_header seg)"
  shows "\<exists>r'. TCPReceiver_segment_received r seg = Inr r'
    \<and> ByteStream_input_ended (TCPReceiver_stream_out r')
    \<and> SR_next (TR_reassembler r') = SR_next (TR_reassembler r)
    \<and> TCPReceiver_ackno r' = Some (wrap (of_nat (SR_next (TR_reassembler r') + 2)) isn)"
proof -
  let ?sr = "TR_reassembler r"
  have S: "length S < 2 ^ 32" using assms(5) by simp
  have "filled (SR_slots ?sr) = 0"
    using assms(6) SR_invD(1) [OF assms(3)] by (simp add: reassembler_empty_def SR_shape_def)
  from push_empty_eof [OF assms(3,4) S this assms(8)]
  obtain sr' where sr': "push_substring ?sr [] (of_nat (length S)) True = Inr sr'" "SR_inv sr'"
    "SR_next sr' = SR_next ?sr" "filled (SR_slots sr') = 0" "isInputEnded (SR_output sr')" by blast
  have "isn_known isn r" using assms(2) by (simp add: isn_known_def)
  from segment_received_push [OF assms(9) this assms(5,4)] assms(1,10,11) sr'(1)
  have run: "TCPReceiver_segment_received r seg = Inr (r\<lparr>TR_reassembler := sr', TR_isn := isn, recievedSYN := True,
      recievedFIN := True\<rparr>)" by simp
  have "reassembler_empty sr'"
    using SR_invD(1) [OF sr'(2)] sr'(4) by (simp add: reassembler_empty_def SR_shape_def unat_eq_0)
  then show ?thesis
    unfolding run by (simp add: TCPReceiver_ackno_wrap sr' TCPReceiver_stream_out_def ByteStream_input_ended_def)
qed

theorem receiver_acks_missing_byte_witness:
  "let r = (TCPReceiver_new 8)\<lparr>recievedSYN := True, TR_isn := WrappingInt32 9\<rparr>;
       seg = \<lparr>TS_header = TCPHeader_new\<lparr>TH_seqno := wrap 4 (WrappingInt32 9), TH_fin := True\<rparr>, TS_payload = Buffer_default\<rparr>
   in \<exists>r'. TCPReceiver_segment_received r seg = Inr r'
    \<and> ByteStream_input_ended (TCPReceiver_stream_out r')
    \<and> SR_next (TR_reassembler r') = SR_next (TR_reassembler r)
    \<and> TCPReceiver_ackno r' = Some (wrap (of_nat (SR_next (TR_reassembler r') + 2)) (WrappingInt32 9))"
  unfolding Let_def
proof (rule receiver_acks_missing_byte)
  let ?r = "(TCPReceiver_new 8)\<lparr>recievedSYN := True, TR_isn := WrappingInt32 9\<rparr>" and ?S = "[1, 2, 3] :: bytes"
  show "SR_holds ?S (TR_reassembler ?r)" by (simp add: TCPReceiver_new_def SR_holds_new)
  show "length ?S \<le> SR_next (TR_reassembler ?r) + SR_window (TR_reassembler ?r)"
    by (simp add: TCPReceiver_new_def SR_window_def)
  show "reassembler_empty (TR_reassembler ?r)"
    by (simp add: TCPReceiver_new_def reassembler_empty_def StreamReassembler_new_def)
qed (simp_all add: TCPReceiver_new_def TCPHeader_new_def SR_inv_new segment_at_def slice_of_def)

end
