(* ===== verification/TCP_Sender.thy ===== *)
theory TCP_Sender
  imports TCP_Receiver "HOL-Library.Multiset"
begin

text \<open>
  The sending half of a TCP connection, from \<^verbatim>\<open>tcp_sender.hh\<close>,
  \<^verbatim>\<open>tcp_sender.cc\<close> and \<^verbatim>\<open>tcp_helpers/tcp_config.hh\<close>: it cuts the
  outgoing byte stream into segments as the window allows, keeps what is in flight in a priority queue,
  and retransmits on timeout. The invariant says that the segments in flight lie end to end below the
  next sequence number and that every segment ever sent is a piece of the bytes taken from the stream.
\<close>

section \<open>Configuration\<close>

definition DEFAULT_CAPACITY :: u64 where
  "DEFAULT_CAPACITY = 64000"

definition MAX_PAYLOAD_SIZE :: u64 where
  "MAX_PAYLOAD_SIZE = 1000"

definition TIMEOUT_DFLT :: u16 where
  "TIMEOUT_DFLT = 1000"

definition MAX_RETX_ATTEMPTS :: u32 where
  "MAX_RETX_ATTEMPTS = 8"

record TCPConfig =
  rt_timeout :: u16
  recv_capacity :: u64
  send_capacity :: u64
  fixed_isn :: "WrappingInt32 option"

definition TCPConfig_new :: TCPConfig where
  "TCPConfig_new = \<lparr>rt_timeout = TIMEOUT_DFLT, recv_capacity = DEFAULT_CAPACITY,
     send_capacity = DEFAULT_CAPACITY, fixed_isn = None\<rparr>"

section \<open>The class\<close>

record OrderedSegment =
  OS_abs_seqno :: u64
  OS_seg :: TCPSegment

text \<open>
  The priority queue of the standard library, with the comparison of the source: the smallest
  absolute sequence number is on top. It is kept as a sorted list; the top is the head.
\<close>

definition inflight_push :: "OrderedSegment \<Rightarrow> OrderedSegment list \<Rightarrow> OrderedSegment list" where
  "inflight_push x q = insort_key OS_abs_seqno x q"

record TCPSender =
  SD_isn :: WrappingInt32
  SD_segments_out :: "TCPSegment list"
  SD_initial_rto :: u32
  SD_stream :: ByteStream
  SD_next_seqno :: u64
  SD_in_flight :: "OrderedSegment list"
  SD_syn :: bool
  SD_fin :: bool
  SD_timer_running :: bool
  SD_time_spent :: u64
  SD_rwnd :: u64
  SD_bytes_in_flight :: u64
  SD_checkpoint :: u64
  SD_n_consecutive :: u32
  SD_rto :: u32

text \<open>The random initial sequence number drawn when none is fixed is an argument.\<close>

definition TCPSender_new :: "u64 \<Rightarrow> u16 \<Rightarrow> WrappingInt32 option \<Rightarrow> u32 \<Rightarrow> TCPSender" where
  "TCPSender_new capacity retx_timeout isn_option random =
     \<lparr>SD_isn = (case isn_option of Some i \<Rightarrow> i | None \<Rightarrow> WrappingInt32 random), SD_segments_out = [],
      SD_initial_rto = ucast retx_timeout, SD_stream = ByteStream_new capacity, SD_next_seqno = 0,
      SD_in_flight = [], SD_syn = False, SD_fin = False, SD_timer_running = False, SD_time_spent = 0,
      SD_rwnd = 1, SD_bytes_in_flight = 0, SD_checkpoint = 0, SD_n_consecutive = 0, SD_rto = 0\<rparr>"

definition TCPSender_bytes_in_flight :: "TCPSender \<Rightarrow> u64" where
  "TCPSender_bytes_in_flight s = SD_bytes_in_flight s"

definition TCPSender_next_seqno_absolute :: "TCPSender \<Rightarrow> u64" where
  "TCPSender_next_seqno_absolute s = SD_next_seqno s"

definition TCPSender_next_seqno :: "TCPSender \<Rightarrow> WrappingInt32" where
  "TCPSender_next_seqno s = wrap (SD_next_seqno s) (SD_isn s)"

definition TCPSender_consecutive_retransmissions :: "TCPSender \<Rightarrow> u32" where
  "TCPSender_consecutive_retransmissions s = SD_n_consecutive s"

definition TCPSender_send_segment :: "TCPSender \<Rightarrow> TCPSegment \<Rightarrow> TCPSender" where
  "TCPSender_send_segment s new_segment =
     (let seg = new_segment\<lparr>TS_header := (TS_header new_segment)\<lparr>TH_seqno := TCPSender_next_seqno s\<rparr>\<rparr>;
          n = TCPSegment_length_in_sequence_space seg;
          s1 = s\<lparr>SD_segments_out := SD_segments_out s @ [seg],
                 SD_in_flight := inflight_push \<lparr>OS_abs_seqno = SD_next_seqno s, OS_seg = seg\<rparr> (SD_in_flight s),
                 SD_next_seqno := SD_next_seqno s + n,
                 SD_bytes_in_flight := SD_bytes_in_flight s + n\<rparr>
      in if \<not> SD_timer_running s1
         then s1\<lparr>SD_timer_running := True, SD_time_spent := 0, SD_rto := SD_initial_rto s1\<rparr>
         else s1)"

definition TCPSender_send_empty_segment :: "TCPSender \<Rightarrow> TCPSender" where
  "TCPSender_send_empty_segment s =
     (let seg = TCPSegment_new\<lparr>TS_header := (TS_header TCPSegment_new)\<lparr>TH_seqno := TCPSender_next_seqno s\<rparr>\<rparr>
      in s\<lparr>SD_segments_out := SD_segments_out s @ [seg]\<rparr>)"

text \<open>
  One turn of the loop of fill_window that creates a segment: the bytes of window left and the
  sender afterwards.
\<close>

definition fill_window_turn :: "u64 \<Rightarrow> TCPSender \<Rightarrow> (u64 \<times> TCPSender) result" where
  "fill_window_turn n_bytes_can_send s =
     (let payload_size = (if n_bytes_can_send > MAX_PAYLOAD_SIZE then MAX_PAYLOAD_SIZE else n_bytes_can_send)
      in bindR (ByteStream_read (SD_stream s) payload_size) (\<lambda>(payload, stream).
         let seg = TCPSegment_new\<lparr>TS_payload := Buffer_of payload\<rparr>;
             is_last = (ByteStream_eof stream \<and> n_bytes_can_send > TCPSegment_length_in_sequence_space seg);
             n1 = (if is_last then n_bytes_can_send - 1 else n_bytes_can_send);
             seg1 = (if is_last then seg\<lparr>TS_header := (TS_header seg)\<lparr>TH_fin := True\<rparr>\<rparr> else seg);
             s1 = s\<lparr>SD_stream := stream\<rparr>;
             s2 = (if is_last then s1\<lparr>SD_fin := True\<rparr> else s1)
         in Inr (n1 - payload_size, TCPSender_send_segment s2 seg1)))"

lemma send_segment_fields [simp]:
  "SD_fin (TCPSender_send_segment s seg) = SD_fin s"
  "SD_syn (TCPSender_send_segment s seg) = SD_syn s"
  "SD_stream (TCPSender_send_segment s seg) = SD_stream s"
  "SD_isn (TCPSender_send_segment s seg) = SD_isn s"
  "SD_rwnd (TCPSender_send_segment s seg) = SD_rwnd s"
  "SD_checkpoint (TCPSender_send_segment s seg) = SD_checkpoint s"
  "SD_initial_rto (TCPSender_send_segment s seg) = SD_initial_rto s"
  "SD_n_consecutive (TCPSender_send_segment s seg) = SD_n_consecutive s"
  by (simp_all add: TCPSender_send_segment_def Let_def)

lemma fill_window_turn_decreases:
  assumes "fill_window_turn n s = Inr (n', s')" and "n > 0"
  shows "SD_fin s' \<or> unat n' < unat n"
proof (cases "SD_fin s'")
  case False
  then have "n' = n - (if n > MAX_PAYLOAD_SIZE then MAX_PAYLOAD_SIZE else n)"
    using assms(1) by (auto simp: fill_window_turn_def Let_def elim!: bindR_eq_InrE split: if_splits)
  then show ?thesis
    using assms(2) by (auto simp: word_less_nat_alt MAX_PAYLOAD_SIZE_def unat_diff_small split: if_splits)
qed simp

function fill_window_loop :: "u64 \<Rightarrow> TCPSender \<Rightarrow> TCPSender result" where
  "fill_window_loop n_bytes_can_send s =
     (if n_bytes_can_send > 0 \<and> \<not> SD_fin s
      then if \<not> ByteStream_eof (SD_stream s) \<and> ByteStream_buffer_empty (SD_stream s) then Inr s
           else bindR (fill_window_turn n_bytes_can_send s) (\<lambda>(n, s'). fill_window_loop n s')
      else Inr s)"
  by pat_completeness auto
termination
proof (relation "measure (\<lambda>(n, s). if SD_fin s then 0 else Suc (unat n))", goal_cases)
  case (2 n s x n' s')
  then have "SD_fin s' \<or> unat n' < unat n" by (intro fill_window_turn_decreases) auto
  then show ?case using 2 by auto
qed simp

declare fill_window_loop.simps [simp del]

definition TCPSender_fill_window :: "TCPSender \<Rightarrow> TCPSender result" where
  "TCPSender_fill_window s =
     (if \<not> SD_syn s
      then let seg = TCPSegment_new\<lparr>TS_header := (TS_header TCPSegment_new)\<lparr>TH_syn := True\<rparr>\<rparr>
           in Inr ((TCPSender_send_segment s seg)\<lparr>SD_syn := True\<rparr>)
      else let n_bytes_can_send = (if SD_rwnd s > 0 then SD_rwnd s else 1);
               n_bytes_can_send = n_bytes_can_send - (SD_next_seqno s - SD_checkpoint s)
           in fill_window_loop n_bytes_can_send s)"

text \<open>The loop of ack_received over the queue, with the count of bytes in flight.\<close>

fun pop_acked :: "u64 \<Rightarrow> u64 \<Rightarrow> OrderedSegment list \<Rightarrow> u64 \<times> OrderedSegment list" where
  "pop_acked abs_ackno bytes [] = (bytes, [])"
| "pop_acked abs_ackno bytes (top_seg # q) =
     (let n = TCPSegment_length_in_sequence_space (OS_seg top_seg)
      in if OS_abs_seqno top_seg + n \<le> abs_ackno then pop_acked abs_ackno (bytes - n) q
         else (bytes, top_seg # q))"

definition TCPSender_ack_received :: "TCPSender \<Rightarrow> WrappingInt32 \<Rightarrow> u16 \<Rightarrow> TCPSender result" where
  "TCPSender_ack_received s ackno window_size =
     (let abs_ackno = unwrap ackno (SD_isn s) (SD_checkpoint s);
          s1 = s\<lparr>SD_rwnd := ucast window_size\<rparr>
      in if abs_ackno > SD_next_seqno s1 then Inr s1
         else if abs_ackno \<le> SD_checkpoint s1 then Inr s1
         else let (bytes, q) = pop_acked abs_ackno (SD_bytes_in_flight s1) (SD_in_flight s1);
                  s2 = s1\<lparr>SD_checkpoint := abs_ackno, SD_bytes_in_flight := bytes, SD_in_flight := q,
                          SD_rto := SD_initial_rto s1\<rparr>;
                  s3 = (if SD_in_flight s2 \<noteq> [] then s2\<lparr>SD_time_spent := 0, SD_timer_running := True\<rparr> else s2)
              in TCPSender_fill_window (s3\<lparr>SD_n_consecutive := 0\<rparr>))"

definition TCPSender_tick :: "TCPSender \<Rightarrow> u64 \<Rightarrow> TCPSender" where
  "TCPSender_tick s ms_since_last_tick =
     (let s1 = s\<lparr>SD_time_spent := SD_time_spent s + ms_since_last_tick\<rparr>;
          s2 = (case SD_in_flight s1 of
                  [] \<Rightarrow> s1
                | top_seg # _ \<Rightarrow>
                    if SD_time_spent s1 \<ge> ucast (SD_rto s1)
                    then let s' = s1\<lparr>SD_segments_out := SD_segments_out s1 @ [OS_seg top_seg], SD_time_spent := 0\<rparr>
                         in if SD_rwnd s' > 0
                            then s'\<lparr>SD_n_consecutive := SD_n_consecutive s' + 1, SD_rto := SD_rto s' * 2\<rparr> else s'
                    else s1)
      in if SD_in_flight s2 = [] then s2\<lparr>SD_time_spent := 0, SD_timer_running := False\<rparr> else s2)"


section \<open>The priority queue\<close>

locale min_queue =
  fixes key :: "'e \<Rightarrow> 'k::linorder"
    and valid :: "'q \<Rightarrow> bool"
    and elems :: "'q \<Rightarrow> 'e multiset"
    and push :: "'e \<Rightarrow> 'q \<Rightarrow> 'q"
    and top_of :: "'q \<Rightarrow> 'e"
    and pop :: "'q \<Rightarrow> 'q"
  assumes push_valid: "valid q \<Longrightarrow> valid (push x q)"
    and push_elems: "elems (push x q) = add_mset x (elems q)"
    and top_min: "valid q \<Longrightarrow> elems q \<noteq> {#} \<Longrightarrow> top_of q \<in># elems q \<and> (\<forall>y. y \<in># elems q \<longrightarrow> key (top_of q) \<le> key y)"
    and pop_valid: "valid q \<Longrightarrow> valid (pop q)"
    and pop_elems: "valid q \<Longrightarrow> elems q \<noteq> {#} \<Longrightarrow> elems q = add_mset (top_of q) (elems (pop q))"
begin

lemma top_least:
  assumes "valid q" and "x \<in># elems q" and "\<And>y. y \<in># elems q \<Longrightarrow> y \<noteq> x \<Longrightarrow> key x < key y"
  shows "top_of q = x"
  using top_min [OF assms(1)] assms(2,3) by (metis empty_iff leD set_mset_empty)

lemma push_pop:
  assumes "valid q" and "\<And>y. y \<in># elems q \<Longrightarrow> key x < key y"
  shows "top_of (push x q) = x \<and> elems (pop (push x q)) = elems q"
proof
  show t: "top_of (push x q) = x"
    using assms by (intro top_least) (auto simp: push_valid push_elems)
  show "elems (pop (push x q)) = elems q"
    using pop_elems [OF push_valid [OF assms(1)], of x] by (simp add: push_elems t)
qed

end

interpretation inflight: min_queue OS_abs_seqno "\<lambda>q. sorted_wrt (\<lambda>a b. OS_abs_seqno a \<le> OS_abs_seqno b) q" mset inflight_push hd tl
proof unfold_locales
  fix q :: "OrderedSegment list" and x
  assume "sorted_wrt (\<lambda>a b. OS_abs_seqno a \<le> OS_abs_seqno b) q"
  then have "sorted (map OS_abs_seqno q)" by (simp add: sorted_map)
  then have "sorted (map OS_abs_seqno (inflight_push x q))" unfolding inflight_push_def by (simp add: sorted_insort_key)
  then show "sorted_wrt (\<lambda>a b. OS_abs_seqno a \<le> OS_abs_seqno b) (inflight_push x q)" by (simp add: sorted_map)
next
  fix q :: "OrderedSegment list" and x
  show "mset (inflight_push x q) = add_mset x (mset q)" by (simp add: inflight_push_def)
next
  fix q :: "OrderedSegment list"
  assume "sorted_wrt (\<lambda>a b. OS_abs_seqno a \<le> OS_abs_seqno b) q" "mset q \<noteq> {#}"
  then show "hd q \<in># mset q \<and> (\<forall>y. y \<in># mset q \<longrightarrow> OS_abs_seqno (hd q) \<le> OS_abs_seqno y)"
    by (cases q) auto
next
  fix q :: "OrderedSegment list"
  assume "sorted_wrt (\<lambda>a b. OS_abs_seqno a \<le> OS_abs_seqno b) q"
  then show "sorted_wrt (\<lambda>a b. OS_abs_seqno a \<le> OS_abs_seqno b) (tl q)" by (cases q) auto
next
  fix q :: "OrderedSegment list"
  assume "mset q \<noteq> {#}"
  then show "mset q = add_mset (hd q) (mset (tl q))" by (cases q) auto
qed

lemma inflight_push_last:
  "(\<And>y. y \<in> set q \<Longrightarrow> OS_abs_seqno y < OS_abs_seqno x) \<Longrightarrow> inflight_push x q = q @ [x]"
  unfolding inflight_push_def
proof (induction q)
  case (Cons y q)
  have "\<not> OS_abs_seqno x \<le> OS_abs_seqno y" using Cons.prems [of y] by simp
  then show ?case using Cons by simp
qed simp

section \<open>What is in flight\<close>

definition seg_len :: "OrderedSegment \<Rightarrow> nat" where
  "seg_len x = unat (TCPSegment_length_in_sequence_space (OS_seg x))"

text \<open>The segments of the list occupy the sequence numbers from \<open>a\<close> to \<open>b\<close>, end to end.\<close>

fun in_chain :: "nat \<Rightarrow> OrderedSegment list \<Rightarrow> nat \<Rightarrow> bool" where
  "in_chain a [] b \<longleftrightarrow> a = b"
| "in_chain a (x # q) b \<longleftrightarrow> unat (OS_abs_seqno x) = a \<and> 0 < seg_len x \<and> in_chain (a + seg_len x) q b"

lemma in_chain_le: "in_chain a q b \<Longrightarrow> a \<le> b"
  by (induction q arbitrary: a) fastforce+

lemma in_chain_bounds: "in_chain a q b \<Longrightarrow> x \<in> set q \<Longrightarrow> a \<le> unat (OS_abs_seqno x) \<and> unat (OS_abs_seqno x) + seg_len x \<le> b"
proof (induction q arbitrary: a)
  case (Cons y q)
  then show ?case using in_chain_le [of "a + seg_len y" q b] by fastforce
qed simp

lemma in_chain_append: "in_chain a (q @ q') c \<longleftrightarrow> (\<exists>b. in_chain a q b \<and> in_chain b q' c)"
  by (induction q arbitrary: a) auto

lemma in_chain_sorted: "in_chain a q b \<Longrightarrow> sorted_wrt (\<lambda>a b. OS_abs_seqno a \<le> OS_abs_seqno b) q"
proof (induction q arbitrary: a)
  case (Cons x q)
  then show ?case using in_chain_bounds [of "a + seg_len x" q b] by (fastforce simp: word_le_nat_alt)
qed simp

definition base_seqno :: "TCPSender \<Rightarrow> nat" where
  "base_seqno s = (case SD_in_flight s of [] \<Rightarrow> unat (SD_next_seqno s) | x # _ \<Rightarrow> unat (OS_abs_seqno x))"

text \<open>
  The book-keeping invariant: what is in flight lies end to end up to the next sequence number, its
  size is the count kept, and the recorded acknowledgement falls before the end of the first segment.
\<close>

definition queue_inv :: "TCPSender \<Rightarrow> bool" where
  "queue_inv s \<longleftrightarrow> in_chain (base_seqno s) (SD_in_flight s) (unat (SD_next_seqno s))
     \<and> unat (SD_bytes_in_flight s) = unat (SD_next_seqno s) - base_seqno s
     \<and> base_seqno s \<le> unat (SD_checkpoint s) \<and> unat (SD_checkpoint s) \<le> unat (SD_next_seqno s)
     \<and> (SD_in_flight s \<noteq> [] \<longrightarrow> unat (SD_checkpoint s) < base_seqno s + seg_len (hd (SD_in_flight s)))"

lemma queue_inv_frame:
  "SD_in_flight s' = SD_in_flight s \<Longrightarrow> SD_next_seqno s' = SD_next_seqno s \<Longrightarrow>
   SD_bytes_in_flight s' = SD_bytes_in_flight s \<Longrightarrow> SD_checkpoint s' = SD_checkpoint s \<Longrightarrow>
   queue_inv s \<Longrightarrow> queue_inv s'"
  by (cases "SD_in_flight s") (simp_all add: queue_inv_def base_seqno_def)

lemma seg_len_seqno [simp]:
  "TCPSegment_length_in_sequence_space (seg\<lparr>TS_header := (TS_header seg)\<lparr>TH_seqno := q\<rparr>\<rparr>)
     = TCPSegment_length_in_sequence_space seg"
  by (simp add: TCPSegment_length_in_sequence_space_def)

lemma send_segment_queue:
  assumes inv: "queue_inv s" and pos: "0 < unat (TCPSegment_length_in_sequence_space seg)"
    and small: "unat (SD_next_seqno s) + unat (TCPSegment_length_in_sequence_space seg) < 2 ^ 64"
  shows "queue_inv (TCPSender_send_segment s seg)
    \<and> unat (SD_next_seqno (TCPSender_send_segment s seg))
       = unat (SD_next_seqno s) + unat (TCPSegment_length_in_sequence_space seg)
    \<and> SD_in_flight (TCPSender_send_segment s seg) = SD_in_flight s
        @ [\<lparr>OS_abs_seqno = SD_next_seqno s, OS_seg = seg\<lparr>TS_header := (TS_header seg)\<lparr>TH_seqno := TCPSender_next_seqno s\<rparr>\<rparr>\<rparr>]
    \<and> SD_segments_out (TCPSender_send_segment s seg) = SD_segments_out s
        @ [seg\<lparr>TS_header := (TS_header seg)\<lparr>TH_seqno := TCPSender_next_seqno s\<rparr>\<rparr>]"
proof -
  let ?n = "TCPSegment_length_in_sequence_space seg" and ?s = "TCPSender_send_segment s seg"
  let ?seg = "seg\<lparr>TS_header := (TS_header seg)\<lparr>TH_seqno := TCPSender_next_seqno s\<rparr>\<rparr>"
  let ?x = "\<lparr>OS_abs_seqno = SD_next_seqno s, OS_seg = ?seg\<rparr>"
  have q: "in_chain (base_seqno s) (SD_in_flight s) (unat (SD_next_seqno s))"
    "unat (SD_bytes_in_flight s) = unat (SD_next_seqno s) - base_seqno s"
    "base_seqno s \<le> unat (SD_checkpoint s)" "unat (SD_checkpoint s) \<le> unat (SD_next_seqno s)"
    using inv by (auto simp: queue_inv_def)
  have next': "unat (SD_next_seqno s + ?n) = unat (SD_next_seqno s) + unat ?n"
    using small by (intro unat_add_small) simp
  have bytes: "unat (SD_bytes_in_flight s + ?n) = unat (SD_bytes_in_flight s) + unat ?n"
    using small q(2) by (intro unat_add_small) simp
  have push: "inflight_push ?x (SD_in_flight s) = SD_in_flight s @ [?x]"
  proof (rule inflight_push_last)
    fix y assume "y \<in> set (SD_in_flight s)"
    moreover from this have "0 < seg_len y"
      using q(1) by (auto dest!: split_list simp: in_chain_append)
    ultimately show "OS_abs_seqno y < OS_abs_seqno ?x"
      using in_chain_bounds [OF q(1)] by (fastforce simp: word_less_nat_alt)
  qed
  have x: "seg_len ?x = unat ?n" by (simp add: seg_len_def)
  have base: "base_seqno ?s = base_seqno s"
    by (simp add: base_seqno_def TCPSender_send_segment_def Let_def push split: list.splits)
  have "in_chain (base_seqno s) (SD_in_flight s @ [?x]) (unat (SD_next_seqno s) + unat ?n)"
    using q(1) pos x by (auto simp: in_chain_append)
  moreover have "unat (SD_checkpoint s) < base_seqno s + seg_len (hd (SD_in_flight s @ [?x]))"
    using inv pos x by (cases "SD_in_flight s") (auto simp: queue_inv_def base_seqno_def)
  ultimately show ?thesis
    using q next' bytes in_chain_le [OF q(1)]
    by (simp add: queue_inv_def base) (simp add: TCPSender_send_segment_def Let_def push)
qed

lemma pop_acked_ok:
  assumes "in_chain a q b" and "unat bytes = b - a" and "b < 2 ^ 64" and "a \<le> unat ack" and "unat ack \<le> b"
  shows "\<exists>bytes' a'. pop_acked ack bytes q = (bytes', filter (\<lambda>x. unat ack < unat (OS_abs_seqno x) + seg_len x) q)
    \<and> in_chain a' (filter (\<lambda>x. unat ack < unat (OS_abs_seqno x) + seg_len x) q) b
    \<and> unat bytes' = b - a' \<and> a' \<le> unat ack
    \<and> (filter (\<lambda>x. unat ack < unat (OS_abs_seqno x) + seg_len x) q \<noteq> [] \<longrightarrow>
         unat ack < a' + seg_len (hd (filter (\<lambda>x. unat ack < unat (OS_abs_seqno x) + seg_len x) q)))"
  using assms
proof (induction q arbitrary: a bytes)
  case Nil
  then show ?case by simp
next
  case (Cons x q)
  let ?n = "TCPSegment_length_in_sequence_space (OS_seg x)"
  have x: "unat (OS_abs_seqno x) = a" "0 < unat ?n" "in_chain (a + unat ?n) q b"
    using Cons.prems(1) by (auto simp: seg_len_def)
  have le: "a + unat ?n \<le> b" using in_chain_le [OF x(3)] .
  have sum: "unat (OS_abs_seqno x + ?n) = a + unat ?n" using x le Cons.prems(3) by (simp add: unat_add_small)
  show ?case
  proof (cases "a + unat ?n \<le> unat ack")
    case True
    have "unat (bytes - ?n) = b - (a + unat ?n)"
      using Cons.prems(2) le by (simp add: unat_diff_small)
    then show ?thesis
      using Cons.IH [OF x(3) _ Cons.prems(3) True Cons.prems(5), of "bytes - ?n"] True sum x(1)
      by (simp add: word_le_nat_alt seg_len_def)
  next
    case False
    have keep: "unat ack < unat (OS_abs_seqno y) + seg_len y" if "y \<in> set q" for y
      using in_chain_bounds [OF x(3) that] False by simp
    have "filter (\<lambda>x. unat ack < unat (OS_abs_seqno x) + seg_len x) (x # q) = x # q"
      using keep False x(1) by (simp add: seg_len_def filter_id_conv)
    then show ?thesis
      using False sum Cons.prems x by (intro exI [of _ bytes] exI [of _ a]) (simp add: word_le_nat_alt seg_len_def)
  qed
qed


section \<open>The invariant of the sender\<close>

text \<open>
  \<open>sent\<close> is what has been taken from the outgoing stream so far. Every segment that was sent is a
  piece of it at the place its sequence number says, with at most the maximum payload; the next
  sequence number counts the SYN, the bytes sent, and the FIN.
\<close>

definition piece :: "WrappingInt32 \<Rightarrow> bytes \<Rightarrow> bool \<Rightarrow> TCPSegment \<Rightarrow> bool" where
  "piece isn sent fin_sent seg \<longleftrightarrow> ((\<exists>i. segment_at isn sent i seg) \<or> segment_bare seg) \<and> length (Buffer_str (TS_payload seg)) \<le> 1000
     \<and> (TH_fin (TS_header seg) \<longrightarrow> fin_sent)"

definition sender_inv :: "bytes \<Rightarrow> TCPSender \<Rightarrow> bool" where
  "sender_inv sent s \<longleftrightarrow> queue_inv s \<and> ByteStream_inv (SD_stream s)
     \<and> (\<not> SD_syn s \<longrightarrow> sent = [] \<and> \<not> SD_fin s)
     \<and> unat (SD_next_seqno s) = (if SD_syn s then 1 + length sent + (if SD_fin s then 1 else 0) else 0)
     \<and> (\<forall>seg \<in> set (SD_segments_out s) \<union> OS_seg ` set (SD_in_flight s). piece (SD_isn s) sent (SD_fin s) seg)
     \<and> (SD_fin s \<longrightarrow> isInputEnded (SD_stream s))"

text \<open>The bytes that have entered the stream: those sent and those still in it.\<close>

definition written :: "bytes \<Rightarrow> TCPSender \<Rightarrow> bytes" where
  "written sent s = sent @ ByteStream_contents (SD_stream s)"

lemma sender_inv_new:
  assumes "unat capacity < 2 ^ 32"
  shows "sender_inv [] (TCPSender_new capacity retx isn_option random)"
  using ByteStream_inv_new [OF assms]
  by (simp add: sender_inv_def queue_inv_def base_seqno_def TCPSender_new_def)

lemma segment_at_grows:
  "segment_at isn S i seg \<Longrightarrow> \<not> TH_fin (TS_header seg) \<Longrightarrow> segment_at isn (S @ T) i seg"
  by (auto simp: segment_at_def slice_of_def)

lemma piece_grows: "piece isn sent False seg \<Longrightarrow> piece isn (sent @ extra) fin_sent seg"
  unfolding piece_def using segment_at_grows by blast

lemma piece_fin: "piece isn sent f seg \<Longrightarrow> (f \<longrightarrow> f') \<Longrightarrow> piece isn sent f' seg"
  by (auto simp: piece_def)

lemma length_in_sequence_space:
  assumes "length (Buffer_str (TS_payload seg)) \<le> 1000"
  shows "unat (TCPSegment_length_in_sequence_space seg) = length (Buffer_str (TS_payload seg))
    + (if TH_syn (TS_header seg) then 1 else 0) + (if TH_fin (TS_header seg) then 1 else 0)"
proof -
  have "unat (str_size (Buffer_str (TS_payload seg))) = length (Buffer_str (TS_payload seg))"
    using assms by (simp add: unat_str_size)
  then show ?thesis
    using assms by (auto simp: TCPSegment_length_in_sequence_space_def unat_word_ariths)
qed

lemma send_segment_inv:
  assumes inv: "sender_inv sent s" and fin: "\<not> SD_fin s"
    and payload: "Buffer_str (TS_payload seg) = data" "length data \<le> 1000"
    and nonempty: "data \<noteq> [] \<or> TH_fin (TS_header seg)" and seg: "\<not> TH_syn (TS_header seg)" and syn: "SD_syn s"
    and stream: "ByteStream_inv stream" and ended: "TH_fin (TS_header seg) \<longrightarrow> isInputEnded stream"
    and small: "length sent + length data + 2 < 2 ^ 32"
    and s1: "s1 = s\<lparr>SD_stream := stream, SD_fin := TH_fin (TS_header seg)\<rparr>"
  shows "sender_inv (sent @ data) (TCPSender_send_segment s1 seg)
    \<and> unat (SD_next_seqno (TCPSender_send_segment s1 seg))
       = unat (SD_next_seqno s) + length data + (if TH_fin (TS_header seg) then 1 else 0)"
proof -
  let ?seg = "seg\<lparr>TS_header := (TS_header seg)\<lparr>TH_seqno := TCPSender_next_seqno s1\<rparr>\<rparr>"
  let ?s = "TCPSender_send_segment s1 seg" and ?fin = "TH_fin (TS_header seg)"
  have len: "unat (TCPSegment_length_in_sequence_space seg) = length data + (if ?fin then 1 else 0)"
    using length_in_sequence_space [of seg] payload seg by simp
  have next_s: "unat (SD_next_seqno s) = 1 + length sent" using inv syn fin by (simp add: sender_inv_def)
  have "queue_inv s1" using inv by (intro queue_inv_frame [of s1 s]) (simp_all add: sender_inv_def s1)
  moreover have "0 < unat (TCPSegment_length_in_sequence_space seg)" using len nonempty by auto
  moreover have "unat (SD_next_seqno s1) + unat (TCPSegment_length_in_sequence_space seg) < 2 ^ 64"
    using next_s len small by (simp add: s1)
  ultimately have q: "queue_inv ?s" "unat (SD_next_seqno ?s) = unat (SD_next_seqno s1) + unat (TCPSegment_length_in_sequence_space seg)"
    "SD_in_flight ?s = SD_in_flight s1 @ [\<lparr>OS_abs_seqno = SD_next_seqno s1, OS_seg = ?seg\<rparr>]"
    "SD_segments_out ?s = SD_segments_out s1 @ [?seg]"
    using send_segment_queue by blast+
  have "SD_next_seqno s = of_nat (length sent + 1)" using next_s by (intro word_eq_of_nat) simp
  then have "segment_at (SD_isn s) (sent @ data) (length sent) ?seg"
    using payload(1) seg by (simp add: segment_at_def slice_of_def TCPSender_next_seqno_def s1)
  then have new: "piece (SD_isn s) (sent @ data) ?fin ?seg" using payload by (auto simp: piece_def)
  have old: "piece (SD_isn s) (sent @ data) ?fin x" if "x \<in> set (SD_segments_out s) \<union> OS_seg ` set (SD_in_flight s)" for x
    using inv fin that by (intro piece_grows) (auto simp: sender_inv_def)
  show ?thesis
    unfolding sender_inv_def
  proof (intro conjI)
    show "\<forall>seg \<in> set (SD_segments_out ?s) \<union> OS_seg ` set (SD_in_flight ?s). piece (SD_isn ?s) (sent @ data) (SD_fin ?s) seg"
      unfolding q(3,4) using new old by (auto simp: s1)
    show "unat (SD_next_seqno ?s) = (if SD_syn ?s then 1 + length (sent @ data) + (if SD_fin ?s then 1 else 0) else 0)"
      unfolding q(2) using syn next_s len by (simp add: s1)
    show "unat (SD_next_seqno ?s) = unat (SD_next_seqno s) + length data + (if ?fin then 1 else 0)"
      unfolding q(2) using len by (simp add: s1)
  qed (use q(1) stream ended syn in \<open>simp_all add: s1\<close>)
qed

text \<open>One turn of the loop, on a sender with something to send.\<close>

lemma fill_window_turn_ok:
  assumes inv: "sender_inv sent s" and syn: "SD_syn s" and fin: "\<not> SD_fin s" and n: "n > 0"
    and work: "ByteStream_eof (SD_stream s) \<or> \<not> ByteStream_buffer_empty (SD_stream s)"
    and small: "length (written sent s) + 2 < 2 ^ 32"
  shows "\<exists>n' s' data. fill_window_turn n s = Inr (n', s') \<and> sender_inv (sent @ data) s' \<and> SD_syn s'
    \<and> written (sent @ data) s' = written sent s
    \<and> SD_isn s' = SD_isn s \<and> SD_rwnd s' = SD_rwnd s \<and> SD_checkpoint s' = SD_checkpoint s
    \<and> unat (SD_next_seqno s') \<le> unat (SD_next_seqno s) + unat n
    \<and> (ByteStream_contents (SD_stream s') = [] \<or>
         unat (SD_next_seqno s') + unat n' = unat (SD_next_seqno s) + unat n)
    \<and> (\<not> SD_fin s' \<longrightarrow> unat (SD_next_seqno s') + unat n' \<le> unat (SD_next_seqno s) + unat n)
    \<and> (SD_fin s' \<longrightarrow> ByteStream_contents (SD_stream s') = [])"
proof -
  define size where "size = (if n > MAX_PAYLOAD_SIZE then MAX_PAYLOAD_SIZE else n)"
  define C where "C = ByteStream_contents (SD_stream s)"
  have bs: "ByteStream_inv (SD_stream s)" using inv by (simp add: sender_inv_def)
  obtain st where st: "ByteStream_read (SD_stream s) size = Inr (take (unat size) C, st)" "ByteStream_inv st"
    "ByteStream_contents st = drop (unat size) C" "isInputEnded st = isInputEnded (SD_stream s)"
    by (rule ByteStream_readE [OF bs, of size]) (simp add: C_def)
  define data where "data = take (unat size) C"
  define seg where "seg = TCPSegment_new\<lparr>TS_payload := Buffer_of data\<rparr>"
  define is_last where "is_last = (ByteStream_eof st \<and> n > TCPSegment_length_in_sequence_space seg)"
  define seg1 where "seg1 = (if is_last then seg\<lparr>TS_header := (TS_header seg)\<lparr>TH_fin := True\<rparr>\<rparr> else seg)"
  define s1 where "s1 = s\<lparr>SD_stream := st, SD_fin := TH_fin (TS_header seg1)\<rparr>"
  have size: "unat size \<le> 1000" "unat size \<le> unat n" "0 < unat size" "size \<le> n"
    using n by (auto simp: size_def MAX_PAYLOAD_SIZE_def word_less_nat_alt word_le_nat_alt)
  have seg: "Buffer_str (TS_payload seg1) = data" "length data \<le> 1000" "\<not> TH_syn (TS_header seg1)"
    "TH_fin (TS_header seg1) = is_last"
    using size by (simp_all add: seg1_def seg_def data_def TCPSegment_new_def TCPHeader_new_def)
  have len: "unat (TCPSegment_length_in_sequence_space seg) = length data"
    using length_in_sequence_space [of seg] seg(2) by (simp add: seg_def TCPSegment_new_def TCPHeader_new_def)
  have "s1 = (if is_last then s\<lparr>SD_stream := st\<rparr>\<lparr>SD_fin := True\<rparr> else s\<lparr>SD_stream := st\<rparr>)"
    using seg(4) fin by (cases s) (simp add: s1_def)
  then have turn: "fill_window_turn n s = Inr ((if is_last then n - 1 else n) - size, TCPSender_send_segment s1 seg1)"
    by (simp add: fill_window_turn_def Let_def st(1) size_def [symmetric] data_def [symmetric]
        seg_def [symmetric] is_last_def [symmetric]) (simp add: seg1_def)
  have eof: "ByteStream_eof st \<longleftrightarrow> isInputEnded st \<and> drop (unat size) C = []"
    by (simp only: eof_iff [OF st(2)] st(3))
  have work': "data \<noteq> [] \<or> is_last"
  proof (cases "C = []")
    case True
    then have "isInputEnded (SD_stream s)"
      using work by (simp add: eof_iff [OF bs] buffer_empty_iff [OF bs] C_def)
    then show ?thesis
      using True n len eof st(4) by (simp add: is_last_def data_def word_less_nat_alt)
  next
    case False
    then show ?thesis using size(3) by (simp add: data_def)
  qed
  have small': "length sent + length data + 2 < 2 ^ 32"
    using small by (simp add: written_def data_def C_def [symmetric])
  have ended: "TH_fin (TS_header seg1) \<longrightarrow> isInputEnded st" using seg(4) eof by (simp add: is_last_def)
  from send_segment_inv [OF inv fin seg(1,2) _ seg(3) syn st(2) ended small' s1_def] work' seg(4)
  have s': "sender_inv (sent @ data) (TCPSender_send_segment s1 seg1)"
    "unat (SD_next_seqno (TCPSender_send_segment s1 seg1)) = unat (SD_next_seqno s) + length data + (if is_last then 1 else 0)"
    by auto
  have last: "is_last \<Longrightarrow> length data < unat n" using len by (simp add: is_last_def word_less_nat_alt)
  have data_le: "length data \<le> unat size" by (simp add: data_def)
  have drained: "length data < unat size \<Longrightarrow> drop (unat size) C = []" by (simp add: data_def)
  have minus: "unat (n - size) = unat n - unat size" using size by (simp add: unat_diff_small)
  show ?thesis
  proof (intro exI conjI)
    show "fill_window_turn n s = Inr ((if is_last then n - 1 else n) - size, TCPSender_send_segment s1 seg1)" by (rule turn)
    show "written (sent @ data) (TCPSender_send_segment s1 seg1) = written sent s"
      by (simp add: written_def s1_def st(3) data_def C_def [symmetric])
    show "ByteStream_contents (SD_stream (TCPSender_send_segment s1 seg1)) = []
        \<or> unat (SD_next_seqno (TCPSender_send_segment s1 seg1)) + unat ((if is_last then n - 1 else n) - size)
          = unat (SD_next_seqno s) + unat n"
      using s'(2) minus drained size(2) data_le eof
      by (cases "length data < unat size"; cases is_last) (simp_all add: s1_def seg(4) st(3) is_last_def)
    show "unat (SD_next_seqno (TCPSender_send_segment s1 seg1)) \<le> unat (SD_next_seqno s) + unat n"
      using s'(2) last size data_le by (cases is_last) simp_all
    show "\<not> SD_fin (TCPSender_send_segment s1 seg1) \<longrightarrow> unat (SD_next_seqno (TCPSender_send_segment s1 seg1))
        + unat ((if is_last then n - 1 else n) - size) \<le> unat (SD_next_seqno s) + unat n"
      using s'(2) minus size(2) data_le by (cases is_last) (simp_all add: s1_def seg(4))
    show "SD_fin (TCPSender_send_segment s1 seg1) \<longrightarrow> ByteStream_contents (SD_stream (TCPSender_send_segment s1 seg1)) = []"
      using eof by (simp add: s1_def seg(4) st(3) is_last_def)
  qed (use s' syn in \<open>simp_all add: s1_def\<close>)
qed


text \<open>
  The whole loop: it sends no more than the window, and, unless the FIN was already sent, stops only
  when the stream is drained or the window is used up.
\<close>

lemma fill_window_loop_ok:
  assumes "sender_inv sent s" and "SD_syn s" and "length (written sent s) + 2 < 2 ^ 32"
  shows "\<exists>s' data. fill_window_loop n s = Inr s' \<and> sender_inv (sent @ data) s' \<and> SD_syn s'
    \<and> written (sent @ data) s' = written sent s
    \<and> SD_isn s' = SD_isn s \<and> SD_rwnd s' = SD_rwnd s \<and> SD_checkpoint s' = SD_checkpoint s
    \<and> unat (SD_next_seqno s') \<le> unat (SD_next_seqno s) + unat n
    \<and> (SD_fin s \<or> ByteStream_contents (SD_stream s') = [] \<or> unat (SD_next_seqno s') = unat (SD_next_seqno s) + unat n)"
  using assms
proof (induction n s arbitrary: sent rule: fill_window_loop.induct)
  case (1 n s)
  have bs: "ByteStream_inv (SD_stream s)" using "1.prems"(1) by (simp add: sender_inv_def)
  consider (stop) "\<not> (n > 0 \<and> \<not> SD_fin s)"
    | (idle) "n > 0" "\<not> SD_fin s" "\<not> ByteStream_eof (SD_stream s)" "ByteStream_buffer_empty (SD_stream s)"
    | (work) "n > 0" "\<not> SD_fin s" "ByteStream_eof (SD_stream s) \<or> \<not> ByteStream_buffer_empty (SD_stream s)"
    by blast
  then show ?case
  proof cases
    case stop
    then have "fill_window_loop n s = Inr s" by (subst fill_window_loop.simps) (simp only: if_False)
    then show ?thesis
      using stop "1.prems" by (intro exI [of _ s] exI [of _ "[]"]) (auto simp: word_less_nat_alt)
  next
    case idle
    then have "fill_window_loop n s = Inr s" by (simp add: fill_window_loop.simps [of n s])
    then show ?thesis
      using idle "1.prems" by (intro exI [of _ s] exI [of _ "[]"]) (simp add: buffer_empty_iff [OF bs])
  next
    case work
    obtain n' s1 data where t: "fill_window_turn n s = Inr (n', s1)" "sender_inv (sent @ data) s1" "SD_syn s1"
      "written (sent @ data) s1 = written sent s"
      "SD_isn s1 = SD_isn s" "SD_rwnd s1 = SD_rwnd s" "SD_checkpoint s1 = SD_checkpoint s"
      "unat (SD_next_seqno s1) \<le> unat (SD_next_seqno s) + unat n"
      "ByteStream_contents (SD_stream s1) = [] \<or>
         unat (SD_next_seqno s1) + unat n' = unat (SD_next_seqno s) + unat n"
      "\<not> SD_fin s1 \<longrightarrow> unat (SD_next_seqno s1) + unat n' \<le> unat (SD_next_seqno s) + unat n"
      "SD_fin s1 \<longrightarrow> ByteStream_contents (SD_stream s1) = []"
      using fill_window_turn_ok [OF "1.prems"(1,2) work(2,1,3) "1.prems"(3)] by blast
    have run: "fill_window_loop n s = fill_window_loop n' s1"
      using work t(1) by (auto simp: fill_window_loop.simps [of n s])
    obtain s' data' where l: "fill_window_loop n' s1 = Inr s'" "sender_inv ((sent @ data) @ data') s'" "SD_syn s'"
      "written ((sent @ data) @ data') s' = written (sent @ data) s1"
      "SD_isn s' = SD_isn s1" "SD_rwnd s' = SD_rwnd s1" "SD_checkpoint s' = SD_checkpoint s1"
      "unat (SD_next_seqno s') \<le> unat (SD_next_seqno s1) + unat n'"
      "SD_fin s1 \<or> ByteStream_contents (SD_stream s') = [] \<or> unat (SD_next_seqno s') = unat (SD_next_seqno s1) + unat n'"
      using "1.IH" [OF _ _ t(1) refl t(2,3)] work t(4) "1.prems"(3) by (auto simp del: append_assoc)
    have fin: "SD_fin s1 \<Longrightarrow> s' = s1" using l(1) by (simp add: fill_window_loop.simps [of n' s1])
    have drained: "ByteStream_contents (SD_stream s1) = [] \<Longrightarrow> ByteStream_contents (SD_stream s') = []"
      using l(4) by (simp add: written_def)
    show ?thesis
      unfolding run
    proof (intro exI [of _ s'] exI [of _ "data @ data'"] conjI)
      show "unat (SD_next_seqno s') \<le> unat (SD_next_seqno s) + unat n"
        using fin t(8,10) l(8) by (cases "SD_fin s1") auto
      show "SD_fin s \<or> ByteStream_contents (SD_stream s') = [] \<or> unat (SD_next_seqno s') = unat (SD_next_seqno s) + unat n"
        using fin drained t(9,11) l(9) by (cases "SD_fin s1") auto
    qed (use l t in simp_all)
  qed
qed

lemma sender_inv_syn:
  assumes inv: "sender_inv sent s" and syn: "\<not> SD_syn s"
    and seg: "seg = TCPSegment_new\<lparr>TS_header := (TS_header TCPSegment_new)\<lparr>TH_syn := True\<rparr>\<rparr>"
  shows "sender_inv sent ((TCPSender_send_segment s seg)\<lparr>SD_syn := True\<rparr>)"
proof -
  let ?s = "TCPSender_send_segment s seg"
  let ?seg = "seg\<lparr>TS_header := (TS_header seg)\<lparr>TH_seqno := TCPSender_next_seqno s\<rparr>\<rparr>"
  have s: "sent = []" "\<not> SD_fin s" "unat (SD_next_seqno s) = 0" "queue_inv s" "ByteStream_inv (SD_stream s)"
    using inv syn by (auto simp: sender_inv_def)
  have len: "unat (TCPSegment_length_in_sequence_space seg) = 1"
    using length_in_sequence_space [of seg] by (simp add: seg TCPSegment_new_def TCPHeader_new_def)
  have q: "queue_inv ?s" "unat (SD_next_seqno ?s) = unat (SD_next_seqno s) + unat (TCPSegment_length_in_sequence_space seg)"
    "SD_in_flight ?s = SD_in_flight s @ [\<lparr>OS_abs_seqno = SD_next_seqno s, OS_seg = ?seg\<rparr>]"
    "SD_segments_out ?s = SD_segments_out s @ [?seg]"
    using send_segment_queue [OF s(4), of seg] len s(3) by auto
  have "SD_next_seqno s = 0" using s(3) by (simp add: unat_eq_0)
  then have "segment_at (SD_isn s) [] 0 ?seg"
    by (simp add: segment_at_def slice_of_def TCPSender_next_seqno_def seg TCPSegment_new_def TCPHeader_new_def)
  then have new: "piece (SD_isn s) [] False ?seg"
    by (auto simp: piece_def seg TCPSegment_new_def TCPHeader_new_def)
  have old: "piece (SD_isn s) [] False x" if "x \<in> set (SD_segments_out s) \<union> OS_seg ` set (SD_in_flight s)" for x
    using inv s(1,2) that by (auto simp: sender_inv_def)
  have "queue_inv (?s\<lparr>SD_syn := True\<rparr>)" by (rule queue_inv_frame [OF _ _ _ _ q(1)]) simp_all
  then show ?thesis
    using new old s q(2) len by (auto simp: sender_inv_def q(3,4))
qed

definition window_left :: "TCPSender \<Rightarrow> u64" where
  "window_left s = (if SD_rwnd s > 0 then SD_rwnd s else 1) - (SD_next_seqno s - SD_checkpoint s)"

lemma fill_window_loop_fin: "SD_fin s \<Longrightarrow> fill_window_loop n s = Inr s"
  by (simp add: fill_window_loop.simps [of n s])

lemma fill_window_ok:
  assumes inv: "sender_inv sent s" and small: "length (written sent s) + 2 < 2 ^ 32"
  shows "\<exists>s' data. TCPSender_fill_window s = Inr s' \<and> sender_inv (sent @ data) s' \<and> SD_syn s'
    \<and> written (sent @ data) s' = written sent s
    \<and> SD_isn s' = SD_isn s \<and> SD_rwnd s' = SD_rwnd s \<and> SD_checkpoint s' = SD_checkpoint s
    \<and> (SD_syn s \<longrightarrow> unat (SD_next_seqno s') \<le> unat (SD_next_seqno s) + unat (window_left s)
        \<and> (SD_fin s \<or> ByteStream_contents (SD_stream s') = []
            \<or> unat (SD_next_seqno s') = unat (SD_next_seqno s) + unat (window_left s)))
    \<and> (SD_fin s \<longrightarrow> s' = s)"
proof (cases "SD_syn s")
  case True
  then show ?thesis
    using fill_window_loop_ok [OF inv True small, of "window_left s"] fill_window_loop_fin [of s "window_left s"]
    by (auto simp: TCPSender_fill_window_def window_left_def Let_def)
next
  case False
  then have "\<not> SD_fin s" using inv by (simp add: sender_inv_def)
  let ?seg = "TCPSegment_new\<lparr>TS_header := (TS_header TCPSegment_new)\<lparr>TH_syn := True\<rparr>\<rparr>"
  show ?thesis
    using sender_inv_syn [OF inv False refl] False \<open>\<not> SD_fin s\<close>
    by (intro exI [of _ "(TCPSender_send_segment s ?seg)\<lparr>SD_syn := True\<rparr>"] exI [of _ "[]"])
      (simp add: TCPSender_fill_window_def written_def Let_def)
qed


lemma ack_received_old:
  assumes "ack = unwrap ackno (SD_isn s) (SD_checkpoint s)" and "\<not> (SD_checkpoint s < ack \<and> ack \<le> SD_next_seqno s)"
  shows "TCPSender_ack_received s ackno w = Inr (s\<lparr>SD_rwnd := ucast w\<rparr>)"
  using assms by (auto simp: TCPSender_ack_received_def Let_def)

lemma ack_received_new:
  assumes inv: "sender_inv sent s" and ack_def: "ack = unwrap ackno (SD_isn s) (SD_checkpoint s)"
    and new: "SD_checkpoint s < ack" "ack \<le> SD_next_seqno s"
  shows "\<exists>s3. TCPSender_ack_received s ackno w = TCPSender_fill_window s3 \<and> sender_inv sent s3
    \<and> SD_in_flight s3 = filter (\<lambda>x. unat ack < unat (OS_abs_seqno x) + seg_len x) (SD_in_flight s)
    \<and> SD_checkpoint s3 = ack \<and> SD_rwnd s3 = ucast w \<and> SD_rto s3 = SD_initial_rto s \<and> SD_n_consecutive s3 = 0
    \<and> (SD_in_flight s3 \<noteq> [] \<longrightarrow> SD_time_spent s3 = 0 \<and> SD_timer_running s3)
    \<and> SD_stream s3 = SD_stream s \<and> SD_fin s3 = SD_fin s \<and> SD_isn s3 = SD_isn s"
proof -
  let ?s1 = "s\<lparr>SD_rwnd := ucast w\<rparr>"
  let ?keep = "filter (\<lambda>x. unat ack < unat (OS_abs_seqno x) + seg_len x) (SD_in_flight s)"
  have q: "in_chain (base_seqno s) (SD_in_flight s) (unat (SD_next_seqno s))"
    "unat (SD_bytes_in_flight s) = unat (SD_next_seqno s) - base_seqno s"
    "base_seqno s \<le> unat (SD_checkpoint s)" using inv by (auto simp: sender_inv_def queue_inv_def)
  have ack: "unat ack \<le> unat (SD_next_seqno s)" "unat (SD_checkpoint s) < unat ack"
    using new by (auto simp: word_less_nat_alt word_le_nat_alt)
  obtain bytes a where p: "pop_acked ack (SD_bytes_in_flight s) (SD_in_flight s) = (bytes, ?keep)"
    "in_chain a ?keep (unat (SD_next_seqno s))" "unat bytes = unat (SD_next_seqno s) - a" "a \<le> unat ack"
    "?keep \<noteq> [] \<longrightarrow> unat ack < a + seg_len (hd ?keep)"
    using pop_acked_ok [OF q(1,2), of ack] q(3) ack by auto
  define s3 where "s3 = (let s2 = ?s1\<lparr>SD_checkpoint := ack, SD_bytes_in_flight := bytes, SD_in_flight := ?keep,
      SD_rto := SD_initial_rto s\<rparr> in (if ?keep \<noteq> [] then s2\<lparr>SD_time_spent := 0, SD_timer_running := True\<rparr> else s2)
      \<lparr>SD_n_consecutive := 0\<rparr>)"
  have run: "TCPSender_ack_received s ackno w = TCPSender_fill_window s3"
  proof -
    have "\<not> (ack > SD_next_seqno s \<or> ack \<le> SD_checkpoint s)" using new by auto
    then show ?thesis by (simp add: TCPSender_ack_received_def Let_def ack_def [symmetric] p(1) s3_def)
  qed
  have s3: "SD_in_flight s3 = ?keep" "SD_next_seqno s3 = SD_next_seqno s" "SD_bytes_in_flight s3 = bytes"
    "SD_checkpoint s3 = ack" "SD_stream s3 = SD_stream s" "SD_syn s3 = SD_syn s" "SD_fin s3 = SD_fin s"
    "SD_isn s3 = SD_isn s" "SD_segments_out s3 = SD_segments_out s" "SD_rwnd s3 = ucast w" "SD_rto s3 = SD_initial_rto s"
    "SD_n_consecutive s3 = 0" "?keep \<noteq> [] \<longrightarrow> SD_time_spent s3 = 0 \<and> SD_timer_running s3"
    by (simp_all add: s3_def Let_def)
  have "base_seqno s3 = a" using p(2) by (cases ?keep) (simp_all add: base_seqno_def s3)
  then have "queue_inv s3" using p ack by (simp add: queue_inv_def s3)
  then have "sender_inv sent s3" using inv by (auto simp: sender_inv_def s3)
  then show ?thesis using run s3 by (intro exI [of _ s3]) simp
qed

lemma ack_received_ok:
  assumes inv: "sender_inv sent s" and small: "length (written sent s) + 2 < 2 ^ 32"
  shows "\<exists>s' data. TCPSender_ack_received s ackno w = Inr s' \<and> sender_inv (sent @ data) s'
    \<and> written (sent @ data) s' = written sent s \<and> SD_isn s' = SD_isn s
    \<and> (SD_fin s \<longrightarrow> SD_stream s' = SD_stream s \<and> SD_fin s')"
proof (cases "SD_checkpoint s < unwrap ackno (SD_isn s) (SD_checkpoint s)
    \<and> unwrap ackno (SD_isn s) (SD_checkpoint s) \<le> SD_next_seqno s")
  case True
  then obtain s3 where s3: "TCPSender_ack_received s ackno w = TCPSender_fill_window s3" "sender_inv sent s3"
    "SD_stream s3 = SD_stream s" "SD_fin s3 = SD_fin s" "SD_isn s3 = SD_isn s"
    using ack_received_new [OF inv refl, of ackno w] by blast
  moreover have "length (written sent s3) + 2 < 2 ^ 32" using small by (simp add: written_def s3)
  ultimately obtain s' data where "TCPSender_fill_window s3 = Inr s'" "sender_inv (sent @ data) s'"
    "written (sent @ data) s' = written sent s3" "SD_isn s' = SD_isn s3" "SD_fin s3 \<longrightarrow> s' = s3"
    using fill_window_ok by blast
  then show ?thesis
    unfolding s3(1) by (intro exI [of _ s'] exI [of _ data]) (auto simp: written_def s3)
next
  case False
  have "sender_inv sent (s\<lparr>SD_rwnd := ucast w\<rparr>)"
    using inv queue_inv_frame [of "s\<lparr>SD_rwnd := ucast w\<rparr>" s] by (simp add: sender_inv_def)
  then show ?thesis
    unfolding ack_received_old [OF refl False]
    by (intro exI [of _ "s\<lparr>SD_rwnd := ucast w\<rparr>"] exI [of _ "[]"]) (simp add: written_def)
qed

lemma tick_ok:
  assumes inv: "sender_inv sent s"
  shows "sender_inv sent (TCPSender_tick s ms)" and "SD_stream (TCPSender_tick s ms) = SD_stream s"
    and "SD_isn (TCPSender_tick s ms) = SD_isn s" and "SD_fin (TCPSender_tick s ms) = SD_fin s"
proof -
  let ?s = "TCPSender_tick s ms"
  have same: "SD_in_flight ?s = SD_in_flight s" "SD_next_seqno ?s = SD_next_seqno s"
    "SD_bytes_in_flight ?s = SD_bytes_in_flight s" "SD_checkpoint ?s = SD_checkpoint s"
    "SD_stream ?s = SD_stream s" "SD_syn ?s = SD_syn s" "SD_fin ?s = SD_fin s" "SD_isn ?s = SD_isn s"
    and out: "set (SD_segments_out ?s) \<subseteq> set (SD_segments_out s) \<union> OS_seg ` set (SD_in_flight s)"
    by (auto simp: TCPSender_tick_def Let_def split: list.splits)
  have "queue_inv ?s" using inv same by (intro queue_inv_frame [of ?s s]) (simp_all add: sender_inv_def)
  then show "sender_inv sent ?s" using inv out by (auto simp: sender_inv_def same)
  show "SD_stream ?s = SD_stream s" "SD_isn ?s = SD_isn s" "SD_fin ?s = SD_fin s" by (rule same)+
qed


lemma send_empty_ok:
  assumes "sender_inv sent s"
  shows "sender_inv sent (TCPSender_send_empty_segment s)"
    and "SD_stream (TCPSender_send_empty_segment s) = SD_stream s" and "SD_isn (TCPSender_send_empty_segment s) = SD_isn s"
    and "SD_fin (TCPSender_send_empty_segment s) = SD_fin s"
proof -
  let ?s = "TCPSender_send_empty_segment s"
  have "queue_inv ?s"
    using assms by (intro queue_inv_frame [of ?s s]) (simp_all add: sender_inv_def TCPSender_send_empty_segment_def Let_def)
  then show "sender_inv sent ?s"
    using assms
    by (auto simp: sender_inv_def TCPSender_send_empty_segment_def Let_def piece_def segment_bare_def
        TCPSegment_new_def TCPHeader_new_def)
qed (simp_all add: TCPSender_send_empty_segment_def Let_def)

text \<open>The application's side of the outgoing stream: writing to it and ending it.\<close>

lemma sender_write_ok:
  assumes inv: "sender_inv sent s" and len: "length data < 2 ^ 64"
  obtains k st where "ByteStream_write (SD_stream s) data = Inr (of_nat k, st)" "k \<le> length data"
    "sender_inv sent (s\<lparr>SD_stream := st\<rparr>)" "written sent (s\<lparr>SD_stream := st\<rparr>) = written sent s @ take k data"
proof -
  have "ByteStream_inv (SD_stream s)" using inv by (simp add: sender_inv_def)
  then obtain st k where st: "ByteStream_write (SD_stream s) data = Inr (of_nat k, st)" "ByteStream_inv st"
    "k = min (length data) (unat (BS_capacity (SD_stream s)) - length (ByteStream_contents (SD_stream s)))"
    "ByteStream_contents st = ByteStream_contents (SD_stream s) @ take k data"
    "isInputEnded st = isInputEnded (SD_stream s)"
    by (rule ByteStream_writeE [OF _ len]) (rule that; assumption)
  have "queue_inv (s\<lparr>SD_stream := st\<rparr>)"
    using inv by (intro queue_inv_frame [of "s\<lparr>SD_stream := st\<rparr>" s]) (simp_all add: sender_inv_def)
  then have "sender_inv sent (s\<lparr>SD_stream := st\<rparr>)" using inv st(2,5) by (auto simp: sender_inv_def)
  then show ?thesis using st by (intro that [of k st]) (auto simp: written_def)
qed

lemma sender_end_input_ok:
  assumes "sender_inv sent s"
  shows "sender_inv sent (s\<lparr>SD_stream := ByteStream_end_input (SD_stream s)\<rparr>)"
    and "written sent (s\<lparr>SD_stream := ByteStream_end_input (SD_stream s)\<rparr>) = written sent s"
proof -
  let ?s = "s\<lparr>SD_stream := ByteStream_end_input (SD_stream s)\<rparr>"
  have "queue_inv ?s" using assms by (intro queue_inv_frame [of ?s s]) (simp_all add: sender_inv_def)
  then show "sender_inv sent ?s"
    using assms by (auto simp: sender_inv_def ByteStream_end_input_def ByteStream_inv_def)
  show "written sent ?s = written sent s"
    by (simp add: written_def ByteStream_end_input_def ByteStream_contents_def)
qed

section \<open>Runs\<close>

text \<open>
  Everything that can happen to a sender: the application writes or ends the stream, the window is
  filled, an acknowledgement arrives, time passes, an empty segment is asked for, and the owner takes
  segments from the outgoing queue. A run yields the bytes the stream accepted and the segments taken.
\<close>

datatype sender_op = Write bytes | EndInput | FillWindow | Ack WrappingInt32 u16 | Tick u64 | SendEmpty | TakeOut nat

fun sender_step :: "sender_op \<Rightarrow> TCPSender \<Rightarrow> (bytes \<times> TCPSegment list \<times> TCPSender) result" where
  "sender_step (Write data) s = bindR (ByteStream_write (SD_stream s) data) (\<lambda>(n, st).
     Inr (take (unat n) data, [], s\<lparr>SD_stream := st\<rparr>))"
| "sender_step EndInput s = Inr ([], [], s\<lparr>SD_stream := ByteStream_end_input (SD_stream s)\<rparr>)"
| "sender_step FillWindow s = bindR (TCPSender_fill_window s) (\<lambda>s'. Inr ([], [], s'))"
| "sender_step (Ack ackno w) s = bindR (TCPSender_ack_received s ackno w) (\<lambda>s'. Inr ([], [], s'))"
| "sender_step (Tick ms) s = Inr ([], [], TCPSender_tick s ms)"
| "sender_step SendEmpty s = Inr ([], [], TCPSender_send_empty_segment s)"
| "sender_step (TakeOut k) s = Inr ([], take k (SD_segments_out s), s\<lparr>SD_segments_out := drop k (SD_segments_out s)\<rparr>)"

fun sender_run :: "sender_op list \<Rightarrow> TCPSender \<Rightarrow> (bytes \<times> TCPSegment list \<times> TCPSender) result" where
  "sender_run [] s = Inr ([], [], s)"
| "sender_run (op # ops) s = bindR (sender_step op s) (\<lambda>(acc, segs, s1).
     bindR (sender_run ops s1) (\<lambda>(acc', segs', s2). Inr (acc @ acc', segs @ segs', s2)))"

fun op_offers :: "sender_op \<Rightarrow> nat" where
  "op_offers (Write data) = length data"
| "op_offers _ = 0"

lemma written_stream: "SD_stream s' = SD_stream s \<Longrightarrow> written sent s' = written sent s"
  by (simp add: written_def)

lemma sender_step_ok:
  assumes inv: "sender_inv sent s" and small: "length (written sent s) + op_offers op + 2 < 2 ^ 32"
  shows "\<exists>acc segs s' data. sender_step op s = Inr (acc, segs, s') \<and> sender_inv (sent @ data) s'
    \<and> written (sent @ data) s' = written sent s @ acc \<and> SD_isn s' = SD_isn s \<and> length acc \<le> op_offers op
    \<and> (SD_fin s \<longrightarrow> data = [] \<and> SD_fin s')
    \<and> (\<forall>seg \<in> set segs. piece (SD_isn s) sent (SD_fin s) seg)"
proof (cases op)
  case (Write data)
  have "length data < 2 ^ 64" using small Write by simp
  then obtain k st where "ByteStream_write (SD_stream s) data = Inr (of_nat k, st)" "k \<le> length data"
    "sender_inv sent (s\<lparr>SD_stream := st\<rparr>)" "written sent (s\<lparr>SD_stream := st\<rparr>) = written sent s @ take k data"
    by (rule sender_write_ok [OF inv])
  then show ?thesis
    using small Write by (intro exI [of _ "take k data"] exI [of _ "[]"] exI [of _ "s\<lparr>SD_stream := st\<rparr>"])
      (simp add: unat_of_nat)
next
  case FillWindow
  have "length (written sent s) + 2 < 2 ^ 32" using small by linarith
  from fill_window_ok [OF inv this] obtain s' data where "TCPSender_fill_window s = Inr s'" "sender_inv (sent @ data) s'"
    "written (sent @ data) s' = written sent s" "SD_isn s' = SD_isn s" "SD_fin s \<longrightarrow> s' = s" by blast
  then show ?thesis
    using FillWindow by (intro exI [of _ "[]"] exI [of _ s'] exI [of _ data]) (auto simp: written_def)
next
  case (Ack ackno w)
  have "length (written sent s) + 2 < 2 ^ 32" using small by linarith
  from ack_received_ok [OF inv this, of ackno w]
  obtain s' data where "TCPSender_ack_received s ackno w = Inr s'" "sender_inv (sent @ data) s'"
    "written (sent @ data) s' = written sent s" "SD_isn s' = SD_isn s"
    "SD_fin s \<longrightarrow> SD_stream s' = SD_stream s \<and> SD_fin s'" by blast
  then show ?thesis using Ack by (intro exI [of _ "[]"] exI [of _ s'] exI [of _ data]) (auto simp: written_def)
next
  case (TakeOut k)
  let ?s = "s\<lparr>SD_segments_out := drop k (SD_segments_out s)\<rparr>"
  have "queue_inv ?s" using inv by (intro queue_inv_frame [of ?s s]) (simp_all add: sender_inv_def)
  then have "sender_inv sent ?s" using inv by (auto simp: sender_inv_def dest: in_set_dropD)
  then show ?thesis
    using inv TakeOut by (intro exI [of _ "[]"] exI [of _ "take k (SD_segments_out s)"] exI [of _ ?s])
      (auto simp: sender_inv_def written_def dest: in_set_takeD)
next
  case EndInput
  then show ?thesis
    using sender_end_input_ok [OF inv]
    by (intro exI [of _ "[]"] exI [of _ "s\<lparr>SD_stream := ByteStream_end_input (SD_stream s)\<rparr>"]) simp
next
  case (Tick ms)
  then show ?thesis
    using tick_ok [OF inv, of ms] by (intro exI [of _ "[]"] exI [of _ "TCPSender_tick s ms"])
      (simp add: written_stream [of "TCPSender_tick s ms" s])
next
  case SendEmpty
  then show ?thesis
    using send_empty_ok [OF inv]
    by (intro exI [of _ "[]"] exI [of _ "TCPSender_send_empty_segment s"])
      (simp add: written_stream [of "TCPSender_send_empty_segment s" s])
qed

text \<open>What was a piece stays one: after the FIN nothing is sent any more.\<close>

lemma piece_later:
  assumes "piece isn sent (SD_fin s) seg" and "SD_fin s \<longrightarrow> data = [] \<and> SD_fin s'"
  shows "piece isn (sent @ data) (SD_fin s') seg"
  using assms piece_grows [of isn sent seg data "SD_fin s'"] by (cases "SD_fin s") (simp_all add: piece_def)

lemma sender_run_ok:
  assumes "sender_inv sent s" and "length (written sent s) + sum_list (map op_offers ops) + 2 < 2 ^ 32"
  shows "\<exists>acc segs s' data. sender_run ops s = Inr (acc, segs, s') \<and> sender_inv (sent @ data) s'
    \<and> written (sent @ data) s' = written sent s @ acc \<and> SD_isn s' = SD_isn s
    \<and> (SD_fin s \<longrightarrow> data = [] \<and> SD_fin s')
    \<and> (\<forall>seg \<in> set segs. piece (SD_isn s) (sent @ data) (SD_fin s') seg)"
  using assms
proof (induction ops arbitrary: sent s)
  case Nil
  then show ?case by (intro exI [of _ "[]"] exI [of _ s]) simp
next
  case (Cons op ops)
  have "length (written sent s) + op_offers op + 2 < 2 ^ 32" using Cons.prems(2) by simp
  from sender_step_ok [OF Cons.prems(1) this] obtain acc segs s1 data where
    step: "sender_step op s = Inr (acc, segs, s1)" "sender_inv (sent @ data) s1"
      "written (sent @ data) s1 = written sent s @ acc" "SD_isn s1 = SD_isn s" "length acc \<le> op_offers op"
      "SD_fin s \<longrightarrow> data = [] \<and> SD_fin s1" "\<forall>seg \<in> set segs. piece (SD_isn s) sent (SD_fin s) seg" by blast
  have "length (written (sent @ data) s1) + sum_list (map op_offers ops) + 2 < 2 ^ 32"
    using Cons.prems(2) step(5) unfolding step(3) by simp
  from Cons.IH [OF step(2) this] obtain acc' segs' s' data' where
    rest: "sender_run ops s1 = Inr (acc', segs', s')" "sender_inv ((sent @ data) @ data') s'"
      "written ((sent @ data) @ data') s' = written (sent @ data) s1 @ acc'" "SD_isn s' = SD_isn s1"
      "SD_fin s1 \<longrightarrow> data' = [] \<and> SD_fin s'"
      "\<forall>seg \<in> set segs'. piece (SD_isn s1) ((sent @ data) @ data') (SD_fin s') seg" by blast
  have fin: "SD_fin s \<longrightarrow> data @ data' = [] \<and> SD_fin s'" using step(6) rest(5) by simp
  have "\<forall>seg \<in> set (segs @ segs'). piece (SD_isn s) (sent @ data @ data') (SD_fin s') seg"
    using piece_later [OF _ fin] step(4,7) rest(6) by auto
  then show ?case
    using step rest fin
    by (intro exI [of _ "acc @ acc'"] exI [of _ "segs @ segs'"] exI [of _ s'] exI [of _ "data @ data'"]) simp
qed

lemma in_chain_sum: "in_chain a q b \<Longrightarrow> b = a + sum_list (map seg_len q)"
  by (induction q arbitrary: a) fastforce+

lemma sender_invD:
  assumes "sender_inv sent s"
  shows "unat (SD_bytes_in_flight s) = sum_list (map seg_len (SD_in_flight s))"
    and "unat (SD_checkpoint s) \<le> unat (SD_next_seqno s)"
    and "sorted_wrt (\<lambda>a b. OS_abs_seqno a \<le> OS_abs_seqno b) (SD_in_flight s)"
    and "length (written sent s) + 2 < 2 ^ 32 \<Longrightarrow> unat (SD_next_seqno s) < 2 ^ 32"
proof -
  have q: "in_chain (base_seqno s) (SD_in_flight s) (unat (SD_next_seqno s))"
    "unat (SD_bytes_in_flight s) = unat (SD_next_seqno s) - base_seqno s"
    "unat (SD_checkpoint s) \<le> unat (SD_next_seqno s)" using assms unfolding sender_inv_def queue_inv_def by blast+
  then show "unat (SD_checkpoint s) \<le> unat (SD_next_seqno s)" by simp
  show "unat (SD_bytes_in_flight s) = sum_list (map seg_len (SD_in_flight s))" using q(2) in_chain_sum [OF q(1)] by simp
  show "sorted_wrt (\<lambda>a b. OS_abs_seqno a \<le> OS_abs_seqno b) (SD_in_flight s)" by (rule in_chain_sorted [OF q(1)])
  show "unat (SD_next_seqno s) < 2 ^ 32" if "length (written sent s) + 2 < 2 ^ 32"
    using assms that by (auto simp: sender_inv_def written_def)
qed

text \<open>A sender whose SYN has been acknowledged, with three bytes to send, for use as an example.\<close>

definition example_sender :: TCPSender where
  "example_sender = (TCPSender_new 4 1000 (Some (WrappingInt32 7)) 0)
     \<lparr>SD_syn := True, SD_next_seqno := 1, SD_checkpoint := 1, SD_rwnd := 2,
      SD_stream := (ByteStream_new 4)\<lparr>BS_buffer := [65, 66, 67, 32], endOfBuffer := 3, bytesWritten := 3\<rparr>\<rparr>"

lemma example_sender_inv: "sender_inv [] example_sender"
  by (simp add: sender_inv_def queue_inv_def base_seqno_def example_sender_def TCPSender_new_def ByteStream_inv_def
      ByteStream_new_def)

lemma example_sender_written: "length (written [] example_sender) = 3"
  by (simp add: written_def example_sender_def ByteStream_contents_def)

text \<open>The same sender with three earlier bytes outstanding and a window of one byte.\<close>

definition example_outstanding :: TCPSender where
  "example_outstanding = example_sender
     \<lparr>SD_next_seqno := 4, SD_rwnd := 1, SD_bytes_in_flight := 3, SD_in_flight :=
        [\<lparr>OS_abs_seqno = 1, OS_seg = TCPSegment_new\<lparr>TS_header := (TS_header TCPSegment_new)
            \<lparr>TH_seqno := wrap 1 (WrappingInt32 7)\<rparr>, TS_payload := Buffer_of [1, 2, 3]\<rparr>\<rparr>]\<rparr>"

lemma example_outstanding_inv: "sender_inv [1, 2, 3] example_outstanding"
proof -
  have "piece (WrappingInt32 7) [1, 2, 3] False
    (TCPSegment_new\<lparr>TS_header := (TS_header TCPSegment_new)\<lparr>TH_seqno := wrap 1 (WrappingInt32 7)\<rparr>, TS_payload := Buffer_of [1, 2, 3]\<rparr>)"
    by (auto simp: piece_def segment_at_def slice_of_def TCPSegment_new_def TCPHeader_new_def intro!: exI [of _ 0])
  then show ?thesis
    by (simp add: sender_inv_def queue_inv_def base_seqno_def example_outstanding_def example_sender_def
        TCPSender_new_def ByteStream_inv_def ByteStream_new_def seg_len_def length_in_sequence_space
        TCPSegment_new_def TCPHeader_new_def)
qed

section \<open>Properties\<close>

text \<open>C2: whatever the application writes, whatever acknowledgements arrive and however time passes, the
  sender neither faults nor diverges, every segment it puts out is a piece of the bytes its stream
  accepted, at the place its sequence number says and with the FIN only at their end, the next sequence
  number counts exactly the SYN, the bytes sent and the FIN, and the count of bytes in flight is the
  total length of the segments awaiting acknowledgement.\<close>

theorem sender_sends_stream:
  assumes "unat capacity < 2 ^ 32" and "sum_list (map op_offers ops) + 2 < 2 ^ 32"
  shows "\<exists>accepted segs s sent. sender_run ops (TCPSender_new capacity retx (Some isn) random) = Inr (accepted, segs, s)
    \<and> accepted = sent @ ByteStream_contents (SD_stream s)
    \<and> (\<forall>seg \<in> set (segs @ SD_segments_out s). piece isn sent (SD_fin s) seg)
    \<and> unat (TCPSender_next_seqno_absolute s) = (if SD_syn s then 1 + length sent + (if SD_fin s then 1 else 0) else 0)
    \<and> unat (TCPSender_bytes_in_flight s) = sum_list (map seg_len (SD_in_flight s))"
proof -
  let ?s = "TCPSender_new capacity retx (Some isn) random"
  have new: "written [] ?s = []" "SD_isn ?s = isn" by (simp_all add: written_def TCPSender_new_def)
  obtain accepted segs s sent where run: "sender_run ops ?s = Inr (accepted, segs, s)" "sender_inv sent s"
    "written sent s = accepted" "SD_isn s = isn" "\<forall>seg \<in> set segs. piece isn sent (SD_fin s) seg"
    using sender_run_ok [OF sender_inv_new [OF assms(1), of retx "Some isn" random], of ops] assms(2) new by auto
  have "\<forall>seg \<in> set (segs @ SD_segments_out s). piece isn sent (SD_fin s) seg"
    using run(2,4,5) by (auto simp: sender_inv_def)
  moreover have "unat (SD_next_seqno s) = (if SD_syn s then 1 + length sent + (if SD_fin s then 1 else 0) else 0)"
    using run(2) by (simp add: sender_inv_def)
  ultimately show ?thesis
    using run(1,3) sender_invD(1) [OF run(2)]
    unfolding TCPSender_next_seqno_absolute_def TCPSender_bytes_in_flight_def written_def by blast
qed

theorem sender_sends_stream_witness:
  "\<exists>accepted segs s sent. sender_run [FillWindow, Write [1, 2, 3], Ack (WrappingInt32 8) 2, FillWindow, TakeOut 2, Tick 1000, EndInput]
        (TCPSender_new 10 1000 (Some (WrappingInt32 7)) 0) = Inr (accepted, segs, s)
    \<and> accepted = sent @ ByteStream_contents (SD_stream s)
    \<and> (\<forall>seg \<in> set (segs @ SD_segments_out s). piece (WrappingInt32 7) sent (SD_fin s) seg)
    \<and> unat (TCPSender_next_seqno_absolute s) = (if SD_syn s then 1 + length sent + (if SD_fin s then 1 else 0) else 0)
    \<and> unat (TCPSender_bytes_in_flight s) = sum_list (map seg_len (SD_in_flight s))"
  by (rule sender_sends_stream) simp_all



text \<open>C40: a window that has shrunk below what is outstanding is not respected: the unsigned subtraction
  wraps around, and the sender puts out everything its stream holds.\<close>

theorem sender_window_underflow:
  assumes "sender_inv sent s" and "length (written sent s) + 2 < 2 ^ 32" and "SD_syn s" and "\<not> SD_fin s"
    and "unat (SD_checkpoint s) + max 1 (unat (SD_rwnd s)) < unat (SD_next_seqno s)"
  shows "\<exists>s'. TCPSender_fill_window s = Inr s' \<and> ByteStream_contents (SD_stream s') = []
    \<and> unat (SD_next_seqno s) + length (ByteStream_contents (SD_stream s)) \<le> unat (SD_next_seqno s')"
proof -
  obtain s' data where s': "TCPSender_fill_window s = Inr s'" "sender_inv (sent @ data) s'" "SD_syn s'"
    "written (sent @ data) s' = written sent s"
    "SD_fin s \<or> ByteStream_contents (SD_stream s') = []
       \<or> unat (SD_next_seqno s') = unat (SD_next_seqno s) + unat (window_left s)"
    using fill_window_ok [OF assms(1,2)] assms(3) by blast
  have small: "unat (SD_next_seqno s') < 2 ^ 32" "unat (SD_next_seqno s) < 2 ^ 32"
    using sender_invD(4) [OF s'(2)] sender_invD(4) [OF assms(1)] assms(2) by (simp_all add: s'(4))
  define used where "used = unat (SD_next_seqno s) - unat (SD_checkpoint s)"
  have out: "unat (SD_next_seqno s - SD_checkpoint s) = used"
    using sender_invD(2) [OF assms(1)] by (simp add: unat_diff_small used_def)
  have w: "unat (if SD_rwnd s > 0 then SD_rwnd s else 1) = max 1 (unat (SD_rwnd s))"
    by (auto simp: word_less_nat_alt)
  have "max 1 (unat (SD_rwnd s)) < used" using assms(5) unfolding used_def by linarith
  then have "unat (window_left s) = 2 ^ 64 + max 1 (unat (SD_rwnd s)) - used"
    unfolding window_left_def by (subst unat_diff_wraps; unfold w out) simp_all
  then have "2 ^ 64 - 2 ^ 32 \<le> unat (window_left s)" using small(2) by (simp add: used_def)
  then have drained: "ByteStream_contents (SD_stream s') = []" using s'(5) assms(4) small(1) by auto
  have "unat (SD_next_seqno s') \<ge> 1 + length (sent @ data)" using s'(2,3) by (simp add: sender_inv_def)
  moreover have "unat (SD_next_seqno s) = 1 + length sent" using assms(1,3,4) by (simp add: sender_inv_def)
  moreover have "data = ByteStream_contents (SD_stream s)" using s'(4) drained by (simp add: written_def)
  ultimately show ?thesis using s'(1) drained by auto
qed

theorem sender_window_underflow_witness:
  "\<exists>s'. TCPSender_fill_window example_outstanding = Inr s' \<and> ByteStream_contents (SD_stream s') = []
    \<and> unat (SD_next_seqno example_outstanding) + length (ByteStream_contents (SD_stream example_outstanding))
       \<le> unat (SD_next_seqno s')"
  by (rule sender_window_underflow [OF example_outstanding_inv])
    (simp_all add: example_outstanding_def written_def example_sender_def ByteStream_contents_def TCPSender_new_def)

text \<open>C21: an acknowledgement of something new removes from flight exactly the segments it covers in
  full, keeping the others in order, resets the timeout and the count of retransmissions and then fills
  the window; one that is not new, or that acknowledges what was never sent, only records the window.\<close>

theorem sender_ack_exact:
  assumes "sender_inv sent s" and "ack = unwrap ackno (SD_isn s) (SD_checkpoint s)"
  shows "if SD_checkpoint s < ack \<and> ack \<le> SD_next_seqno s
    then \<exists>s3. TCPSender_ack_received s ackno w = TCPSender_fill_window s3 \<and> sender_inv sent s3
      \<and> SD_in_flight s3 = filter (\<lambda>x. unat ack < unat (OS_abs_seqno x) + seg_len x) (SD_in_flight s)
      \<and> SD_checkpoint s3 = ack \<and> SD_rwnd s3 = ucast w \<and> SD_rto s3 = SD_initial_rto s \<and> SD_n_consecutive s3 = 0
      \<and> (SD_in_flight s3 \<noteq> [] \<longrightarrow> SD_time_spent s3 = 0 \<and> SD_timer_running s3)
    else TCPSender_ack_received s ackno w = Inr (s\<lparr>SD_rwnd := ucast w\<rparr>)"
proof (cases "SD_checkpoint s < ack \<and> ack \<le> SD_next_seqno s")
  case True
  then have new: "SD_checkpoint s < ack" "ack \<le> SD_next_seqno s" by simp_all
  show ?thesis unfolding if_P [OF True] using ack_received_new [OF assms new, of w] by blast
next
  case False
  show ?thesis unfolding if_not_P [OF False] by (rule ack_received_old [OF assms(2) False])
qed

theorem sender_ack_exact_witness:
  "\<exists>s3. TCPSender_ack_received example_outstanding (WrappingInt32 11) 9 = TCPSender_fill_window s3
    \<and> SD_in_flight s3 = [] \<and> SD_checkpoint s3 = 4 \<and> SD_rwnd s3 = 9 \<and> SD_n_consecutive s3 = 0"
proof -
  have "unwrap (WrappingInt32 11) (SD_isn example_outstanding) (SD_checkpoint example_outstanding) = 4"
    by (simp add: example_outstanding_def example_sender_def TCPSender_new_def) code_simp
  from sender_ack_exact [OF example_outstanding_inv this [symmetric], of 9] show ?thesis
    by (auto simp: example_outstanding_def example_sender_def seg_len_def length_in_sequence_space
        TCPSegment_new_def TCPHeader_new_def)
qed

text \<open>C22: when the timer has run out, the segment put out again is the oldest of those in flight; the
  timer restarts, and, unless the peer's window is zero, the timeout doubles and the retransmission is
  counted. Nothing is taken out of flight by the passing of time, and nothing is put out before the
  timeout.\<close>

theorem sender_tick_oldest:
  assumes "sender_inv sent s"
  shows "SD_in_flight (TCPSender_tick s ms) = SD_in_flight s
    \<and> (if SD_in_flight s \<noteq> [] \<and> ucast (SD_rto s) \<le> SD_time_spent s + ms
       then \<exists>x \<in> set (SD_in_flight s). (\<forall>y \<in> set (SD_in_flight s). OS_abs_seqno x \<le> OS_abs_seqno y)
         \<and> SD_segments_out (TCPSender_tick s ms) = SD_segments_out s @ [OS_seg x]
         \<and> SD_time_spent (TCPSender_tick s ms) = 0
         \<and> SD_rto (TCPSender_tick s ms) = (if SD_rwnd s > 0 then 2 * SD_rto s else SD_rto s)
         \<and> TCPSender_consecutive_retransmissions (TCPSender_tick s ms) = SD_n_consecutive s + (if SD_rwnd s > 0 then 1 else 0)
       else SD_segments_out (TCPSender_tick s ms) = SD_segments_out s
         \<and> TCPSender_consecutive_retransmissions (TCPSender_tick s ms) = SD_n_consecutive s)"
proof (cases "SD_in_flight s")
  case Nil
  then show ?thesis by (simp add: TCPSender_tick_def TCPSender_consecutive_retransmissions_def)
next
  case (Cons x q)
  then have "\<forall>y \<in> set (SD_in_flight s). OS_abs_seqno x \<le> OS_abs_seqno y"
    using inflight.top_min [OF sender_invD(3) [OF assms]] by auto
  then show ?thesis
    using Cons by (auto simp: TCPSender_tick_def Let_def TCPSender_consecutive_retransmissions_def)
qed

theorem sender_tick_oldest_witness:
  "SD_in_flight (TCPSender_tick example_outstanding 1000) = SD_in_flight example_outstanding
    \<and> (\<exists>x \<in> set (SD_in_flight example_outstanding).
         SD_segments_out (TCPSender_tick example_outstanding 1000) = [OS_seg x])"
  using sender_tick_oldest [OF example_outstanding_inv, of 1000]
  by (auto simp: example_outstanding_def example_sender_def TCPSender_new_def)

end
