(* ===== verification/TCP_State.thy ===== *)
theory TCP_State
  imports TCP_Sender
begin

text \<open>
  The summary of a connection's state, from \<^verbatim>\<open>tcp_helpers/tcp_state.hh\<close> and
  \<^verbatim>\<open>tcp_helpers/tcp_state.cc\<close>: the summaries of the sender and of the receiver, the
  state a pair of them makes, and the states that the names of the TCP specification stand for.
\<close>

section \<open>The summaries\<close>

definition Receiver_ERROR :: string where
  "Receiver_ERROR = ''error (connection was reset)''"

definition Receiver_LISTEN :: string where
  "Receiver_LISTEN = ''waiting for SYN: ackno is empty''"

definition Receiver_SYN_RECV :: string where
  "Receiver_SYN_RECV = ''SYN received (ackno exists), and input to stream hasn't ended''"

definition Receiver_FIN_RECV :: string where
  "Receiver_FIN_RECV = ''input to stream has ended''"

definition Sender_ERROR :: string where
  "Sender_ERROR = ''error (connection was reset)''"

definition Sender_CLOSED :: string where
  "Sender_CLOSED = ''waiting for stream to begin (no SYN sent)''"

definition Sender_SYN_SENT :: string where
  "Sender_SYN_SENT = ''stream started but nothing acknowledged''"

definition Sender_SYN_ACKED :: string where
  "Sender_SYN_ACKED = ''stream ongoing''"

definition Sender_FIN_SENT :: string where
  "Sender_FIN_SENT = ''stream finished (FIN sent) but not fully acknowledged''"

definition Sender_FIN_ACKED :: string where
  "Sender_FIN_ACKED = ''stream finished and fully acknowledged''"

lemmas summary_names = Receiver_ERROR_def Receiver_LISTEN_def Receiver_SYN_RECV_def Receiver_FIN_RECV_def
  Sender_ERROR_def Sender_CLOSED_def Sender_SYN_SENT_def Sender_SYN_ACKED_def Sender_FIN_SENT_def Sender_FIN_ACKED_def

definition state_summary_receiver :: "TCPReceiver \<Rightarrow> string" where
  "state_summary_receiver receiver =
     (if ByteStream_error (TCPReceiver_stream_out receiver) then Receiver_ERROR
      else if TCPReceiver_ackno receiver = None then Receiver_LISTEN
      else if ByteStream_input_ended (TCPReceiver_stream_out receiver) then Receiver_FIN_RECV
      else Receiver_SYN_RECV)"

definition state_summary_sender :: "TCPSender \<Rightarrow> string" where
  "state_summary_sender sender =
     (if ByteStream_error (SD_stream sender) then Sender_ERROR
      else if TCPSender_next_seqno_absolute sender = 0 then Sender_CLOSED
      else if TCPSender_next_seqno_absolute sender = TCPSender_bytes_in_flight sender then Sender_SYN_SENT
      else if \<not> ByteStream_eof (SD_stream sender) then Sender_SYN_ACKED
      else if TCPSender_next_seqno_absolute sender < ByteStream_bytes_written (SD_stream sender) + 2 then Sender_SYN_ACKED
      else if TCPSender_bytes_in_flight sender \<noteq> 0 then Sender_FIN_SENT
      else Sender_FIN_ACKED)"

section \<open>The class\<close>

record TCPState =
  ST_sender :: string
  ST_receiver :: string
  ST_active :: bool
  ST_linger :: bool

datatype State = LISTEN | SYN_RCVD | SYN_SENT | ESTABLISHED | CLOSE_WAIT | LAST_ACK | FIN_WAIT_1 | FIN_WAIT_2
  | CLOSING | TIME_WAIT | CLOSED | RESET

definition TCPState_eq :: "TCPState \<Rightarrow> TCPState \<Rightarrow> bool" where
  "TCPState_eq a b \<longleftrightarrow> ST_active a = ST_active b \<and> ST_linger a = ST_linger b
     \<and> ST_sender a = ST_sender b \<and> ST_receiver a = ST_receiver b"

definition TCPState_neq :: "TCPState \<Rightarrow> TCPState \<Rightarrow> bool" where
  "TCPState_neq a b \<longleftrightarrow> \<not> TCPState_eq a b"

definition bool_to_string :: "bool \<Rightarrow> string" where
  "bool_to_string b = (if b then ''1'' else ''0'')"

definition TCPState_name :: "TCPState \<Rightarrow> string" where
  "TCPState_name s = ''sender=`'' @ ST_sender s @ ''`, receiver=`'' @ ST_receiver s @ ''`, active=''
     @ bool_to_string (ST_active s) @ '', linger_after_streams_finish='' @ bool_to_string (ST_linger s)"

fun TCPState_of_State :: "State \<Rightarrow> TCPState" where
  "TCPState_of_State LISTEN =
     \<lparr>ST_sender = Sender_CLOSED, ST_receiver = Receiver_LISTEN, ST_active = True, ST_linger = True\<rparr>"
| "TCPState_of_State SYN_RCVD =
     \<lparr>ST_sender = Sender_SYN_SENT, ST_receiver = Receiver_SYN_RECV, ST_active = True, ST_linger = True\<rparr>"
| "TCPState_of_State SYN_SENT =
     \<lparr>ST_sender = Sender_SYN_SENT, ST_receiver = Receiver_LISTEN, ST_active = True, ST_linger = True\<rparr>"
| "TCPState_of_State ESTABLISHED =
     \<lparr>ST_sender = Sender_SYN_ACKED, ST_receiver = Receiver_SYN_RECV, ST_active = True, ST_linger = True\<rparr>"
| "TCPState_of_State CLOSE_WAIT =
     \<lparr>ST_sender = Sender_SYN_ACKED, ST_receiver = Receiver_FIN_RECV, ST_active = True, ST_linger = False\<rparr>"
| "TCPState_of_State LAST_ACK =
     \<lparr>ST_sender = Sender_FIN_SENT, ST_receiver = Receiver_FIN_RECV, ST_active = True, ST_linger = False\<rparr>"
| "TCPState_of_State CLOSING =
     \<lparr>ST_sender = Sender_FIN_SENT, ST_receiver = Receiver_FIN_RECV, ST_active = True, ST_linger = True\<rparr>"
| "TCPState_of_State FIN_WAIT_1 =
     \<lparr>ST_sender = Sender_FIN_SENT, ST_receiver = Receiver_SYN_RECV, ST_active = True, ST_linger = True\<rparr>"
| "TCPState_of_State FIN_WAIT_2 =
     \<lparr>ST_sender = Sender_FIN_ACKED, ST_receiver = Receiver_SYN_RECV, ST_active = True, ST_linger = True\<rparr>"
| "TCPState_of_State TIME_WAIT =
     \<lparr>ST_sender = Sender_FIN_ACKED, ST_receiver = Receiver_FIN_RECV, ST_active = True, ST_linger = True\<rparr>"
| "TCPState_of_State RESET =
     \<lparr>ST_sender = Sender_ERROR, ST_receiver = Receiver_ERROR, ST_active = False, ST_linger = False\<rparr>"
| "TCPState_of_State CLOSED =
     \<lparr>ST_sender = Sender_FIN_ACKED, ST_receiver = Receiver_FIN_RECV, ST_active = False, ST_linger = False\<rparr>"

definition TCPState_new :: "TCPSender \<Rightarrow> TCPReceiver \<Rightarrow> bool \<Rightarrow> bool \<Rightarrow> TCPState" where
  "TCPState_new sender receiver active linger =
     \<lparr>ST_sender = state_summary_sender sender, ST_receiver = state_summary_receiver receiver,
      ST_active = active, ST_linger = (if active then linger else False)\<rparr>"

lemma TCPState_eq_iff: "TCPState_eq a b \<longleftrightarrow> a = b"
  by (cases a; cases b) (auto simp: TCPState_eq_def)

section \<open>What the summaries say\<close>

lemma state_summary_sender_reset [simp]:
  "ByteStream_error (SD_stream s) \<Longrightarrow> state_summary_sender s = Sender_ERROR"
  by (simp add: state_summary_sender_def)

lemma state_summary_receiver_reset [simp]:
  "ByteStream_error (TCPReceiver_stream_out r) \<Longrightarrow> state_summary_receiver r = Receiver_ERROR"
  by (simp add: state_summary_receiver_def)

text \<open>Two official names stand for equal states only when they are the same name.\<close>

lemma official_states_distinct: "TCPState_eq (TCPState_of_State a) (TCPState_of_State b) \<longleftrightarrow> a = b"
  by (cases a; cases b) (simp_all add: TCPState_eq_def summary_names)

text \<open>Nothing is acknowledged exactly when the first segment in flight starts at sequence number 0.\<close>

lemma all_in_flight_iff:
  assumes "sender_inv sent s"
  shows "TCPSender_next_seqno_absolute s = TCPSender_bytes_in_flight s \<longleftrightarrow> base_seqno s = 0"
proof -
  have q: "in_chain (base_seqno s) (SD_in_flight s) (unat (SD_next_seqno s))"
    "unat (SD_bytes_in_flight s) = unat (SD_next_seqno s) - base_seqno s"
    using assms unfolding sender_inv_def queue_inv_def by blast+
  show ?thesis
    using in_chain_le [OF q(1)] q(2)
    by (auto simp: TCPSender_next_seqno_absolute_def TCPSender_bytes_in_flight_def word_unat_eq_iff)
qed

lemma in_flight_empty_iff:
  assumes "sender_inv sent s"
  shows "TCPSender_bytes_in_flight s = 0 \<longleftrightarrow> SD_in_flight s = []"
proof -
  have q: "in_chain (base_seqno s) (SD_in_flight s) (unat (SD_next_seqno s))"
    using assms unfolding sender_inv_def queue_inv_def by blast
  then show ?thesis
    using sender_invD(1) [OF assms]
    by (cases "SD_in_flight s") (auto simp: TCPSender_bytes_in_flight_def unat_eq_0 [symmetric])
qed

section \<open>Properties\<close>

text \<open>The summary of a sender that was not reset is determined by what it has done: closed before the
  SYN, syn-sent while nothing is acknowledged, ongoing until the FIN is sent, and afterwards fin-sent or
  fin-acked as segments are in flight or not.\<close>

lemma sender_summary_exact:
  assumes "sender_inv sent s" and "length (written sent s) + 2 < 2 ^ 32" and "\<not> ByteStream_error (SD_stream s)"
    and "unat (bytesWritten (SD_stream s)) = length (written sent s)"
    and "SD_fin s \<longrightarrow> ByteStream_contents (SD_stream s) = []"
  shows "state_summary_sender s =
    (if \<not> SD_syn s then Sender_CLOSED
     else if base_seqno s = 0 then Sender_SYN_SENT
     else if \<not> SD_fin s then Sender_SYN_ACKED
     else if SD_in_flight s \<noteq> [] then Sender_FIN_SENT
     else Sender_FIN_ACKED)"
proof -
  have bs: "ByteStream_inv (SD_stream s)" and ended: "SD_fin s \<longrightarrow> isInputEnded (SD_stream s)"
    and n: "unat (SD_next_seqno s) = (if SD_syn s then 1 + length sent + (if SD_fin s then 1 else 0) else 0)"
    using assms(1) by (simp_all add: sender_inv_def)
  have syn: "TCPSender_next_seqno_absolute s = 0 \<longleftrightarrow> \<not> SD_syn s"
    using n by (auto simp: TCPSender_next_seqno_absolute_def unat_eq_0 [symmetric])
  have "unat (ByteStream_bytes_written (SD_stream s) + 2) = length (written sent s) + 2"
    using assms(2,4) by (simp add: ByteStream_bytes_written_def unat_word_ariths)
  then have fin: "TCPSender_next_seqno_absolute s < ByteStream_bytes_written (SD_stream s) + 2 \<longleftrightarrow> \<not> SD_fin s"
    if "SD_syn s" "ByteStream_contents (SD_stream s) = []"
    using n that by (simp add: TCPSender_next_seqno_absolute_def word_less_nat_alt written_def)
  have eof: "ByteStream_eof (SD_stream s) \<longleftrightarrow> isInputEnded (SD_stream s) \<and> ByteStream_contents (SD_stream s) = []"
    by (rule eof_iff [OF bs])
  show ?thesis
    using syn fin eof ended assms(3,5)
    unfolding state_summary_sender_def all_in_flight_iff [OF assms(1)] in_flight_empty_iff [OF assms(1)] by auto
qed

lemma sender_summary_exact_example:
  "state_summary_sender example_sender = Sender_SYN_ACKED"
  using sender_summary_exact [OF example_sender_inv] example_sender_written
  by (simp add: example_sender_def TCPSender_new_def ByteStream_error_def ByteStream_new_def base_seqno_def)

end
