(* ===== verification/TCP_Connection.thy ===== *)
theory TCP_Connection
  imports TCP_State
begin

text \<open>
  A complete endpoint, from \<^verbatim>\<open>tcp_connection.hh\<close> and \<^verbatim>\<open>tcp_connection.cc\<close>:
  a sender and a receiver, the queue of outgoing segments on which the receiver's acknowledgement and
  window are stamped, and the rules by which the connection ends. The invariant joins those of the two
  halves, so that what an endpoint puts out are pieces of its own stream and what it delivers is a
  prefix of its peer's.
\<close>

section \<open>The class\<close>

record TCPConnection =
  TC_cfg :: TCPConfig
  TC_receiver :: TCPReceiver
  TC_sender :: TCPSender
  TC_segments_out :: "TCPSegment list"
  TC_linger :: bool
  TC_time_since_last_segment_received :: u64
  TC_is_active :: bool
  TC_sent_SYN :: bool

definition TCPConnection_new :: "TCPConfig \<Rightarrow> u32 \<Rightarrow> TCPConnection" where
  "TCPConnection_new cfg random =
     \<lparr>TC_cfg = cfg, TC_receiver = TCPReceiver_new (recv_capacity cfg),
      TC_sender = TCPSender_new (send_capacity cfg) (rt_timeout cfg) (fixed_isn cfg) random,
      TC_segments_out = [], TC_linger = True, TC_time_since_last_segment_received = 0,
      TC_is_active = True, TC_sent_SYN = False\<rparr>"

definition TCPConnection_remaining_outbound_capacity :: "TCPConnection \<Rightarrow> u64" where
  "TCPConnection_remaining_outbound_capacity c = ByteStream_remaining_capacity (SD_stream (TC_sender c))"

definition TCPConnection_bytes_in_flight :: "TCPConnection \<Rightarrow> u64" where
  "TCPConnection_bytes_in_flight c = TCPSender_bytes_in_flight (TC_sender c)"

definition TCPConnection_unassembled_bytes :: "TCPConnection \<Rightarrow> u64" where
  "TCPConnection_unassembled_bytes c = TCPReceiver_unassembled_bytes (TC_receiver c)"

definition TCPConnection_time_since_last_segment_received :: "TCPConnection \<Rightarrow> u64" where
  "TCPConnection_time_since_last_segment_received c = TC_time_since_last_segment_received c"

definition TCPConnection_active :: "TCPConnection \<Rightarrow> bool" where
  "TCPConnection_active c = TC_is_active c"

definition TCPConnection_inbound_stream :: "TCPConnection \<Rightarrow> ByteStream" where
  "TCPConnection_inbound_stream c = TCPReceiver_stream_out (TC_receiver c)"

definition TCPConnection_state :: "TCPConnection \<Rightarrow> TCPState" where
  "TCPConnection_state c = TCPState_new (TC_sender c) (TC_receiver c) (TCPConnection_active c) (TC_linger c)"

definition set_stream_in :: "TCPConnection \<Rightarrow> ByteStream \<Rightarrow> TCPConnection" where
  "set_stream_in c s = c\<lparr>TC_sender := (TC_sender c)\<lparr>SD_stream := s\<rparr>\<rparr>"

definition TCPConnection_clean_shutdown :: "TCPConnection \<Rightarrow> TCPConnection" where
  "TCPConnection_clean_shutdown c =
     (let c1 = (if ByteStream_input_ended (TCPReceiver_stream_out (TC_receiver c)) \<and> \<not> ByteStream_eof (SD_stream (TC_sender c))
                then c\<lparr>TC_linger := False\<rparr> else c)
      in if ByteStream_input_ended (TCPReceiver_stream_out (TC_receiver c1)) \<and> TCPReceiver_unassembled_bytes (TC_receiver c1) = 0
            \<and> ByteStream_input_ended (SD_stream (TC_sender c1)) \<and> TCPSender_bytes_in_flight (TC_sender c1) = 0
         then if \<not> TC_linger c1 \<or> TCPConnection_time_since_last_segment_received c1 \<ge> 10 * ucast (rt_timeout (TC_cfg c1))
              then c1\<lparr>TC_is_active := False\<rparr> else c1
         else c1)"

text \<open>One outgoing segment, with the receiver's acknowledgement and window; the window is cut to 16 bits.\<close>

definition stamp :: "TCPReceiver \<Rightarrow> bool \<Rightarrow> TCPSegment \<Rightarrow> TCPSegment" where
  "stamp r rst seg_out =
     (let h = TS_header seg_out;
          h1 = (case TCPReceiver_ackno r of Some a \<Rightarrow> h\<lparr>TH_ack := True, TH_ackno := a\<rparr> | None \<Rightarrow> h);
          h2 = h1\<lparr>TH_win := ucast (TCPReceiver_window_size r)\<rparr>
      in seg_out\<lparr>TS_header := (if rst then h2\<lparr>TH_rst := True\<rparr> else h2)\<rparr>)"

fun send_segments_loop :: "bool \<Rightarrow> TCPSegment list \<Rightarrow> TCPConnection \<Rightarrow> TCPConnection" where
  "send_segments_loop set_rst [] c = c\<lparr>TC_sender := (TC_sender c)\<lparr>SD_segments_out := []\<rparr>\<rparr>"
| "send_segments_loop set_rst (seg_out # rest) c =
     send_segments_loop set_rst rest
       (c\<lparr>TC_segments_out := TC_segments_out c @ [stamp (TC_receiver c) (set_rst \<and> rest = []) seg_out]\<rparr>)"

definition TCPConnection_send_segments :: "bool \<Rightarrow> TCPConnection \<Rightarrow> TCPConnection result" where
  "TCPConnection_send_segments set_rst c =
     bindR (TCPSender_fill_window (TC_sender c)) (\<lambda>s.
     let c1 = c\<lparr>TC_sender := s\<rparr>;
         c2 = (if \<not> TC_sent_SYN c1 then c1\<lparr>TC_sent_SYN := True\<rparr> else c1)
     in Inr (TCPConnection_clean_shutdown (send_segments_loop set_rst (SD_segments_out (TC_sender c2)) c2)))"

definition TCPConnection_kill_connection :: "TCPConnection \<Rightarrow> TCPConnection" where
  "TCPConnection_kill_connection c =
     (let c1 = set_stream_in c (ByteStream_set_error (SD_stream (TC_sender c)));
          r = TC_receiver c1
      in c1\<lparr>TC_receiver := TCPReceiver_set_stream_out r (ByteStream_set_error (TCPReceiver_stream_out r)),
            TC_is_active := False\<rparr>)"

definition TCPConnection_unclean_shutdown :: "TCPConnection \<Rightarrow> TCPConnection result" where
  "TCPConnection_unclean_shutdown c =
     (let c1 = TCPConnection_kill_connection c;
          c2 = (if SD_segments_out (TC_sender c1) = []
                then c1\<lparr>TC_sender := TCPSender_send_empty_segment (TC_sender c1)\<rparr> else c1)
      in TCPConnection_send_segments True c2)"

definition TCPConnection_segment_received :: "TCPConnection \<Rightarrow> TCPSegment \<Rightarrow> TCPConnection result" where
  "TCPConnection_segment_received c seg =
     (let h = TS_header seg;
          c1 = c\<lparr>TC_time_since_last_segment_received := 0\<rparr>
      in if TH_rst h then Inr (TCPConnection_kill_connection c1)
         else if \<not> TC_sent_SYN c1 \<and> TH_ack h then Inr c1
         else bindR (TCPReceiver_segment_received (TC_receiver c1) seg) (\<lambda>r.
              bindR (if TH_ack h then TCPSender_ack_received (TC_sender c1) (TH_ackno h) (TH_win h)
                     else Inr (TC_sender c1)) (\<lambda>s.
              let c2 = c1\<lparr>TC_receiver := r, TC_sender := s\<rparr>;
                  c3 = (if TH_syn h \<and> TC_sent_SYN c2 \<or> TH_fin h \<or> length (Buffer_str (TS_payload seg)) \<noteq> 0
                        then c2\<lparr>TC_sender := TCPSender_send_empty_segment (TC_sender c2)\<rparr> else c2)
              in TCPConnection_send_segments False c3)))"

definition TCPConnection_write :: "TCPConnection \<Rightarrow> bytes \<Rightarrow> (u64 \<times> TCPConnection) result" where
  "TCPConnection_write c data =
     bindR (ByteStream_write (SD_stream (TC_sender c)) data) (\<lambda>(n_bytes_written, st).
     bindR (TCPConnection_send_segments False (set_stream_in c st)) (\<lambda>c'. Inr (n_bytes_written, c')))"

definition TCPConnection_tick :: "TCPConnection \<Rightarrow> u64 \<Rightarrow> TCPConnection result" where
  "TCPConnection_tick c ms_since_last_tick =
     (let c1 = c\<lparr>TC_sender := TCPSender_tick (TC_sender c) ms_since_last_tick,
                 TC_time_since_last_segment_received := TC_time_since_last_segment_received c + ms_since_last_tick\<rparr>
      in bindR (if TCPSender_consecutive_retransmissions (TC_sender c1) > MAX_RETX_ATTEMPTS
                then TCPConnection_unclean_shutdown c1 else Inr c1) (\<lambda>c2.
         if TC_sent_SYN c2 then TCPConnection_send_segments False c2 else Inr c2))"

definition TCPConnection_end_input_stream :: "TCPConnection \<Rightarrow> TCPConnection result" where
  "TCPConnection_end_input_stream c =
     TCPConnection_send_segments False (set_stream_in c (ByteStream_end_input (SD_stream (TC_sender c))))"

definition TCPConnection_connect :: "TCPConnection \<Rightarrow> TCPConnection result" where
  "TCPConnection_connect c = TCPConnection_send_segments False c"

definition TCPConnection_destroy :: "TCPConnection \<Rightarrow> TCPConnection result" where
  "TCPConnection_destroy c = (if TCPConnection_active c then TCPConnection_unclean_shutdown c else Inr c)"

section \<open>The receiving half, one segment at a time\<close>

text \<open>\<open>got\<close> has been read by the application, out of the peer's stream \<open>P\<close>.\<close>

definition receiver_inv :: "bytes \<Rightarrow> bytes \<Rightarrow> WrappingInt32 \<Rightarrow> TCPReceiver \<Rightarrow> bool" where
  "receiver_inv got P isn r \<longleftrightarrow> isn_known isn r \<and> SR_inv (TR_reassembler r) \<and> SR_holds P (TR_reassembler r)
     \<and> got @ ByteStream_contents (TCPReceiver_stream_out r) = take (SR_next (TR_reassembler r)) P"

lemma receiver_inv_new:
  assumes "unat capacity < 2 ^ 32"
  shows "receiver_inv [] P isn (TCPReceiver_new capacity)"
proof -
  have "SR_next (StreamReassembler_new capacity) = 0"
    by (simp add: SR_next_def StreamReassembler_new_def ByteStream_new_def)
  moreover have "ByteStream_contents (SR_output (StreamReassembler_new capacity)) = []"
    by (simp add: StreamReassembler_new_def)
  ultimately show ?thesis
    using SR_inv_new [OF assms] SR_holds_new
    by (simp add: receiver_inv_def TCPReceiver_new_def isn_known_def TCPReceiver_stream_out_def)
qed

lemma receiver_inv_grows: "receiver_inv got P isn r \<Longrightarrow> receiver_inv got (P @ Q) isn r"
  by (auto simp: receiver_inv_def SR_holds_def nth_append)

lemma receive_ok:
  assumes inv: "receiver_inv got P isn r" and seg: "piece isn P fin_sent seg" and P: "length P + 1 < 2 ^ 31"
  shows "\<exists>r'. TCPReceiver_segment_received r seg = Inr r' \<and> receiver_inv got P isn r'"
proof (cases "recievedSYN r \<or> TH_syn (TS_header seg)")
  case False
  then show ?thesis using inv by (simp add: TCPReceiver_segment_received_def)
next
  case True
  let ?data = "Buffer_str (TS_payload seg)" and ?fin = "TH_fin (TS_header seg)" and ?sr = "TR_reassembler r"
  have r: "isn_known isn r" "SR_inv ?sr" "SR_holds P ?sr"
    "got @ ByteStream_contents (SR_output ?sr) = take (SR_next ?sr) P"
    using inv by (simp_all add: receiver_inv_def TCPReceiver_stream_out_def)
  obtain i where "segment_at isn P i seg \<or> segment_bare seg" using seg by (auto simp: piece_def)
  then obtain j where j: "op_of_stream P (Push ?data j ?fin)" "TCPReceiver_segment_received r seg =
      bindR (push_substring ?sr ?data j ?fin) (\<lambda>sr. Inr (r\<lparr>TR_reassembler := sr, TR_isn := isn,
        recievedSYN := True, recievedFIN := (recievedFIN r \<or> ?fin)\<rparr>))"
    by (rule segment_received_op [OF _ r(1) P r(3) True])
  have "length P < 2 ^ 32" using P by simp
  moreover have "slice_of P ?data (unat j) \<or> ?data = []" using j(1) by simp
  ultimately obtain sr where sr: "push_substring ?sr ?data j ?fin = Inr sr" "SR_inv sr" "SR_holds P sr"
    "SR_next ?sr \<le> SR_next sr"
    "ByteStream_contents (SR_output sr) = ByteStream_contents (SR_output ?sr) @ drop (SR_next ?sr) (take (SR_next sr) P)"
    by (rule push_slice [OF r(2,3), of _ _ ?fin]) (rule that; assumption)
  have "got @ ByteStream_contents (SR_output sr) = take (SR_next ?sr) P @ drop (SR_next ?sr) (take (SR_next sr) P)"
    using r(4) sr(5) by simp
  also have "\<dots> = take (SR_next sr) P"
    using append_take_drop_id [of "SR_next ?sr" "take (SR_next sr) P"] sr(4) by (simp add: min_absorb1)
  finally show ?thesis
    using j(2) sr by (simp add: receiver_inv_def isn_known_def TCPReceiver_stream_out_def)
qed

lemma receiver_inv_read:
  assumes inv: "receiver_inv got P isn r"
  shows "\<exists>data st. ByteStream_read (TCPReceiver_stream_out r) n = Inr (data, st)
    \<and> receiver_inv (got @ data) P isn (TCPReceiver_set_stream_out r st)"
proof -
  let ?sr = "TR_reassembler r"
  have r: "SR_inv ?sr" "SR_holds P ?sr" using inv by (simp_all add: receiver_inv_def)
  obtain st where "ByteStream_read (SR_output ?sr) n = Inr (take (unat n) (ByteStream_contents (SR_output ?sr)), st)"
    "SR_inv (?sr\<lparr>SR_output := st\<rparr>)" "SR_holds P (?sr\<lparr>SR_output := st\<rparr>)" "SR_next (?sr\<lparr>SR_output := st\<rparr>) = SR_next ?sr"
    "ByteStream_contents st = drop (unat n) (ByteStream_contents (SR_output ?sr))"
    by (rule SR_read [OF r, of n]) (rule that; assumption)
  then show ?thesis
    using inv by (auto simp: receiver_inv_def isn_known_def TCPReceiver_stream_out_def TCPReceiver_set_stream_out_def)
qed

section \<open>Framing\<close>

lemma stamp_piece [simp]: "piece isn S f (stamp r rst seg) \<longleftrightarrow> piece isn S f seg"
  by (simp add: piece_def segment_at_def segment_bare_def stamp_def Let_def split: option.splits)

lemma send_segments_loop_fields [simp]:
  "TC_sender (send_segments_loop rst q c) = (TC_sender c)\<lparr>SD_segments_out := []\<rparr>"
  "TC_receiver (send_segments_loop rst q c) = TC_receiver c"
  "TC_cfg (send_segments_loop rst q c) = TC_cfg c"
  "TC_linger (send_segments_loop rst q c) = TC_linger c"
  "TC_is_active (send_segments_loop rst q c) = TC_is_active c"
  "TC_sent_SYN (send_segments_loop rst q c) = TC_sent_SYN c"
  "TC_time_since_last_segment_received (send_segments_loop rst q c) = TC_time_since_last_segment_received c"
  by (induction q arbitrary: c) simp_all

lemma send_segments_loop_out:
  "TC_segments_out (send_segments_loop rst q c) = TC_segments_out c
     @ map (stamp (TC_receiver c) False) (butlast q) @ (if q = [] then [] else [stamp (TC_receiver c) rst (last q)])"
  by (induction q arbitrary: c) auto

lemma send_segments_loop_set:
  "set (TC_segments_out (send_segments_loop rst q c))
     \<subseteq> set (TC_segments_out c) \<union> {stamp (TC_receiver c) b x |b x. x \<in> set q}"
proof (induction q arbitrary: c)
  case (Cons x q)
  show ?case using Cons.IH [of "c\<lparr>TC_segments_out := TC_segments_out c @ [stamp (TC_receiver c) (rst \<and> q = []) x]\<rparr>"]
    by fastforce
qed simp

lemma clean_shutdown_fields [simp]:
  "TC_sender (TCPConnection_clean_shutdown c) = TC_sender c"
  "TC_receiver (TCPConnection_clean_shutdown c) = TC_receiver c"
  "TC_segments_out (TCPConnection_clean_shutdown c) = TC_segments_out c"
  "TC_sent_SYN (TCPConnection_clean_shutdown c) = TC_sent_SYN c"
  "TC_cfg (TCPConnection_clean_shutdown c) = TC_cfg c"
  "TC_time_since_last_segment_received (TCPConnection_clean_shutdown c) = TC_time_since_last_segment_received c"
  by (simp_all add: TCPConnection_clean_shutdown_def Let_def)

section \<open>The invariant of a connection\<close>

text \<open>
  \<open>sent\<close> has been taken from the outgoing stream, whose initial sequence number is \<open>isn\<close>;
  \<open>got\<close> has been read from the incoming one, \<open>P\<close>, whose initial sequence number is \<open>pisn\<close>.
\<close>

definition conn_inv :: "bytes \<Rightarrow> WrappingInt32 \<Rightarrow> bytes \<Rightarrow> bytes \<Rightarrow> WrappingInt32 \<Rightarrow> TCPConnection \<Rightarrow> bool" where
  "conn_inv sent isn got P pisn c \<longleftrightarrow> sender_inv sent (TC_sender c) \<and> SD_isn (TC_sender c) = isn
     \<and> receiver_inv got P pisn (TC_receiver c)
     \<and> (\<forall>seg \<in> set (TC_segments_out c). piece isn sent (SD_fin (TC_sender c)) seg)"

text \<open>The outgoing stream between two states: \<open>data\<close> leaves it and \<open>acc\<close> enters it.\<close>

definition conn_moves :: "bytes \<Rightarrow> TCPConnection \<Rightarrow> bytes \<Rightarrow> bytes \<Rightarrow> TCPConnection \<Rightarrow> bool" where
  "conn_moves sent c data acc c' \<longleftrightarrow> written (sent @ data) (TC_sender c') = written sent (TC_sender c) @ acc
     \<and> (SD_fin (TC_sender c) \<longrightarrow> data = [] \<and> SD_fin (TC_sender c'))"

lemma conn_moves_refl: "SD_stream (TC_sender c') = SD_stream (TC_sender c) \<Longrightarrow> SD_fin (TC_sender c') = SD_fin (TC_sender c)
  \<Longrightarrow> conn_moves sent c [] [] c'"
  by (simp add: conn_moves_def written_def)

lemma conn_moves_trans:
  "conn_moves sent c data acc c1 \<Longrightarrow> conn_moves (sent @ data) c1 data' acc' c2 \<Longrightarrow>
   conn_moves sent c (data @ data') (acc @ acc') c2"
  by (auto simp: conn_moves_def)

lemma conn_moves_after: "conn_moves sent c [] [] c1 \<Longrightarrow> conn_moves sent c1 data acc c2 \<Longrightarrow> conn_moves sent c data acc c2"
  and conn_moves_then: "conn_moves sent c data acc c1 \<Longrightarrow> conn_moves (sent @ data) c1 [] [] c2 \<Longrightarrow> conn_moves sent c data acc c2"
  by (auto simp: conn_moves_def)

lemma conn_inv_pieces:
  assumes "conn_inv sent isn got P pisn c" and "conn_moves sent c data acc c'"
    and "seg \<in> set (TC_segments_out c)"
  shows "piece isn (sent @ data) (SD_fin (TC_sender c')) seg"
  using assms piece_later [of isn sent "TC_sender c" seg data "TC_sender c'"] by (auto simp: conn_inv_def conn_moves_def)

lemma conn_inv_frame:
  assumes "conn_inv sent isn got P pisn c" and "TC_sender c' = TC_sender c" and "TC_receiver c' = TC_receiver c"
    and "set (TC_segments_out c') \<subseteq> set (TC_segments_out c)"
  shows "conn_inv sent isn got P pisn c'"
  using assms by (auto simp: conn_inv_def)

text \<open>A new sender in the connection that has only moved on.\<close>

lemma conn_inv_sender:
  assumes inv: "conn_inv sent isn got P pisn c" and s': "sender_inv (sent @ data) s'"
    and isn: "SD_isn s' = isn" and moves: "conn_moves sent c data acc (c\<lparr>TC_sender := s'\<rparr>)"
  shows "conn_inv (sent @ data) isn got P pisn (c\<lparr>TC_sender := s'\<rparr>)"
  using inv s' isn conn_inv_pieces [OF inv moves] by (auto simp: conn_inv_def)

lemma send_segments_ok:
  assumes inv: "conn_inv sent isn got P pisn c" and small: "length (written sent (TC_sender c)) + 2 < 2 ^ 32"
  shows "\<exists>c' data. TCPConnection_send_segments set_rst c = Inr c' \<and> conn_inv (sent @ data) isn got P pisn c'
    \<and> conn_moves sent c data [] c'"
proof -
  have c: "sender_inv sent (TC_sender c)" "SD_isn (TC_sender c) = isn" using inv by (simp_all add: conn_inv_def)
  obtain s data where s: "TCPSender_fill_window (TC_sender c) = Inr s" "sender_inv (sent @ data) s"
    "written (sent @ data) s = written sent (TC_sender c)" "SD_isn s = SD_isn (TC_sender c)"
    "SD_fin (TC_sender c) \<longrightarrow> s = TC_sender c"
    using fill_window_ok [OF c(1) small] by blast
  define c2 where "c2 = c\<lparr>TC_sender := s, TC_sent_SYN := True\<rparr>"
  define c' where "c' = TCPConnection_clean_shutdown (send_segments_loop set_rst (SD_segments_out s) c2)"
  have run: "TCPConnection_send_segments set_rst c = Inr c'"
    using s(1) by (cases c) (auto simp: TCPConnection_send_segments_def Let_def c'_def c2_def)
  have c': "TC_sender c' = s\<lparr>SD_segments_out := []\<rparr>" "TC_receiver c' = TC_receiver c"
    by (simp_all add: c'_def c2_def)
  have out: "set (TC_segments_out c') \<subseteq> set (TC_segments_out c) \<union> {stamp (TC_receiver c) b x |b x. x \<in> set (SD_segments_out s)}"
    using send_segments_loop_set [of set_rst "SD_segments_out s" c2] by (simp add: c'_def c2_def)
  have moves: "conn_moves sent c data [] c'"
    using s(3,5) by (auto simp: conn_moves_def c' written_def)
  have "queue_inv (TC_sender c')"
    using s(2) queue_inv_frame [of "TC_sender c'" s] by (simp add: sender_inv_def c')
  then have "sender_inv (sent @ data) (TC_sender c')" using s(2) by (auto simp: sender_inv_def c')
  moreover have "piece isn (sent @ data) (SD_fin s) x" if "x \<in> set (SD_segments_out s)" for x
    using s(2,4) c(2) that by (auto simp: sender_inv_def)
  ultimately have "conn_inv (sent @ data) isn got P pisn c'"
    using inv out conn_inv_pieces [OF inv moves] s(4) by (auto simp: conn_inv_def c')
  then show ?thesis using run moves by blast
qed

lemma set_error_simps [simp]:
  "ByteStream_contents (ByteStream_set_error st) = ByteStream_contents st"
  "ByteStream_inv (ByteStream_set_error st) = ByteStream_inv st"
  "isInputEnded (ByteStream_set_error st) = isInputEnded st"
  by (simp_all add: ByteStream_set_error_def ByteStream_contents_def ByteStream_inv_def)

lemma sender_inv_stream:
  assumes "sender_inv sent s" and "ByteStream_inv st" and "isInputEnded (SD_stream s) \<longrightarrow> isInputEnded st"
  shows "sender_inv sent (s\<lparr>SD_stream := st\<rparr>)"
proof -
  have "queue_inv (s\<lparr>SD_stream := st\<rparr>)"
    using assms(1) queue_inv_frame [of "s\<lparr>SD_stream := st\<rparr>" s] by (simp add: sender_inv_def)
  then show ?thesis using assms by (auto simp: sender_inv_def)
qed

lemma SR_inv_set_error:
  assumes "SR_inv sr"
  shows "SR_inv (sr\<lparr>SR_output := ByteStream_set_error (SR_output sr)\<rparr>)"
proof -
  let ?sr = "sr\<lparr>SR_output := ByteStream_set_error (SR_output sr)\<rparr>"
  have "SR_slots ?sr = SR_slots sr" by (simp add: SR_slots_def)
  moreover have "SR_window ?sr = SR_window sr" by (simp add: SR_window_def)
  moreover have "SR_shape ?sr = SR_shape sr" by (simp add: SR_shape_def SR_slots_def)
  ultimately show ?thesis using assms by (simp add: SR_inv_def) (simp add: ByteStream_set_error_def)
qed

lemma receiver_inv_error:
  assumes "receiver_inv got P isn r"
  shows "receiver_inv got P isn (TCPReceiver_set_stream_out r (ByteStream_set_error (TCPReceiver_stream_out r)))"
proof -
  let ?sr = "TR_reassembler r"
  let ?sr' = "?sr\<lparr>SR_output := ByteStream_set_error (SR_output ?sr)\<rparr>"
  have "SR_next ?sr' = SR_next ?sr" by (simp add: SR_next_def ByteStream_set_error_def)
  moreover have "SR_inv ?sr'" using assms by (simp add: receiver_inv_def SR_inv_set_error)
  ultimately show ?thesis
    using assms by (simp add: receiver_inv_def isn_known_def SR_holds_def TCPReceiver_set_stream_out_def TCPReceiver_stream_out_def)
qed

lemma kill_connection_ok:
  assumes "conn_inv sent isn got P pisn c"
  shows "conn_inv sent isn got P pisn (TCPConnection_kill_connection c)"
    and "conn_moves sent c [] [] (TCPConnection_kill_connection c)"
proof -
  let ?st = "ByteStream_set_error (SD_stream (TC_sender c))"
  have "sender_inv sent ((TC_sender c)\<lparr>SD_stream := ?st\<rparr>)"
    using assms by (intro sender_inv_stream) (auto simp: conn_inv_def sender_inv_def)
  then show "conn_inv sent isn got P pisn (TCPConnection_kill_connection c)"
    using assms receiver_inv_error [of got P pisn "TC_receiver c"]
    by (simp add: conn_inv_def TCPConnection_kill_connection_def Let_def set_stream_in_def)
  show "conn_moves sent c [] [] (TCPConnection_kill_connection c)"
    by (simp add: conn_moves_def written_def TCPConnection_kill_connection_def Let_def set_stream_in_def)
qed

lemma conn_send_empty_ok:
  assumes "conn_inv sent isn got P pisn c" and "c' = c\<lparr>TC_sender := TCPSender_send_empty_segment (TC_sender c)\<rparr>"
  shows "conn_inv sent isn got P pisn c'" and "conn_moves sent c [] [] c'"
proof -
  have s: "sender_inv sent (TC_sender c)" using assms(1) by (simp add: conn_inv_def)
  show "conn_inv sent isn got P pisn c'" using assms send_empty_ok [OF s] by (simp add: conn_inv_def)
  show "conn_moves sent c [] [] c'" using send_empty_ok [OF s] by (intro conn_moves_refl) (simp_all add: assms(2))
qed

lemma small_moves:
  "conn_moves sent c data acc c' \<Longrightarrow> length (written sent (TC_sender c)) + length acc + 2 < 2 ^ 32 \<Longrightarrow>
   length (written (sent @ data) (TC_sender c')) + 2 < 2 ^ 32"
  by (simp add: conn_moves_def)

lemma unclean_shutdown_ok:
  assumes inv: "conn_inv sent isn got P pisn c" and small: "length (written sent (TC_sender c)) + 2 < 2 ^ 32"
  shows "\<exists>c' data. TCPConnection_unclean_shutdown c = Inr c' \<and> conn_inv (sent @ data) isn got P pisn c'
    \<and> conn_moves sent c data [] c'"
proof -
  let ?c1 = "TCPConnection_kill_connection c"
  define c2 where "c2 = (if SD_segments_out (TC_sender ?c1) = []
      then ?c1\<lparr>TC_sender := TCPSender_send_empty_segment (TC_sender ?c1)\<rparr> else ?c1)"
  note k = kill_connection_ok [OF inv]
  have c2: "conn_inv sent isn got P pisn c2" "conn_moves sent ?c1 [] [] c2"
    using k conn_send_empty_ok [OF k(1) refl] by (auto simp: c2_def intro: conn_moves_refl)
  have m: "conn_moves sent c [] [] c2" by (rule conn_moves_after [OF k(2) c2(2)])
  have "length (written sent (TC_sender c2)) + 2 < 2 ^ 32" using small_moves [OF m] small by simp
  from send_segments_ok [OF c2(1) this, of True] obtain c' data where
    "TCPConnection_send_segments True c2 = Inr c'" "conn_inv (sent @ data) isn got P pisn c'" "conn_moves sent c2 data [] c'"
    by blast
  then show ?thesis
    using conn_moves_after [OF m] by (auto simp: TCPConnection_unclean_shutdown_def Let_def c2_def)
qed

lemma conn_tick_ok:
  assumes inv: "conn_inv sent isn got P pisn c" and small: "length (written sent (TC_sender c)) + 2 < 2 ^ 32"
  shows "\<exists>c' data. TCPConnection_tick c ms = Inr c' \<and> conn_inv (sent @ data) isn got P pisn c'
    \<and> conn_moves sent c data [] c'"
proof -
  define c1 where "c1 = c\<lparr>TC_sender := TCPSender_tick (TC_sender c) ms,
      TC_time_since_last_segment_received := TC_time_since_last_segment_received c + ms\<rparr>"
  have s: "sender_inv sent (TC_sender c)" using inv by (simp add: conn_inv_def)
  have c1: "conn_inv sent isn got P pisn c1" "conn_moves sent c [] [] c1"
    using inv tick_ok [OF s, of ms] by (auto simp: c1_def conn_inv_def intro: conn_moves_refl)
  have small1: "length (written sent (TC_sender c1)) + 2 < 2 ^ 32" using small_moves [OF c1(2)] small by simp
  let ?step = "if TCPSender_consecutive_retransmissions (TC_sender c1) > MAX_RETX_ATTEMPTS
      then TCPConnection_unclean_shutdown c1 else Inr c1"
  have "\<exists>c2 d. ?step = Inr c2 \<and> conn_inv (sent @ d) isn got P pisn c2 \<and> conn_moves sent c1 d [] c2"
    using unclean_shutdown_ok [OF c1(1) small1] c1(1) by (auto intro!: exI [of _ "[]"] conn_moves_refl)
  then obtain c2 d where c2: "?step = Inr c2" "conn_inv (sent @ d) isn got P pisn c2" "conn_moves sent c1 d [] c2" by blast
  have m: "conn_moves sent c d [] c2" by (rule conn_moves_after [OF c1(2) c2(3)])
  have small2: "length (written (sent @ d) (TC_sender c2)) + 2 < 2 ^ 32" using small_moves [OF m] small by simp
  have run: "TCPConnection_tick c ms = (if TC_sent_SYN c2 then TCPConnection_send_segments False c2 else Inr c2)"
    using c2(1) by (simp add: TCPConnection_tick_def Let_def c1_def [symmetric])
  show ?thesis
  proof (cases "TC_sent_SYN c2")
    case True
    obtain c' d' where "TCPConnection_send_segments False c2 = Inr c'" "conn_inv ((sent @ d) @ d') isn got P pisn c'"
      "conn_moves (sent @ d) c2 d' [] c'" using send_segments_ok [OF c2(2) small2] by blast
    then show ?thesis using True conn_moves_trans [OF m] unfolding run by fastforce
  next
    case False
    then show ?thesis using c2(2) m unfolding run by auto
  qed
qed

lemma conn_ack_ok:
  assumes inv: "conn_inv sent isn got P pisn c" and small: "length (written sent (TC_sender c)) + 2 < 2 ^ 32"
    and r: "receiver_inv got P pisn r"
  shows "\<exists>s d. (if is_ack then TCPSender_ack_received (TC_sender c) ackno win else Inr (TC_sender c)) = Inr s
    \<and> conn_inv (sent @ d) isn got P pisn (c\<lparr>TC_receiver := r, TC_sender := s\<rparr>)
    \<and> conn_moves sent c d [] (c\<lparr>TC_receiver := r, TC_sender := s\<rparr>)"
proof (cases is_ack)
  case True
  have c: "sender_inv sent (TC_sender c)" "SD_isn (TC_sender c) = isn" using inv by (simp_all add: conn_inv_def)
  obtain s d where s: "TCPSender_ack_received (TC_sender c) ackno win = Inr s" "sender_inv (sent @ d) s"
    "written (sent @ d) s = written sent (TC_sender c)" "SD_isn s = SD_isn (TC_sender c)"
    "SD_fin (TC_sender c) \<longrightarrow> SD_stream s = SD_stream (TC_sender c) \<and> SD_fin s"
    using ack_received_ok [OF c(1) small] by blast
  have m: "conn_moves sent c d [] (c\<lparr>TC_sender := s\<rparr>)" using s(3,5) by (auto simp: conn_moves_def written_def)
  have "conn_inv (sent @ d) isn got P pisn (c\<lparr>TC_sender := s\<rparr>)"
    using conn_inv_sender [OF inv s(2) _ m] s(4) c(2) by simp
  then show ?thesis
    using True s(1) m r by (intro exI [of _ s] exI [of _ d]) (simp add: conn_inv_def conn_moves_def)
next
  case False
  then show ?thesis
    using inv r by (intro exI [of _ "TC_sender c"] exI [of _ "[]"]) (simp add: conn_inv_def conn_moves_def)
qed

lemma conn_receive_ok:
  assumes inv: "conn_inv sent isn got P pisn c" and small: "length (written sent (TC_sender c)) + 2 < 2 ^ 32"
    and seg: "piece pisn P fin_sent seg" and P: "length P + 1 < 2 ^ 31"
  shows "\<exists>c' data. TCPConnection_segment_received c seg = Inr c' \<and> conn_inv (sent @ data) isn got P pisn c'
    \<and> conn_moves sent c data [] c'"
proof -
  let ?h = "TS_header seg"
  define c1 where "c1 = c\<lparr>TC_time_since_last_segment_received := 0\<rparr>"
  have c1: "conn_inv sent isn got P pisn c1" "conn_moves sent c [] [] c1"
    using inv by (auto simp: c1_def conn_inv_def intro: conn_moves_refl)
  consider (rst) "TH_rst ?h" | (early) "\<not> TH_rst ?h" "\<not> TC_sent_SYN c1" "TH_ack ?h"
    | (go) "\<not> TH_rst ?h" "\<not> (\<not> TC_sent_SYN c1 \<and> TH_ack ?h)" by blast
  then show ?thesis
  proof cases
    case rst
    then have "TCPConnection_segment_received c seg = Inr (TCPConnection_kill_connection c1)"
      by (simp add: TCPConnection_segment_received_def Let_def c1_def)
    then show ?thesis
      using kill_connection_ok [OF c1(1)] conn_moves_after [OF c1(2)]
      by (intro exI [of _ "TCPConnection_kill_connection c1"] exI [of _ "[]"]) simp
  next
    case early
    then have "TCPConnection_segment_received c seg = Inr c1"
      by (simp add: TCPConnection_segment_received_def Let_def c1_def)
    then show ?thesis using c1 by (intro exI [of _ c1] exI [of _ "[]"]) simp
  next
    case go
    obtain r where r: "TCPReceiver_segment_received (TC_receiver c1) seg = Inr r" "receiver_inv got P pisn r"
      using receive_ok [OF _ seg P, of got "TC_receiver c1"] c1(1) by (auto simp: conn_inv_def)
    have small1: "length (written sent (TC_sender c1)) + 2 < 2 ^ 32" using small_moves [OF c1(2)] small by simp
    let ?ack = "if TH_ack ?h then TCPSender_ack_received (TC_sender c1) (TH_ackno ?h) (TH_win ?h) else Inr (TC_sender c1)"
    obtain s' d where s': "?ack = Inr s'" "conn_inv (sent @ d) isn got P pisn (c1\<lparr>TC_receiver := r, TC_sender := s'\<rparr>)"
      "conn_moves sent c1 d [] (c1\<lparr>TC_receiver := r, TC_sender := s'\<rparr>)"
      using conn_ack_ok [OF c1(1) small1 r(2), of "TH_ack ?h" "TH_ackno ?h" "TH_win ?h"] by blast
    define c2 where "c2 = c1\<lparr>TC_receiver := r, TC_sender := s'\<rparr>"
    have c2: "conn_inv (sent @ d) isn got P pisn c2" "conn_moves sent c1 d [] c2" using s'(2,3) by (simp_all add: c2_def)
    define c3 where "c3 = (if TH_syn ?h \<and> TC_sent_SYN c2 \<or> TH_fin ?h \<or> length (Buffer_str (TS_payload seg)) \<noteq> 0
      then c2\<lparr>TC_sender := TCPSender_send_empty_segment (TC_sender c2)\<rparr> else c2)"
    have c3: "conn_inv (sent @ d) isn got P pisn c3" "conn_moves (sent @ d) c2 [] [] c3"
      using c2(1) conn_send_empty_ok [OF c2(1) refl] by (auto simp: c3_def intro: conn_moves_refl)
    have m: "conn_moves sent c d [] c3"
      by (rule conn_moves_then [OF conn_moves_after [OF c1(2) c2(2)] c3(2)])
    have "length (written (sent @ d) (TC_sender c3)) + 2 < 2 ^ 32" using small_moves [OF m] small by simp
    from send_segments_ok [OF c3(1) this, of False] obtain c' d' where
      c': "TCPConnection_send_segments False c3 = Inr c'" "conn_inv ((sent @ d) @ d') isn got P pisn c'"
        "conn_moves (sent @ d) c3 d' [] c'" by blast
    have "TCPConnection_segment_received c seg = Inr c'"
      unfolding TCPConnection_segment_received_def Let_def c1_def [symmetric] if_not_P [OF go(1)] if_not_P [OF go(2)]
        r(1) s'(1) bindR.simps c2_def [symmetric] c3_def [symmetric] by (rule c'(1))
    then show ?thesis using c'(2) conn_moves_trans [OF m c'(3)] by auto
  qed
qed

section \<open>Runs\<close>

text \<open>
  What the owner of a connection can do: open it, write, end the outgoing stream, let time pass, read
  what arrived, take outgoing segments, deliver a segment from the network, and drop the connection.
  A step yields the bytes accepted for sending, the bytes read and the segments taken.
\<close>

datatype conn_op = Connect | WriteData bytes | EndStream | Elapse u64 | ReadData u64 | TakeSegments nat
  | Deliver TCPSegment | Close

record conn_effect =
  CE_accepted :: bytes
  CE_read :: bytes
  CE_taken :: "TCPSegment list"

definition quiet :: conn_effect where
  "quiet = \<lparr>CE_accepted = [], CE_read = [], CE_taken = []\<rparr>"

definition quietly :: "TCPConnection result \<Rightarrow> (conn_effect \<times> TCPConnection) result" where
  "quietly m = bindR m (\<lambda>c. Inr (quiet, c))"

fun conn_step :: "conn_op \<Rightarrow> TCPConnection \<Rightarrow> (conn_effect \<times> TCPConnection) result" where
  "conn_step Connect c = quietly (TCPConnection_connect c)"
| "conn_step (WriteData data) c = bindR (TCPConnection_write c data) (\<lambda>(n, c').
     Inr (quiet\<lparr>CE_accepted := take (unat n) data\<rparr>, c'))"
| "conn_step EndStream c = quietly (TCPConnection_end_input_stream c)"
| "conn_step (Elapse ms) c = quietly (TCPConnection_tick c ms)"
| "conn_step (ReadData n) c = bindR (ByteStream_read (TCPConnection_inbound_stream c) n) (\<lambda>(data, st).
     Inr (quiet\<lparr>CE_read := data\<rparr>, c\<lparr>TC_receiver := TCPReceiver_set_stream_out (TC_receiver c) st\<rparr>))"
| "conn_step (TakeSegments k) c =
     Inr (quiet\<lparr>CE_taken := take k (TC_segments_out c)\<rparr>, c\<lparr>TC_segments_out := drop k (TC_segments_out c)\<rparr>)"
| "conn_step (Deliver seg) c = quietly (TCPConnection_segment_received c seg)"
| "conn_step Close c = quietly (TCPConnection_destroy c)"

fun conn_op_offers :: "conn_op \<Rightarrow> nat" where
  "conn_op_offers (WriteData data) = length data"
| "conn_op_offers _ = 0"

text \<open>A segment that is delivered is a piece of the peer's stream.\<close>

fun conn_op_ok :: "WrappingInt32 \<Rightarrow> bytes \<Rightarrow> conn_op \<Rightarrow> bool" where
  "conn_op_ok pisn P (Deliver seg) \<longleftrightarrow> (\<exists>f. piece pisn P f seg)"
| "conn_op_ok pisn P _ \<longleftrightarrow> True"

lemma quietly_ok:
  assumes "\<exists>c' data. m = Inr c' \<and> conn_inv (sent @ data) isn got P pisn c' \<and> conn_moves sent c data [] c'"
  shows "\<exists>e c' data. quietly m = Inr (e, c') \<and> conn_inv (sent @ data) isn (got @ CE_read e) P pisn c'
    \<and> conn_moves sent c data (CE_accepted e) c' \<and> length (CE_accepted e) \<le> n
    \<and> (\<forall>seg \<in> set (CE_taken e). piece isn sent (SD_fin (TC_sender c)) seg)"
  using assms by (auto simp: quietly_def quiet_def)

lemma set_stream_in_inv:
  assumes "conn_inv sent isn got P pisn c" and "sender_inv sent ((TC_sender c)\<lparr>SD_stream := st\<rparr>)"
    and "ByteStream_contents st = ByteStream_contents (SD_stream (TC_sender c)) @ acc"
  shows "conn_inv sent isn got P pisn (set_stream_in c st)" and "conn_moves sent c [] acc (set_stream_in c st)"
  using assms by (simp_all add: conn_inv_def set_stream_in_def conn_moves_def written_def)

lemma write_amount:
  "TCPConnection_write c data = Inr (n, c') \<Longrightarrow> n = min (str_size data) (TCPConnection_remaining_outbound_capacity c)"
  by (auto simp: TCPConnection_write_def ByteStream_write_def TCPConnection_remaining_outbound_capacity_def Let_def bindR_eq_Inr_iff)

lemma conn_write_ok:
  assumes inv: "conn_inv sent isn got P pisn c" and small: "length (written sent (TC_sender c)) + length data + 2 < 2 ^ 32"
  shows "\<exists>n c' d. TCPConnection_write c data = Inr (n, c') \<and> conn_inv (sent @ d) isn got P pisn c'
    \<and> conn_moves sent c d (take (unat n) data) c'"
proof -
  have s: "sender_inv sent (TC_sender c)" and len: "length data < 2 ^ 64" using inv small by (simp_all add: conn_inv_def)
  obtain k st where k: "ByteStream_write (SD_stream (TC_sender c)) data = Inr (of_nat k, st)" "k \<le> length data"
    "sender_inv sent ((TC_sender c)\<lparr>SD_stream := st\<rparr>)"
    "written sent ((TC_sender c)\<lparr>SD_stream := st\<rparr>) = written sent (TC_sender c) @ take k data"
    by (rule sender_write_ok [OF s len])
  have "ByteStream_contents st = ByteStream_contents (SD_stream (TC_sender c)) @ take k data"
    using k(4) by (simp add: written_def)
  note c1 = set_stream_in_inv [OF inv k(3) this]
  have "length (written sent (TC_sender (set_stream_in c st))) + 2 < 2 ^ 32"
    using small_moves [OF c1(2)] small by simp
  from send_segments_ok [OF c1(1) this, of False] obtain c' d where c':
    "TCPConnection_send_segments False (set_stream_in c st) = Inr c'" "conn_inv (sent @ d) isn got P pisn c'"
    "conn_moves sent (set_stream_in c st) d [] c'" by blast
  have "unat (of_nat k :: u64) = k" using k(2) len by (simp add: unat_of_nat)
  then show ?thesis
    using k(1) c' conn_moves_trans [OF c1(2), of d "[]" c']
    by (intro exI [of _ "of_nat k"] exI [of _ c'] exI [of _ d]) (simp add: TCPConnection_write_def)
qed

lemma conn_end_input_ok:
  assumes inv: "conn_inv sent isn got P pisn c" and small: "length (written sent (TC_sender c)) + 2 < 2 ^ 32"
  shows "\<exists>c' d. TCPConnection_end_input_stream c = Inr c' \<and> conn_inv (sent @ d) isn got P pisn c'
    \<and> conn_moves sent c d [] c'"
proof -
  let ?st = "ByteStream_end_input (SD_stream (TC_sender c))"
  have s: "sender_inv sent (TC_sender c)" using inv by (simp add: conn_inv_def)
  have "ByteStream_contents ?st = ByteStream_contents (SD_stream (TC_sender c)) @ []"
    by (simp add: ByteStream_contents_def ByteStream_end_input_def)
  note c1 = set_stream_in_inv [OF inv sender_end_input_ok(1) [OF s] this]
  have "length (written sent (TC_sender (set_stream_in c ?st))) + 2 < 2 ^ 32" using small_moves [OF c1(2)] small by simp
  then show ?thesis
    using send_segments_ok [OF c1(1), of False] conn_moves_after [OF c1(2)]
    unfolding TCPConnection_end_input_stream_def by blast
qed

lemma conn_step_ok:
  assumes inv: "conn_inv sent isn got P pisn c"
    and small: "length (written sent (TC_sender c)) + conn_op_offers op + 2 < 2 ^ 32"
    and op: "conn_op_ok pisn P op" and P: "length P + 1 < 2 ^ 31"
  shows "\<exists>e c' data. conn_step op c = Inr (e, c') \<and> conn_inv (sent @ data) isn (got @ CE_read e) P pisn c'
    \<and> conn_moves sent c data (CE_accepted e) c' \<and> length (CE_accepted e) \<le> conn_op_offers op
    \<and> (\<forall>seg \<in> set (CE_taken e). piece isn sent (SD_fin (TC_sender c)) seg)"
proof -
  have small': "length (written sent (TC_sender c)) + 2 < 2 ^ 32" using small by linarith
  show ?thesis
  proof (cases op)
    case Connect
    then show ?thesis using quietly_ok [OF send_segments_ok [OF inv small', of False], where n = 0] by (simp add: TCPConnection_connect_def)
  next
    case (WriteData data)
    then have "length (written sent (TC_sender c)) + length data + 2 < 2 ^ 32" using small by simp
    from conn_write_ok [OF inv this] obtain n c' d where "TCPConnection_write c data = Inr (n, c')"
      "conn_inv (sent @ d) isn got P pisn c'" "conn_moves sent c d (take (unat n) data) c'" by blast
    then show ?thesis
      by (intro exI [of _ "quiet\<lparr>CE_accepted := take (unat n) data\<rparr>"] exI [of _ c'] exI [of _ d])
        (simp add: WriteData quiet_def)
  next
    case EndStream
    then show ?thesis using quietly_ok [OF conn_end_input_ok [OF inv small'], where n = 0] by simp
  next
    case (Elapse ms)
    then show ?thesis using quietly_ok [OF conn_tick_ok [OF inv small', of ms], where n = 0] by simp
  next
    case (ReadData n)
    have "receiver_inv got P pisn (TC_receiver c)" using inv by (simp add: conn_inv_def)
    from receiver_inv_read [OF this, of n] obtain data st where
      "ByteStream_read (TCPReceiver_stream_out (TC_receiver c)) n = Inr (data, st)"
      "receiver_inv (got @ data) P pisn (TCPReceiver_set_stream_out (TC_receiver c) st)" by blast
    then show ?thesis
      using inv by (intro exI [of _ "quiet\<lparr>CE_read := data\<rparr>"] exI [of _ "[]"]
          exI [of _ "c\<lparr>TC_receiver := TCPReceiver_set_stream_out (TC_receiver c) st\<rparr>"])
        (auto simp: ReadData quiet_def TCPConnection_inbound_stream_def conn_inv_def intro: conn_moves_refl)
  next
    case (TakeSegments k)
    then show ?thesis
      using inv by (intro exI [of _ "quiet\<lparr>CE_taken := take k (TC_segments_out c)\<rparr>"] exI [of _ "[]"]
          exI [of _ "c\<lparr>TC_segments_out := drop k (TC_segments_out c)\<rparr>"])
        (auto simp: quiet_def conn_inv_def dest: in_set_takeD in_set_dropD intro: conn_moves_refl)
  next
    case (Deliver seg)
    then obtain f where "piece pisn P f seg" using op by auto
    then show ?thesis using Deliver quietly_ok [OF conn_receive_ok [OF inv small' _ P, of f seg], where n = 0] by simp
  next
    case Close
    have "\<exists>c' d. TCPConnection_destroy c = Inr c' \<and> conn_inv (sent @ d) isn got P pisn c' \<and> conn_moves sent c d [] c'"
      using unclean_shutdown_ok [OF inv small'] inv
      by (cases "TCPConnection_active c") (auto simp: TCPConnection_destroy_def intro!: exI [of _ "[]"] conn_moves_refl)
    then show ?thesis using Close quietly_ok [where n = 0] by simp
  qed
qed

section \<open>How a connection ends\<close>

text \<open>Filling the window only appends to the outgoing queue.\<close>

lemma send_segment_out: "SD_segments_out (TCPSender_send_segment s seg)
    = SD_segments_out s @ [seg\<lparr>TS_header := (TS_header seg)\<lparr>TH_seqno := TCPSender_next_seqno s\<rparr>\<rparr>]"
  by (simp add: TCPSender_send_segment_def Let_def)

lemma fill_window_turn_out:
  assumes "fill_window_turn n s = Inr (n', s')"
  obtains seg where "SD_segments_out s' = SD_segments_out s @ [seg]"
  using assms by (auto simp: fill_window_turn_def Let_def send_segment_out elim!: bindR_eq_InrE split: if_splits)

lemma fill_window_loop_out:
  assumes "fill_window_loop n s = Inr s'"
  shows "\<exists>new. SD_segments_out s' = SD_segments_out s @ new"
  using assms
proof (induction n s rule: fill_window_loop.induct)
  case (1 n s)
  show ?case
  proof (cases "n > 0 \<and> \<not> SD_fin s \<and> (ByteStream_eof (SD_stream s) \<or> \<not> ByteStream_buffer_empty (SD_stream s))")
    case True
    then obtain n' s1 where t: "fill_window_turn n s = Inr (n', s1)" "fill_window_loop n' s1 = Inr s'"
      using "1.prems" by (auto simp: fill_window_loop.simps [of n s] elim!: bindR_eq_InrE)
    obtain seg where "SD_segments_out s1 = SD_segments_out s @ [seg]" by (rule fill_window_turn_out [OF t(1)])
    moreover obtain new where "SD_segments_out s' = SD_segments_out s1 @ new"
      using "1.IH" [OF _ _ t(1) refl t(2)] True by auto
    ultimately show ?thesis by simp
  next
    case False
    then have "s' = s" using "1.prems" by (auto simp: fill_window_loop.simps [of n s] split: if_splits)
    then show ?thesis by simp
  qed
qed

lemma fill_window_out:
  assumes "TCPSender_fill_window s = Inr s'"
  shows "\<exists>new. SD_segments_out s' = SD_segments_out s @ new"
  using assms fill_window_loop_out [of _ s s']
  by (auto simp: TCPSender_fill_window_def Let_def send_segment_out split: if_splits)

lemma send_segments_out:
  assumes "TCPConnection_send_segments set_rst c = Inr c'"
  shows "\<exists>new. TC_segments_out c' = TC_segments_out c @ new
      \<and> (set_rst \<and> SD_segments_out (TC_sender c) \<noteq> [] \<longrightarrow> new \<noteq> [] \<and> TH_rst (TS_header (last new)))"
    and "\<not> TC_is_active c \<Longrightarrow> \<not> TC_is_active c'" and "TC_sent_SYN c'"
proof -
  from assms obtain s where s: "TCPSender_fill_window (TC_sender c) = Inr s" by (auto simp: TCPConnection_send_segments_def elim: bindR_eq_InrE)
  define c2 where "c2 = c\<lparr>TC_sender := s, TC_sent_SYN := True\<rparr>"
  have c': "c' = TCPConnection_clean_shutdown (send_segments_loop set_rst (SD_segments_out s) c2)"
    using assms s by (cases c) (auto simp: TCPConnection_send_segments_def Let_def c2_def)
  obtain new where new: "SD_segments_out s = SD_segments_out (TC_sender c) @ new" using fill_window_out [OF s] by blast
  have "TH_rst (TS_header (stamp r True seg))" for r seg by (simp add: stamp_def Let_def)
  then show "\<exists>new. TC_segments_out c' = TC_segments_out c @ new
      \<and> (set_rst \<and> SD_segments_out (TC_sender c) \<noteq> [] \<longrightarrow> new \<noteq> [] \<and> TH_rst (TS_header (last new)))"
    by (simp add: c' c2_def send_segments_loop_out new)
  show "\<not> TC_is_active c'" if "\<not> TC_is_active c"
    using that by (simp add: c' TCPConnection_clean_shutdown_def Let_def) (simp add: c2_def)
  show "TC_sent_SYN c'" by (simp add: c' c2_def)
qed

lemma unclean_shutdown_out:
  assumes "TCPConnection_unclean_shutdown c = Inr c'"
  shows "\<exists>new. TC_segments_out c' = TC_segments_out c @ new \<and> new \<noteq> [] \<and> TH_rst (TS_header (last new))"
    and "\<not> TC_is_active c'" and "TC_sent_SYN c'"
proof -
  let ?c1 = "TCPConnection_kill_connection c"
  define c2 where "c2 = (if SD_segments_out (TC_sender ?c1) = []
      then ?c1\<lparr>TC_sender := TCPSender_send_empty_segment (TC_sender ?c1)\<rparr> else ?c1)"
  have run: "TCPConnection_send_segments True c2 = Inr c'"
    using assms by (simp add: TCPConnection_unclean_shutdown_def Let_def c2_def)
  have c2: "SD_segments_out (TC_sender c2) \<noteq> []" "TC_segments_out c2 = TC_segments_out c" "\<not> TC_is_active c2"
    by (simp_all add: c2_def TCPSender_send_empty_segment_def Let_def TCPConnection_kill_connection_def set_stream_in_def)
  show "\<exists>new. TC_segments_out c' = TC_segments_out c @ new \<and> new \<noteq> [] \<and> TH_rst (TS_header (last new))"
    using send_segments_out(1) [OF run] c2 by simp
  show "\<not> TC_is_active c'" "TC_sent_SYN c'" using send_segments_out(2,3) [OF run] c2(3) by simp_all
qed

text \<open>Both streams are over: all of the peer's has arrived, and all of ours is acknowledged.\<close>

definition streams_finished :: "TCPConnection \<Rightarrow> bool" where
  "streams_finished c \<longleftrightarrow> ByteStream_input_ended (TCPReceiver_stream_out (TC_receiver c))
     \<and> TCPReceiver_unassembled_bytes (TC_receiver c) = 0 \<and> ByteStream_eof (SD_stream (TC_sender c))
     \<and> SD_syn (TC_sender c) \<and> SD_fin (TC_sender c) \<and> SD_in_flight (TC_sender c) = [] \<and> SD_bytes_in_flight (TC_sender c) = 0
     \<and> SD_segments_out (TC_sender c) = [] \<and> SD_n_consecutive (TC_sender c) \<le> MAX_RETX_ATTEMPTS \<and> TC_sent_SYN c"

fun conn_ticks :: "u64 list \<Rightarrow> TCPConnection \<Rightarrow> TCPConnection result" where
  "conn_ticks [] c = Inr c"
| "conn_ticks (ms # mss) c = bindR (TCPConnection_tick c ms) (conn_ticks mss)"

definition linger_over :: "TCPConnection \<Rightarrow> bool" where
  "linger_over c \<longleftrightarrow> TC_linger c \<longrightarrow> 10 * ucast (rt_timeout (TC_cfg c)) \<le> TC_time_since_last_segment_received c"

lemma finished_tick:
  assumes "streams_finished c"
  shows "\<exists>c'. TCPConnection_tick c ms = Inr c' \<and> streams_finished c' \<and> TC_segments_out c' = TC_segments_out c
    \<and> TC_cfg c' = TC_cfg c \<and> TC_linger c' = TC_linger c
    \<and> TC_time_since_last_segment_received c' = TC_time_since_last_segment_received c + ms
    \<and> (TC_is_active c' \<longleftrightarrow> TC_is_active c \<and> \<not> linger_over c')"
proof -
  let ?s = "(TC_sender c)\<lparr>SD_time_spent := 0, SD_timer_running := False\<rparr>"
  have tick: "TCPSender_tick (TC_sender c) ms = ?s"
    using assms by (cases "TC_sender c") (simp add: streams_finished_def TCPSender_tick_def Let_def)
  have fill: "TCPSender_fill_window ?s = Inr ?s"
    using assms fill_window_loop_fin [of ?s] by (simp add: streams_finished_def TCPSender_fill_window_def Let_def)
  let ?c = "c\<lparr>TC_sender := ?s, TC_time_since_last_segment_received := TC_time_since_last_segment_received c + ms\<rparr>"
  have "TCPConnection_tick c ms = TCPConnection_send_segments False ?c"
    using assms
    by (auto simp: TCPConnection_tick_def Let_def tick streams_finished_def TCPSender_consecutive_retransmissions_def)
  also have "\<dots> = Inr (TCPConnection_clean_shutdown ?c)"
    using assms fill by (cases c; cases "TC_sender c") (simp add: TCPConnection_send_segments_def Let_def streams_finished_def)
  finally show ?thesis
    using assms
    by (simp add: streams_finished_def TCPConnection_clean_shutdown_def Let_def linger_over_def
        TCPConnection_time_since_last_segment_received_def TCPSender_bytes_in_flight_def ByteStream_eof_def ByteStream_input_ended_def)
qed

lemma finished_ticks:
  assumes "streams_finished c" and "TC_is_active c" and "\<not> linger_over c" and "TC_linger c"
    and "unat (TC_time_since_last_segment_received c) + sum_list (map unat mss) < 2 ^ 64"
  shows "\<exists>c'. conn_ticks mss c = Inr c' \<and> TC_segments_out c' = TC_segments_out c
    \<and> (TC_is_active c' \<longleftrightarrow> unat (TC_time_since_last_segment_received c) + sum_list (map unat mss) < 10 * unat (rt_timeout (TC_cfg c)))"
proof -
  have over: "linger_over d \<longleftrightarrow> 10 * unat (rt_timeout (TC_cfg d)) \<le> unat (TC_time_since_last_segment_received d)"
    if "TC_linger d" for d
  proof -
    have "10 * unat (rt_timeout (TC_cfg d)) < 18446744073709551616" using unat_u16_lt [of "rt_timeout (TC_cfg d)"] by linarith
    then have "unat (10 * ucast (rt_timeout (TC_cfg d)) :: u64) = 10 * unat (rt_timeout (TC_cfg d))"
      by (simp add: unat_word_ariths)
    then show ?thesis using that by (simp add: linger_over_def word_le_nat_alt)
  qed
  have run: "\<exists>c'. conn_ticks mss c = Inr c' \<and> TC_segments_out c' = TC_segments_out c
      \<and> (mss \<noteq> [] \<longrightarrow> (TC_is_active c' \<longleftrightarrow> TC_is_active c
           \<and> unat (TC_time_since_last_segment_received c) + sum_list (map unat mss) < 10 * unat (rt_timeout (TC_cfg c))))"
    if "streams_finished c" "TC_linger c" "unat (TC_time_since_last_segment_received c) + sum_list (map unat mss) < 2 ^ 64"
    using that
  proof (induction mss arbitrary: c)
    case (Cons ms mss)
    from finished_tick [OF Cons.prems(1), of ms] obtain c1 where
      c1: "TCPConnection_tick c ms = Inr c1" "streams_finished c1" "TC_segments_out c1 = TC_segments_out c"
        "TC_cfg c1 = TC_cfg c" "TC_linger c1 = TC_linger c" "TC_is_active c1 \<longleftrightarrow> TC_is_active c \<and> \<not> linger_over c1"
        "TC_time_since_last_segment_received c1 = TC_time_since_last_segment_received c + ms" by blast
    have t: "unat (TC_time_since_last_segment_received c1) = unat (TC_time_since_last_segment_received c) + unat ms"
      using Cons.prems(3) by (simp add: c1(7) unat_add_small)
    show ?case
      using Cons.IH [OF c1(2)] Cons.prems(2,3) c1(1,3,4,5,6) over [of c1] t by (cases mss) auto
  qed simp
  show ?thesis using run [OF assms(1,4,5)] assms(2,3) over [OF assms(4)] by (cases mss) auto
qed

section \<open>Properties\<close>



text \<open>C11: when the tick makes the ninth retransmission in a row the connection gives up: it does not
  fault, a segment with the reset flag goes out, and the connection is no longer active.\<close>

theorem connection_gives_up:
  assumes "conn_inv sent isn got P pisn c" and "length (written sent (TC_sender c)) + 2 < 2 ^ 32"
    and "TCPSender_consecutive_retransmissions (TCPSender_tick (TC_sender c) ms) > MAX_RETX_ATTEMPTS"
  shows "\<exists>c' new. TCPConnection_tick c ms = Inr c' \<and> \<not> TCPConnection_active c'
    \<and> TC_segments_out c' = TC_segments_out c @ new \<and> (\<exists>seg \<in> set new. TH_rst (TS_header seg))"
proof -
  obtain c' where c': "TCPConnection_tick c ms = Inr c'" using conn_tick_ok [OF assms(1,2)] by blast
  define c1 where "c1 = c\<lparr>TC_sender := TCPSender_tick (TC_sender c) ms,
      TC_time_since_last_segment_received := TC_time_since_last_segment_received c + ms\<rparr>"
  obtain c2 where c2: "TCPConnection_unclean_shutdown c1 = Inr c2" "TC_sent_SYN c2"
    "TCPConnection_send_segments False c2 = Inr c'"
    using c' assms(3) unclean_shutdown_out(3)
    by (auto simp: TCPConnection_tick_def Let_def c1_def elim!: bindR_eq_InrE)
  obtain new where new: "TC_segments_out c2 = TC_segments_out c @ new" "new \<noteq> []" "TH_rst (TS_header (last new))"
    using unclean_shutdown_out(1) [OF c2(1)] by (auto simp: c1_def)
  obtain new' where "TC_segments_out c' = TC_segments_out c2 @ new'" using send_segments_out(1) [OF c2(3)] by blast
  then show ?thesis
    using c' new last_in_set [OF new(2)] send_segments_out(2) [OF c2(3) unclean_shutdown_out(2) [OF c2(1)]]
    by (intro exI [of _ c'] exI [of _ "new @ new'"]) (auto simp: TCPConnection_active_def)
qed

definition example_stuck :: TCPConnection where
  "example_stuck = (TCPConnection_new TCPConfig_new 0)
     \<lparr>TC_sender := example_outstanding\<lparr>SD_n_consecutive := 8, SD_rto := 1000\<rparr>, TC_sent_SYN := True\<rparr>"

lemma example_stuck_inv: "conn_inv [1, 2, 3] (WrappingInt32 7) [] [] (WrappingInt32 0) example_stuck"
proof -
  let ?s = "example_outstanding\<lparr>SD_n_consecutive := 8, SD_rto := 1000\<rparr>"
  have "queue_inv ?s"
    using example_outstanding_inv queue_inv_frame [of ?s example_outstanding] by (simp add: sender_inv_def)
  then have "sender_inv [1, 2, 3] ?s" using example_outstanding_inv by (simp add: sender_inv_def)
  moreover have "receiver_inv [] [] (WrappingInt32 0) (TCPReceiver_new 64000)" by (rule receiver_inv_new) simp
  ultimately show ?thesis
    by (simp add: conn_inv_def example_stuck_def TCPConnection_new_def TCPConfig_new_def DEFAULT_CAPACITY_def)
      (simp add: example_outstanding_def example_sender_def TCPSender_new_def)
qed

theorem connection_gives_up_witness:
  "\<exists>c' new. TCPConnection_tick example_stuck 1000 = Inr c' \<and> \<not> TCPConnection_active c'
    \<and> TC_segments_out c' = TC_segments_out example_stuck @ new \<and> (\<exists>seg \<in> set new. TH_rst (TS_header seg))"
  by (rule connection_gives_up [OF example_stuck_inv])
    (simp_all add: example_stuck_def example_outstanding_def example_sender_def written_def ByteStream_contents_def
      TCPSender_tick_def Let_def TCPSender_consecutive_retransmissions_def MAX_RETX_ATTEMPTS_def TCPSender_new_def)

text \<open>C12: a connection whose two streams are over lingers for ten times the initial retransmission
  timeout after the last segment it received, however the ticks divide that time, sends nothing
  meanwhile, and is then no longer active.\<close>

theorem connection_lingers:
  assumes "streams_finished c" and "TC_is_active c" and "TC_linger c" and "\<not> linger_over c"
    and "unat (TC_time_since_last_segment_received c) + sum_list (map unat mss) < 2 ^ 64"
  shows "\<exists>c'. conn_ticks mss c = Inr c' \<and> TC_segments_out c' = TC_segments_out c
    \<and> (TCPConnection_active c' \<longleftrightarrow>
         unat (TC_time_since_last_segment_received c) + sum_list (map unat mss) < 10 * unat (rt_timeout (TC_cfg c)))"
  using finished_ticks [OF assms(1,2,4,3,5)] by (simp add: TCPConnection_active_def)

definition example_finished :: TCPConnection where
  "example_finished = (TCPConnection_new TCPConfig_new 0)
     \<lparr>TC_receiver := (TCPReceiver_new 4)\<lparr>TR_reassembler := (StreamReassembler_new 4)
        \<lparr>SR_output := (ByteStream_new 4)\<lparr>isInputEnded := True\<rparr>\<rparr>\<rparr>,
      TC_sender := (TCPSender_new 4 1000 (Some (WrappingInt32 7)) 0)\<lparr>SD_syn := True, SD_fin := True,
        SD_stream := (ByteStream_new 4)\<lparr>isInputEnded := True\<rparr>\<rparr>, TC_sent_SYN := True\<rparr>"

theorem connection_lingers_witness:
  "(\<exists>c'. conn_ticks [4000, 5999] example_finished = Inr c' \<and> TCPConnection_active c')
    \<and> (\<exists>c'. conn_ticks [4000, 6000] example_finished = Inr c' \<and> \<not> TCPConnection_active c')"
proof -
  have fin: "streams_finished example_finished"
    by (simp add: streams_finished_def example_finished_def ByteStream_input_ended_def TCPReceiver_stream_out_def
        TCPReceiver_unassembled_bytes_def unassembled_bytes_def StreamReassembler_new_def ByteStream_eof_def
        ByteStream_buffer_empty_def ByteStream_new_def TCPSender_new_def)
  have c: "TC_is_active example_finished" "TC_linger example_finished" "\<not> linger_over example_finished"
    "TC_time_since_last_segment_received example_finished = 0" "rt_timeout (TC_cfg example_finished) = 1000"
    by (simp_all add: example_finished_def TCPConnection_new_def linger_over_def TCPConfig_new_def TIMEOUT_DFLT_def)
  show ?thesis
    using connection_lingers [OF fin c(1,2,3), of "[4000, 5999]"] connection_lingers [OF fin c(1,2,3), of "[4000, 6000]"]
    by (auto simp: c(4,5))
qed

end
