(* ===== verification/TCP_End_To_End.thy ===== *)
theory TCP_End_To_End
  imports TCP_Connection
begin

text \<open>
  Two endpoints and the network between them. The network may lose, duplicate and reorder segments: it
  remembers every segment either endpoint has sent and delivers any of them at any time, or never. The
  schedule interleaves what the two applications do, the passing of time at each side and the deliveries.
\<close>

section \<open>The system\<close>

record Net =
  N_here :: TCPConnection
  N_there :: TCPConnection
  N_from_here :: "TCPSegment list"
  N_from_there :: "TCPSegment list"
  N_accepted_here :: bytes
  N_accepted_there :: bytes
  N_got_here :: bytes
  N_got_there :: bytes

definition net_new :: "TCPConnection \<Rightarrow> TCPConnection \<Rightarrow> Net" where
  "net_new a b = \<lparr>N_here = a, N_there = b, N_from_here = [], N_from_there = [], N_accepted_here = [],
     N_accepted_there = [], N_got_here = [], N_got_there = []\<rparr>"

text \<open>The same system with the two sides exchanged.\<close>

definition net_swap :: "Net \<Rightarrow> Net" where
  "net_swap n = \<lparr>N_here = N_there n, N_there = N_here n, N_from_here = N_from_there n, N_from_there = N_from_here n,
     N_accepted_here = N_accepted_there n, N_accepted_there = N_accepted_here n,
     N_got_here = N_got_there n, N_got_there = N_got_here n\<rparr>"

lemma net_swap_simps [simp]:
  "N_here (net_swap n) = N_there n" "N_there (net_swap n) = N_here n"
  "N_from_here (net_swap n) = N_from_there n" "N_from_there (net_swap n) = N_from_here n"
  "N_accepted_here (net_swap n) = N_accepted_there n" "N_accepted_there (net_swap n) = N_accepted_here n"
  "N_got_here (net_swap n) = N_got_there n" "N_got_there (net_swap n) = N_got_here n"
  by (simp_all add: net_swap_def)

text \<open>A step of one side: an operation of its owner, or the delivery of a segment the other side sent.\<close>

datatype side_op = Local conn_op | Arrive nat

fun here_op :: "side_op \<Rightarrow> Net \<Rightarrow> conn_op option" where
  "here_op (Local (Deliver seg)) n = None"
| "here_op (Local op) n = Some op"
| "here_op (Arrive i) n = (if i < length (N_from_there n) then Some (Deliver (N_from_there n ! i)) else None)"

definition here_step :: "side_op \<Rightarrow> Net \<Rightarrow> Net result" where
  "here_step sop n = (case here_op sop n of
       None \<Rightarrow> Inr n
     | Some op \<Rightarrow> bindR (conn_step op (N_here n)) (\<lambda>(e, c).
         Inr (n\<lparr>N_here := c, N_from_here := N_from_here n @ CE_taken e,
                N_accepted_here := N_accepted_here n @ CE_accepted e, N_got_here := N_got_here n @ CE_read e\<rparr>)))"

datatype net_op = Here side_op | There side_op

fun net_step :: "net_op \<Rightarrow> Net \<Rightarrow> Net result" where
  "net_step (Here sop) n = here_step sop n"
| "net_step (There sop) n = bindR (here_step sop (net_swap n)) (\<lambda>n'. Inr (net_swap n'))"

fun net_run :: "net_op list \<Rightarrow> Net \<Rightarrow> Net result" where
  "net_run [] n = Inr n"
| "net_run (op # ops) n = bindR (net_step op n) (net_run ops)"

fun side_offers :: "side_op \<Rightarrow> nat" where
  "side_offers (Local op) = conn_op_offers op"
| "side_offers (Arrive i) = 0"

fun offers_here :: "net_op \<Rightarrow> nat" where
  "offers_here (Here sop) = side_offers sop"
| "offers_here (There sop) = 0"

fun offers_there :: "net_op \<Rightarrow> nat" where
  "offers_there (Here sop) = 0"
| "offers_there (There sop) = side_offers sop"

section \<open>The invariant of the system\<close>

definition side_inv :: "bytes \<Rightarrow> WrappingInt32 \<Rightarrow> bytes \<Rightarrow> WrappingInt32 \<Rightarrow> Net \<Rightarrow> bool" where
  "side_inv sent isn P pisn n \<longleftrightarrow> conn_inv sent isn (N_got_here n) P pisn (N_here n)
     \<and> (\<forall>seg \<in> set (N_from_here n). piece isn sent (SD_fin (TC_sender (N_here n))) seg)
     \<and> written sent (TC_sender (N_here n)) = N_accepted_here n"

definition net_inv :: "bytes \<Rightarrow> WrappingInt32 \<Rightarrow> bytes \<Rightarrow> WrappingInt32 \<Rightarrow> Net \<Rightarrow> bool" where
  "net_inv sent isn P pisn n \<longleftrightarrow> side_inv sent isn P pisn n \<and> side_inv P pisn sent isn (net_swap n)"

lemma net_inv_swap: "net_inv sent isn P pisn n \<Longrightarrow> net_inv P pisn sent isn (net_swap n)"
  by (simp add: net_inv_def side_inv_def)

lemma conn_inv_new:
  assumes "unat (recv_capacity cfg) < 2 ^ 32" and "unat (send_capacity cfg) < 2 ^ 32"
  shows "conn_inv [] (SD_isn (TC_sender (TCPConnection_new cfg random))) [] P pisn (TCPConnection_new cfg random)"
  using sender_inv_new [OF assms(2)] receiver_inv_new [OF assms(1)] by (simp add: conn_inv_def TCPConnection_new_def)

lemma side_op_piece:
  assumes "net_inv sent isn P pisn n" and "here_op sop n = Some op"
  shows "conn_op_ok pisn P op" and "conn_op_offers op \<le> side_offers sop"
proof -
  have "\<forall>seg \<in> set (N_from_there n). piece pisn P (SD_fin (TC_sender (N_there n))) seg"
    using assms(1) by (simp add: net_inv_def side_inv_def)
  then show "conn_op_ok pisn P op" "conn_op_offers op \<le> side_offers sop"
    using assms(2) by (cases "(sop, n)" rule: here_op.cases; force split: if_splits)+
qed

lemma here_step_ok:
  assumes inv: "net_inv sent isn P pisn n" and here: "length (N_accepted_here n) + side_offers sop + 2 < 2 ^ 31"
    and there: "length (N_accepted_there n) + 2 < 2 ^ 31"
  shows "\<exists>n' data. here_step sop n = Inr n' \<and> net_inv (sent @ data) isn P pisn n'
    \<and> length (N_accepted_here n') \<le> length (N_accepted_here n) + side_offers sop
    \<and> N_accepted_there n' = N_accepted_there n"
proof (cases "here_op sop n")
  case None
  then show ?thesis using inv by (intro exI [of _ n] exI [of _ "[]"]) (simp add: here_step_def)
next
  case (Some op)
  let ?c = "N_here n"
  have c: "conn_inv sent isn (N_got_here n) P pisn ?c" "written sent (TC_sender ?c) = N_accepted_here n"
    "\<forall>seg \<in> set (N_from_here n). piece isn sent (SD_fin (TC_sender ?c)) seg"
    and d: "conn_inv P pisn (N_got_there n) sent isn (N_there n)" "written P (TC_sender (N_there n)) = N_accepted_there n"
    using inv by (simp_all add: net_inv_def side_inv_def)
  have "length (written sent (TC_sender ?c)) + conn_op_offers op + 2 < 2 ^ 32"
    using here side_op_piece(2) [OF inv Some] by (simp add: c(2))
  moreover have "length P + 1 < 2 ^ 31" using there unfolding d(2) [symmetric] written_def by simp
  ultimately obtain e c' data where step: "conn_step op ?c = Inr (e, c')"
    "conn_inv (sent @ data) isn (N_got_here n @ CE_read e) P pisn c'" "conn_moves sent ?c data (CE_accepted e) c'"
    "length (CE_accepted e) \<le> conn_op_offers op" "\<forall>seg \<in> set (CE_taken e). piece isn sent (SD_fin (TC_sender ?c)) seg"
    using conn_step_ok [OF c(1) _ side_op_piece(1) [OF inv Some]] by blast
  let ?n = "n\<lparr>N_here := c', N_from_here := N_from_here n @ CE_taken e,
      N_accepted_here := N_accepted_here n @ CE_accepted e, N_got_here := N_got_here n @ CE_read e\<rparr>"
  have "side_inv (sent @ data) isn P pisn ?n"
    using step(2,3) c(2,3) step(5) piece_later [of isn sent "TC_sender ?c" _ data "TC_sender c'"]
    by (auto simp: side_inv_def conn_moves_def)
  moreover have "conn_inv P pisn (N_got_there n) (sent @ data) isn (N_there n)"
    using d(1) receiver_inv_grows by (simp add: conn_inv_def)
  ultimately have "net_inv (sent @ data) isn P pisn ?n" using inv by (simp add: net_inv_def side_inv_def)
  then show ?thesis
    using step(1,4) Some side_op_piece(2) [OF inv Some]
    by (intro exI [of _ ?n] exI [of _ data]) (simp add: here_step_def)
qed

lemma net_run_ok:
  assumes "net_inv sent isn P pisn n"
    and "length (N_accepted_here n) + sum_list (map offers_here ops) + 2 < 2 ^ 31"
    and "length (N_accepted_there n) + sum_list (map offers_there ops) + 2 < 2 ^ 31"
  shows "\<exists>n' sent' P'. net_run ops n = Inr n' \<and> net_inv sent' isn P' pisn n'"
  using assms
proof (induction ops arbitrary: n sent P)
  case Nil
  then show ?case by auto
next
  case (Cons op ops)
  show ?case
  proof (cases op)
    case (Here sop)
    then obtain n1 data where "here_step sop n = Inr n1" "net_inv (sent @ data) isn P pisn n1"
      "length (N_accepted_here n1) \<le> length (N_accepted_here n) + side_offers sop" "N_accepted_there n1 = N_accepted_there n"
      using here_step_ok [OF Cons.prems(1), of sop] Cons.prems(2,3) by auto
    then show ?thesis using Cons.IH [of "sent @ data" P n1] Cons.prems(2,3) Here by simp
  next
    case (There sop)
    then obtain n1 data where n1: "here_step sop (net_swap n) = Inr n1" "net_inv (P @ data) pisn sent isn n1"
      "length (N_accepted_here n1) \<le> length (N_accepted_there n) + side_offers sop" "N_accepted_there n1 = N_accepted_here n"
      using here_step_ok [OF net_inv_swap [OF Cons.prems(1)], of sop] Cons.prems(2,3) by auto
    then show ?thesis
      using Cons.IH [OF net_inv_swap [OF n1(2)]] Cons.prems(2,3) There by simp
  qed
qed

lemma net_inv_new:
  assumes "unat (recv_capacity cfgA) < 2 ^ 32" and "unat (send_capacity cfgA) < 2 ^ 32"
    and "unat (recv_capacity cfgB) < 2 ^ 32" and "unat (send_capacity cfgB) < 2 ^ 32"
  shows "net_inv [] (SD_isn (TC_sender (TCPConnection_new cfgA ra))) [] (SD_isn (TC_sender (TCPConnection_new cfgB rb)))
    (net_new (TCPConnection_new cfgA ra) (TCPConnection_new cfgB rb))"
proof -
  have "written [] (TC_sender (TCPConnection_new cfg r)) = []" for cfg r
    by (simp add: written_def TCPConnection_new_def TCPSender_new_def)
  then show ?thesis
    using conn_inv_new [OF assms(1,2)] conn_inv_new [OF assms(3,4)] by (simp add: net_inv_def side_inv_def net_new_def)
qed

text \<open>What one side has delivered is a prefix of what the other one accepted.\<close>

lemma net_inv_prefix:
  assumes "net_inv sent isn P pisn n"
  shows "\<exists>k. N_got_there n @ ByteStream_contents (TCPConnection_inbound_stream (N_there n)) = take k (N_accepted_here n)"
proof (intro exI)
  let ?r = "TC_receiver (N_there n)"
  have r: "receiver_inv (N_got_there n) sent isn ?r" and acc: "N_accepted_here n = written sent (TC_sender (N_here n))"
    using assms by (simp_all add: net_inv_def side_inv_def conn_inv_def)
  then have "SR_next (TR_reassembler ?r) \<le> length sent" by (simp add: receiver_inv_def SR_holds_def)
  then show "N_got_there n @ ByteStream_contents (TCPConnection_inbound_stream (N_there n))
      = take (SR_next (TR_reassembler ?r)) (N_accepted_here n)"
    using r by (simp add: acc receiver_inv_def TCPConnection_inbound_stream_def written_def)
qed

section \<open>Opening a connection\<close>

definition syn_segment :: "WrappingInt32 \<Rightarrow> TCPSegment" where
  "syn_segment isn = TCPSegment_new\<lparr>TS_header := (TS_header TCPSegment_new)\<lparr>TH_syn := True, TH_seqno := isn\<rparr>\<rparr>"

lemma syn_segment_length [simp]: "TCPSegment_length_in_sequence_space (syn_segment isn) = 1"
  by (simp add: TCPSegment_length_in_sequence_space_def syn_segment_def TCPSegment_new_def TCPHeader_new_def str_size_def)

text \<open>The sender once its SYN is out, and once that is acknowledged.\<close>

definition sender_syn_sent :: "TCPSender \<Rightarrow> TCPSender" where
  "sender_syn_sent s = s\<lparr>SD_syn := True, SD_in_flight := [\<lparr>OS_abs_seqno = 0, OS_seg = syn_segment (SD_isn s)\<rparr>],
     SD_next_seqno := 1, SD_bytes_in_flight := 1, SD_timer_running := True, SD_rto := SD_initial_rto s\<rparr>"

definition sender_established :: "TCPSender \<Rightarrow> u16 \<Rightarrow> TCPSender" where
  "sender_established s w = s\<lparr>SD_syn := True, SD_next_seqno := 1, SD_timer_running := True, SD_rto := SD_initial_rto s,
     SD_checkpoint := 1, SD_rwnd := ucast w\<rparr>"

lemma fill_window_syn:
  assumes "s = TCPSender_new capacity retx isn_option random"
  shows "TCPSender_fill_window s = Inr ((sender_syn_sent s)\<lparr>SD_segments_out := [syn_segment (SD_isn s)]\<rparr>)"
proof -
  have n: "TCPSender_next_seqno s = SD_isn s" by (simp add: assms TCPSender_next_seqno_def TCPSender_new_def)
  have "TCPSegment_length_in_sequence_space (TCPSegment_new\<lparr>TS_header := TS_header TCPSegment_new\<lparr>TH_syn := True, TH_seqno := i\<rparr>\<rparr>) = 1" for i
    using syn_segment_length [of i] by (simp add: syn_segment_def)
  then show ?thesis
    unfolding assms
    by (simp add: TCPSender_fill_window_def TCPSender_send_segment_def Let_def n [unfolded assms] inflight_push_def
        sender_syn_sent_def syn_segment_def) (simp add: TCPSender_new_def)
qed

lemma fill_window_idle:
  assumes "SD_syn s" and "ByteStream_buffer_empty (SD_stream s)" and "\<not> ByteStream_eof (SD_stream s)"
  shows "TCPSender_fill_window s = Inr s"
  using assms by (simp add: TCPSender_fill_window_def Let_def fill_window_loop.simps)

lemma ack_of_syn:
  assumes "s = TCPSender_new capacity retx isn_option random"
  shows "TCPSender_ack_received (sender_syn_sent s) (wrap 1 (SD_isn s)) w = Inr (sender_established s w)"
proof -
  have "unwrap (wrap 1 (SD_isn s)) (SD_isn s) 0 = 1"
    by (rule seqno.dec_enc) (simp add: near_def)
  moreover have "TCPSender_fill_window (sender_established s w) = Inr (sender_established s w)"
    by (rule fill_window_idle) (simp_all add: assms sender_established_def TCPSender_new_def ByteStream_new_def
        ByteStream_buffer_empty_def ByteStream_eof_def)
  ultimately show ?thesis
    by (simp add: TCPSender_ack_received_def sender_syn_sent_def Let_def assms TCPSender_new_def)
      (simp add: sender_established_def)
qed

lemma push_nothing_new: "push_substring (StreamReassembler_new capacity) [] index False = Inr (StreamReassembler_new capacity)"
proof -
  have "ByteStream_write (ByteStream_new capacity) [] = Inr (0, ByteStream_new capacity)"
    by (simp add: ByteStream_write_def str_size_def)
  moreover have "count_assembled 0 capacity (replicate (unat capacity) 0) 0 = Inr 0"
    by (simp add: count_assembled.simps [of 0] str_get_def word_less_nat_alt)
  moreover have "min a index \<le> max b index" for a b by (simp add: min_le_iff_disj le_max_iff_disj)
  ultimately show ?thesis
    by (simp add: push_substring_def create_segment_def write_segment_def Let_def str_size_def)
      (simp add: StreamReassembler_new_def str_head_def)
qed

text \<open>A receiver that has the SYN and nothing else.\<close>

definition receiver_open :: "TCPReceiver \<Rightarrow> WrappingInt32 \<Rightarrow> TCPReceiver" where
  "receiver_open r isn = r\<lparr>TR_isn := isn, recievedSYN := True\<rparr>"

lemma receive_syn:
  assumes "TH_syn (TS_header seg)" and "\<not> TH_fin (TS_header seg)" and "TH_seqno (TS_header seg) = isn"
    and "Buffer_str (TS_payload seg) = []"
  shows "TCPReceiver_segment_received (TCPReceiver_new capacity) seg = Inr (receiver_open (TCPReceiver_new capacity) isn)"
  using assms
  by (simp add: TCPReceiver_segment_received_def Let_def Buffer_copy_def TCPReceiver_new_def push_nothing_new receiver_open_def)

lemma receive_bare:
  assumes "segment_bare seg"
  shows "TCPReceiver_segment_received (receiver_open (TCPReceiver_new capacity) isn) seg
    = Inr (receiver_open (TCPReceiver_new capacity) isn)"
  using assms
  by (simp add: segment_bare_def TCPReceiver_segment_received_def Let_def Buffer_copy_def TCPReceiver_new_def push_nothing_new receiver_open_def)

lemma receiver_open_ackno:
  "TCPReceiver_ackno (receiver_open (TCPReceiver_new capacity) isn) = Some (wrap 1 isn)"
  "TCPReceiver_ackno (TCPReceiver_new capacity) = None"
  by (simp_all add: TCPReceiver_ackno_def receiver_open_def TCPReceiver_new_def TCPReceiver_stream_out_def
      StreamReassembler_new_def ByteStream_bytes_written_def ByteStream_new_def WrappingInt32_eq_iff wint_plus_def raw_wrap)

lemma send_segments_open:
  assumes "TCPSender_fill_window (TC_sender c) = Inr s" and "\<not> ByteStream_input_ended (TCPReceiver_stream_out (TC_receiver c))"
  shows "TCPConnection_send_segments False c = Inr (c\<lparr>TC_sender := s\<lparr>SD_segments_out := []\<rparr>, TC_sent_SYN := True,
    TC_segments_out := TC_segments_out c @ map (stamp (TC_receiver c) False) (SD_segments_out s)\<rparr>)"
proof -
  have loop: "send_segments_loop False q d = d\<lparr>TC_sender := (TC_sender d)\<lparr>SD_segments_out := []\<rparr>,
      TC_segments_out := TC_segments_out d @ map (stamp (TC_receiver d) False) q\<rparr>" for q d
    by (induction q arbitrary: d) simp_all
  show ?thesis
    using assms by (cases c) (simp add: TCPConnection_send_segments_def Let_def loop TCPConnection_clean_shutdown_def)
qed

lemma receiver_open_stream [simp]:
  "TCPReceiver_stream_out (receiver_open r isn) = TCPReceiver_stream_out r"
  "TCPReceiver_stream_out (TCPReceiver_new capacity) = ByteStream_new capacity"
  "ByteStream_input_ended (ByteStream_new capacity) = False"
  "ByteStream_error (ByteStream_new capacity) = False"
  by (simp_all add: receiver_open_def TCPReceiver_stream_out_def TCPReceiver_new_def StreamReassembler_new_def
      ByteStream_input_ended_def ByteStream_error_def ByteStream_new_def)

text \<open>The states of the two sides of a three-way handshake, each with its outgoing queue taken.\<close>

definition conn_syn_sent :: "TCPConnection \<Rightarrow> TCPConnection" where
  "conn_syn_sent c = c\<lparr>TC_sender := sender_syn_sent (TC_sender c), TC_sent_SYN := True\<rparr>"

definition conn_syn_rcvd :: "TCPConnection \<Rightarrow> WrappingInt32 \<Rightarrow> TCPConnection" where
  "conn_syn_rcvd c pisn = c\<lparr>TC_sender := sender_syn_sent (TC_sender c), TC_sent_SYN := True,
     TC_receiver := receiver_open (TC_receiver c) pisn\<rparr>"

definition conn_established :: "TCPConnection \<Rightarrow> WrappingInt32 \<Rightarrow> u16 \<Rightarrow> TCPConnection" where
  "conn_established c pisn w = c\<lparr>TC_sender := sender_established (TC_sender c) w, TC_sent_SYN := True,
     TC_receiver := receiver_open (TC_receiver c) pisn\<rparr>"

definition ack_segment :: "WrappingInt32 \<Rightarrow> TCPSegment" where
  "ack_segment isn = TCPSegment_new\<lparr>TS_header := (TS_header TCPSegment_new)\<lparr>TH_seqno := wrap 1 isn\<rparr>\<rparr>"

abbreviation isn_of :: "TCPConnection \<Rightarrow> WrappingInt32" where
  "isn_of c \<equiv> SD_isn (TC_sender c)"

lemma connection_new_parts:
  assumes "c = TCPConnection_new cfg random"
  shows "TC_sender c = TCPSender_new (send_capacity cfg) (rt_timeout cfg) (fixed_isn cfg) random"
    and "TC_receiver c = TCPReceiver_new (recv_capacity cfg)" and "TC_segments_out c = []" and "\<not> TC_sent_SYN c"
    and "SD_segments_out (TC_sender c) = []" and "TC_time_since_last_segment_received c = 0"
    and "TC_is_active c" and "TC_linger c"
  by (simp_all add: assms TCPConnection_new_def TCPSender_new_def)

lemma handshake_connect:
  assumes "c = TCPConnection_new cfg random"
  shows "TCPConnection_connect c = Inr ((conn_syn_sent c)\<lparr>TC_segments_out := [stamp (TC_receiver c) False (syn_segment (isn_of c))]\<rparr>)"
  using send_segments_open [OF fill_window_syn [OF connection_new_parts(1) [OF assms]]] connection_new_parts [OF assms]
  by (cases c; cases "TC_sender c") (simp add: TCPConnection_connect_def conn_syn_sent_def sender_syn_sent_def)

lemma stamp_fields [simp]:
  "TS_payload (stamp r rst seg) = TS_payload seg"
  "TH_syn (TS_header (stamp r rst seg)) = TH_syn (TS_header seg)"
  "TH_fin (TS_header (stamp r rst seg)) = TH_fin (TS_header seg)"
  "TH_seqno (TS_header (stamp r rst seg)) = TH_seqno (TS_header seg)"
  "TH_rst (TS_header (stamp r rst seg)) = (rst \<or> TH_rst (TS_header seg))"
  "TH_ack (TS_header (stamp r rst seg)) = (TCPReceiver_ackno r \<noteq> None \<or> TH_ack (TS_header seg))"
  "TCPReceiver_ackno r = Some a \<Longrightarrow> TH_ackno (TS_header (stamp r rst seg)) = a"
  "TH_win (TS_header (stamp r rst seg)) = ucast (TCPReceiver_window_size r)"
  by (simp_all add: stamp_def Let_def split: option.splits)

lemma handshake_segments [simp]:
  "TH_syn (TS_header (syn_segment isn))" "\<not> TH_fin (TS_header (syn_segment isn))"
  "TH_seqno (TS_header (syn_segment isn)) = isn" "Buffer_str (TS_payload (syn_segment isn)) = []"
  "\<not> TH_rst (TS_header (syn_segment isn))" "\<not> TH_ack (TS_header (syn_segment isn))"
  "\<not> TH_syn (TS_header (ack_segment isn))" "\<not> TH_fin (TS_header (ack_segment isn))"
  "Buffer_str (TS_payload (ack_segment isn)) = []"
  "\<not> TH_rst (TS_header (ack_segment isn))" "\<not> TH_ack (TS_header (ack_segment isn))"
  by (simp_all add: syn_segment_def ack_segment_def TCPSegment_new_def TCPHeader_new_def)

lemma handshake_syn:
  assumes "c = TCPConnection_new cfg random" and "TCPReceiver_ackno r = None"
  shows "TCPConnection_segment_received c (stamp r False (syn_segment pisn))
    = Inr ((conn_syn_rcvd c pisn)\<lparr>TC_segments_out := [stamp (receiver_open (TC_receiver c) pisn) False (syn_segment (isn_of c))]\<rparr>)"
proof -
  note parts = connection_new_parts [OF assms(1)]
  let ?seg = "stamp r False (syn_segment pisn)" and ?c = "c\<lparr>TC_receiver := receiver_open (TC_receiver c) pisn\<rparr>"
  have "TCPReceiver_segment_received (TC_receiver c) ?seg = Inr (receiver_open (TC_receiver c) pisn)"
    unfolding parts(2) by (rule receive_syn) simp_all
  then have "TCPConnection_segment_received c ?seg = TCPConnection_send_segments False ?c"
    using assms(2) parts by (cases c) (simp add: TCPConnection_segment_received_def Let_def)
  also have "\<dots> = Inr ((conn_syn_rcvd c pisn)\<lparr>TC_segments_out := [stamp (receiver_open (TC_receiver c) pisn) False (syn_segment (isn_of c))]\<rparr>)"
    using send_segments_open [of ?c, OF fill_window_syn [OF trans [OF _ parts(1)]]] parts
    by (cases c; cases "TC_sender c") (simp add: conn_syn_rcvd_def sender_syn_sent_def)
  finally show ?thesis .
qed

lemma established_idle:
  assumes "s = TCPSender_new capacity retx isn_option random"
  shows "TCPSender_fill_window ((sender_established s w)\<lparr>SD_segments_out := q\<rparr>) = Inr ((sender_established s w)\<lparr>SD_segments_out := q\<rparr>)"
  by (rule fill_window_idle) (simp_all add: assms sender_established_def TCPSender_new_def ByteStream_new_def
      ByteStream_buffer_empty_def ByteStream_eof_def)

lemma handshake_syn_ack:
  assumes "c = TCPConnection_new cfg random" and "TCPReceiver_ackno r = Some (wrap 1 (isn_of c))"
  shows "TCPConnection_segment_received (conn_syn_sent c) (stamp r False (syn_segment pisn))
    = Inr ((conn_established c pisn (ucast (TCPReceiver_window_size r)))
        \<lparr>TC_segments_out := [stamp (receiver_open (TC_receiver c) pisn) False (ack_segment (isn_of c))]\<rparr>)"
proof -
  note parts = connection_new_parts [OF assms(1)]
  let ?seg = "stamp r False (syn_segment pisn)" and ?w = "ucast (TCPReceiver_window_size r) :: u16"
  let ?r = "receiver_open (TC_receiver c) pisn" and ?s = "sender_established (TC_sender c) ?w"
  let ?c = "c\<lparr>TC_receiver := ?r, TC_sent_SYN := True, TC_sender := ?s\<lparr>SD_segments_out := [ack_segment (isn_of c)]\<rparr>\<rparr>"
  have r: "TCPReceiver_segment_received (TC_receiver c) ?seg = Inr ?r" unfolding parts(2) by (rule receive_syn) simp_all
  have e: "TCPSender_send_empty_segment ?s = ?s\<lparr>SD_segments_out := [ack_segment (isn_of c)]\<rparr>"
    using parts(5) by (simp add: TCPSender_send_empty_segment_def Let_def TCPSender_next_seqno_def sender_established_def ack_segment_def)
  have a: "TCPSender_ack_received (sender_syn_sent (TC_sender c)) (wrap 1 (isn_of c)) ?w = Inr ?s"
    by (rule ack_of_syn [OF parts(1)])
  have "TCPConnection_segment_received (conn_syn_sent c) ?seg = TCPConnection_send_segments False ?c"
    using assms(2) parts(6) r e a by (cases c) (simp add: TCPConnection_segment_received_def Let_def conn_syn_sent_def)
  also have "\<dots> = Inr ((conn_established c pisn ?w)\<lparr>TC_segments_out := [stamp ?r False (ack_segment (isn_of c))]\<rparr>)"
    using send_segments_open [of ?c] established_idle [OF parts(1)] parts
    by (cases c; cases "TC_sender c") (simp add: conn_established_def sender_established_def)
  finally show ?thesis .
qed

lemma handshake_ack:
  assumes "c = TCPConnection_new cfg random" and "TCPReceiver_ackno r = Some (wrap 1 (isn_of c))"
  shows "TCPConnection_segment_received (conn_syn_rcvd c pisn) (stamp r False (ack_segment pisn))
    = Inr (conn_established c pisn (ucast (TCPReceiver_window_size r)))"
proof -
  note parts = connection_new_parts [OF assms(1)]
  let ?seg = "stamp r False (ack_segment pisn)" and ?w = "ucast (TCPReceiver_window_size r) :: u16"
  let ?r = "receiver_open (TC_receiver c) pisn" and ?s = "sender_established (TC_sender c) ?w"
  let ?c = "c\<lparr>TC_receiver := ?r, TC_sent_SYN := True, TC_sender := ?s\<rparr>"
  have r: "TCPReceiver_segment_received ?r ?seg = Inr ?r"
    unfolding parts(2) by (rule receive_bare) (simp add: segment_bare_def)
  have a: "TCPSender_ack_received (sender_syn_sent (TC_sender c)) (wrap 1 (isn_of c)) ?w = Inr ?s"
    by (rule ack_of_syn [OF parts(1)])
  have "TCPConnection_segment_received (conn_syn_rcvd c pisn) ?seg = TCPConnection_send_segments False ?c"
    using assms(2) parts(6) r a by (cases c) (simp add: TCPConnection_segment_received_def Let_def conn_syn_rcvd_def)
  also have "\<dots> = Inr (conn_established c pisn ?w)"
    using send_segments_open [of ?c] established_idle [OF parts(1), where w = ?w and q = "[]"] parts
    by (cases c; cases "TC_sender c") (simp add: conn_established_def sender_established_def)
  finally show ?thesis .
qed

lemma handshake_states:
  assumes "c = TCPConnection_new cfg random"
  shows "TCPConnection_state c = TCPState_of_State LISTEN"
    and "TCPConnection_state ((conn_syn_sent c)\<lparr>TC_segments_out := q\<rparr>) = TCPState_of_State SYN_SENT"
    and "TCPConnection_state ((conn_syn_rcvd c pisn)\<lparr>TC_segments_out := q\<rparr>) = TCPState_of_State SYN_RCVD"
    and "TCPConnection_state ((conn_established c pisn w)\<lparr>TC_segments_out := q\<rparr>) = TCPState_of_State ESTABLISHED"
    and "TCPConnection_state (conn_established c pisn w) = TCPState_of_State ESTABLISHED"
  using connection_new_parts [OF assms]
  by (simp_all add: TCPConnection_state_def TCPState_new_def TCPConnection_active_def state_summary_sender_def
      state_summary_receiver_def conn_syn_sent_def conn_syn_rcvd_def conn_established_def receiver_open_ackno
      sender_syn_sent_def sender_established_def TCPSender_next_seqno_absolute_def TCPSender_bytes_in_flight_def
      TCPSender_new_def ByteStream_eof_def) (simp_all add: ByteStream_new_def)

section \<open>Properties\<close>

text \<open>C1: end to end, two connections over a network that loses, duplicates and reorders segments at will:
  for every schedule of what the applications write, read and close, of the time passing and of the
  deliveries, nothing faults, and what each application has read, with what it could read now, is a
  prefix of what the other one wrote.\<close>

theorem tcp_end_to_end:
  assumes "unat (recv_capacity cfgA) < 2 ^ 32" and "unat (send_capacity cfgA) < 2 ^ 32"
    and "unat (recv_capacity cfgB) < 2 ^ 32" and "unat (send_capacity cfgB) < 2 ^ 32"
    and "sum_list (map offers_here ops) + 2 < 2 ^ 31" and "sum_list (map offers_there ops) + 2 < 2 ^ 31"
  shows "\<exists>n j k. net_run ops (net_new (TCPConnection_new cfgA ra) (TCPConnection_new cfgB rb)) = Inr n
    \<and> N_got_there n @ ByteStream_contents (TCPConnection_inbound_stream (N_there n)) = take j (N_accepted_here n)
    \<and> N_got_here n @ ByteStream_contents (TCPConnection_inbound_stream (N_here n)) = take k (N_accepted_there n)"
proof -
  let ?a = "TCPConnection_new cfgA ra" and ?b = "TCPConnection_new cfgB rb"
  have "net_inv [] (SD_isn (TC_sender ?a)) [] (SD_isn (TC_sender ?b)) (net_new ?a ?b)" by (rule net_inv_new [OF assms(1-4)])
  moreover have "N_accepted_here (net_new ?a ?b) = []" "N_accepted_there (net_new ?a ?b) = []"
    by (simp_all add: net_new_def)
  ultimately obtain n sent P where n: "net_run ops (net_new ?a ?b) = Inr n"
    "net_inv sent (SD_isn (TC_sender ?a)) P (SD_isn (TC_sender ?b)) n"
    using net_run_ok [of "[]" _ "[]" _ "net_new ?a ?b" ops] assms(5,6) by fastforce
  show ?thesis using n(1) net_inv_prefix [OF n(2)] net_inv_prefix [OF net_inv_swap [OF n(2)]] by auto
qed

theorem tcp_end_to_end_witness:
  "\<exists>n j k. net_run [Here (Local Connect), Here (Local (TakeSegments 1)), There (Arrive 0), There (Arrive 0),
        There (Local (TakeSegments 1)), Here (Arrive 0), Here (Local (WriteData [1, 2, 3])), Here (Local (TakeSegments 2)),
        There (Arrive 2), There (Local (ReadData 2))]
      (net_new (TCPConnection_new TCPConfig_new 5) (TCPConnection_new TCPConfig_new 6)) = Inr n
    \<and> N_got_there n @ ByteStream_contents (TCPConnection_inbound_stream (N_there n)) = take j (N_accepted_here n)
    \<and> N_got_here n @ ByteStream_contents (TCPConnection_inbound_stream (N_here n)) = take k (N_accepted_there n)"
  by (rule tcp_end_to_end) (simp_all add: TCPConfig_new_def DEFAULT_CAPACITY_def)

text \<open>C5: the three-way handshake, for all configurations and initial sequence numbers: one side connects,
  and when the SYN, the answer and the acknowledgement are delivered the two sides go through SYN-SENT
  and SYN-RCVD to ESTABLISHED, with exactly one segment sent at each of the three steps.\<close>

theorem three_way_handshake:
  "\<exists>a1 b1 a2 b2 syn syn_ack ack.
     TCPConnection_state (TCPConnection_new cfgB rb) = TCPState_of_State LISTEN
   \<and> TCPConnection_connect (TCPConnection_new cfgA ra) = Inr a1 \<and> TC_segments_out a1 = [syn]
   \<and> TCPConnection_state a1 = TCPState_of_State SYN_SENT
   \<and> TCPConnection_segment_received (TCPConnection_new cfgB rb) syn = Inr b1 \<and> TC_segments_out b1 = [syn_ack]
   \<and> TCPConnection_state b1 = TCPState_of_State SYN_RCVD
   \<and> TCPConnection_segment_received (a1\<lparr>TC_segments_out := []\<rparr>) syn_ack = Inr a2 \<and> TC_segments_out a2 = [ack]
   \<and> TCPConnection_state a2 = TCPState_of_State ESTABLISHED
   \<and> TCPConnection_segment_received (b1\<lparr>TC_segments_out := []\<rparr>) ack = Inr b2 \<and> TC_segments_out b2 = []
   \<and> TCPConnection_state b2 = TCPState_of_State ESTABLISHED"
proof -
  define a where "a = TCPConnection_new cfgA ra"
  define b where "b = TCPConnection_new cfgB rb"
  note pa = connection_new_parts [OF a_def] and pb = connection_new_parts [OF b_def]
  have empty: "(conn_syn_sent a)\<lparr>TC_segments_out := []\<rparr> = conn_syn_sent a"
    "(conn_syn_rcvd b pisn)\<lparr>TC_segments_out := []\<rparr> = conn_syn_rcvd b pisn"
    "TC_segments_out (conn_established b pisn w) = []" for pisn w
    using pa(3) pb(3) by (cases a; cases b; simp add: conn_syn_sent_def conn_syn_rcvd_def conn_established_def)+
  have ackno: "TCPReceiver_ackno (TC_receiver a) = None"
    "TCPReceiver_ackno (receiver_open (TC_receiver a) isn) = Some (wrap 1 isn)"
    "TCPReceiver_ackno (receiver_open (TC_receiver b) isn) = Some (wrap 1 isn)" for isn
    by (simp_all add: pa(2) pb(2) receiver_open_ackno)
  note steps = handshake_connect [OF a_def] handshake_syn [OF b_def ackno(1)]
    handshake_syn_ack [OF a_def ackno(3)] handshake_ack [OF b_def ackno(2)]
  let ?syn = "stamp (TC_receiver a) False (syn_segment (isn_of a))"
    and ?syn_ack = "stamp (receiver_open (TC_receiver b) (isn_of a)) False (syn_segment (isn_of b))"
    and ?ack = "stamp (receiver_open (TC_receiver a) (isn_of b)) False (ack_segment (isn_of a))"
  let ?wb = "ucast (TCPReceiver_window_size (receiver_open (TC_receiver b) (isn_of a)))"
    and ?wa = "ucast (TCPReceiver_window_size (receiver_open (TC_receiver a) (isn_of b)))"
  show ?thesis
    unfolding a_def [symmetric] b_def [symmetric]
    by (rule exI [of _ "(conn_syn_sent a)\<lparr>TC_segments_out := [?syn]\<rparr>"],
        rule exI [of _ "(conn_syn_rcvd b (isn_of a))\<lparr>TC_segments_out := [?syn_ack]\<rparr>"],
        rule exI [of _ "(conn_established a (isn_of b) ?wb)\<lparr>TC_segments_out := [?ack]\<rparr>"],
        rule exI [of _ "conn_established b (isn_of a) ?wa"], intro exI conjI)
      (simp_all add: empty handshake_states [OF a_def] handshake_states [OF b_def], (rule steps)+)
qed

end
