(* ===== verification/Address.thy ===== *)
theory Address
  imports Net_Parser
begin

text \<open>
  Internet addresses, from \<^verbatim>\<open>util/address.hh\<close> and \<^verbatim>\<open>util/address.cc\<close>: a
  socket address as the bytes the operating system sees, its IPv4 number, and the conversions from and to
  text. The resolver of the C library is an argument of the operations that call it.
\<close>

section \<open>Decimal text\<close>

text \<open>The part of \<^verbatim>\<open>std::to_string\<close> and \<^verbatim>\<open>std::stoi\<close> the sources use.\<close>

fun digits :: "nat \<Rightarrow> string" where
  "digits n = (if n < 10 then [char_of (48 + n)] else digits (n div 10) @ [char_of (48 + n mod 10)])"

declare digits.simps [simp del]

definition is_digit :: "char \<Rightarrow> bool" where
  "is_digit c \<longleftrightarrow> 48 \<le> (of_char c :: nat) \<and> (of_char c :: nat) \<le> 57"

definition is_space :: "char \<Rightarrow> bool" where
  "is_space c \<longleftrightarrow> (of_char c :: nat) = 32 \<or> 9 \<le> (of_char c :: nat) \<and> (of_char c :: nat) \<le> 13"

definition digits_value :: "string \<Rightarrow> int" where
  "digits_value s = foldl (\<lambda>acc c. 10 * acc + (int (of_char c) - 48)) 0 s"

definition stoi :: "string \<Rightarrow> int result" where
  "stoi s =
     (let t = dropWhile is_space s;
          neg = (t \<noteq> [] \<and> hd t = CHR 0x2d);
          u = (if t \<noteq> [] \<and> (hd t = CHR 0x2d \<or> hd t = CHR 0x2b) then tl t else t);
          ds = takeWhile is_digit u;
          v = (if neg then - digits_value ds else digits_value ds)
      in if ds = [] then Inl (InvalidArgument ''stoi'')
         else if v < - (2 ^ 31) \<or> 2 ^ 31 \<le> v then Inl (OutOfRange ''stoi'')
         else Inr v)"

section \<open>The class\<close>

definition AF_INET :: u16 where
  "AF_INET = 2"

definition sizeof_sockaddr_storage :: u64 where
  "sizeof_sockaddr_storage = 128"

definition sizeof_sockaddr_in :: u32 where
  "sizeof_sockaddr_in = 16"

record Address =
  AD_size :: u32
  AD_storage :: bytes

definition Address_of_sockaddr :: "bytes \<Rightarrow> u64 \<Rightarrow> Address result" where
  "Address_of_sockaddr addr n =
     (if n > sizeof_sockaddr_storage then Inl (RuntimeError ''invalid sockaddr size'')
      else if length addr < unat n then Inl OutOfBounds
      else Inr \<lparr>AD_size = ucast n, AD_storage = take (unat n) addr @ replicate (128 - unat n) 0\<rparr>)"

record addrinfo =
  ai_flags :: int
  ai_family :: u16

definition AI_NUMERICHOST :: int where
  "AI_NUMERICHOST = 0x4"

definition AI_ALL :: int where
  "AI_ALL = 0x10"

definition AI_NUMERICSERV :: int where
  "AI_NUMERICSERV = 0x400"

definition make_hints :: "int \<Rightarrow> u16 \<Rightarrow> addrinfo" where
  "make_hints flags family = \<lparr>ai_flags = flags, ai_family = family\<rparr>"

text \<open>The resolver: an error code, and the first socket address it found with its length.\<close>

type_synonym resolver = "string \<Rightarrow> string \<Rightarrow> addrinfo \<Rightarrow> int \<times> (bytes \<times> u64) option"

definition Address_resolve :: "resolver \<Rightarrow> string \<Rightarrow> string \<Rightarrow> addrinfo \<Rightarrow> Address result" where
  "Address_resolve getaddrinfo node service hints =
     (let (gai_ret, resolved_address) = getaddrinfo node service hints
      in if gai_ret \<noteq> 0 then Inl (SystemError (''getaddrinfo('' @ node @ '', '' @ service @ '')'') gai_ret)
         else case resolved_address of
                None \<Rightarrow> Inl (RuntimeError ''getaddrinfo returned successfully but with no results'')
              | Some (ai_addr, ai_addrlen) \<Rightarrow> Address_of_sockaddr ai_addr ai_addrlen)"

definition Address_of_hostname :: "resolver \<Rightarrow> string \<Rightarrow> string \<Rightarrow> Address result" where
  "Address_of_hostname getaddrinfo hostname service =
     Address_resolve getaddrinfo hostname service (make_hints AI_ALL AF_INET)"

definition Address_of_ip :: "resolver \<Rightarrow> string \<Rightarrow> u16 \<Rightarrow> Address result" where
  "Address_of_ip getaddrinfo ip port =
     Address_resolve getaddrinfo ip (digits (unat port)) (make_hints (AI_NUMERICHOST + AI_NUMERICSERV) AF_INET)"

text \<open>The inverse: an error code, and the host and the service as text.\<close>

type_synonym namer = "bytes \<Rightarrow> u32 \<Rightarrow> int \<times> string \<times> string"

definition Address_ip_port :: "namer \<Rightarrow> Address \<Rightarrow> (string \<times> u16) result" where
  "Address_ip_port getnameinfo a =
     (let (gni_ret, ip, port) = getnameinfo (AD_storage a) (AD_size a)
      in if gni_ret \<noteq> 0 then Inl (SystemError ''getnameinfo'' gni_ret)
         else bindR (stoi port) (\<lambda>n. Inr (ip, word_of_int n)))"

definition Address_ip :: "namer \<Rightarrow> Address \<Rightarrow> string result" where
  "Address_ip getnameinfo a = bindR (Address_ip_port getnameinfo a) (\<lambda>(ip, port). Inr ip)"

definition Address_port :: "namer \<Rightarrow> Address \<Rightarrow> u16 result" where
  "Address_port getnameinfo a = bindR (Address_ip_port getnameinfo a) (\<lambda>(ip, port). Inr port)"

definition Address_to_string :: "namer \<Rightarrow> Address \<Rightarrow> string result" where
  "Address_to_string getnameinfo a =
     bindR (Address_ip_port getnameinfo a) (\<lambda>(ip, port). Inr (ip @ '':'' @ digits (unat port)))"

text \<open>
  The layout of \<^verbatim>\<open>sockaddr_in\<close> on the target: the family in the first two bytes, in the
  order of the (little-endian) host, the port in the next two, the address in the next four, both in
  network order, and eight bytes of padding.
\<close>

definition ss_family :: "Address \<Rightarrow> u16" where
  "ss_family a = be_word [AD_storage a ! 1, AD_storage a ! 0]"

definition Address_ipv4_numeric :: "Address \<Rightarrow> u32 result" where
  "Address_ipv4_numeric a =
     (if ss_family a \<noteq> AF_INET \<or> AD_size a \<noteq> sizeof_sockaddr_in
      then Inl (RuntimeError ''ipv4_numeric called on non-IPV4 address'')
      else Inr (be_word (take 4 (drop 4 (AD_storage a)))))"

definition Address_from_ipv4_numeric :: "u32 \<Rightarrow> Address result" where
  "Address_from_ipv4_numeric ip_address =
     Address_of_sockaddr (rev (be_bytes AF_INET) @ [0, 0] @ be_bytes ip_address @ replicate 8 0) (ucast sizeof_sockaddr_in)"

definition Address_eq :: "Address \<Rightarrow> Address \<Rightarrow> bool" where
  "Address_eq a b \<longleftrightarrow> AD_size a = AD_size b \<and> take (unat (AD_size a)) (AD_storage a) = take (unat (AD_size a)) (AD_storage b)"

section \<open>Numbers and text\<close>

lemma is_digit_char: "k < 10 \<Longrightarrow> is_digit (char_of (48 + k :: nat))"
  by (simp add: is_digit_def)

lemma digits_digit [simp]: "list_all is_digit (digits n)"
proof (induction n rule: digits.induct)
  case (1 n)
  then show ?case by (subst digits.simps) (auto intro: is_digit_char)
qed

lemma digits_nonempty [simp]: "digits n \<noteq> []"
  by (subst digits.simps) simp

lemma digits_value_digits: "digits_value (digits n) = int n"
proof (induction n rule: digits.induct)
  case (1 n)
  show ?case
  proof (cases "n < 10")
    case True
    then show ?thesis by (subst digits.simps) (simp add: digits_value_def)
  next
    case False
    then have "digits_value (digits n) = 10 * digits_value (digits (n div 10)) + int (n mod 10)"
      by (subst digits.simps) (simp add: digits_value_def)
    moreover have "int n = 10 * int (n div 10) + int (n mod 10)" by presburger
    ultimately show ?thesis using 1 [OF False] by simp
  qed
qed

lemma stoi_digits:
  assumes "n < 2 ^ 31"
  shows "stoi (digits n) = Inr (int n)"
proof -
  obtain c cs where d: "digits n = c # cs" by (cases "digits n") (use digits_nonempty in auto)
  then have c: "is_digit c" "list_all is_digit cs" using digits_digit [of n] by simp_all
  then have "dropWhile is_space (digits n) = digits n" "c \<noteq> CHR 0x2d" "c \<noteq> CHR 0x2b"
    by (auto simp: d is_digit_def is_space_def)
  moreover have "takeWhile is_digit (digits n) = digits n"
    using digits_digit [of n] by (simp add: takeWhile_eq_all_conv list_all_iff)
  ultimately show ?thesis
    using assms digits_value_digits [of n] by (simp add: stoi_def d)
qed

text \<open>The address of an IPv4 number, byte by byte.\<close>

definition ipv4_address :: "u32 \<Rightarrow> Address" where
  "ipv4_address ip = \<lparr>AD_size = 16, AD_storage = [2, 0, 0, 0] @ be_bytes ip @ replicate 120 0\<rparr>"

lemma from_ipv4_numeric: "Address_from_ipv4_numeric ip = Inr (ipv4_address ip)"
proof -
  have "rev (be_bytes AF_INET) = [2, 0]" unfolding be_bytes_16 AF_INET_def by simp
  moreover have "replicate 8 (0 :: u8) @ replicate 112 0 = replicate 120 0" by (simp flip: replicate_add)
  ultimately show ?thesis
    by (simp add: Address_from_ipv4_numeric_def Address_of_sockaddr_def sizeof_sockaddr_in_def sizeof_sockaddr_storage_def
        ipv4_address_def)
qed

lemma ipv4_numeric_address [simp]: "Address_ipv4_numeric (ipv4_address ip) = Inr ip"
  by (simp add: Address_ipv4_numeric_def ss_family_def sizeof_sockaddr_in_def AF_INET_def ipv4_address_def)
    (simp add: be_word_def be_nat_def)

section \<open>Properties\<close>

text \<open>An IPv4 number put in an address comes back unchanged, addresses of different numbers are
  different, and an address of any other family or size is refused.\<close>

lemma address_ipv4_roundtrip:
  "\<exists>a b. Address_from_ipv4_numeric ip = Inr a \<and> Address_from_ipv4_numeric ip' = Inr b
    \<and> Address_ipv4_numeric a = Inr ip \<and> (Address_eq a b \<longleftrightarrow> ip = ip')
    \<and> (Address_ipv4_numeric c = Inl (RuntimeError ''ipv4_numeric called on non-IPV4 address'')
         \<longleftrightarrow> \<not> (ss_family c = AF_INET \<and> AD_size c = sizeof_sockaddr_in))"
proof -
  have "be_bytes ip = be_bytes ip' \<longleftrightarrow> ip = ip'"
    using be_word_be_bytes_32 by metis
  then have "Address_eq (ipv4_address ip) (ipv4_address ip') \<longleftrightarrow> ip = ip'"
    by (simp add: Address_eq_def ipv4_address_def)
  moreover have "Address_ipv4_numeric c = Inl (RuntimeError ''ipv4_numeric called on non-IPV4 address'')
      \<longleftrightarrow> \<not> (ss_family c = AF_INET \<and> AD_size c = sizeof_sockaddr_in)"
    by (auto simp: Address_ipv4_numeric_def)
  ultimately show ?thesis
    unfolding from_ipv4_numeric by (intro exI [of _ "ipv4_address ip"] exI [of _ "ipv4_address ip'"]) simp
qed

end
