(* ===== verification/Benchmark.thy ===== *)
theory Benchmark
  imports TCP_End_To_End Address
begin

text \<open>
  The benchmark of two connections, from \<^verbatim>\<open>apps/tcp_benchmark.cc\<close>: one side sends a string, and the
  segments are carried over by hand, in the order sent or in the reverse order. Shown here: the loop is one of
  the schedules of \<open>TCP_End_To_End\<close>, so no round of it faults, and what has been received is at every moment a
  prefix of the string.
\<close>

section \<open>The program\<close>

fun receive_all :: "TCPSegment list \<Rightarrow> TCPConnection \<Rightarrow> TCPConnection result" where
  "receive_all [] y = Inr y" |
  "receive_all (seg # segs) y = bindR (TCPConnection_segment_received y seg) (receive_all segs)"

text \<open>The queue of the first connection is taken whole.\<close>

definition move_segments ::
    "TCPConnection \<Rightarrow> TCPConnection \<Rightarrow> TCPSegment list \<Rightarrow> bool \<Rightarrow> (TCPConnection \<times> TCPConnection \<times> TCPSegment list) result" where
  "move_segments x y segments reorder =
     (let segments = segments @ TC_segments_out x; x = x\<lparr>TC_segments_out := []\<rparr>
      in bindR (receive_all (if reorder then rev segments else segments) y) (\<lambda>y. Inr (x, y, [])))"

record bench =
  BM_x :: TCPConnection
  BM_y :: TCPConnection
  BM_bytes_to_send :: Buffer
  BM_x_closed :: bool
  BM_string_received :: bytes

text \<open>The loop that writes the input, with as many turns as there are bytes.\<close>

fun write_input :: "nat \<Rightarrow> TCPConnection \<Rightarrow> Buffer \<Rightarrow> (TCPConnection \<times> Buffer) result" where
  "write_input 0 x bytes_to_send = Inl Diverges" |
  "write_input (Suc fuel) x bytes_to_send =
     (if Buffer_size bytes_to_send \<noteq> 0 \<and> TCPConnection_remaining_outbound_capacity x \<noteq> 0
      then let want = min (TCPConnection_remaining_outbound_capacity x) (Buffer_size bytes_to_send)
           in bindR (TCPConnection_write x (str_head (Buffer_str bytes_to_send) want)) (\<lambda>(written, x).
              if want \<noteq> written
              then Inl (RuntimeError (''want = '' @ digits (unat want) @ '', written = '' @ digits (unat written)))
              else bindR (Buffer_remove_prefix bytes_to_send written) (write_input fuel x))
      else Inr (x, bytes_to_send))"

definition bench_input :: "bench \<Rightarrow> bench result" where
  "bench_input b =
     bindR (write_input (Suc (length (Buffer_str (BM_bytes_to_send b)))) (BM_x b) (BM_bytes_to_send b)) (\<lambda>(x, bytes_to_send).
     if Buffer_size bytes_to_send = 0 \<and> \<not> BM_x_closed b
     then bindR (TCPConnection_end_input_stream x) (\<lambda>x. Inr (b\<lparr>BM_x := x, BM_bytes_to_send := bytes_to_send, BM_x_closed := True\<rparr>))
     else Inr (b\<lparr>BM_x := x, BM_bytes_to_send := bytes_to_send\<rparr>))"

definition bench_exchange :: "bool \<Rightarrow> bench \<Rightarrow> bench result" where
  "bench_exchange reorder b =
     bindR (move_segments (BM_x b) (BM_y b) [] reorder) (\<lambda>(x, y, segments).
     bindR (move_segments y x segments False) (\<lambda>(y, x, segments).
     Inr (b\<lparr>BM_x := x, BM_y := y\<rparr>)))"

definition bench_output :: "bench \<Rightarrow> bench result" where
  "bench_output b =
     (let available_output = ByteStream_buffer_size (TCPConnection_inbound_stream (BM_y b))
      in if available_output > 0
         then bindR (ByteStream_read (TCPConnection_inbound_stream (BM_y b)) available_output) (\<lambda>(data, st).
              Inr (b\<lparr>BM_y := (BM_y b)\<lparr>TC_receiver := TCPReceiver_set_stream_out (TC_receiver (BM_y b)) st\<rparr>,
                     BM_string_received := BM_string_received b @ data\<rparr>))
         else Inr b)"

definition bench_time :: "bench \<Rightarrow> bench result" where
  "bench_time b =
     bindR (TCPConnection_tick (BM_x b) 1000) (\<lambda>x.
     bindR (TCPConnection_tick (BM_y b) 1000) (\<lambda>y. Inr (b\<lparr>BM_x := x, BM_y := y\<rparr>)))"

definition bench_loop :: "bool \<Rightarrow> bench \<Rightarrow> bench result" where
  "bench_loop reorder b = bindR (bench_input b) (\<lambda>b. bindR (bench_exchange reorder b) (\<lambda>b. bindR (bench_output b) bench_time))"

definition bench_begin :: "u32 \<Rightarrow> u32 \<Rightarrow> bytes \<Rightarrow> bench result" where
  "bench_begin random_x random_y string_to_send =
     bindR (TCPConnection_connect (TCPConnection_new TCPConfig_new random_x)) (\<lambda>x.
     bindR (TCPConnection_end_input_stream (TCPConnection_new TCPConfig_new random_y)) (\<lambda>y.
     Inr \<lparr>BM_x = x, BM_y = y, BM_bytes_to_send = Buffer_of string_to_send, BM_x_closed = False, BM_string_received = []\<rparr>))"

text \<open>The two loops need not end: \<open>None\<close> stands for a run that does not.\<close>

partial_function (option) bench_while :: "(bench \<Rightarrow> bool) \<Rightarrow> bool \<Rightarrow> bench \<Rightarrow> bench result option" where
  "bench_while condition reorder b =
     (if condition b then (case bench_loop reorder b of Inl e \<Rightarrow> Some (Inl e) | Inr b \<Rightarrow> bench_while condition reorder b)
      else Some (Inr b))"

definition main_loop :: "u32 \<Rightarrow> u32 \<Rightarrow> bytes \<Rightarrow> bool \<Rightarrow> bench result option" where
  "main_loop random_x random_y string_to_send reorder =
     (case bench_begin random_x random_y string_to_send of
        Inl e \<Rightarrow> Some (Inl e)
      | Inr b \<Rightarrow> (case bench_while (\<lambda>b. \<not> ByteStream_eof (TCPConnection_inbound_stream (BM_y b))) reorder b of
          None \<Rightarrow> None
        | Some (Inl e) \<Rightarrow> Some (Inl e)
        | Some (Inr b) \<Rightarrow>
            if BM_string_received b \<noteq> string_to_send then Some (Inl (RuntimeError ''strings sent vs. received don't match''))
            else bench_while (\<lambda>b. TCPConnection_active (BM_x b) \<or> TCPConnection_active (BM_y b)) reorder b))"

section \<open>The program as a schedule\<close>

text \<open>
  The two connections are those of a network in which the segments \<open>F\<close> have been sent by the first and \<open>T\<close>
  by the second; the first has accepted \<open>acc\<close>, the second nothing, and \<open>got\<close> has been read from the second.
\<close>

definition linked :: "WrappingInt32 \<Rightarrow> WrappingInt32 \<Rightarrow> TCPSegment set \<Rightarrow> TCPSegment set \<Rightarrow> bytes \<Rightarrow> bytes \<Rightarrow> TCPConnection \<Rightarrow> TCPConnection \<Rightarrow> bool" where
  "linked isn pisn F T got acc x y \<longleftrightarrow> (\<exists>n sent P. net_inv sent isn P pisn n \<and> N_here n = x \<and> N_there n = y
     \<and> F \<subseteq> set (N_from_here n) \<and> T \<subseteq> set (N_from_there n)
     \<and> N_got_there n = got \<and> N_accepted_here n = acc \<and> N_accepted_there n = [])"

fun local_op :: "conn_op \<Rightarrow> bool" where
  "local_op (Deliver seg) = False" |
  "local_op _ = True"

lemma here_op_local: "local_op op \<Longrightarrow> here_op (Local op) n = Some op"
  by (cases op) simp_all

lemma linked_here:
  assumes "linked isn pisn F T got acc x y" and "local_op op" and "length acc + conn_op_offers op + 2 < 2 ^ 31"
  shows "\<exists>e x'. conn_step op x = Inr (e, x') \<and> linked isn pisn (F \<union> set (CE_taken e)) T got (acc @ CE_accepted e) x' y"
proof -
  obtain n sent P where n: "net_inv sent isn P pisn n" "N_here n = x" "N_there n = y" "F \<subseteq> set (N_from_here n)"
    "T \<subseteq> set (N_from_there n)" "N_got_there n = got" "N_accepted_here n = acc" "N_accepted_there n = []"
    using assms(1) unfolding linked_def by blast
  obtain n' data where n': "here_step (Local op) n = Inr n'" "net_inv (sent @ data) isn P pisn n'"
    using here_step_ok [OF n(1), of "Local op"] assms(3) n(7,8) by auto
  obtain e x' where e: "conn_step op x = Inr (e, x')"
    using n'(1) n(2) by (auto simp: here_step_def here_op_local [OF assms(2)] bindR_eq_Inr_iff)
  have "n' = n\<lparr>N_here := x', N_from_here := N_from_here n @ CE_taken e,
      N_accepted_here := N_accepted_here n @ CE_accepted e, N_got_here := N_got_here n @ CE_read e\<rparr>"
    using n'(1) e n(2) by (simp add: here_step_def here_op_local [OF assms(2)])
  then have "linked isn pisn (F \<union> set (CE_taken e)) T got (acc @ CE_accepted e) x' y"
    unfolding linked_def using n'(2) n by (intro exI [of _ n'] exI [of _ "sent @ data"] exI [of _ P]) auto
  then show ?thesis using e by blast
qed

lemma linked_there:
  assumes "linked isn pisn F T got acc x y" and "local_op op" and "conn_op_offers op = 0" and "length acc + 2 < 2 ^ 31"
  shows "\<exists>e y'. conn_step op y = Inr (e, y') \<and> linked isn pisn F (T \<union> set (CE_taken e)) (got @ CE_read e) acc x y'"
proof -
  obtain n sent P where n: "net_inv sent isn P pisn n" "N_here n = x" "N_there n = y" "F \<subseteq> set (N_from_here n)"
    "T \<subseteq> set (N_from_there n)" "N_got_there n = got" "N_accepted_here n = acc" "N_accepted_there n = []"
    using assms(1) unfolding linked_def by blast
  obtain n' data where n': "here_step (Local op) (net_swap n) = Inr n'" "net_inv (P @ data) pisn sent isn n'"
    "length (N_accepted_here n') \<le> 0"
    using here_step_ok [OF net_inv_swap [OF n(1)], of "Local op"] assms(3,4) n(7,8) by auto
  obtain e y' where e: "conn_step op y = Inr (e, y')"
    using n'(1) n(3) by (auto simp: here_step_def here_op_local [OF assms(2)] bindR_eq_Inr_iff)
  have "n' = (net_swap n)\<lparr>N_here := y', N_from_here := N_from_there n @ CE_taken e,
      N_accepted_here := N_accepted_there n @ CE_accepted e, N_got_here := N_got_there n @ CE_read e\<rparr>"
    using n'(1) e n(3) by (simp add: here_step_def here_op_local [OF assms(2)])
  then have "linked isn pisn F (T \<union> set (CE_taken e)) (got @ CE_read e) acc x y'"
    unfolding linked_def using net_inv_swap [OF n'(2)] n'(3) n
    by (intro exI [of _ "net_swap n'"] exI [of _ sent] exI [of _ "P @ data"]) auto
  then show ?thesis using e by blast
qed

text \<open>The deliveries.\<close>

lemma linked_deliver_here:
  assumes "linked isn pisn F T got acc x y" and "seg \<in> T" and "length acc + 2 < 2 ^ 31"
  shows "\<exists>x'. TCPConnection_segment_received x seg = Inr x' \<and> linked isn pisn F T got acc x' y"
proof -
  obtain n sent P where n: "net_inv sent isn P pisn n" "N_here n = x" "N_there n = y" "F \<subseteq> set (N_from_here n)"
    "T \<subseteq> set (N_from_there n)" "N_got_there n = got" "N_accepted_here n = acc" "N_accepted_there n = []"
    using assms(1) unfolding linked_def by blast
  obtain i where i: "i < length (N_from_there n)" "N_from_there n ! i = seg" using n(5) assms(2) by (meson in_set_conv_nth subsetD)
  obtain n' data where n': "here_step (Arrive i) n = Inr n'" "net_inv (sent @ data) isn P pisn n'"
    using here_step_ok [OF n(1), of "Arrive i"] assms(3) n(7,8) by auto
  obtain x' where x': "TCPConnection_segment_received x seg = Inr x'" "n' = n\<lparr>N_here := x'\<rparr>"
    using n'(1) i n(2) by (auto simp: here_step_def quietly_def quiet_def bindR_eq_Inr_iff)
  then have "linked isn pisn F T got acc x' y"
    unfolding linked_def using n'(2) n by (intro exI [of _ n'] exI [of _ "sent @ data"] exI [of _ P]) simp
  then show ?thesis using x'(1) by blast
qed

lemma linked_deliver_there:
  assumes "linked isn pisn F T got acc x y" and "seg \<in> F" and "length acc + 2 < 2 ^ 31"
  shows "\<exists>y'. TCPConnection_segment_received y seg = Inr y' \<and> linked isn pisn F T got acc x y'"
proof -
  obtain n sent P where n: "net_inv sent isn P pisn n" "N_here n = x" "N_there n = y" "F \<subseteq> set (N_from_here n)"
    "T \<subseteq> set (N_from_there n)" "N_got_there n = got" "N_accepted_here n = acc" "N_accepted_there n = []"
    using assms(1) unfolding linked_def by blast
  obtain i where i: "i < length (N_from_here n)" "N_from_here n ! i = seg" using n(4) assms(2) by (meson in_set_conv_nth subsetD)
  obtain n' data where n': "here_step (Arrive i) (net_swap n) = Inr n'" "net_inv (P @ data) pisn sent isn n'"
    using here_step_ok [OF net_inv_swap [OF n(1)], of "Arrive i"] assms(3) n(7,8) by auto
  obtain y' where y': "TCPConnection_segment_received y seg = Inr y'" "n' = (net_swap n)\<lparr>N_here := y'\<rparr>"
    using n'(1) i n(3) by (auto simp: here_step_def quietly_def quiet_def bindR_eq_Inr_iff)
  then have "linked isn pisn F T got acc x y'"
    unfolding linked_def using net_inv_swap [OF n'(2)] n
    by (intro exI [of _ "net_swap n'"] exI [of _ sent] exI [of _ "P @ data"]) simp
  then show ?thesis using y'(1) by blast
qed

lemma linked_receive_there:
  assumes "linked isn pisn F T got acc x y" and "set segs \<subseteq> F" and "length acc + 2 < 2 ^ 31"
  shows "\<exists>y'. receive_all segs y = Inr y' \<and> linked isn pisn F T got acc x y'"
  using assms
proof (induction segs arbitrary: y)
  case (Cons seg segs)
  then obtain y1 where "TCPConnection_segment_received y seg = Inr y1" "linked isn pisn F T got acc x y1"
    using linked_deliver_there [of isn pisn F T got acc x y seg] by auto
  then show ?case using Cons.IH [of y1] Cons.prems by simp
qed simp

lemma linked_receive_here:
  assumes "linked isn pisn F T got acc x y" and "set segs \<subseteq> T" and "length acc + 2 < 2 ^ 31"
  shows "\<exists>x'. receive_all segs x = Inr x' \<and> linked isn pisn F T got acc x' y"
  using assms
proof (induction segs arbitrary: x)
  case (Cons seg segs)
  then obtain x1 where "TCPConnection_segment_received x seg = Inr x1" "linked isn pisn F T got acc x1 y"
    using linked_deliver_here [of isn pisn F T got acc x y seg] by auto
  then show ?case using Cons.IH [of x1] Cons.prems by simp
qed simp

section \<open>The rounds\<close>

lemma write_input_ok:
  assumes "linked isn pisn F T got acc x y" and "Buffer_inv buf" and "length (Buffer_str buf) < fuel"
    and "length acc + length (Buffer_str buf) + 2 < 2 ^ 31"
  shows "\<exists>x' buf' w. write_input fuel x buf = Inr (x', buf') \<and> linked isn pisn F T got (acc @ w) x' y
    \<and> w @ Buffer_str buf' = Buffer_str buf \<and> Buffer_inv buf'"
  using assms
proof (induction fuel arbitrary: x buf acc)
  case (Suc fuel)
  show ?case
  proof (cases "Buffer_size buf \<noteq> 0 \<and> TCPConnection_remaining_outbound_capacity x \<noteq> 0")
    case False
    then show ?thesis using Suc.prems by (intro exI [of _ x] exI [of _ buf] exI [of _ "[]"]) auto
  next
    case True
    define want where "want = min (TCPConnection_remaining_outbound_capacity x) (Buffer_size buf)"
    define d where "d = str_head (Buffer_str buf) want"
    have size: "unat (Buffer_size buf) = length (Buffer_str buf)" by (rule buf.size_law [OF Suc.prems(2)])
    have want: "unat want \<le> length (Buffer_str buf)" "0 < unat want"
      using True unfolding want_def unat_min by (simp_all add: size [symmetric] unat_gt_0)
    then have d: "length d = unat want" "d = take (unat want) (Buffer_str buf)" by (simp_all add: d_def str_head_def)
    then have dsize: "str_size d = want" by (simp add: str_size_def)
    have "length acc + conn_op_offers (WriteData d) + 2 < 2 ^ 31" using Suc.prems(4) want d by simp
    then obtain e x' where e: "conn_step (WriteData d) x = Inr (e, x')"
      "linked isn pisn (F \<union> set (CE_taken e)) T got (acc @ CE_accepted e) x' y"
      using linked_here [OF Suc.prems(1), of "WriteData d"] by auto
    obtain n where n: "TCPConnection_write x d = Inr (n, x')" "e = quiet\<lparr>CE_accepted := take (unat n) d\<rparr>"
      using e(1) by (auto simp: bindR_eq_Inr_iff)
    have "n = want" using write_amount [OF n(1)] by (simp add: dsize want_def)
    then have acc: "CE_accepted e = d" "CE_taken e = []" using n(2) d(1) by (simp_all add: quiet_def)
    obtain buf1 where buf1: "Buffer_remove_prefix buf want = Inr buf1" "Buffer_inv buf1" "Buffer_str buf1 = drop (unat want) (Buffer_str buf)"
      using buf.remove_law [OF Suc.prems(2) want(1)] by blast
    have "length (Buffer_str buf1) < fuel" "length (acc @ d) + length (Buffer_str buf1) + 2 < 2 ^ 31"
      "linked isn pisn F T got (acc @ d) x' y"
      using buf1(3) Suc.prems(3,4) want d(1) e(2) acc by auto
    then obtain x2 buf2 w where "write_input fuel x' buf1 = Inr (x2, buf2)" "linked isn pisn F T got ((acc @ d) @ w) x2 y"
      "w @ Buffer_str buf2 = Buffer_str buf1" "Buffer_inv buf2"
      using Suc.IH [of "acc @ d" x' buf1] buf1(2) by blast
    then show ?thesis
      using True n(1) \<open>n = want\<close> buf1 d(2)
      by (intro exI [of _ x2] exI [of _ buf2] exI [of _ "d @ w"]) (simp add: want_def [symmetric] d_def [symmetric] Let_def)
  qed
qed simp

definition bench_ok :: "bytes \<Rightarrow> WrappingInt32 \<Rightarrow> WrappingInt32 \<Rightarrow> bench \<Rightarrow> bool" where
  "bench_ok data isn pisn b \<longleftrightarrow> Buffer_inv (BM_bytes_to_send b)
     \<and> (\<exists>F T acc. linked isn pisn F T (BM_string_received b) acc (BM_x b) (BM_y b) \<and> acc @ Buffer_str (BM_bytes_to_send b) = data)"

lemma bench_okI:
  assumes "linked isn pisn F T (BM_string_received b) acc (BM_x b) (BM_y b)" and "acc @ Buffer_str (BM_bytes_to_send b) = data"
    and "Buffer_inv (BM_bytes_to_send b)"
  shows "bench_ok data isn pisn b"
  using assms unfolding bench_ok_def by blast

lemma bench_input_ok:
  assumes "bench_ok data isn pisn b" and small: "length data + 2 < 2 ^ 31"
  shows "\<exists>b'. bench_input b = Inr b' \<and> bench_ok data isn pisn b'"
proof -
  obtain F T acc where l: "linked isn pisn F T (BM_string_received b) acc (BM_x b) (BM_y b)" "acc @ Buffer_str (BM_bytes_to_send b) = data"
    and buf: "Buffer_inv (BM_bytes_to_send b)" using assms(1) unfolding bench_ok_def by blast
  have "length acc + length (Buffer_str (BM_bytes_to_send b)) + 2 < 2 ^ 31" using small l(2) by auto
  from write_input_ok [OF l(1) buf lessI this] obtain x buf' w where w:
    "write_input (Suc (length (Buffer_str (BM_bytes_to_send b)))) (BM_x b) (BM_bytes_to_send b) = Inr (x, buf')"
    "linked isn pisn F T (BM_string_received b) (acc @ w) x (BM_y b)" "w @ Buffer_str buf' = Buffer_str (BM_bytes_to_send b)" "Buffer_inv buf'"
    by blast
  have data: "(acc @ w) @ Buffer_str buf' = data" using w(3) l(2) by simp
  then have short: "length (acc @ w) + conn_op_offers EndStream + 2 < 2 ^ 31" using small by auto
  show ?thesis
  proof (cases "Buffer_size buf' = 0 \<and> \<not> BM_x_closed b")
    case True
    obtain e x' where "conn_step EndStream x = Inr (e, x')" "linked isn pisn (F \<union> set (CE_taken e)) T (BM_string_received b) ((acc @ w) @ CE_accepted e) x' (BM_y b)"
      using linked_here [OF w(2) _ short] by auto
    then have "TCPConnection_end_input_stream x = Inr x'" "linked isn pisn F T (BM_string_received b) (acc @ w) x' (BM_y b)"
      by (auto simp: quietly_def quiet_def bindR_eq_Inr_iff)
    then show ?thesis using w(1,4) True data by (auto simp: bench_input_def simp del: write_input.simps intro!: bench_okI)
  next
    case False
    then show ?thesis using w(1,2,4) data by (auto simp: bench_input_def simp del: write_input.simps intro!: bench_okI)
  qed
qed

lemma bench_exchange_ok:
  assumes "bench_ok data isn pisn b" and small: "length data + 2 < 2 ^ 31"
  shows "\<exists>b'. bench_exchange reorder b = Inr b' \<and> bench_ok data isn pisn b'"
proof -
  obtain F T acc where l: "linked isn pisn F T (BM_string_received b) acc (BM_x b) (BM_y b)" "acc @ Buffer_str (BM_bytes_to_send b) = data"
    and buf: "Buffer_inv (BM_bytes_to_send b)" using assms(1) unfolding bench_ok_def by blast
  have short: "length acc + 2 < 2 ^ 31" using small l(2) by auto
  let ?out = "TC_segments_out (BM_x b)" and ?x = "(BM_x b)\<lparr>TC_segments_out := []\<rparr>"
  have sent: "linked isn pisn (F \<union> set ?out) T (BM_string_received b) acc ?x (BM_y b)"
    using linked_here [OF l(1), of "TakeSegments (length ?out)"] short by (simp add: quiet_def)
  have "set (if reorder then rev ?out else ?out) \<subseteq> F \<union> set ?out" by auto
  from linked_receive_there [OF sent this short] obtain y1 where y1: "receive_all (if reorder then rev ?out else ?out) (BM_y b) = Inr y1"
    "linked isn pisn (F \<union> set ?out) T (BM_string_received b) acc ?x y1" by blast
  let ?answers = "TC_segments_out y1" and ?y = "y1\<lparr>TC_segments_out := []\<rparr>"
  have answered: "linked isn pisn (F \<union> set ?out) (T \<union> set ?answers) (BM_string_received b) acc ?x ?y"
    using linked_there [OF y1(2), of "TakeSegments (length ?answers)"] short by (simp add: quiet_def)
  from linked_receive_here [OF answered Un_upper2 short] obtain x2 where "receive_all ?answers ?x = Inr x2" "linked isn pisn (F \<union> set ?out) (T \<union> set ?answers) (BM_string_received b) acc x2 ?y" by blast
  then show ?thesis using y1 buf l(2) by (auto simp: bench_exchange_def move_segments_def Let_def intro!: bench_okI)
qed

lemma bench_output_ok:
  assumes "bench_ok data isn pisn b" and small: "length data + 2 < 2 ^ 31"
  shows "\<exists>b'. bench_output b = Inr b' \<and> bench_ok data isn pisn b'"
proof -
  obtain F T acc where l: "linked isn pisn F T (BM_string_received b) acc (BM_x b) (BM_y b)" "acc @ Buffer_str (BM_bytes_to_send b) = data"
    and buf: "Buffer_inv (BM_bytes_to_send b)" using assms(1) unfolding bench_ok_def by blast
  have short: "length acc + 2 < 2 ^ 31" using small l(2) by auto
  let ?n = "ByteStream_buffer_size (TCPConnection_inbound_stream (BM_y b))"
  obtain e y' where "conn_step (ReadData ?n) (BM_y b) = Inr (e, y')"
    "linked isn pisn F (T \<union> set (CE_taken e)) (BM_string_received b @ CE_read e) acc (BM_x b) y'"
    using linked_there [OF l(1), of "ReadData ?n"] short by auto
  then obtain d st where "ByteStream_read (TCPConnection_inbound_stream (BM_y b)) ?n = Inr (d, st)"
    "y' = (BM_y b)\<lparr>TC_receiver := TCPReceiver_set_stream_out (TC_receiver (BM_y b)) st\<rparr>"
    "linked isn pisn F T (BM_string_received b @ d) acc (BM_x b) y'"
    by (auto simp: bindR_eq_Inr_iff quiet_def)
  then show ?thesis using l buf by (auto simp: bench_output_def Let_def intro!: bench_okI)
qed

lemma bench_time_ok:
  assumes "bench_ok data isn pisn b" and small: "length data + 2 < 2 ^ 31"
  shows "\<exists>b'. bench_time b = Inr b' \<and> bench_ok data isn pisn b'"
proof -
  obtain F T acc where l: "linked isn pisn F T (BM_string_received b) acc (BM_x b) (BM_y b)" "acc @ Buffer_str (BM_bytes_to_send b) = data"
    and buf: "Buffer_inv (BM_bytes_to_send b)" using assms(1) unfolding bench_ok_def by blast
  have short: "length acc + 2 < 2 ^ 31" using small l(2) by auto
  obtain x' where x': "TCPConnection_tick (BM_x b) 1000 = Inr x'" "linked isn pisn F T (BM_string_received b) acc x' (BM_y b)"
    using linked_here [OF l(1), of "Elapse 1000"] short by (auto simp: quietly_def quiet_def bindR_eq_Inr_iff)
  obtain y' where "TCPConnection_tick (BM_y b) 1000 = Inr y'" "linked isn pisn F T (BM_string_received b) acc x' y'"
    using linked_there [OF x'(2), of "Elapse 1000"] short by (auto simp: quietly_def quiet_def bindR_eq_Inr_iff)
  then show ?thesis using x'(1) l(2) buf by (auto simp: bench_time_def intro!: bench_okI)
qed

lemma bench_loop_ok:
  assumes "bench_ok data isn pisn b" and small: "length data + 2 < 2 ^ 31"
  shows "\<exists>b'. bench_loop reorder b = Inr b' \<and> bench_ok data isn pisn b'"
proof -
  obtain b1 where b1: "bench_input b = Inr b1" "bench_ok data isn pisn b1" using bench_input_ok [OF assms] by blast
  obtain b2 where b2: "bench_exchange reorder b1 = Inr b2" "bench_ok data isn pisn b2" using bench_exchange_ok [OF b1(2) small] by blast
  obtain b3 where b3: "bench_output b2 = Inr b3" "bench_ok data isn pisn b3" using bench_output_ok [OF b2(2) small] by blast
  show ?thesis using bench_time_ok [OF b3(2) small] by (simp add: bench_loop_def b1(1) b2(1) b3(1))
qed

lemma bench_begin_ok:
  assumes small: "length data + 2 < 2 ^ 31"
  shows "\<exists>b isn pisn. bench_begin random_x random_y data = Inr b \<and> bench_ok data isn pisn b"
proof -
  let ?x = "TCPConnection_new TCPConfig_new random_x" and ?y = "TCPConnection_new TCPConfig_new random_y"
  let ?isn = "SD_isn (TC_sender ?x)" and ?pisn = "SD_isn (TC_sender ?y)"
  have "net_inv [] ?isn [] ?pisn (net_new ?x ?y)"
    by (rule net_inv_new) (simp_all add: TCPConfig_new_def DEFAULT_CAPACITY_def)
  then have start: "linked ?isn ?pisn {} {} [] [] ?x ?y"
    unfolding linked_def by (intro exI [of _ "net_new ?x ?y"] exI [of _ "[]"]) (simp add: net_new_def)
  obtain x where x: "TCPConnection_connect ?x = Inr x" "linked ?isn ?pisn {} {} [] [] x ?y"
    using linked_here [OF start, of Connect] by (auto simp: quietly_def quiet_def bindR_eq_Inr_iff)
  obtain y where y: "TCPConnection_end_input_stream ?y = Inr y" "linked ?isn ?pisn {} {} [] [] x y"
    using linked_there [OF x(2), of EndStream] by (auto simp: quietly_def quiet_def bindR_eq_Inr_iff)
  have "bench_ok data ?isn ?pisn \<lparr>BM_x = x, BM_y = y, BM_bytes_to_send = Buffer_of data, BM_x_closed = False, BM_string_received = []\<rparr>"
    by (rule bench_okI) (use y(2) small in simp_all)
  then show ?thesis using x(1) y(1) by (auto simp: bench_begin_def)
qed

lemma bench_ok_prefix:
  assumes "bench_ok data isn pisn b"
  shows "\<exists>j. BM_string_received b @ ByteStream_contents (TCPConnection_inbound_stream (BM_y b)) = take j data"
proof -
  obtain n sent P acc where n: "net_inv sent isn P pisn n" "N_there n = BM_y b" "N_got_there n = BM_string_received b"
    "N_accepted_here n = acc" "acc @ Buffer_str (BM_bytes_to_send b) = data"
    using assms unfolding bench_ok_def linked_def by blast
  obtain k where "BM_string_received b @ ByteStream_contents (TCPConnection_inbound_stream (BM_y b)) = take k acc"
    using net_inv_prefix [OF n(1)] n(2-4) by auto
  moreover have "take k acc = take (min k (length acc)) data" using n(5) [symmetric] by (simp add: min_def)
  ultimately show ?thesis by metis
qed

text \<open>The first rounds of the loop, however many.\<close>

fun bench_rounds :: "nat \<Rightarrow> bool \<Rightarrow> bench \<Rightarrow> bench result" where
  "bench_rounds 0 reorder b = Inr b" |
  "bench_rounds (Suc n) reorder b = bindR (bench_loop reorder b) (bench_rounds n reorder)"

lemma bench_rounds_ok:
  assumes "bench_ok data isn pisn b" and small: "length data + 2 < 2 ^ 31"
  shows "\<exists>b'. bench_rounds n reorder b = Inr b' \<and> bench_ok data isn pisn b'"
  using assms(1)
proof (induction n arbitrary: b)
  case (Suc n)
  obtain b1 where "bench_loop reorder b = Inr b1" "bench_ok data isn pisn b1" using bench_loop_ok [OF Suc.prems small] by blast
  then show ?case using Suc.IH by simp
qed simp

lemma bench_while_keeps:
  assumes loop: "\<And>b. P b \<Longrightarrow> \<exists>b'. bench_loop reorder b = Inr b' \<and> P b'"
    and "bench_while condition reorder b = Some r" and "P b"
  shows "\<exists>b'. r = Inr b' \<and> P b' \<and> \<not> condition b'"
proof -
  have "flag = reorder \<longrightarrow> P b \<longrightarrow> (\<exists>b'. r = Inr b' \<and> P b' \<and> \<not> condition b')"
    if "bench_while condition flag b = Some r" for condition flag b r
    using _ that
  proof (rule bench_while.raw_induct, goal_cases step)
    case (step go condition flag b r)
    show ?case
    proof (intro impI)
      assume b: "flag = reorder" "P b"
      then obtain b1 where b1: "bench_loop flag b = Inr b1" "P b1" using loop by blast
      then show "\<exists>b'. r = Inr b' \<and> P b' \<and> \<not> condition b'"
        using step(1) [of condition flag b1 r] step(2) b by (cases "condition b") auto
    qed
  qed
  then show ?thesis using assms(2,3) by blast
qed

lemma bench_loop_received:
  assumes "bench_loop reorder b = Inr b'"
  shows "\<exists>w. BM_string_received b' = BM_string_received b @ w"
proof -
  obtain b1 b2 b3 where b: "bench_input b = Inr b1" "bench_exchange reorder b1 = Inr b2" "bench_output b2 = Inr b3" "bench_time b3 = Inr b'"
    using assms by (auto simp: bench_loop_def bindR_eq_Inr_iff)
  have "BM_string_received b1 = BM_string_received b" "BM_string_received b2 = BM_string_received b1" "BM_string_received b' = BM_string_received b3"
    using b by (auto simp: bench_input_def bench_exchange_def bench_time_def bindR_eq_Inr_iff split: if_splits)
  moreover have "\<exists>w. BM_string_received b3 = BM_string_received b2 @ w"
    using b(3) by (auto simp: bench_output_def Let_def bindR_eq_Inr_iff split: if_splits)
  ultimately show ?thesis by simp
qed

text \<open>What is complete stays as it is.\<close>

lemma bench_loop_complete:
  assumes small: "length data + 2 < 2 ^ 31" and "bench_ok data isn pisn b \<and> BM_string_received b = data"
  shows "\<exists>b'. bench_loop reorder b = Inr b' \<and> bench_ok data isn pisn b' \<and> BM_string_received b' = data"
proof -
  obtain b' where b': "bench_loop reorder b = Inr b'" "bench_ok data isn pisn b'" using bench_loop_ok assms by blast
  obtain w where "BM_string_received b' = data @ w" using bench_loop_received [OF b'(1)] assms(2) by auto
  moreover obtain j where "BM_string_received b' @ ByteStream_contents (TCPConnection_inbound_stream (BM_y b')) = take j data"
    using bench_ok_prefix [OF b'(2)] by blast
  then have "length (BM_string_received b') \<le> length data" by (metis length_append le_add1 length_take min.bounded_iff)
  ultimately show ?thesis using b' by simp
qed

lemma main_loop_ends:
  assumes small: "length data + 2 < 2 ^ 31" and "main_loop random_x random_y data reorder = Some r"
  shows "r = Inl (RuntimeError ''strings sent vs. received don't match'')
    \<or> (\<exists>b. r = Inr b \<and> \<not> TCPConnection_active (BM_x b) \<and> \<not> TCPConnection_active (BM_y b) \<and> BM_string_received b = data)"
proof -
  obtain b isn pisn where b: "bench_begin random_x random_y data = Inr b" "bench_ok data isn pisn b"
    using bench_begin_ok [OF small] by blast
  let ?more = "\<lambda>b. \<not> ByteStream_eof (TCPConnection_inbound_stream (BM_y b))"
  let ?open = "\<lambda>b. TCPConnection_active (BM_x b) \<or> TCPConnection_active (BM_y b)"
  obtain r1 where r1: "bench_while ?more reorder b = Some r1" using assms(2) b(1) by (auto simp: main_loop_def split: option.splits)
  obtain b1 where b1: "r1 = Inr b1" "bench_ok data isn pisn b1"
    using bench_while_keeps [of "bench_ok data isn pisn", OF bench_loop_ok [OF _ small] r1 b(2)] by blast
  show ?thesis
  proof (cases "BM_string_received b1 = data")
    case True
    then have "bench_while ?open reorder b1 = Some r" using assms(2) b(1) r1 b1(1) by (simp add: main_loop_def)
    from bench_while_keeps [of "\<lambda>b. bench_ok data isn pisn b \<and> BM_string_received b = data", OF bench_loop_complete [OF small] this]
    show ?thesis using b1(2) True by blast
  next
    case False
    then show ?thesis using assms(2) b(1) r1 b1(1) by (simp add: main_loop_def)
  qed
qed

section \<open>The properties\<close>

text \<open>C35: the benchmark moves the string: whatever the initial sequence numbers and the order in which the
  segments are handed over, every round of its loop returns, no write is cut short, and after any number of
  rounds the bytes received, with those ready to be read, are a prefix of the string sent. A run that ends
  has received the whole string, both connections being closed, or has stopped with the complaint that the
  two strings differ.\<close>

theorem benchmark_prefix:
  assumes "length string_to_send + 2 < 2 ^ 31"
  shows "(\<exists>b b' j. bench_begin random_x random_y string_to_send = Inr b \<and> bench_rounds n reorder b = Inr b'
      \<and> BM_string_received b' @ ByteStream_contents (TCPConnection_inbound_stream (BM_y b')) = take j string_to_send)
    \<and> main_loop random_x random_y string_to_send reorder
       \<in> {None, Some (Inl (RuntimeError ''strings sent vs. received don't match''))}
         \<union> {Some (Inr b) | b. \<not> TCPConnection_active (BM_x b) \<and> \<not> TCPConnection_active (BM_y b) \<and> BM_string_received b = string_to_send}"
proof
  obtain b isn pisn where b: "bench_begin random_x random_y string_to_send = Inr b" "bench_ok string_to_send isn pisn b"
    using bench_begin_ok [OF assms] by blast
  obtain b' where "bench_rounds n reorder b = Inr b'" "bench_ok string_to_send isn pisn b'" using bench_rounds_ok [OF b(2) assms] by blast
  with b(1) bench_ok_prefix
  show "\<exists>b b' j. bench_begin random_x random_y string_to_send = Inr b \<and> bench_rounds n reorder b = Inr b'
      \<and> BM_string_received b' @ ByteStream_contents (TCPConnection_inbound_stream (BM_y b')) = take j string_to_send" by blast
qed (use main_loop_ends [OF assms, of random_x random_y reorder] in \<open>cases "main_loop random_x random_y string_to_send reorder"; auto\<close>)

theorem benchmark_prefix_witness:
  "\<exists>b b' j. bench_begin 5 6 [1, 2, 3] = Inr b \<and> bench_rounds 4 True b = Inr b'
     \<and> BM_string_received b' @ ByteStream_contents (TCPConnection_inbound_stream (BM_y b')) = take j [1, 2, 3]"
  using benchmark_prefix [of "[1, 2, 3]" 5 6 4 True] by simp

end
