(* ===== verification/IPv4_Datagram.thy ===== *)
theory IPv4_Datagram
  imports Internet_Checksum
begin

text \<open>
  IPv4 headers and datagrams, from \<^verbatim>\<open>tcp_helpers/ipv4_header\<close> and
  \<^verbatim>\<open>tcp_helpers/ipv4_datagram\<close>. Shown here: the header is a wire codec, a serialized
  datagram parses back to itself, parsing never throws, and what the datagram parser accepts although
  the header parser refused it.
\<close>

section \<open>IPv4Header\<close>

record IPv4Header =
  IP_ver :: u8
  IP_hlen :: u8
  IP_tos :: u8
  IP_len :: u16
  IP_id :: u16
  IP_df :: bool
  IP_mf :: bool
  IP_offset :: u16
  IP_ttl :: u8
  IP_proto :: u8
  IP_cksum :: u16
  IP_src :: u32
  IP_dst :: u32

definition IPv4Header_LENGTH :: u64 where
  "IPv4Header_LENGTH = 20"

definition DEFAULT_TTL :: u8 where
  "DEFAULT_TTL = 128"

definition PROTO_TCP :: u8 where
  "PROTO_TCP = 6"

definition IPv4Header_new :: IPv4Header where
  "IPv4Header_new = \<lparr>IP_ver = 4, IP_hlen = ucast (IPv4Header_LENGTH div 4), IP_tos = 0, IP_len = 0, IP_id = 0,
     IP_df = True, IP_mf = False, IP_offset = 0, IP_ttl = DEFAULT_TTL, IP_proto = PROTO_TCP, IP_cksum = 0,
     IP_src = 0, IP_dst = 0\<rparr>"

text \<open>The checks that follow the reading of the fields.\<close>

definition IPv4Header_check :: "Buffer \<Rightarrow> u64 \<Rightarrow> IPv4Header \<Rightarrow> (ParseResult \<times> IPv4Header) parser" where
  "IPv4Header_check original data_size h =
     (if data_size < 4 * ucast (IP_hlen h) then returnP (PacketTooShort, h)
      else if IP_ver h \<noteq> 4 then returnP (WrongIPVersion, h)
      else if IP_hlen h < 5 then returnP (HeaderTooShort, h)
      else if data_size \<noteq> ucast (IP_len h) then returnP (TruncatedPacket, h)
      else bindP (NetParser_remove_prefix (ucast (IP_hlen h) * 4 - IPv4Header_LENGTH)) (\<lambda>_.
           bindP get_errorP (\<lambda>e.
           if e \<noteq> NoError then returnP (e, h)
           else let check = InternetChecksum_add (InternetChecksum_new 0)
                              (take (unat (4 * ucast (IP_hlen h) :: u64)) (Buffer_str original))
                in if InternetChecksum_value check \<noteq> 0 then returnP (BadChecksum, h)
                   else returnP (NoError, h))))"

definition IPv4Header_parse :: "IPv4Header \<Rightarrow> (ParseResult \<times> IPv4Header) parser" where
  "IPv4Header_parse h = (\<lambda>p0.
     let original = NP_buffer p0; data_size = Buffer_size (NP_buffer p0)
     in if data_size < IPv4Header_LENGTH then returnP (PacketTooShort, h) p0
        else bindP NetParser_u8 (\<lambda>first_byte.
             bindP NetParser_u8 (\<lambda>tos.
             bindP NetParser_u16 (\<lambda>len.
             bindP NetParser_u16 (\<lambda>ident.
             bindP NetParser_u16 (\<lambda>fo_val.
             bindP NetParser_u8 (\<lambda>ttl.
             bindP NetParser_u8 (\<lambda>proto.
             bindP NetParser_u16 (\<lambda>cksum.
             bindP NetParser_u32 (\<lambda>src.
             bindP NetParser_u32 (\<lambda>dst.
             IPv4Header_check original data_size
               (h\<lparr>IP_ver := drop_bit 4 first_byte, IP_hlen := first_byte AND 0x0f, IP_tos := tos,
                  IP_len := len, IP_id := ident, IP_df := (fo_val AND 0x4000 \<noteq> 0),
                  IP_mf := (fo_val AND 0x2000 \<noteq> 0), IP_offset := fo_val AND 0x1fff, IP_ttl := ttl,
                  IP_proto := proto, IP_cksum := cksum, IP_src := src, IP_dst := dst\<rparr>))))))))))) p0)"

definition IPv4Header_fo_val :: "IPv4Header \<Rightarrow> u16" where
  "IPv4Header_fo_val h = (if IP_df h then 0x4000 else 0) OR (if IP_mf h then 0x2000 else 0) OR (IP_offset h AND 0x1fff)"

definition IPv4Header_first_byte :: "IPv4Header \<Rightarrow> u8" where
  "IPv4Header_first_byte h = push_bit 4 (IP_ver h) OR (IP_hlen h AND 0xf)"

definition IPv4Header_serialize :: "IPv4Header \<Rightarrow> bytes result" where
  "IPv4Header_serialize h =
     (if IP_ver h \<noteq> 4 then Inl (RuntimeError ''wrong IP version'')
      else if 4 * ucast (IP_hlen h) < IPv4Header_LENGTH then Inl (RuntimeError ''IP header too short'')
      else let ret = [];
               ret = NetUnparser_u8 ret (IPv4Header_first_byte h);
               ret = NetUnparser_u8 ret (IP_tos h);
               ret = NetUnparser_u16 ret (IP_len h);
               ret = NetUnparser_u16 ret (IP_id h);
               ret = NetUnparser_u16 ret (IPv4Header_fo_val h);
               ret = NetUnparser_u8 ret (IP_ttl h);
               ret = NetUnparser_u8 ret (IP_proto h);
               ret = NetUnparser_u16 ret (IP_cksum h);
               ret = NetUnparser_u32 ret (IP_src h);
               ret = NetUnparser_u32 ret (IP_dst h)
           in Inr (str_resize ret (4 * ucast (IP_hlen h))))"

definition IPv4Header_payload_length :: "IPv4Header \<Rightarrow> u16" where
  "IPv4Header_payload_length h = IP_len h - 4 * ucast (IP_hlen h)"

definition IPv4Header_pseudo_cksum :: "IPv4Header \<Rightarrow> u32" where
  "IPv4Header_pseudo_cksum h =
     (let pcksum = drop_bit 16 (IP_src h) + (IP_src h AND 0xffff);
          pcksum = pcksum + (drop_bit 16 (IP_dst h) + (IP_dst h AND 0xffff));
          pcksum = pcksum + ucast (IP_proto h)
      in pcksum + ucast (IPv4Header_payload_length h))"

section \<open>IPv4Datagram\<close>

record IPv4Datagram =
  DG_header :: IPv4Header
  DG_payload :: BufferList

definition IPv4Datagram_new :: IPv4Datagram where
  "IPv4Datagram_new = \<lparr>DG_header = IPv4Header_new, DG_payload = BufferList_default\<rparr>"

definition IPv4Datagram_parse :: "IPv4Datagram \<Rightarrow> Buffer \<Rightarrow> (ParseResult \<times> IPv4Datagram) result" where
  "IPv4Datagram_parse d buffer =
     bindR (IPv4Header_parse (DG_header d) (NetParser_new buffer)) (\<lambda>((_, h), p).
     let d' = d\<lparr>DG_header := h, DG_payload := BufferList_of_Buffer (NP_buffer p)\<rparr>
     in if BufferList_size (DG_payload d') \<noteq> ucast (IPv4Header_payload_length h) then Inr (PacketTooShort, d')
        else Inr (NP_error p, d'))"

definition IPv4Datagram_serialize :: "IPv4Datagram \<Rightarrow> BufferList result" where
  "IPv4Datagram_serialize d =
     (if BufferList_size (DG_payload d) \<noteq> ucast (IPv4Header_payload_length (DG_header d))
      then Inl (RuntimeError ''IPv4Datagram::serialize: payload is wrong size'')
      else let header_out = (DG_header d)\<lparr>IP_cksum := 0\<rparr>
           in bindR (IPv4Header_serialize header_out) (\<lambda>header_zero_checksum.
              let check = InternetChecksum_add (InternetChecksum_new 0) header_zero_checksum;
                  header_out = header_out\<lparr>IP_cksum := InternetChecksum_value check\<rparr>
              in bindR (IPv4Header_serialize header_out) (\<lambda>hdr.
                 Inr (BufferList_append (BufferList_append BufferList_default (BufferList_of_string hdr))
                       (DG_payload d)))))"

section \<open>The header on the wire\<close>

lemma take_bit_small: "unat x < 2 ^ n \<Longrightarrow> take_bit n x = (x :: 'a::len word)"
  by (simp add: word_unat_eq_iff unsigned_take_bit_eq take_bit_nat_eq_self)

lemma nibbles:
  assumes "unat (v :: u8) < 16" and "unat (n :: u8) < 16"
  shows "drop_bit 4 (push_bit 4 v OR (n AND 0xf)) = v" and "(push_bit 4 v OR (n AND 0xf)) AND 0x0f = n"
proof -
  have m: "(0xf :: u8) = mask 4" by (simp add: mask_eq_exp_minus_1)
  have small: "bit x k \<Longrightarrow> k < 4" if "unat x < 16" for x :: u8 and k
  proof (rule ccontr)
    assume "bit x k" "\<not> k < 4"
    moreover have "take_bit 4 x = x" using that by (intro take_bit_small) simp
    ultimately show False by (metis bit_take_bit_iff)
  qed
  show "drop_bit 4 (push_bit 4 v OR (n AND 0xf)) = v"
    unfolding m by (rule bit_word_eqI) (auto simp: bit_simps dest: small [OF assms(1)])
  show "(push_bit 4 v OR (n AND 0xf)) AND 0x0f = n"
    unfolding m by (rule bit_word_eqI) (auto simp: bit_simps dest: small [OF assms(2)])
qed

lemma fo_val_bits:
  assumes "unat (IP_offset h) < 8192"
  shows "IPv4Header_fo_val h AND 0x4000 \<noteq> 0 \<longleftrightarrow> IP_df h" and "IPv4Header_fo_val h AND 0x2000 \<noteq> 0 \<longleftrightarrow> IP_mf h"
    and "IPv4Header_fo_val h AND 0x1fff = IP_offset h"
proof -
  have m: "(0x1fff :: u16) = mask 13" by (simp add: mask_eq_exp_minus_1)
  have off: "IP_offset h AND 0x1fff = IP_offset h"
    unfolding m take_bit_eq_mask [symmetric] using assms by (intro take_bit_small) simp
  show "IPv4Header_fo_val h AND 0x4000 \<noteq> 0 \<longleftrightarrow> IP_df h"
    by (cases "IP_df h"; cases "IP_mf h") (simp_all add: IPv4Header_fo_val_def and.assoc bit.conj_disj_distrib2)
  show "IPv4Header_fo_val h AND 0x2000 \<noteq> 0 \<longleftrightarrow> IP_mf h"
    by (cases "IP_df h"; cases "IP_mf h") (simp_all add: IPv4Header_fo_val_def and.assoc bit.conj_disj_distrib2)
  show "IPv4Header_fo_val h AND 0x1fff = IP_offset h"
    by (cases "IP_df h"; cases "IP_mf h") (simp_all add: IPv4Header_fo_val_def and.assoc bit.conj_disj_distrib2 off)
qed


definition IPv4Header_pre :: "IPv4Header \<Rightarrow> bytes" where
  "IPv4Header_pre h = [IPv4Header_first_byte h, IP_tos h] @ be_bytes (IP_len h) @ be_bytes (IP_id h)
     @ be_bytes (IPv4Header_fo_val h) @ [IP_ttl h, IP_proto h]"

definition IPv4Header_addrs :: "IPv4Header \<Rightarrow> bytes" where
  "IPv4Header_addrs h = be_bytes (IP_src h) @ be_bytes (IP_dst h)"

definition IPv4Header_bytes :: "IPv4Header \<Rightarrow> bytes" where
  "IPv4Header_bytes h = IPv4Header_pre h @ be_bytes (IP_cksum h) @ IPv4Header_addrs h
     @ replicate (4 * unat (IP_hlen h) - 20) 0"

text \<open>Fields that fit their place on the wire.\<close>

definition IPv4Header_fields_ok :: "IPv4Header \<Rightarrow> bool" where
  "IPv4Header_fields_ok h \<longleftrightarrow> unat (IP_ver h) < 16 \<and> unat (IP_hlen h) < 16 \<and> unat (IP_offset h) < 8192"

definition IPv4Header_cksum_ok :: "IPv4Header \<Rightarrow> bool" where
  "IPv4Header_cksum_ok h \<longleftrightarrow>
     InternetChecksum_value (InternetChecksum_add (InternetChecksum_new 0) (IPv4Header_bytes h)) = 0"

text \<open>A header for a packet with the payload \<open>rest\<close>, apart from its checksum.\<close>

definition IPv4Header_for :: "IPv4Header \<Rightarrow> bytes \<Rightarrow> bool" where
  "IPv4Header_for h rest \<longleftrightarrow> IPv4Header_fields_ok h \<and> IP_ver h = 4 \<and> 5 \<le> unat (IP_hlen h)
     \<and> unat (IP_len h) = 4 * unat (IP_hlen h) + length rest"

lemma length_IPv4Header_pre [simp]: "length (IPv4Header_pre h) = 10"
  by (simp add: IPv4Header_pre_def)

lemma length_IPv4Header_addrs [simp]: "length (IPv4Header_addrs h) = 8"
  by (simp add: IPv4Header_addrs_def)

lemma length_IPv4Header_bytes: "5 \<le> unat (IP_hlen h) \<Longrightarrow> length (IPv4Header_bytes h) = 4 * unat (IP_hlen h)"
  by (simp add: IPv4Header_bytes_def)

lemma IPv4Header_serialize_bytes:
  assumes "IP_ver h = 4" and "5 \<le> unat (IP_hlen h)"
  shows "IPv4Header_serialize h = Inr (IPv4Header_bytes h)"
proof -
  have "\<not> 4 * ucast (IP_hlen h) < IPv4Header_LENGTH"
    using assms(2) by (simp add: word_less_nat_alt IPv4Header_LENGTH_def)
  then show ?thesis
    using assms
    by (simp add: IPv4Header_serialize_def NetUnparser_u8_def NetUnparser_u16_def NetUnparser_u32_def
        str_resize_pad IPv4Header_pre_def IPv4Header_bytes_def IPv4Header_addrs_def)
qed

lemma first_byte_nibbles:
  assumes "IPv4Header_fields_ok h"
  shows "drop_bit 4 (IPv4Header_first_byte h) = IP_ver h" and "IPv4Header_first_byte h AND 0x0f = IP_hlen h"
  unfolding IPv4Header_first_byte_def using assms by (auto simp only: IPv4Header_fields_ok_def nibbles)

lemma IPv4Header_update_all:
  "h0\<lparr>IP_ver := IP_ver h, IP_hlen := IP_hlen h, IP_tos := IP_tos h, IP_len := IP_len h, IP_id := IP_id h,
      IP_df := IP_df h, IP_mf := IP_mf h, IP_offset := IP_offset h, IP_ttl := IP_ttl h, IP_proto := IP_proto h,
      IP_cksum := IP_cksum h, IP_src := IP_src h, IP_dst := IP_dst h\<rparr> = (h :: IPv4Header)"
  by (cases h) simp

lemma IPv4Header_parse_fields:
  assumes ok: "IPv4Header_fields_ok h"
    and xs: "xs = IPv4Header_pre h @ be_bytes (IP_cksum h) @ IPv4Header_addrs h @ rest"
    and check: "\<And>b. Buffer_str b = xs \<Longrightarrow> parses (IPv4Header_check b (of_nat (length xs)) h) rest v rest'"
  shows "parses (IPv4Header_parse h0) xs v rest'"
  unfolding parses_def
proof (intro allI impI)
  fix p0 :: NetParser assume p0: "parser_at p0 xs"
  then have b: "Buffer_inv (NP_buffer p0)" "Buffer_str (NP_buffer p0) = xs" by (simp_all add: parser_at_def)
  have offset: "unat (IP_offset h) < 8192" using ok by (simp add: IPv4Header_fields_ok_def)
  let ?size = "Buffer_size (NP_buffer p0)"
  have size: "?size = of_nat (length xs)" using b(2) by (simp add: Buffer_size_def str_size_def)
  have "unat ?size = length xs" using b unat_Buffer_size by simp
  then have "\<not> ?size < IPv4Header_LENGTH" by (simp add: word_less_nat_alt IPv4Header_LENGTH_def xs)
  moreover have "parses (bindP NetParser_u8 (\<lambda>first_byte. bindP NetParser_u8 (\<lambda>tos. bindP NetParser_u16 (\<lambda>len.
      bindP NetParser_u16 (\<lambda>ident. bindP NetParser_u16 (\<lambda>fo_val. bindP NetParser_u8 (\<lambda>ttl. bindP NetParser_u8 (\<lambda>proto.
      bindP NetParser_u16 (\<lambda>cksum. bindP NetParser_u32 (\<lambda>src. bindP NetParser_u32 (\<lambda>dst.
      IPv4Header_check (NP_buffer p0) ?size
        (h0\<lparr>IP_ver := drop_bit 4 first_byte, IP_hlen := first_byte AND 0x0f, IP_tos := tos,
            IP_len := len, IP_id := ident, IP_df := (fo_val AND 0x4000 \<noteq> 0),
            IP_mf := (fo_val AND 0x2000 \<noteq> 0), IP_offset := fo_val AND 0x1fff, IP_ttl := ttl,
            IP_proto := proto, IP_cksum := cksum, IP_src := src, IP_dst := dst\<rparr>))))))))))))
      (IPv4Header_pre h @ be_bytes (IP_cksum h) @ IPv4Header_addrs h @ rest) v rest'"
    unfolding IPv4Header_pre_def IPv4Header_addrs_def append_assoc append.simps
    using ok check [OF b(2)]
    by (intro parses_bind [OF parses_u16] parses_bind [OF parses_u32] parses_bind [OF parses_u8])
      (simp add: first_byte_nibbles fo_val_bits [OF offset] IPv4Header_update_all size)
  ultimately show "\<exists>p'. IPv4Header_parse h0 p0 = Inr (v, p') \<and> parser_at p' rest'"
    using p0 unfolding xs parses_def by (simp add: IPv4Header_parse_def Let_def)
qed

lemma IPv4Header_check_packet:
  assumes ok: "IPv4Header_for h rest" and b: "Buffer_str b = IPv4Header_bytes h @ rest"
  shows "parses (IPv4Header_check b (of_nat (length (IPv4Header_bytes h @ rest))) h)
    (replicate (4 * unat (IP_hlen h) - 20) 0 @ rest)
    (if IPv4Header_cksum_ok h then NoError else BadChecksum, h) rest"
proof -
  have h: "IP_ver h = 4" "5 \<le> unat (IP_hlen h)" "unat (IP_len h) = 4 * unat (IP_hlen h) + length rest"
    using ok by (auto simp: IPv4Header_for_def)
  have len: "length (IPv4Header_bytes h) = 4 * unat (IP_hlen h)" by (rule length_IPv4Header_bytes [OF h(2)])
  then have size: "(of_nat (length (IPv4Header_bytes h @ rest)) :: u64) = ucast (IP_len h)"
    unfolding length_append len h(3) [symmetric] by simp
  have skip: "unat (ucast (IP_hlen h) * 4 - IPv4Header_LENGTH) = 4 * unat (IP_hlen h) - 20"
    using h(2) by (simp add: IPv4Header_LENGTH_def unat_diff_small)
  have "parses (NetParser_remove_prefix (ucast (IP_hlen h) * 4 - IPv4Header_LENGTH))
      (replicate (4 * unat (IP_hlen h) - 20) 0 @ rest) () rest"
    using parses_remove [of "ucast (IP_hlen h) * 4 - IPv4Header_LENGTH"
        "replicate (4 * unat (IP_hlen h) - 20) 0 @ rest"] by (simp add: skip)
  moreover have "\<not> ucast (IP_len h) < (4 * ucast (IP_hlen h) :: u64)" "\<not> IP_hlen h < 5"
    using h(2,3) by (simp_all add: word_less_nat_alt)
  ultimately show ?thesis
    unfolding IPv4Header_check_def size using h(1) b len
    by (auto intro!: parses_bind [OF _ parses_bind [OF parses_get_error]] simp: Let_def IPv4Header_cksum_ok_def)
qed

lemma IPv4Header_parse_packet:
  assumes "IPv4Header_for h rest"
  shows "parses (IPv4Header_parse h0) (IPv4Header_bytes h @ rest)
    (if IPv4Header_cksum_ok h then NoError else BadChecksum, h) rest"
proof (rule IPv4Header_parse_fields)
  show "IPv4Header_fields_ok h" using assms by (simp add: IPv4Header_for_def)
  show "IPv4Header_bytes h @ rest = IPv4Header_pre h @ be_bytes (IP_cksum h) @ IPv4Header_addrs h
      @ (replicate (4 * unat (IP_hlen h) - 20) 0 @ rest)"
    by (simp add: IPv4Header_bytes_def)
qed (rule IPv4Header_check_packet [OF assms])

lemma IPv4Header_parse_total: "never_throws (IPv4Header_parse h)"
proof -
  have check: "never_throws (IPv4Header_check b n h')" for b n h'
    unfolding IPv4Header_check_def Let_def by (intro never_throws_if never_throws_return never_throws_bind) auto
  have rest: "never_throws (bindP NetParser_u8 (\<lambda>first_byte. bindP NetParser_u8 (\<lambda>tos. bindP NetParser_u16 (\<lambda>len.
      bindP NetParser_u16 (\<lambda>ident. bindP NetParser_u16 (\<lambda>fo_val. bindP NetParser_u8 (\<lambda>ttl. bindP NetParser_u8 (\<lambda>proto.
      bindP NetParser_u16 (\<lambda>cksum. bindP NetParser_u32 (\<lambda>src. bindP NetParser_u32 (\<lambda>dst.
      IPv4Header_check b n (f first_byte tos len ident fo_val ttl proto cksum src dst))))))))))))" for b n f
    by (intro never_throws_bind check) auto
  show ?thesis
    unfolding never_throws_def IPv4Header_parse_def Let_def if_bool_eq_conj
  proof (intro allI impI, goal_cases)
    case (1 p)
    then show ?case
      using never_throws_return [of "(PacketTooShort, h)"] rest [unfolded never_throws_def, rule_format, OF 1]
      by (cases "Buffer_size (NP_buffer p) < IPv4Header_LENGTH") (simp_all add: never_throws_def)
  qed
qed

interpretation ip_wire: wire_codec "\<lambda>h rest. IPv4Header_for h rest \<and> IPv4Header_cksum_ok h"
  IPv4Header_serialize IPv4Header_parse
proof unfold_locales
  show "\<exists>bs. IPv4Header_serialize h = Inr bs \<and> (\<forall>h0. parses (IPv4Header_parse h0) (bs @ rest) (NoError, h) rest)"
    if "IPv4Header_for h rest \<and> IPv4Header_cksum_ok h" for h rest
    using that IPv4Header_parse_packet [of h rest] by (auto simp: IPv4Header_serialize_bytes IPv4Header_for_def)
qed (rule IPv4Header_parse_total)


section \<open>Datagrams on the wire\<close>

lemma unat_times4_u16: "unat (d :: u8) < 16 \<Longrightarrow> unat (4 * ucast d :: u16) = 4 * unat d"
  by (simp add: unat_word_ariths)

lemma unat_payload_length:
  assumes "unat (IP_hlen h) < 16" and "unat (IP_len h) = 4 * unat (IP_hlen h) + n"
  shows "unat (IPv4Header_payload_length h) = n"
  using assms unat_times4_u16 [OF assms(1)] by (simp add: IPv4Header_payload_length_def unat_diff_small)

lemma Buffer_inv_packet:
  assumes "length bs = unat (n :: u16)"
  shows "Buffer_inv (Buffer_of bs)"
proof -
  have "length bs < 65536" unfolding assms by simp
  then show ?thesis by simp
qed

lemma BufferList_size_Buffer: "BufferList_size (BufferList_of_Buffer b) = Buffer_size b"
  by (simp add: BufferList_size_def BufferList_of_Buffer_def)

lemma IPv4Datagram_parse_good:
  assumes "Buffer_inv b" and "parses (IPv4Header_parse (DG_header d0)) (Buffer_str b) (r, h) rest"
    and "unat (IPv4Header_payload_length h) = length rest"
  shows "\<exists>pl. IPv4Datagram_parse d0 b = Inr (NoError, \<lparr>DG_header = h, DG_payload = pl\<rparr>)
    \<and> BufferList_inv pl \<and> BufferList_concatenate pl = rest"
proof -
  have "parser_at (NetParser_new b) (Buffer_str b)" using assms(1) by (simp add: parser_at_def NetParser_new_def)
  then obtain p where p: "IPv4Header_parse (DG_header d0) (NetParser_new b) = Inr ((r, h), p)" "parser_at p rest"
    using assms(2) by (auto simp: parses_def)
  then have b: "Buffer_inv (NP_buffer p)" "Buffer_str (NP_buffer p) = rest" "NP_error p = NoError"
    by (simp_all add: parser_at_def)
  then have "Buffer_size (NP_buffer p) = ucast (IPv4Header_payload_length h)"
    using unat_Buffer_size [OF b(1)] assms(3) by (simp add: word_unat_eq_iff)
  moreover have "BufferList_inv (BufferList_of_Buffer (NP_buffer p))"
    using b Buffer_str_small [OF b(1)] by (simp add: BufferList_inv_def BufferList_of_Buffer_def BufferList_concatenate_def)
  ultimately show ?thesis
    using p(1) b by (cases d0) (simp add: IPv4Datagram_parse_def Let_def BufferList_size_Buffer)
qed

lemma IPv4Header_cksum_frame [simp]:
  "IPv4Header_pre (h\<lparr>IP_cksum := c\<rparr>) = IPv4Header_pre h"
  "IPv4Header_addrs (h\<lparr>IP_cksum := c\<rparr>) = IPv4Header_addrs h"
  "IPv4Header_for (h\<lparr>IP_cksum := c\<rparr>) rest = IPv4Header_for h rest"
  "IPv4Header_payload_length (h\<lparr>IP_cksum := c\<rparr>) = IPv4Header_payload_length h"
  by (simp_all add: IPv4Header_pre_def IPv4Header_addrs_def IPv4Header_for_def IPv4Header_fields_ok_def
      IPv4Header_first_byte_def IPv4Header_fo_val_def IPv4Header_payload_length_def)

definition IPv4Header_checksum :: "IPv4Header \<Rightarrow> u16" where
  "IPv4Header_checksum h = InternetChecksum_value
     (InternetChecksum_add (InternetChecksum_new 0) (IPv4Header_bytes (h\<lparr>IP_cksum := 0\<rparr>)))"

lemma IPv4Header_checksum_verifies:
  assumes "unat (IP_hlen h) < 16"
  shows "IPv4Header_cksum_ok (h\<lparr>IP_cksum := IPv4Header_checksum h\<rparr>)"
proof -
  let ?post = "IPv4Header_addrs h @ replicate (4 * unat (IP_hlen h) - 20) 0"
  let ?data = "IPv4Header_pre h @ be_bytes (0 :: u16) @ ?post"
  have "length ?data \<le> 60" using assms by auto
  then have "ck_sum False ?data \<le> 65280 * 60"
    using ck_sum_le [of False ?data] by (meson le_trans mult_le_mono2)
  then have "unat (0 :: u32) + ck_sum False ?data + 65535 < 2 ^ 32" by (simp del: ck_sum_append)
  then have "InternetChecksum_value (InternetChecksum_add (InternetChecksum_new 0)
      (IPv4Header_pre h @ be_bytes (IPv4Header_checksum h) @ ?post)) = 0"
    by (intro checksum_field) (simp_all add: IPv4Header_checksum_def IPv4Header_bytes_def)
  then show ?thesis by (simp add: IPv4Header_cksum_ok_def IPv4Header_bytes_def)
qed

lemma IPv4Datagram_serialize_bytes:
  assumes "IPv4Header_for (DG_header d) (BufferList_concatenate (DG_payload d))" and "BufferList_inv (DG_payload d)"
  shows "\<exists>bl. IPv4Datagram_serialize d = Inr bl
    \<and> BufferList_concatenate bl =
        IPv4Header_bytes ((DG_header d)\<lparr>IP_cksum := IPv4Header_checksum (DG_header d)\<rparr>)
        @ BufferList_concatenate (DG_payload d)"
proof -
  let ?h = "DG_header d"
  have h: "IP_ver ?h = 4" "5 \<le> unat (IP_hlen ?h)" using assms(1) by (auto simp: IPv4Header_for_def)
  have "unat (IPv4Header_payload_length ?h) = length (BufferList_concatenate (DG_payload d))"
    using assms(1) by (intro unat_payload_length) (auto simp: IPv4Header_for_def IPv4Header_fields_ok_def)
  then have "BufferList_size (DG_payload d) = ucast (IPv4Header_payload_length ?h)"
    using unat_BufferList_size [OF assms(2)] by (simp add: word_unat_eq_iff)
  then show ?thesis
    using h by (simp add: IPv4Datagram_serialize_def Let_def IPv4Header_serialize_bytes IPv4Header_checksum_def)
qed

text \<open>The bytes of a datagram, in whatever buffer they arrive, parse back.\<close>

lemma IPv4Datagram_wire:
  assumes "IPv4Header_for (DG_header d) (BufferList_concatenate (DG_payload d))" and "BufferList_inv (DG_payload d)"
  obtains bl where "IPv4Datagram_serialize d = Inr bl" "length (BufferList_concatenate bl) < 65536"
    "\<forall>b d0. Buffer_inv b \<and> Buffer_str b = BufferList_concatenate bl \<longrightarrow>
      (\<exists>pl. IPv4Datagram_parse d0 b
          = Inr (NoError, \<lparr>DG_header = (DG_header d)\<lparr>IP_cksum := IPv4Header_checksum (DG_header d)\<rparr>, DG_payload = pl\<rparr>)
        \<and> BufferList_inv pl \<and> BufferList_concatenate pl = BufferList_concatenate (DG_payload d))"
proof -
  let ?h = "(DG_header d)\<lparr>IP_cksum := IPv4Header_checksum (DG_header d)\<rparr>"
  let ?rest = "BufferList_concatenate (DG_payload d)"
  obtain bl where bl: "IPv4Datagram_serialize d = Inr bl" "BufferList_concatenate bl = IPv4Header_bytes ?h @ ?rest"
    using IPv4Datagram_serialize_bytes [OF assms] by auto
  have h: "IPv4Header_for ?h ?rest" "unat (IP_hlen ?h) < 16" "unat (IP_len ?h) = 4 * unat (IP_hlen ?h) + length ?rest"
    using assms(1) by (auto simp: IPv4Header_for_def IPv4Header_fields_ok_def)
  have len: "length (IPv4Header_bytes ?h @ ?rest) = unat (IP_len ?h)"
    using h by (simp add: length_IPv4Header_bytes IPv4Header_for_def)
  show thesis
  proof (rule that [OF bl(1)], goal_cases)
    case 1
    show "length (BufferList_concatenate bl) < 65536" unfolding bl(2) len by simp
  next
    case 2
    show ?case
    proof (intro allI impI, elim conjE)
      fix b and d0 :: IPv4Datagram
      assume b: "Buffer_inv b" "Buffer_str b = BufferList_concatenate bl"
      have "parses (IPv4Header_parse (DG_header d0)) (Buffer_str b) (NoError, ?h) ?rest"
        using IPv4Header_parse_packet [OF h(1)] IPv4Header_checksum_verifies [of "DG_header d"] h(2) by (simp add: b(2) bl(2))
      from IPv4Datagram_parse_good [OF b(1) this unat_payload_length [OF h(2,3)]]
      show "\<exists>pl. IPv4Datagram_parse d0 b = Inr (NoError, \<lparr>DG_header = ?h, DG_payload = pl\<rparr>)
          \<and> BufferList_inv pl \<and> BufferList_concatenate pl = ?rest" .
    qed
  qed
qed

text \<open>Any bytes are parsed to some datagram whose payload is one buffer.\<close>

lemma IPv4Datagram_parse_any:
  assumes "Buffer_inv b"
  obtains r d' pl where "IPv4Datagram_parse d b = Inr (r, d')" "DG_payload d' = BufferList_of_Buffer pl" "Buffer_inv pl"
    "BufferList_inv (DG_payload d')" "r = NoError \<Longrightarrow> length (Buffer_str pl) = unat (IPv4Header_payload_length (DG_header d'))"
proof -
  obtain r h p where p: "IPv4Header_parse (DG_header d) (NetParser_new b) = Inr ((r, h), p)" "Buffer_inv (NP_buffer p)"
    using ip_wire.dec_any [OF assms] by blast
  have pl: "BufferList_inv (BufferList_of_Buffer (NP_buffer p))"
    using p(2) Buffer_str_small [OF p(2)] by (simp add: BufferList_inv_def BufferList_of_Buffer_def BufferList_concatenate_def)
  let ?d = "d\<lparr>DG_header := h, DG_payload := BufferList_of_Buffer (NP_buffer p)\<rparr>"
  show thesis
  proof (cases "BufferList_size (BufferList_of_Buffer (NP_buffer p)) = ucast (IPv4Header_payload_length h)")
    case True
    then show thesis using p pl unat_BufferList_size [OF pl] that [of "NP_error p" ?d "NP_buffer p"]
      by (simp add: IPv4Datagram_parse_def Let_def)
  next
    case False
    then show thesis using p pl that [of PacketTooShort ?d "NP_buffer p"] by (simp add: IPv4Datagram_parse_def Let_def)
  qed
qed

section \<open>Properties\<close>

text \<open>C24: a datagram survives the wire: serialize succeeds on every header whose fields fit and
  whose length covers its payload, and the bytes parse without error to the same header (with the
  checksum filled in) and the same payload.\<close>

theorem ip_datagram_roundtrip:
  assumes "IPv4Header_for (DG_header d) (BufferList_concatenate (DG_payload d))" and "BufferList_inv (DG_payload d)"
  shows "\<exists>bl pl. IPv4Datagram_serialize d = Inr bl
    \<and> IPv4Datagram_parse d0 (Buffer_of (BufferList_concatenate bl))
        = Inr (NoError, \<lparr>DG_header = (DG_header d)\<lparr>IP_cksum := IPv4Header_checksum (DG_header d)\<rparr>, DG_payload = pl\<rparr>)
    \<and> BufferList_concatenate pl = BufferList_concatenate (DG_payload d)"
proof -
  obtain bl where bl: "IPv4Datagram_serialize d = Inr bl" "length (BufferList_concatenate bl) < 65536"
    "\<forall>b d0. Buffer_inv b \<and> Buffer_str b = BufferList_concatenate bl \<longrightarrow>
      (\<exists>pl. IPv4Datagram_parse d0 b
          = Inr (NoError, \<lparr>DG_header = (DG_header d)\<lparr>IP_cksum := IPv4Header_checksum (DG_header d)\<rparr>, DG_payload = pl\<rparr>)
        \<and> BufferList_inv pl \<and> BufferList_concatenate pl = BufferList_concatenate (DG_payload d))"
    by (rule IPv4Datagram_wire [OF assms])
  have "Buffer_inv (Buffer_of (BufferList_concatenate bl))" using bl(2) by (simp add: Buffer_inv_def Buffer_of_def)
  then show ?thesis using bl(1) bl(3) [rule_format, of "Buffer_of (BufferList_concatenate bl)" d0] by auto
qed

theorem ip_datagram_roundtrip_witness:
  "let d = \<lparr>DG_header = IPv4Header_new\<lparr>IP_len := 23, IP_src := 7, IP_dst := 9\<rparr>,
            DG_payload = BufferList_of_string [1, 2, 3]\<rparr>
   in \<exists>bl pl. IPv4Datagram_serialize d = Inr bl
    \<and> IPv4Datagram_parse IPv4Datagram_new (Buffer_of (BufferList_concatenate bl))
        = Inr (NoError, \<lparr>DG_header = (DG_header d)\<lparr>IP_cksum := IPv4Header_checksum (DG_header d)\<rparr>, DG_payload = pl\<rparr>)
    \<and> BufferList_concatenate pl = BufferList_concatenate (DG_payload d)"
  unfolding Let_def
  by (rule ip_datagram_roundtrip)
    (simp_all add: IPv4Header_for_def IPv4Header_fields_ok_def IPv4Header_new_def IPv4Header_LENGTH_def
      BufferList_inv_def BufferList_of_string_def BufferList_append_def BufferList_default_def
      BufferList_of_Buffer_def BufferList_concatenate_def)

text \<open>Parsing a datagram never throws, whatever the bytes, and a datagram reported without
  error has a payload of the length its header states.\<close>

lemma ip_parse_total:
  assumes "Buffer_inv b"
  shows "\<exists>r d'. IPv4Datagram_parse d b = Inr (r, d') \<and> BufferList_inv (DG_payload d')
    \<and> (r = NoError \<longrightarrow> length (BufferList_concatenate (DG_payload d')) = unat (IPv4Header_payload_length (DG_header d')))"
  using IPv4Datagram_parse_any [OF assms, of d] by (metis BufferList_concatenate_simps(2))

lemma ip_parse_total_example:
  "\<exists>r d'. IPv4Datagram_parse IPv4Datagram_new (Buffer_of [0x45, 0]) = Inr (r, d') \<and> BufferList_inv (DG_payload d')
    \<and> (r = NoError \<longrightarrow> length (BufferList_concatenate (DG_payload d')) = unat (IPv4Header_payload_length (DG_header d')))"
  by (rule ip_parse_total) simp

text \<open>The verdict of the header parser is ignored: a datagram with a wrong checksum or of
  another IP version is refused by the header parser and accepted, without error, by the datagram
  parser.\<close>

lemma ip_parse_ignores_header_verdict:
  assumes "IPv4Header_fields_ok h" and "IP_hlen h = 5" and "unat (IP_len h) = 20 + length rest"
    and "IP_ver h \<noteq> 4 \<or> \<not> IPv4Header_cksum_ok h"
  shows "parses (IPv4Header_parse h0) (IPv4Header_bytes h @ rest)
      (if IP_ver h \<noteq> 4 then WrongIPVersion else BadChecksum, h) rest
    \<and> (\<exists>pl. IPv4Datagram_parse d0 (Buffer_of (IPv4Header_bytes h @ rest))
          = Inr (NoError, \<lparr>DG_header = h, DG_payload = pl\<rparr>) \<and> BufferList_concatenate pl = rest)"
proof -
  have len: "length (IPv4Header_bytes h @ rest) = unat (IP_len h)"
    using assms(2,3) by (simp add: length_IPv4Header_bytes)
  have header: "parses (IPv4Header_parse h0) (IPv4Header_bytes h @ rest)
      (if IP_ver h \<noteq> 4 then WrongIPVersion else BadChecksum, h) rest" for h0
  proof (cases "IP_ver h = 4")
    case True
    then have "IPv4Header_for h rest" using assms(1-3) by (simp add: IPv4Header_for_def)
    from IPv4Header_parse_packet [OF this] show ?thesis using True assms(4) by simp
  next
    case False
    have "(of_nat (length (IPv4Header_bytes h @ rest)) :: u64) = ucast (IP_len h)" unfolding len by simp
    then have "\<not> of_nat (length (IPv4Header_bytes h @ rest)) < (4 * ucast (IP_hlen h) :: u64)"
      using assms(2,3) by (simp add: word_less_nat_alt)
    then show ?thesis
      using False assms(1,2)
      by (intro IPv4Header_parse_fields [where rest = rest])
        (auto simp: IPv4Header_bytes_def IPv4Header_check_def)
  qed
  have inv: "Buffer_inv (Buffer_of (IPv4Header_bytes h @ rest))"
    using len by (rule Buffer_inv_packet)
  have "unat (IPv4Header_payload_length h) = length rest"
    using assms(2,3) by (intro unat_payload_length) simp_all
  with IPv4Datagram_parse_good [OF inv] header show ?thesis by fastforce
qed

lemma ip_parse_ignores_header_verdict_example:
  "let h = IPv4Header_new\<lparr>IP_ver := 6, IP_len := 22\<rparr>
   in parses (IPv4Header_parse IPv4Header_new) (IPv4Header_bytes h @ [1, 2])
      (if IP_ver h \<noteq> 4 then WrongIPVersion else BadChecksum, h) [1, 2]
    \<and> (\<exists>pl. IPv4Datagram_parse IPv4Datagram_new (Buffer_of (IPv4Header_bytes h @ [1, 2]))
          = Inr (NoError, \<lparr>DG_header = h, DG_payload = pl\<rparr>) \<and> BufferList_concatenate pl = [1, 2])"
  unfolding Let_def
  by (rule ip_parse_ignores_header_verdict)
    (simp_all add: IPv4Header_fields_ok_def IPv4Header_new_def IPv4Header_LENGTH_def)

end
