(* ===== verification/Ethernet_Frame.thy ===== *)
theory Ethernet_Frame
  imports Net_Parser
begin

text \<open>
  Ethernet headers and frames and ARP messages, from \<^verbatim>\<open>tcp_helpers/ethernet_header\<close>,
  \<^verbatim>\<open>tcp_helpers/ethernet_frame\<close> and \<^verbatim>\<open>tcp_helpers/arp_message\<close>. Both
  formats are wire codecs; a frame shorter than a header is accepted by the frame parser.
\<close>

section \<open>EthernetHeader\<close>

text \<open>An array of six bytes: the length is an invariant of the type in C++, a side condition here.\<close>

type_synonym EthernetAddress = bytes

definition ETHERNET_BROADCAST :: EthernetAddress where
  "ETHERNET_BROADCAST = [0xff, 0xff, 0xff, 0xff, 0xff, 0xff]"

record EthernetHeader =
  EH_dst :: EthernetAddress
  EH_src :: EthernetAddress
  EH_type :: u16

definition EthernetHeader_LENGTH :: u64 where
  "EthernetHeader_LENGTH = 14"

definition TYPE_IPv4 :: u16 where
  "TYPE_IPv4 = 0x800"

definition TYPE_ARP :: u16 where
  "TYPE_ARP = 0x806"

definition EthernetHeader_new :: EthernetHeader where
  "EthernetHeader_new = \<lparr>EH_dst = replicate 6 0, EH_src = replicate 6 0, EH_type = 0\<rparr>"

definition EthernetHeader_parse :: "EthernetHeader \<Rightarrow> (ParseResult \<times> EthernetHeader) parser" where
  "EthernetHeader_parse h = (\<lambda>p0.
     if Buffer_size (NP_buffer p0) < EthernetHeader_LENGTH then returnP (PacketTooShort, h) p0
     else bindP (parse_array 6) (\<lambda>dst.
          bindP (parse_array 6) (\<lambda>src.
          bindP NetParser_u16 (\<lambda>ty.
          bindP get_errorP (\<lambda>e. returnP (e, h\<lparr>EH_dst := dst, EH_src := src, EH_type := ty\<rparr>))))) p0)"

definition EthernetHeader_serialize :: "EthernetHeader \<Rightarrow> bytes" where
  "EthernetHeader_serialize h =
     (let ret = [];
          ret = unparse_array ret (EH_dst h);
          ret = unparse_array ret (EH_src h)
      in NetUnparser_u16 ret (EH_type h))"

section \<open>EthernetFrame\<close>

record EthernetFrame =
  EF_header :: EthernetHeader
  EF_payload :: BufferList

definition EthernetFrame_new :: EthernetFrame where
  "EthernetFrame_new = \<lparr>EF_header = EthernetHeader_new, EF_payload = BufferList_default\<rparr>"

definition EthernetFrame_parse :: "EthernetFrame \<Rightarrow> Buffer \<Rightarrow> (ParseResult \<times> EthernetFrame) result" where
  "EthernetFrame_parse f buffer =
     bindR (EthernetHeader_parse (EF_header f) (NetParser_new buffer)) (\<lambda>((_, h), p).
     Inr (NP_error p, f\<lparr>EF_header := h, EF_payload := BufferList_of_Buffer (NP_buffer p)\<rparr>))"

definition EthernetFrame_serialize :: "EthernetFrame \<Rightarrow> BufferList" where
  "EthernetFrame_serialize f =
     BufferList_append (BufferList_append BufferList_default (BufferList_of_string (EthernetHeader_serialize (EF_header f))))
       (EF_payload f)"

section \<open>ARPMessage\<close>

record ARPMessage =
  hardware_type :: u16
  protocol_type :: u16
  hardware_address_size :: u8
  protocol_address_size :: u8
  opcode :: u16
  sender_ethernet_address :: EthernetAddress
  sender_ip_address :: u32
  target_ethernet_address :: EthernetAddress
  target_ip_address :: u32

definition ARPMessage_LENGTH :: u64 where
  "ARPMessage_LENGTH = 28"

definition TYPE_ETHERNET :: u16 where
  "TYPE_ETHERNET = 1"

definition OPCODE_REQUEST :: u16 where
  "OPCODE_REQUEST = 1"

definition OPCODE_REPLY :: u16 where
  "OPCODE_REPLY = 2"

definition ARPMessage_new :: ARPMessage where
  "ARPMessage_new = \<lparr>hardware_type = TYPE_ETHERNET, protocol_type = TYPE_IPv4, hardware_address_size = 6,
     protocol_address_size = 4, opcode = 0, sender_ethernet_address = replicate 6 0, sender_ip_address = 0,
     target_ethernet_address = replicate 6 0, target_ip_address = 0\<rparr>"

definition ARPMessage_supported :: "ARPMessage \<Rightarrow> bool" where
  "ARPMessage_supported m \<longleftrightarrow> hardware_type m = TYPE_ETHERNET \<and> protocol_type m = TYPE_IPv4
     \<and> hardware_address_size m = 6 \<and> protocol_address_size m = 4
     \<and> (opcode m = OPCODE_REQUEST \<or> opcode m = OPCODE_REPLY)"

definition ARPMessage_parser :: "ARPMessage \<Rightarrow> (ParseResult \<times> ARPMessage) parser" where
  "ARPMessage_parser m = (\<lambda>p0.
     if Buffer_size (NP_buffer p0) < ARPMessage_LENGTH then returnP (PacketTooShort, m) p0
     else bindP NetParser_u16 (\<lambda>ht.
          bindP NetParser_u16 (\<lambda>pt.
          bindP NetParser_u8 (\<lambda>hs.
          bindP NetParser_u8 (\<lambda>ps.
          bindP NetParser_u16 (\<lambda>oc.
          let m1 = m\<lparr>hardware_type := ht, protocol_type := pt, hardware_address_size := hs,
                     protocol_address_size := ps, opcode := oc\<rparr>
          in if \<not> ARPMessage_supported m1 then returnP (Unsupported, m1)
             else bindP (parse_array 6) (\<lambda>se.
                  bindP NetParser_u32 (\<lambda>si.
                  bindP (parse_array 6) (\<lambda>te.
                  bindP NetParser_u32 (\<lambda>ti.
                  bindP get_errorP (\<lambda>e.
                  returnP (e, m1\<lparr>sender_ethernet_address := se, sender_ip_address := si,
                                 target_ethernet_address := te, target_ip_address := ti\<rparr>))))))))))) p0)"

definition ARPMessage_parse :: "ARPMessage \<Rightarrow> Buffer \<Rightarrow> (ParseResult \<times> ARPMessage) result" where
  "ARPMessage_parse m buffer = bindR (ARPMessage_parser m (NetParser_new buffer)) (\<lambda>(r, p). Inr r)"

definition ARPMessage_serialize :: "ARPMessage \<Rightarrow> bytes result" where
  "ARPMessage_serialize m =
     (if \<not> ARPMessage_supported m
      then Inl (RuntimeError ''ARPMessage::serialize(): unsupported field combination (must be Ethernet/IP, and request or reply)'')
      else let ret = [];
               ret = NetUnparser_u16 ret (hardware_type m);
               ret = NetUnparser_u16 ret (protocol_type m);
               ret = NetUnparser_u8 ret (hardware_address_size m);
               ret = NetUnparser_u8 ret (protocol_address_size m);
               ret = NetUnparser_u16 ret (opcode m);
               ret = unparse_array ret (sender_ethernet_address m);
               ret = NetUnparser_u32 ret (sender_ip_address m);
               ret = unparse_array ret (target_ethernet_address m);
               ret = NetUnparser_u32 ret (target_ip_address m)
           in Inr ret)"

section \<open>Both are wire codecs\<close>

lemma parses_sized:
  assumes "parses m xs v ys" and "unat n \<le> length xs"
  shows "parses (\<lambda>p. if Buffer_size (NP_buffer p) < n then a p else m p) xs v ys"
  unfolding parses_def
proof (intro allI impI)
  fix p :: NetParser assume p: "parser_at p xs"
  then have "unat (Buffer_size (NP_buffer p)) = length xs" using unat_Buffer_size by (auto simp: parser_at_def)
  then have "\<not> Buffer_size (NP_buffer p) < n" using assms(2) by (simp add: word_less_nat_alt)
  then show "\<exists>p'. (if Buffer_size (NP_buffer p) < n then a p else m p) = Inr (v, p') \<and> parser_at p' ys"
    using assms(1) p by (simp add: parses_def)
qed

lemma never_throws_sized:
  assumes "never_throws m"
  shows "never_throws (\<lambda>p. if Buffer_size (NP_buffer p) < n then returnP v p else m p)"
  using assms never_throws_return [of v] by (simp add: never_throws_def)

definition address_ok :: "EthernetAddress \<Rightarrow> bool" where
  "address_ok a \<longleftrightarrow> length a = 6"

definition EthernetHeader_ok :: "EthernetHeader \<Rightarrow> bool" where
  "EthernetHeader_ok h \<longleftrightarrow> address_ok (EH_dst h) \<and> address_ok (EH_src h)"

lemma EthernetHeader_bytes: "EthernetHeader_serialize h = EH_dst h @ EH_src h @ be_bytes (EH_type h)"
  by (simp add: EthernetHeader_serialize_def NetUnparser_u16_def)

lemma EthernetHeader_parse_serialized:
  assumes "EthernetHeader_ok h"
  shows "parses (EthernetHeader_parse h0) (EthernetHeader_serialize h @ rest) (NoError, h) rest"
  unfolding EthernetHeader_parse_def EthernetHeader_bytes append_assoc
proof (rule parses_sized)
  have [simp]: "h0\<lparr>EH_dst := EH_dst h, EH_src := EH_src h, EH_type := EH_type h\<rparr> = h" by (cases h) simp
  show "parses (bindP (parse_array 6) (\<lambda>dst. bindP (parse_array 6) (\<lambda>src. bindP NetParser_u16 (\<lambda>ty.
      bindP get_errorP (\<lambda>e. returnP (e, h0\<lparr>EH_dst := dst, EH_src := src, EH_type := ty\<rparr>))))))
      (EH_dst h @ EH_src h @ be_bytes (EH_type h) @ rest) (NoError, h) rest"
    using assms parses_return [of "(NoError, h)" rest]
    by (intro parses_bind [OF parses_array] parses_bind [OF parses_u16] parses_bind [OF parses_get_error])
      (simp_all add: EthernetHeader_ok_def address_ok_def)
qed (use assms in \<open>simp add: EthernetHeader_LENGTH_def EthernetHeader_ok_def address_ok_def\<close>)

interpretation eth_wire: wire_codec "\<lambda>h rest. EthernetHeader_ok h" "\<lambda>h. Inr (EthernetHeader_serialize h)" EthernetHeader_parse
proof unfold_locales
  show "never_throws (EthernetHeader_parse h0)" for h0
    unfolding EthernetHeader_parse_def by (intro never_throws_sized never_throws_bind) auto
qed (simp add: EthernetHeader_parse_serialized)

definition ARPMessage_ok :: "ARPMessage \<Rightarrow> bool" where
  "ARPMessage_ok m \<longleftrightarrow> ARPMessage_supported m \<and> address_ok (sender_ethernet_address m)
     \<and> address_ok (target_ethernet_address m)"

definition ARPMessage_bytes :: "ARPMessage \<Rightarrow> bytes" where
  "ARPMessage_bytes m = be_bytes (hardware_type m) @ be_bytes (protocol_type m)
     @ [hardware_address_size m, protocol_address_size m] @ be_bytes (opcode m)
     @ sender_ethernet_address m @ be_bytes (sender_ip_address m)
     @ target_ethernet_address m @ be_bytes (target_ip_address m)"

lemma ARPMessage_serialize_bytes: "ARPMessage_supported m \<Longrightarrow> ARPMessage_serialize m = Inr (ARPMessage_bytes m)"
  by (simp add: ARPMessage_serialize_def ARPMessage_bytes_def NetUnparser_u8_def NetUnparser_u16_def NetUnparser_u32_def)

lemma ARPMessage_update_all:
  "m0\<lparr>hardware_type := hardware_type m, protocol_type := protocol_type m,
      hardware_address_size := hardware_address_size m, protocol_address_size := protocol_address_size m,
      opcode := opcode m, sender_ethernet_address := sender_ethernet_address m,
      sender_ip_address := sender_ip_address m, target_ethernet_address := target_ethernet_address m,
      target_ip_address := target_ip_address m\<rparr> = (m :: ARPMessage)"
  by (cases m) simp

lemma ARPMessage_supported_update:
  "ARPMessage_supported (m0\<lparr>hardware_type := hardware_type m, protocol_type := protocol_type m,
      hardware_address_size := hardware_address_size m, protocol_address_size := protocol_address_size m,
      opcode := opcode m\<rparr>) = ARPMessage_supported m"
  by (simp add: ARPMessage_supported_def)

lemma ARPMessage_parser_serialized:
  assumes "ARPMessage_ok m"
  shows "parses (ARPMessage_parser m0) (ARPMessage_bytes m @ rest) (NoError, m) rest"
  unfolding ARPMessage_parser_def ARPMessage_bytes_def append_assoc append.simps Let_def
proof (rule parses_sized, intro parses_bind [OF parses_u16] parses_bind [OF parses_u8], goal_cases)
  case 1
  have "parses (bindP (parse_array 6) (\<lambda>se. bindP NetParser_u32 (\<lambda>si. bindP (parse_array 6) (\<lambda>te.
      bindP NetParser_u32 (\<lambda>ti. bindP get_errorP (\<lambda>e. returnP (e,
        m0\<lparr>hardware_type := hardware_type m, protocol_type := protocol_type m,
           hardware_address_size := hardware_address_size m, protocol_address_size := protocol_address_size m,
           opcode := opcode m, sender_ethernet_address := se, sender_ip_address := si,
           target_ethernet_address := te, target_ip_address := ti\<rparr>)))))))
      (sender_ethernet_address m @ be_bytes (sender_ip_address m)
        @ target_ethernet_address m @ be_bytes (target_ip_address m) @ rest) (NoError, m) rest"
    using assms parses_return [of "(NoError, m)" rest]
    by (intro parses_bind [OF parses_array] parses_bind [OF parses_u32] parses_bind [OF parses_get_error])
      (simp_all add: ARPMessage_ok_def address_ok_def ARPMessage_update_all)
  then show ?case using assms by (simp add: ARPMessage_ok_def ARPMessage_supported_update)
next
  case 2
  show ?case using assms by (simp add: ARPMessage_LENGTH_def ARPMessage_ok_def address_ok_def)
qed

lemma ARPMessage_parser_total: "never_throws (ARPMessage_parser m)"
  unfolding ARPMessage_parser_def Let_def
  by (intro never_throws_sized never_throws_bind never_throws_if never_throws_return) auto

interpretation arp_wire: wire_codec "\<lambda>m rest. ARPMessage_ok m" ARPMessage_serialize ARPMessage_parser
  by unfold_locales
    (auto simp: ARPMessage_ok_def ARPMessage_serialize_bytes ARPMessage_parser_serialized ARPMessage_parser_total)


section \<open>Frames on the wire\<close>

lemma EthernetFrame_parse_good:
  assumes "EthernetHeader_ok h" and "Buffer_inv b" and "Buffer_str b = EthernetHeader_serialize h @ rest"
  shows "\<exists>pl. EthernetFrame_parse f0 b = Inr (NoError, \<lparr>EF_header = h, EF_payload = BufferList_of_Buffer pl\<rparr>)
    \<and> Buffer_inv pl \<and> Buffer_str pl = rest"
  using eth_wire.dec_buffer [OF assms(1) refl assms(2,3), of "EF_header f0"]
  by (cases f0) (auto simp: EthernetFrame_parse_def)

lemma EthernetFrame_serialize_bytes:
  "BufferList_concatenate (EthernetFrame_serialize f)
     = EthernetHeader_serialize (EF_header f) @ BufferList_concatenate (EF_payload f)"
  by (simp add: EthernetFrame_serialize_def)

lemma ARPMessage_parse_good:
  assumes "ARPMessage_ok m" and "Buffer_inv b" and "Buffer_str b = ARPMessage_bytes m @ rest"
  shows "ARPMessage_parse m0 b = Inr (NoError, m)"
  using arp_wire.dec_buffer [OF assms(1) _ assms(2,3), of m0] assms(1)
  by (auto simp: ARPMessage_parse_def ARPMessage_ok_def ARPMessage_serialize_bytes)

section \<open>Properties\<close>

text \<open>C25: an ARP message survives being put in a frame, sent and taken out: the frame parses to the
  header it was given, its payload is one buffer, and that buffer parses to the same message.\<close>

theorem arp_over_ethernet_roundtrip:
  assumes "EthernetHeader_ok h" and "ARPMessage_ok m"
    and "f = \<lparr>EF_header = h, EF_payload = BufferList_of_string (ARPMessage_bytes m)\<rparr>"
  shows "ARPMessage_serialize m = Inr (ARPMessage_bytes m)
    \<and> (\<exists>f' b. EthernetFrame_parse f0 (Buffer_of (BufferList_concatenate (EthernetFrame_serialize f))) = Inr (NoError, f')
        \<and> EF_header f' = h \<and> BufferList_to_Buffer (EF_payload f') = Inr b
        \<and> ARPMessage_parse m0 b = Inr (NoError, m))"
proof -
  let ?bs = "BufferList_concatenate (EthernetFrame_serialize f)"
  have bs: "?bs = EthernetHeader_serialize h @ ARPMessage_bytes m"
    by (simp add: EthernetFrame_serialize_bytes assms(3))
  have "Buffer_inv (Buffer_of ?bs)"
    using assms(1,2) by (simp add: bs EthernetHeader_bytes ARPMessage_bytes_def EthernetHeader_ok_def
        ARPMessage_ok_def address_ok_def)
  then obtain pl where pl: "EthernetFrame_parse f0 (Buffer_of ?bs)
      = Inr (NoError, \<lparr>EF_header = h, EF_payload = BufferList_of_Buffer pl\<rparr>)"
      "Buffer_inv pl" "Buffer_str pl = ARPMessage_bytes m"
    using EthernetFrame_parse_good [OF assms(1), of "Buffer_of ?bs"] bs by auto
  then show ?thesis
    using ARPMessage_parse_good [OF assms(2), of pl "[]"] assms(2)
    by (simp add: BufferList_to_Buffer_def BufferList_of_Buffer_def ARPMessage_ok_def ARPMessage_serialize_bytes)
qed

theorem arp_over_ethernet_roundtrip_witness:
  "let h = \<lparr>EH_dst = ETHERNET_BROADCAST, EH_src = [1, 2, 3, 4, 5, 6], EH_type = TYPE_ARP\<rparr>;
       m = ARPMessage_new\<lparr>opcode := OPCODE_REQUEST, target_ip_address := 0x0a000001\<rparr>
   in ARPMessage_serialize m = Inr (ARPMessage_bytes m)
    \<and> (\<exists>f' b. EthernetFrame_parse EthernetFrame_new (Buffer_of (BufferList_concatenate (EthernetFrame_serialize
          \<lparr>EF_header = h, EF_payload = BufferList_of_string (ARPMessage_bytes m)\<rparr>))) = Inr (NoError, f')
        \<and> EF_header f' = h \<and> BufferList_to_Buffer (EF_payload f') = Inr b
        \<and> ARPMessage_parse ARPMessage_new b = Inr (NoError, m))"
  unfolding Let_def
  by (rule arp_over_ethernet_roundtrip)
    (simp_all add: EthernetHeader_ok_def ARPMessage_ok_def address_ok_def ETHERNET_BROADCAST_def
      ARPMessage_new_def ARPMessage_supported_def TYPE_ETHERNET_def OPCODE_REQUEST_def)

text \<open>A frame too short to hold an Ethernet header is accepted: the header parser refuses it, but
  the frame parser reports no error, keeps the header it had before and takes the whole input as the
  payload.\<close>

lemma ethernet_short_frame_accepted:
  assumes "Buffer_inv b" and "length (Buffer_str b) < 14"
  shows "EthernetHeader_parse h (NetParser_new b) = Inr ((PacketTooShort, h), NetParser_new b)
    \<and> EthernetFrame_parse f b = Inr (NoError, f\<lparr>EF_payload := BufferList_of_Buffer b\<rparr>)"
proof -
  have "Buffer_size b < EthernetHeader_LENGTH"
    using assms by (simp add: word_less_nat_alt EthernetHeader_LENGTH_def unat_Buffer_size)
  then show ?thesis
    by (simp add: EthernetHeader_parse_def EthernetFrame_parse_def NetParser_new_def returnP_def)
qed

lemma ethernet_short_frame_accepted_example:
  "EthernetHeader_parse EthernetHeader_new (NetParser_new (Buffer_of [1, 2, 3]))
      = Inr ((PacketTooShort, EthernetHeader_new), NetParser_new (Buffer_of [1, 2, 3]))
    \<and> EthernetFrame_parse EthernetFrame_new (Buffer_of [1, 2, 3])
      = Inr (NoError, EthernetFrame_new\<lparr>EF_payload := BufferList_of_Buffer (Buffer_of [1, 2, 3])\<rparr>)"
  by (rule ethernet_short_frame_accepted) simp_all

end
