(* ===== verification/Network_Interface.thy ===== *)
theory Network_Interface
  imports Address IPv4_Datagram Ethernet_Frame "HOL-Library.Multiset"
begin

text \<open>
  The network interface, from \<^verbatim>\<open>network_interface.hh\<close> and
  \<^verbatim>\<open>network_interface.cc\<close>: it resolves the next hop of a datagram with ARP, keeps the
  datagrams that wait for an answer, learns and forgets address mappings, and takes datagrams out of
  frames. The invariant says that the addresses with datagrams waiting are exactly those asked for, and
  that none of them is known; with it no operation touches a missing entry and no datagram is lost.
\<close>

section \<open>The class\<close>

record NetworkInterface =
  NI_ethernet_address :: EthernetAddress
  NI_ip_address :: Address
  NI_frames_out :: "EthernetFrame list"
  NI_time_passed :: u64
  NI_ip2eth :: "u32 \<rightharpoonup> EthernetAddress \<times> u64"
  NI_not_mapped :: "u32 \<rightharpoonup> u64"
  NI_not_sent :: "u32 \<rightharpoonup> BufferList list"

definition NetworkInterface_new :: "EthernetAddress \<Rightarrow> Address \<Rightarrow> NetworkInterface" where
  "NetworkInterface_new ethernet_address ip_address =
     \<lparr>NI_ethernet_address = ethernet_address, NI_ip_address = ip_address, NI_frames_out = [], NI_time_passed = 0,
      NI_ip2eth = Map.empty, NI_not_mapped = Map.empty, NI_not_sent = Map.empty\<rparr>"

definition send_IP_v4_frame :: "NetworkInterface \<Rightarrow> EthernetAddress \<Rightarrow> BufferList \<Rightarrow> NetworkInterface" where
  "send_IP_v4_frame n dst_addr payload =
     (let frame = EthernetFrame_new\<lparr>EF_header := (EF_header EthernetFrame_new)
            \<lparr>EH_src := NI_ethernet_address n, EH_dst := dst_addr, EH_type := TYPE_IPv4\<rparr>, EF_payload := payload\<rparr>
      in n\<lparr>NI_frames_out := NI_frames_out n @ [frame]\<rparr>)"

definition send_ARP_request :: "NetworkInterface \<Rightarrow> u32 \<Rightarrow> NetworkInterface result" where
  "send_ARP_request n target_addr =
     (let frame = EthernetFrame_new\<lparr>EF_header := (EF_header EthernetFrame_new)
            \<lparr>EH_src := NI_ethernet_address n, EH_dst := ETHERNET_BROADCAST, EH_type := TYPE_ARP\<rparr>\<rparr>
      in bindR (Address_ipv4_numeric (NI_ip_address n)) (\<lambda>ip.
         let arp_msg = ARPMessage_new\<lparr>sender_ip_address := ip, sender_ethernet_address := NI_ethernet_address n,
               target_ip_address := target_addr, opcode := OPCODE_REQUEST\<rparr>
         in bindR (ARPMessage_serialize arp_msg) (\<lambda>bs.
            Inr (n\<lparr>NI_frames_out := NI_frames_out n @ [frame\<lparr>EF_payload := BufferList_of_string bs\<rparr>]\<rparr>))))"

definition send_ARP_reply :: "NetworkInterface \<Rightarrow> u32 \<Rightarrow> EthernetAddress \<Rightarrow> NetworkInterface result" where
  "send_ARP_reply n target_ip_addr target_eth_addr =
     (let frame = EthernetFrame_new\<lparr>EF_header := (EF_header EthernetFrame_new)
            \<lparr>EH_src := NI_ethernet_address n, EH_dst := target_eth_addr, EH_type := TYPE_ARP\<rparr>\<rparr>
      in bindR (Address_ipv4_numeric (NI_ip_address n)) (\<lambda>ip.
         let arp_msg = ARPMessage_new\<lparr>sender_ip_address := ip, sender_ethernet_address := NI_ethernet_address n,
               target_ip_address := target_ip_addr, target_ethernet_address := target_eth_addr, opcode := OPCODE_REPLY\<rparr>
         in bindR (ARPMessage_serialize arp_msg) (\<lambda>bs.
            Inr (n\<lparr>NI_frames_out := NI_frames_out n @ [frame\<lparr>EF_payload := BufferList_of_string bs\<rparr>]\<rparr>))))"

text \<open>Erasing through the iterator of an absent key is undefined behaviour: the error branch.\<close>

definition send_not_sent_datagrams :: "NetworkInterface \<Rightarrow> u32 \<Rightarrow> EthernetAddress \<Rightarrow> NetworkInterface result" where
  "send_not_sent_datagrams n ip_addr eth_addr =
     (case NI_not_sent n ip_addr of
        None \<Rightarrow> Inr n
      | Some bls \<Rightarrow>
          let n1 = foldl (\<lambda>n bl. send_IP_v4_frame n eth_addr bl) n bls;
              n2 = n1\<lparr>NI_not_sent := (NI_not_sent n1)(ip_addr := None)\<rparr>
          in case NI_not_mapped n2 ip_addr of
               None \<Rightarrow> Inl OutOfBounds
             | Some _ \<Rightarrow> Inr (n2\<lparr>NI_not_mapped := (NI_not_mapped n2)(ip_addr := None)\<rparr>))"

definition send_datagram :: "NetworkInterface \<Rightarrow> IPv4Datagram \<Rightarrow> Address \<Rightarrow> NetworkInterface result" where
  "send_datagram n dgram next_hop =
     bindR (Address_ipv4_numeric next_hop) (\<lambda>next_hop_ip.
     case NI_ip2eth n next_hop_ip of
       Some (eth, t) \<Rightarrow> bindR (IPv4Datagram_serialize dgram) (\<lambda>bl. Inr (send_IP_v4_frame n eth bl))
     | None \<Rightarrow>
         let it = NI_not_mapped n next_hop_ip
         in bindR (if case it of None \<Rightarrow> True | Some t \<Rightarrow> t + 5000 < NI_time_passed n
                   then send_ARP_request n next_hop_ip else Inr n) (\<lambda>n1.
            let n2 = (if it = None then n1\<lparr>NI_not_mapped := (NI_not_mapped n1)(next_hop_ip := Some (NI_time_passed n1))\<rparr> else n1)
            in bindR (IPv4Datagram_serialize dgram) (\<lambda>bl.
               let q = (case NI_not_sent n2 next_hop_ip of None \<Rightarrow> [] | Some bls \<Rightarrow> bls)
               in Inr (n2\<lparr>NI_not_sent := (NI_not_sent n2)(next_hop_ip := Some (q @ [bl]))\<rparr>))))"

definition recv_frame :: "NetworkInterface \<Rightarrow> EthernetFrame \<Rightarrow> (IPv4Datagram option \<times> NetworkInterface) result" where
  "recv_frame n frame =
     (if EH_dst (EF_header frame) = ETHERNET_BROADCAST \<or> EH_dst (EF_header frame) = NI_ethernet_address n
      then if EH_type (EF_header frame) = TYPE_ARP
           then bindR (BufferList_to_Buffer (EF_payload frame)) (\<lambda>b.
                bindR (ARPMessage_parse ARPMessage_new b) (\<lambda>(res, arp_msg).
                if res = NoError
                then let sip = sender_ip_address arp_msg; seth = sender_ethernet_address arp_msg;
                         n1 = n\<lparr>NI_ip2eth := (NI_ip2eth n)(sip := Some (seth, NI_time_passed n))\<rparr>
                     in bindR (if opcode arp_msg = OPCODE_REQUEST
                               then bindR (Address_ipv4_numeric (NI_ip_address n1)) (\<lambda>ip. Inr (target_ip_address arp_msg = ip))
                               else Inr False) (\<lambda>asked.
                        bindR (if asked then send_ARP_reply n1 sip seth else Inr n1) (\<lambda>n2.
                        bindR (send_not_sent_datagrams n2 sip seth) (\<lambda>n3. Inr (None, n3))))
                else Inr (None, n)))
           else if EH_type (EF_header frame) = TYPE_IPv4
           then bindR (BufferList_to_Buffer (EF_payload frame)) (\<lambda>b.
                bindR (IPv4Datagram_parse IPv4Datagram_new b) (\<lambda>(res, dgram).
                Inr (if res = NoError then Some dgram else None, n)))
           else Inr (None, n)
      else Inr (None, n))"

definition NetworkInterface_tick :: "NetworkInterface \<Rightarrow> u64 \<Rightarrow> NetworkInterface" where
  "NetworkInterface_tick n ms_since_last_tick =
     (let n1 = n\<lparr>NI_time_passed := NI_time_passed n + ms_since_last_tick\<rparr>
      in n1\<lparr>NI_ip2eth := (\<lambda>ip. case NI_ip2eth n1 ip of
               None \<Rightarrow> None
             | Some (eth, t) \<Rightarrow> if t + 30000 < NI_time_passed n1 then None else Some (eth, t))\<rparr>)"

section \<open>The invariant\<close>

definition NI_inv :: "u32 \<Rightarrow> NetworkInterface \<Rightarrow> bool" where
  "NI_inv ip n \<longleftrightarrow> Address_ipv4_numeric (NI_ip_address n) = Inr ip \<and> address_ok (NI_ethernet_address n)
     \<and> dom (NI_not_sent n) = dom (NI_not_mapped n) \<and> dom (NI_not_sent n) \<inter> dom (NI_ip2eth n) = {}
     \<and> finite (dom (NI_not_sent n)) \<and> (\<forall>k e t. NI_ip2eth n k = Some (e, t) \<longrightarrow> address_ok e)"

lemma NI_inv_new:
  "Address_ipv4_numeric a = Inr ip \<Longrightarrow> address_ok eth \<Longrightarrow> NI_inv ip (NetworkInterface_new eth a)"
  by (simp add: NI_inv_def NetworkInterface_new_def)

text \<open>The frames an interface makes.\<close>

definition ip_frame :: "NetworkInterface \<Rightarrow> EthernetAddress \<Rightarrow> BufferList \<Rightarrow> EthernetFrame" where
  "ip_frame n dst payload =
     \<lparr>EF_header = \<lparr>EH_dst = dst, EH_src = NI_ethernet_address n, EH_type = TYPE_IPv4\<rparr>, EF_payload = payload\<rparr>"

definition arp_frame :: "NetworkInterface \<Rightarrow> EthernetAddress \<Rightarrow> ARPMessage \<Rightarrow> EthernetFrame" where
  "arp_frame n dst m =
     \<lparr>EF_header = \<lparr>EH_dst = dst, EH_src = NI_ethernet_address n, EH_type = TYPE_ARP\<rparr>,
      EF_payload = BufferList_of_string (ARPMessage_bytes m)\<rparr>"

definition request_msg :: "NetworkInterface \<Rightarrow> u32 \<Rightarrow> u32 \<Rightarrow> ARPMessage" where
  "request_msg n ip target = ARPMessage_new\<lparr>sender_ip_address := ip, sender_ethernet_address := NI_ethernet_address n,
     target_ip_address := target, opcode := OPCODE_REQUEST\<rparr>"

definition reply_msg :: "NetworkInterface \<Rightarrow> u32 \<Rightarrow> u32 \<Rightarrow> EthernetAddress \<Rightarrow> ARPMessage" where
  "reply_msg n ip target eth = ARPMessage_new\<lparr>sender_ip_address := ip, sender_ethernet_address := NI_ethernet_address n,
     target_ip_address := target, target_ethernet_address := eth, opcode := OPCODE_REPLY\<rparr>"

lemma send_IP_v4_frame_eq: "send_IP_v4_frame n dst payload = n\<lparr>NI_frames_out := NI_frames_out n @ [ip_frame n dst payload]\<rparr>"
  by (simp add: send_IP_v4_frame_def ip_frame_def EthernetFrame_new_def EthernetHeader_new_def)

lemma arp_messages_ok:
  assumes "address_ok (NI_ethernet_address n)"
  shows "ARPMessage_ok (request_msg n ip target)" and "address_ok eth \<Longrightarrow> ARPMessage_ok (reply_msg n ip target eth)"
  using assms by (simp_all add: request_msg_def reply_msg_def ARPMessage_ok_def ARPMessage_supported_def ARPMessage_new_def
      address_ok_def OPCODE_REQUEST_def OPCODE_REPLY_def)

lemma send_ARP_request_eq:
  assumes "NI_inv ip n"
  shows "send_ARP_request n target = Inr (n\<lparr>NI_frames_out := NI_frames_out n @ [arp_frame n ETHERNET_BROADCAST (request_msg n ip target)]\<rparr>)"
  using assms ARPMessage_serialize_bytes arp_messages_ok(1) [of n ip target]
  by (simp add: send_ARP_request_def NI_inv_def Let_def arp_frame_def request_msg_def ARPMessage_ok_def EthernetFrame_new_def EthernetHeader_new_def)

lemma send_ARP_reply_eq:
  assumes "NI_inv ip n" and "address_ok eth"
  shows "send_ARP_reply n target eth = Inr (n\<lparr>NI_frames_out := NI_frames_out n @ [arp_frame n eth (reply_msg n ip target eth)]\<rparr>)"
  using assms ARPMessage_serialize_bytes arp_messages_ok(2) [of n eth ip target]
  by (simp add: send_ARP_reply_def NI_inv_def Let_def arp_frame_def reply_msg_def ARPMessage_ok_def EthernetFrame_new_def EthernetHeader_new_def)

section \<open>What each operation does\<close>

definition queue :: "NetworkInterface \<Rightarrow> u32 \<Rightarrow> BufferList list" where
  "queue n k = (case NI_not_sent n k of None \<Rightarrow> [] | Some bls \<Rightarrow> bls)"

lemma foldl_send_IP: "foldl (\<lambda>n bl. send_IP_v4_frame n eth bl) n bls = n\<lparr>NI_frames_out := NI_frames_out n @ map (ip_frame n eth) bls\<rparr>"
proof (induction bls arbitrary: n)
  case (Cons bl bls)
  have "ip_frame (n\<lparr>NI_frames_out := q\<rparr>) eth = ip_frame n eth" for q by (rule ext) (simp add: ip_frame_def)
  then show ?case using Cons by (simp add: send_IP_v4_frame_eq)
qed simp

lemma send_datagram_known:
  assumes "Address_ipv4_numeric next_hop = Inr k" and "NI_ip2eth n k = Some (eth, t)" and "IPv4Datagram_serialize d = Inr bl"
  shows "send_datagram n d next_hop = Inr (n\<lparr>NI_frames_out := NI_frames_out n @ [ip_frame n eth bl]\<rparr>)"
  using assms by (simp add: send_datagram_def send_IP_v4_frame_eq)

text \<open>Whether a request goes out now: none is outstanding, or the recorded one is more than five seconds old.\<close>

definition request_due :: "NetworkInterface \<Rightarrow> u32 \<Rightarrow> bool" where
  "request_due n k \<longleftrightarrow> (case NI_not_mapped n k of None \<Rightarrow> True | Some t \<Rightarrow> t + 5000 < NI_time_passed n)"

lemma send_datagram_unknown:
  assumes inv: "NI_inv ip n" and hop: "Address_ipv4_numeric next_hop = Inr k" and "NI_ip2eth n k = None"
    and "IPv4Datagram_serialize d = Inr bl"
  shows "send_datagram n d next_hop = Inr (n
    \<lparr>NI_frames_out := NI_frames_out n @ (if request_due n k then [arp_frame n ETHERNET_BROADCAST (request_msg n ip k)] else []),
     NI_not_mapped := (NI_not_mapped n)(k := Some (case NI_not_mapped n k of None \<Rightarrow> NI_time_passed n | Some t \<Rightarrow> t)),
     NI_not_sent := (NI_not_sent n)(k := Some (queue n k @ [bl]))\<rparr>)"
proof (cases "NI_not_mapped n k")
  case None
  then show ?thesis
    using assms send_ARP_request_eq [OF inv, of k] by (simp add: send_datagram_def request_due_def queue_def)
next
  case (Some t)
  then have "(NI_not_mapped n)(k := Some t) = NI_not_mapped n" by auto
  then show ?thesis
    using assms Some send_ARP_request_eq [OF inv, of k]
    by (cases n) (auto simp: send_datagram_def request_due_def queue_def)
qed

lemma parse_array_length: "parse_array k p = Inr (xs, p') \<Longrightarrow> length xs = k"
proof (induction k arbitrary: p xs p')
  case (Suc k)
  then show ?case by (auto simp: bindP_def returnP_def elim!: bindR_eq_InrE)
qed (simp add: returnP_def)

lemma ARPMessage_parse_addresses:
  assumes "ARPMessage_parse m0 b = Inr (NoError, m)"
  shows "address_ok (sender_ethernet_address m)" and "address_ok (target_ethernet_address m)"
  using assms
  by (auto simp: ARPMessage_parse_def ARPMessage_parser_def Let_def bindP_def returnP_def get_errorP_def address_ok_def
      elim!: bindR_eq_InrE split: if_splits) (rule parse_array_length, assumption)+

text \<open>An ARP message for this interface: learn, answer if asked, and send what was waiting.\<close>

definition for_me :: "NetworkInterface \<Rightarrow> EthernetFrame \<Rightarrow> bool" where
  "for_me n frame \<longleftrightarrow> EH_dst (EF_header frame) = ETHERNET_BROADCAST \<or> EH_dst (EF_header frame) = NI_ethernet_address n"

definition arp_learn :: "u32 \<Rightarrow> NetworkInterface \<Rightarrow> ARPMessage \<Rightarrow> NetworkInterface" where
  "arp_learn ip n m =
     (let k = sender_ip_address m; eth = sender_ethernet_address m
      in n\<lparr>NI_ip2eth := (NI_ip2eth n)(k := Some (eth, NI_time_passed n)),
           NI_frames_out := NI_frames_out n
             @ (if opcode m = OPCODE_REQUEST \<and> target_ip_address m = ip then [arp_frame n eth (reply_msg n ip k eth)] else [])
             @ map (ip_frame n eth) (queue n k),
           NI_not_sent := (NI_not_sent n)(k := None), NI_not_mapped := (NI_not_mapped n)(k := None)\<rparr>)"

lemma flush_eq:
  assumes "dom (NI_not_sent n) = dom (NI_not_mapped n)"
  shows "send_not_sent_datagrams n k eth = Inr (n\<lparr>NI_frames_out := NI_frames_out n @ map (ip_frame n eth) (queue n k),
    NI_not_sent := (NI_not_sent n)(k := None), NI_not_mapped := (NI_not_mapped n)(k := None)\<rparr>)"
proof (cases "NI_not_sent n k")
  case None
  then have "NI_not_mapped n k = None" using assms domIff [of k "NI_not_sent n"] domIff [of k "NI_not_mapped n"] by simp
  then have "(NI_not_mapped n)(k := None) = NI_not_mapped n" "(NI_not_sent n)(k := None) = NI_not_sent n" using None by auto
  then show ?thesis using None by (simp add: send_not_sent_datagrams_def queue_def)
next
  case (Some bls)
  then have "NI_not_mapped n k \<noteq> None" using assms domIff [of k "NI_not_sent n"] domIff [of k "NI_not_mapped n"] by simp
  then obtain t where "NI_not_mapped n k = Some t" by blast
  then show ?thesis using Some by (simp add: send_not_sent_datagrams_def queue_def Let_def foldl_send_IP)
qed

lemma recv_arp:
  assumes inv: "NI_inv ip n" and "for_me n frame" and "EH_type (EF_header frame) = TYPE_ARP"
    and "BufferList_to_Buffer (EF_payload frame) = Inr b" and m: "ARPMessage_parse ARPMessage_new b = Inr (NoError, m)"
  shows "recv_frame n frame = Inr (None, arp_learn ip n m)"
proof -
  let ?k = "sender_ip_address m" and ?eth = "sender_ethernet_address m"
  define n1 where "n1 = n\<lparr>NI_ip2eth := (NI_ip2eth n)(?k := Some (?eth, NI_time_passed n))\<rparr>"
  have ip: "Address_ipv4_numeric (NI_ip_address n1) = Inr ip" and dom: "dom (NI_not_sent n) = dom (NI_not_mapped n)"
    using inv by (simp_all add: NI_inv_def n1_def)
  have eth: "address_ok ?eth" by (rule ARPMessage_parse_addresses [OF m])
  define asked where "asked \<longleftrightarrow> opcode m = OPCODE_REQUEST \<and> target_ip_address m = ip"
  define n2 where "n2 = n1\<lparr>NI_frames_out := NI_frames_out n1 @ (if asked then [arp_frame n ?eth (reply_msg n ip ?k ?eth)] else [])\<rparr>"
  have reply: "(if asked then send_ARP_reply n1 ?k ?eth else Inr n1) = Inr n2"
    using ARPMessage_serialize_bytes [of "reply_msg n ip ?k ?eth"] arp_messages_ok(2) [of n ?eth ip ?k] inv eth ip
    by (cases n) (auto simp: n2_def n1_def send_ARP_reply_def Let_def arp_frame_def reply_msg_def ARPMessage_ok_def
        EthernetFrame_new_def EthernetHeader_new_def NI_inv_def)
  have flush: "send_not_sent_datagrams n2 ?k ?eth = Inr (arp_learn ip n m)"
    using flush_eq [of n2 ?k ?eth] dom
    by (simp add: n2_def n1_def arp_learn_def Let_def asked_def queue_def ip_frame_def)
  have ask: "(if opcode m = OPCODE_REQUEST then bindR (Address_ipv4_numeric (NI_ip_address n1)) (\<lambda>ip. Inr (target_ip_address m = ip))
      else Inr False) = (Inr asked :: bool result)"
    unfolding ip by (simp add: asked_def)
  show ?thesis
    by (simp only: recv_frame_def assms(2) [unfolded for_me_def] assms(3,4) m bindR.simps prod.case Let_def
        n1_def [symmetric] ask reply flush if_True simp_thms)
qed

lemma NI_inv_frames [simp]: "NI_inv ip (n\<lparr>NI_frames_out := fs\<rparr>) = NI_inv ip n"
  by (simp add: NI_inv_def)

lemma NI_inv_wait:
  assumes "NI_inv ip n" and "NI_ip2eth n k = None"
  shows "NI_inv ip (n\<lparr>NI_not_mapped := (NI_not_mapped n)(k := Some t), NI_not_sent := (NI_not_sent n)(k := Some q)\<rparr>)"
  using assms by (auto simp: NI_inv_def)

lemma NI_inv_learn:
  assumes "NI_inv ip n" and "address_ok (sender_ethernet_address m)"
  shows "NI_inv ip (arp_learn ip n m)"
  using assms by (auto simp: NI_inv_def arp_learn_def Let_def)

lemma NI_inv_tick:
  assumes "NI_inv ip n"
  shows "NI_inv ip (NetworkInterface_tick n ms)"
proof -
  let ?n = "NetworkInterface_tick n ms"
  have kept: "NI_ip2eth ?n k = Some (e, t) \<Longrightarrow> NI_ip2eth n k = Some (e, t)" for k e t
    by (auto simp: NetworkInterface_tick_def Let_def split: option.splits if_splits)
  then have "dom (NI_ip2eth ?n) \<subseteq> dom (NI_ip2eth n)" by auto
  then have "dom (NI_not_sent n) \<inter> dom (NI_ip2eth ?n) = {}" using assms unfolding NI_inv_def by blast
  moreover have "\<forall>k e t. NI_ip2eth ?n k = Some (e, t) \<longrightarrow> address_ok e"
    using assms kept unfolding NI_inv_def by blast
  moreover have "NI_ip_address ?n = NI_ip_address n" "NI_ethernet_address ?n = NI_ethernet_address n"
    "NI_not_sent ?n = NI_not_sent n" "NI_not_mapped ?n = NI_not_mapped n"
    by (simp_all add: NetworkInterface_tick_def Let_def)
  ultimately show ?thesis using assms unfolding NI_inv_def by simp
qed

text \<open>A frame as it comes from the wire: its payload is one buffer.\<close>

definition frame_ok :: "EthernetFrame \<Rightarrow> bool" where
  "frame_ok f \<longleftrightarrow> (\<exists>b. EF_payload f = BufferList_of_Buffer b \<and> Buffer_inv b)"

lemma recv_frame_cases:
  assumes inv: "NI_inv ip n" and ok: "frame_ok frame"
  obtains (same) r where "recv_frame n frame = Inr (r, n)"
    | (learn) m where "recv_frame n frame = Inr (None, arp_learn ip n m)" "address_ok (sender_ethernet_address m)"
proof -
  obtain b where b: "EF_payload frame = BufferList_of_Buffer b" "Buffer_inv b" using ok by (auto simp: frame_ok_def)
  then have to_b: "BufferList_to_Buffer (EF_payload frame) = Inr b"
    by (simp add: BufferList_to_Buffer_def BufferList_of_Buffer_def)
  have np: "Buffer_inv (NP_buffer (NetParser_new b))" using b(2) by (simp add: NetParser_new_def)
  obtain res m where m: "ARPMessage_parse ARPMessage_new b = Inr (res, m)"
    using ARPMessage_parser_total [of ARPMessage_new, unfolded never_throws_def, rule_format, OF np]
    by (auto simp: ARPMessage_parse_def)
  obtain r h p where "IPv4Header_parse (DG_header IPv4Datagram_new) (NetParser_new b) = Inr ((r, h), p)"
    using ip_wire.dec_any [OF b(2)] by blast
  then have "\<exists>res' d. IPv4Datagram_parse IPv4Datagram_new b = Inr (res', d)"
    by (simp add: IPv4Datagram_parse_def Let_def)
  then obtain res' d where d: "IPv4Datagram_parse IPv4Datagram_new b = Inr (res', d)" by blast
  show ?thesis
  proof (cases "for_me n frame \<and> EH_type (EF_header frame) = TYPE_ARP \<and> res = NoError")
    case True
    then show ?thesis
      using learn recv_arp [OF inv _ _ to_b] ARPMessage_parse_addresses(1) m by blast
  next
    case False
    then have "\<exists>r. recv_frame n frame = Inr (r, n)"
      using to_b m d unfolding recv_frame_def for_me_def
      by (cases "EH_type (EF_header frame) = TYPE_ARP") (auto simp: TYPE_ARP_def TYPE_IPv4_def)
    then show ?thesis using same by blast
  qed
qed

section \<open>No datagram is lost\<close>

definition waiting :: "NetworkInterface \<Rightarrow> BufferList multiset" where
  "waiting n = (\<Sum>k \<in> dom (NI_not_sent n). mset (queue n k))"

definition ip_payloads :: "EthernetFrame list \<Rightarrow> BufferList multiset" where
  "ip_payloads fs = mset (map EF_payload (filter (\<lambda>f. EH_type (EF_header f) = TYPE_IPv4) fs))"

lemma ip_payloads_append [simp]: "ip_payloads (fs @ gs) = ip_payloads fs + ip_payloads gs"
  by (simp add: ip_payloads_def)

lemma ip_payloads_made [simp]:
  "ip_payloads [] = {#}" "ip_payloads [arp_frame n eth m] = {#}" "ip_payloads [ip_frame n eth bl] = {#bl#}"
  "ip_payloads (map (ip_frame n eth) bls) = mset bls"
  by (simp_all add: ip_payloads_def arp_frame_def ip_frame_def TYPE_ARP_def TYPE_IPv4_def comp_def)

lemma waiting_over:
  assumes "finite A" and "dom (NI_not_sent n) \<subseteq> A"
  shows "waiting n = (\<Sum>k \<in> A. mset (queue n k))"
  unfolding waiting_def
  by (rule sum.mono_neutral_left [OF assms]) (auto simp: queue_def split: option.splits)

lemma waiting_update:
  assumes "finite (dom (NI_not_sent n))" and "NI_not_sent n' = (NI_not_sent n)(k := v)"
  shows "waiting n' + mset (queue n k) = waiting n + mset (case v of None \<Rightarrow> [] | Some q \<Rightarrow> q)"
proof -
  let ?A = "insert k (dom (NI_not_sent n))"
  have fin: "finite ?A" "finite (?A - {k})" using assms(1) by simp_all
  have sub: "dom (NI_not_sent n') \<subseteq> ?A" "dom (NI_not_sent n) \<subseteq> ?A" using assms(2) by (auto split: if_splits)
  have same: "queue n' j = queue n j" if "j \<in> ?A - {k}" for j using that assms(2) by (simp add: queue_def)
  have "queue n' k = (case v of None \<Rightarrow> [] | Some q \<Rightarrow> q)" using assms(2) by (simp add: queue_def)
  then have "waiting n' = mset (case v of None \<Rightarrow> [] | Some q \<Rightarrow> q) + (\<Sum>j \<in> ?A - {k}. mset (queue n j))"
    using waiting_over [OF fin(1) sub(1)] sum.remove [OF fin(1), of k "\<lambda>j. mset (queue n' j)"] same by simp
  moreover have "waiting n = mset (queue n k) + (\<Sum>j \<in> ?A - {k}. mset (queue n j))"
    using waiting_over [OF fin(1) sub(2)] sum.remove [OF fin(1), of k "\<lambda>j. mset (queue n j)"] by simp
  ultimately show ?thesis by simp
qed

datatype iface_op = SendDgram IPv4Datagram Address | RecvFrame EthernetFrame | TickIface u64 | TakeFrames nat

text \<open>A step yields the datagrams, serialized, that were handed over for sending and the frames taken.\<close>

fun iface_step :: "iface_op \<Rightarrow> NetworkInterface \<Rightarrow> (BufferList list \<times> EthernetFrame list \<times> NetworkInterface) result" where
  "iface_step (SendDgram d a) n = bindR (send_datagram n d a) (\<lambda>n'.
     Inr (case IPv4Datagram_serialize d of Inr bl \<Rightarrow> [bl] | Inl e \<Rightarrow> [], [], n'))"
| "iface_step (RecvFrame f) n = bindR (recv_frame n f) (\<lambda>(d, n'). Inr ([], [], n'))"
| "iface_step (TickIface ms) n = Inr ([], [], NetworkInterface_tick n ms)"
| "iface_step (TakeFrames k) n = Inr ([], take k (NI_frames_out n), n\<lparr>NI_frames_out := drop k (NI_frames_out n)\<rparr>)"

fun iface_run :: "iface_op list \<Rightarrow> NetworkInterface \<Rightarrow> (BufferList list \<times> EthernetFrame list \<times> NetworkInterface) result" where
  "iface_run [] n = Inr ([], [], n)"
| "iface_run (op # ops) n = bindR (iface_step op n) (\<lambda>(given, taken, n1).
     bindR (iface_run ops n1) (\<lambda>(given', taken', n2). Inr (given @ given', taken @ taken', n2)))"

fun iface_op_ok :: "iface_op \<Rightarrow> bool" where
  "iface_op_ok (SendDgram d a) \<longleftrightarrow> (\<exists>bl. IPv4Datagram_serialize d = Inr bl) \<and> (\<exists>k. Address_ipv4_numeric a = Inr k)"
| "iface_op_ok (RecvFrame f) \<longleftrightarrow> frame_ok f"
| "iface_op_ok _ \<longleftrightarrow> True"

lemma waiting_frames [simp]: "waiting (n\<lparr>NI_frames_out := fs\<rparr>) = waiting n"
  by (simp add: waiting_def queue_def)

lemma iface_step_ok:
  assumes inv: "NI_inv ip n" and op: "iface_op_ok op"
  shows "\<exists>given taken n'. iface_step op n = Inr (given, taken, n') \<and> NI_inv ip n'
    \<and> mset given + ip_payloads (NI_frames_out n) + waiting n = ip_payloads taken + ip_payloads (NI_frames_out n') + waiting n'"
proof (cases op)
  case (SendDgram d a)
  then obtain bl k where s: "IPv4Datagram_serialize d = Inr bl" "Address_ipv4_numeric a = Inr k" using op by auto
  have fin: "finite (dom (NI_not_sent n))" using inv by (simp add: NI_inv_def)
  show ?thesis
  proof (cases "NI_ip2eth n k")
    case None
    let ?n = "n\<lparr>NI_not_mapped := (NI_not_mapped n)(k := Some (case NI_not_mapped n k of None \<Rightarrow> NI_time_passed n | Some t \<Rightarrow> t)),
       NI_not_sent := (NI_not_sent n)(k := Some (queue n k @ [bl]))\<rparr>"
    have "waiting ?n + mset (queue n k) = waiting n + mset (queue n k @ [bl])"
      using waiting_update [OF fin, of ?n k "Some (queue n k @ [bl])"] by simp
    then have w: "waiting ?n = add_mset bl (waiting n)" by simp
    let ?fs = "if request_due n k then [arp_frame n ETHERNET_BROADCAST (request_msg n ip k)] else []"
    have "send_datagram n d a = Inr (?n\<lparr>NI_frames_out := NI_frames_out n @ ?fs\<rparr>)"
      using send_datagram_unknown [OF inv s(2) None s(1)] by simp
    moreover have "ip_payloads ?fs = {#}" by simp
    ultimately show ?thesis
      using NI_inv_wait [OF inv None] w s(1) SendDgram
      by (intro exI [of _ "[bl]"] exI [of _ "[]"] exI [of _ "?n\<lparr>NI_frames_out := NI_frames_out n @ ?fs\<rparr>"]) simp
  next
    case (Some et)
    then show ?thesis
      using send_datagram_known [OF s(2) _ s(1), of n "fst et" "snd et"] inv s(1) SendDgram by simp
  qed
next
  case (RecvFrame f)
  then have "frame_ok f" using op by simp
  with inv show ?thesis
  proof (cases rule: recv_frame_cases)
    case (same r)
    then show ?thesis using RecvFrame inv by simp
  next
    case (learn m)
    let ?k = "sender_ip_address m" and ?n = "arp_learn ip n m"
    have fin: "finite (dom (NI_not_sent n))" using inv by (simp add: NI_inv_def)
    have w: "waiting n = waiting ?n + mset (queue n ?k)"
      using waiting_update [OF fin, of ?n ?k None] by (simp add: arp_learn_def Let_def)
    have "ip_payloads (NI_frames_out ?n) = ip_payloads (NI_frames_out n) + mset (queue n ?k)"
      by (simp add: arp_learn_def Let_def)
    then have "ip_payloads (NI_frames_out n) + waiting n = ip_payloads (NI_frames_out ?n) + waiting ?n"
      unfolding w by (simp only: ac_simps)
    then show ?thesis
      using RecvFrame learn(1) NI_inv_learn [OF inv learn(2)]
      by (intro exI [of _ "[]"] exI [of _ ?n]) simp
  qed
next
  case (TickIface ms)
  have "waiting (NetworkInterface_tick n ms) = waiting n"
    by (simp add: waiting_def queue_def NetworkInterface_tick_def Let_def)
  then show ?thesis using TickIface NI_inv_tick [OF inv] by (simp add: NetworkInterface_tick_def Let_def)
next
  case (TakeFrames k)
  then show ?thesis
    using inv ip_payloads_append [of "take k (NI_frames_out n)" "drop k (NI_frames_out n)"] by simp
qed

lemma iface_run_ok:
  assumes "NI_inv ip n" and "list_all iface_op_ok ops"
  shows "\<exists>given taken n'. iface_run ops n = Inr (given, taken, n') \<and> NI_inv ip n'
    \<and> mset given + ip_payloads (NI_frames_out n) + waiting n = ip_payloads taken + ip_payloads (NI_frames_out n') + waiting n'"
  using assms
proof (induction ops arbitrary: n)
  case (Cons op ops)
  then obtain given taken n1 where a: "iface_step op n = Inr (given, taken, n1)" "NI_inv ip n1"
    "mset given + ip_payloads (NI_frames_out n) + waiting n = ip_payloads taken + ip_payloads (NI_frames_out n1) + waiting n1"
    using iface_step_ok [of ip n op] by auto
  from Cons.IH [OF a(2)] Cons.prems(2) obtain given' taken' n2 where
    b: "iface_run ops n1 = Inr (given', taken', n2)" "NI_inv ip n2"
      "mset given' + ip_payloads (NI_frames_out n1) + waiting n1 = ip_payloads taken' + ip_payloads (NI_frames_out n2) + waiting n2"
    by auto
  have "mset (given @ given') + ip_payloads (NI_frames_out n) + waiting n
      = ip_payloads (taken @ taken') + ip_payloads (NI_frames_out n2) + waiting n2"
    using a(3) b(3) by (simp add: ac_simps)
  then show ?case using a(1) b(1,2) by auto
qed simp

section \<open>Over the wire\<close>

definition wire :: "EthernetFrame \<Rightarrow> (ParseResult \<times> EthernetFrame) result" where
  "wire f = EthernetFrame_parse EthernetFrame_new (Buffer_of (BufferList_concatenate (EthernetFrame_serialize f)))"

lemma wire_ok:
  assumes "EthernetHeader_ok (EF_header f)" and "length (BufferList_concatenate (EF_payload f)) < 65536"
  obtains pl where "wire f = Inr (NoError, \<lparr>EF_header = EF_header f, EF_payload = BufferList_of_Buffer pl\<rparr>)"
    "Buffer_inv pl" "Buffer_str pl = BufferList_concatenate (EF_payload f)"
proof -
  have "Buffer_inv (Buffer_of (BufferList_concatenate (EthernetFrame_serialize f)))"
    using assms by (simp add: Buffer_inv_def Buffer_of_def EthernetFrame_serialize_bytes EthernetHeader_bytes
        EthernetHeader_ok_def address_ok_def)
  then show ?thesis
    using EthernetFrame_parse_good [OF assms(1), of "Buffer_of (BufferList_concatenate (EthernetFrame_serialize f))"] that
    by (auto simp: wire_def EthernetFrame_serialize_bytes)
qed

lemma to_Buffer_one [simp]: "BufferList_to_Buffer (BufferList_of_Buffer b) = Inr b"
  by (simp add: BufferList_to_Buffer_def BufferList_of_Buffer_def)

lemma broadcast_ok [simp]: "address_ok ETHERNET_BROADCAST"
  by (simp add: address_ok_def ETHERNET_BROADCAST_def)

text \<open>An ARP frame sent by one interface and received by another that it is meant for.\<close>

lemma arp_over_wire:
  assumes inv: "NI_inv ip n" and src: "address_ok (NI_ethernet_address s)" "address_ok dst" and m: "ARPMessage_ok m"
    and dst: "dst = ETHERNET_BROADCAST \<or> dst = NI_ethernet_address n"
  shows "\<exists>f. wire (arp_frame s dst m) = Inr (NoError, f) \<and> recv_frame n f = Inr (None, arp_learn ip n m)"
proof -
  let ?f = "arp_frame s dst m"
  have len: "BufferList_concatenate (EF_payload ?f) = ARPMessage_bytes m" by (simp add: arp_frame_def)
  have "EthernetHeader_ok (EF_header ?f)" using src by (simp add: EthernetHeader_ok_def arp_frame_def)
  moreover have "length (BufferList_concatenate (EF_payload ?f)) < 65536"
    using m by (simp add: len ARPMessage_bytes_def ARPMessage_ok_def address_ok_def)
  ultimately obtain pl where pl: "wire ?f = Inr (NoError, \<lparr>EF_header = EF_header ?f, EF_payload = BufferList_of_Buffer pl\<rparr>)"
    "Buffer_inv pl" "Buffer_str pl = ARPMessage_bytes m" by (rule wire_ok) (simp only: len)
  have "ARPMessage_parse ARPMessage_new pl = Inr (NoError, m)"
    using ARPMessage_parse_good [OF m pl(2), of "[]"] pl(3) by simp
  then show ?thesis
    using pl(1) dst
    by (intro exI [of _ "\<lparr>EF_header = EF_header ?f, EF_payload = BufferList_of_Buffer pl\<rparr>"] conjI recv_arp [OF inv])
      (auto simp: for_me_def arp_frame_def)
qed

text \<open>A datagram with three bytes of payload, for use as an example.\<close>

definition example_dgram :: IPv4Datagram where
  "example_dgram = \<lparr>DG_header = IPv4Header_new\<lparr>IP_len := 23, IP_src := 7, IP_dst := 9\<rparr>, DG_payload = BufferList_of_string [1, 2, 3]\<rparr>"

lemma example_dgram_ok:
  "IPv4Header_for (DG_header example_dgram) (BufferList_concatenate (DG_payload example_dgram))"
  "BufferList_inv (DG_payload example_dgram)"
  by (simp_all add: example_dgram_def IPv4Header_for_def IPv4Header_fields_ok_def IPv4Header_new_def IPv4Header_LENGTH_def
      BufferList_inv_def BufferList_of_string_def BufferList_append_def BufferList_default_def
      BufferList_of_Buffer_def BufferList_concatenate_def)

lemma example_dgram_serializes: "\<exists>bl. IPv4Datagram_serialize example_dgram = Inr bl"
  using IPv4Datagram_serialize_bytes [OF example_dgram_ok] by blast

section \<open>Properties\<close>

text \<open>C8: an interface loses no datagram and never touches a missing entry: over every sequence of
  sends, received frames, ticks and taken frames, the datagrams handed over are exactly those in the
  frames put out and those waiting; an address is waited for exactly when a request for it is recorded,
  and never when its mapping is known.\<close>

theorem interface_conserves:
  assumes "Address_ipv4_numeric a = Inr ip" and "address_ok eth" and "list_all iface_op_ok ops"
  shows "\<exists>given taken n. iface_run ops (NetworkInterface_new eth a) = Inr (given, taken, n)
    \<and> mset given = ip_payloads (taken @ NI_frames_out n) + waiting n
    \<and> dom (NI_not_sent n) = dom (NI_not_mapped n) \<and> dom (NI_not_sent n) \<inter> dom (NI_ip2eth n) = {}"
proof -
  let ?n = "NetworkInterface_new eth a"
  have "waiting ?n = {#}" "NI_frames_out ?n = []" by (simp_all add: waiting_def NetworkInterface_new_def)
  then show ?thesis
    using iface_run_ok [OF NI_inv_new [OF assms(1,2)] assms(3)] by (auto simp: NI_inv_def)
qed

theorem interface_conserves_witness:
  "\<exists>given taken n. iface_run [SendDgram example_dgram (ipv4_address 9), TickIface 6000, SendDgram example_dgram (ipv4_address 9), TakeFrames 1]
       (NetworkInterface_new [2, 0, 0, 0, 0, 1] (ipv4_address 7)) = Inr (given, taken, n)
    \<and> mset given = ip_payloads (taken @ NI_frames_out n) + waiting n
    \<and> dom (NI_not_sent n) = dom (NI_not_mapped n) \<and> dom (NI_not_sent n) \<inter> dom (NI_ip2eth n) = {}"
  by (rule interface_conserves) (simp_all add: address_ok_def example_dgram_serializes)

text \<open>C30: address resolution over the wire: a datagram for a neighbour whose address is unknown makes
  the interface broadcast a request; the neighbour learns the sender and answers; the answer releases
  the datagram; and the neighbour takes it out of the frame with its header, checksum filled in, and
  its payload unchanged. Every frame crosses the wire as bytes.\<close>

theorem arp_resolution_delivers:
  assumes A: "NI_inv ipA a" and B: "NI_inv ipB b" and hop: "Address_ipv4_numeric hopB = Inr ipB"
    and unknown: "NI_ip2eth a ipB = None" "NI_not_sent a ipB = None" and idle: "NI_not_sent b ipA = None"
    and d: "IPv4Header_for (DG_header d) (BufferList_concatenate (DG_payload d))" "BufferList_inv (DG_payload d)"
  shows "\<exists>a1 b1 a2 b2 f1 f2 f3 g1 g2 g3 d'.
     send_datagram a d hopB = Inr a1 \<and> NI_frames_out a1 = NI_frames_out a @ [f1]
   \<and> wire f1 = Inr (NoError, g1) \<and> recv_frame b g1 = Inr (None, b1) \<and> NI_frames_out b1 = NI_frames_out b @ [f2]
   \<and> wire f2 = Inr (NoError, g2) \<and> recv_frame a1 g2 = Inr (None, a2) \<and> NI_frames_out a2 = NI_frames_out a1 @ [f3]
   \<and> wire f3 = Inr (NoError, g3) \<and> recv_frame b1 g3 = Inr (Some d', b2)
   \<and> DG_header d' = (DG_header d)\<lparr>IP_cksum := IPv4Header_checksum (DG_header d)\<rparr>
   \<and> BufferList_concatenate (DG_payload d') = BufferList_concatenate (DG_payload d)"
proof -
  obtain bl where bl: "IPv4Datagram_serialize d = Inr bl" "length (BufferList_concatenate bl) < 65536"
    "\<forall>b d0. Buffer_inv b \<and> Buffer_str b = BufferList_concatenate bl \<longrightarrow>
      (\<exists>pl. IPv4Datagram_parse d0 b
          = Inr (NoError, \<lparr>DG_header = (DG_header d)\<lparr>IP_cksum := IPv4Header_checksum (DG_header d)\<rparr>, DG_payload = pl\<rparr>)
        \<and> BufferList_inv pl \<and> BufferList_concatenate pl = BufferList_concatenate (DG_payload d))"
    by (rule IPv4Datagram_wire [OF d])
  have eths: "address_ok (NI_ethernet_address a)" "address_ok (NI_ethernet_address b)" using A B by (simp_all add: NI_inv_def)
  have fresh: "NI_not_mapped a ipB = None"
    using A unknown(2) domIff [of ipB "NI_not_sent a"] domIff [of ipB "NI_not_mapped a"] by (simp add: NI_inv_def)
  let ?q = "request_msg a ipA ipB" and ?r = "reply_msg b ipB ipA (NI_ethernet_address a)"
  define a0 where "a0 = a\<lparr>NI_not_mapped := (NI_not_mapped a)(ipB := Some (NI_time_passed a)), NI_not_sent := (NI_not_sent a)(ipB := Some [bl])\<rparr>"
  define a1 where "a1 = a0\<lparr>NI_frames_out := NI_frames_out a @ [arp_frame a ETHERNET_BROADCAST ?q]\<rparr>"
  have send: "send_datagram a d hopB = Inr a1"
    using send_datagram_unknown [OF A hop unknown(1) bl(1)] fresh unknown(2) by (simp add: a1_def a0_def request_due_def queue_def)
  have a1: "NI_inv ipA a1" using NI_inv_wait [OF A unknown(1)] by (simp add: a1_def a0_def)
  obtain g1 where g1: "wire (arp_frame a ETHERNET_BROADCAST ?q) = Inr (NoError, g1)" "recv_frame b g1 = Inr (None, arp_learn ipB b ?q)"
    using arp_over_wire [OF B eths(1) broadcast_ok arp_messages_ok(1) [OF eths(1)]] by blast
  define b1 where "b1 = arp_learn ipB b ?q"
  have b1: "NI_frames_out b1 = NI_frames_out b @ [arp_frame b (NI_ethernet_address a) ?r]" "NI_ethernet_address b1 = NI_ethernet_address b"
    using idle by (simp_all add: b1_def arp_learn_def Let_def request_msg_def queue_def)
  obtain g2 where g2: "wire (arp_frame b (NI_ethernet_address a) ?r) = Inr (NoError, g2)" "recv_frame a1 g2 = Inr (None, arp_learn ipA a1 ?r)"
    using arp_over_wire [OF a1 eths(2,1) arp_messages_ok(2) [OF eths(2,1)]] by (auto simp: a1_def a0_def)
  define f3 where "f3 = ip_frame a (NI_ethernet_address b) bl"
  have a2: "NI_frames_out (arp_learn ipA a1 ?r) = NI_frames_out a1 @ [f3]"
    by (simp add: arp_learn_def Let_def reply_msg_def queue_def a1_def a0_def f3_def ip_frame_def OPCODE_REPLY_def OPCODE_REQUEST_def)
  have "EthernetHeader_ok (EF_header f3)" "length (BufferList_concatenate (EF_payload f3)) < 65536"
    using eths bl(2) by (simp_all add: f3_def ip_frame_def EthernetHeader_ok_def)
  then obtain pl where pl: "wire f3 = Inr (NoError, \<lparr>EF_header = EF_header f3, EF_payload = BufferList_of_Buffer pl\<rparr>)"
    "Buffer_inv pl" "Buffer_str pl = BufferList_concatenate (EF_payload f3)" by (rule wire_ok)
  obtain d' where d': "IPv4Datagram_parse IPv4Datagram_new pl = Inr (NoError, d')"
    "DG_header d' = (DG_header d)\<lparr>IP_cksum := IPv4Header_checksum (DG_header d)\<rparr>"
    "BufferList_concatenate (DG_payload d') = BufferList_concatenate (DG_payload d)"
    using bl(3) [rule_format, of pl IPv4Datagram_new] pl(2,3) by (auto simp: f3_def ip_frame_def)
  have "recv_frame b1 \<lparr>EF_header = EF_header f3, EF_payload = BufferList_of_Buffer pl\<rparr> = Inr (Some d', b1)"
    using d'(1) b1(2) by (simp add: recv_frame_def f3_def ip_frame_def TYPE_ARP_def TYPE_IPv4_def)
  then show ?thesis using send g1 g2 a2 b1(1) pl(1) d'(2,3) unfolding b1_def a1_def by (fastforce simp: a0_def)
qed

theorem arp_resolution_delivers_witness:
  "let a = NetworkInterface_new [2, 0, 0, 0, 0, 1] (ipv4_address 7); b = NetworkInterface_new [2, 0, 0, 0, 0, 2] (ipv4_address 9);
       d = example_dgram
   in \<exists>a1 b1 a2 b2 f1 f2 f3 g1 g2 g3 d'.
     send_datagram a d (ipv4_address 9) = Inr a1 \<and> NI_frames_out a1 = NI_frames_out a @ [f1]
   \<and> wire f1 = Inr (NoError, g1) \<and> recv_frame b g1 = Inr (None, b1) \<and> NI_frames_out b1 = NI_frames_out b @ [f2]
   \<and> wire f2 = Inr (NoError, g2) \<and> recv_frame a1 g2 = Inr (None, a2) \<and> NI_frames_out a2 = NI_frames_out a1 @ [f3]
   \<and> wire f3 = Inr (NoError, g3) \<and> recv_frame b1 g3 = Inr (Some d', b2)
   \<and> DG_header d' = (DG_header d)\<lparr>IP_cksum := IPv4Header_checksum (DG_header d)\<rparr>
   \<and> BufferList_concatenate (DG_payload d') = BufferList_concatenate (DG_payload d)"
  unfolding Let_def
  by (rule arp_resolution_delivers [where ipA = 7 and ipB = 9])
    (simp_all add: NI_inv_new address_ok_def example_dgram_ok, simp_all add: NetworkInterface_new_def)

text \<open>When a request has gone unanswered for more than five seconds, every further datagram sends
  another one: the time of the request is recorded once and not refreshed when it is repeated.\<close>

lemma arp_request_repeats:
  assumes "NI_inv ip n" and "Address_ipv4_numeric hop = Inr k" and "NI_not_mapped n k = Some t"
    and "t + 5000 < NI_time_passed n" and "IPv4Datagram_serialize d = Inr bl" and "IPv4Datagram_serialize d' = Inr bl'"
  shows "\<exists>n1 n2. send_datagram n d hop = Inr n1 \<and> send_datagram n1 d' hop = Inr n2
    \<and> NI_not_mapped n2 k = Some t
    \<and> NI_frames_out n2 = NI_frames_out n @ replicate 2 (arp_frame n ETHERNET_BROADCAST (request_msg n ip k))"
proof -
  have known: "NI_ip2eth n k = None"
    using assms(1,3) unfolding NI_inv_def by (metis (mono_tags, lifting) IntI domIff empty_iff option.distinct(1))
  let ?f = "arp_frame n ETHERNET_BROADCAST (request_msg n ip k)"
  let ?n = "n\<lparr>NI_not_mapped := (NI_not_mapped n)(k := Some t), NI_not_sent := (NI_not_sent n)(k := Some (queue n k @ [bl]))\<rparr>"
  let ?n1 = "?n\<lparr>NI_frames_out := NI_frames_out n @ [?f]\<rparr>"
  have n1: "send_datagram n d hop = Inr ?n1"
    using send_datagram_unknown [OF assms(1,2) known assms(5)] assms(3,4) by (simp add: request_due_def)
  have "NI_inv ip ?n1" using NI_inv_wait [OF assms(1) known] by simp
  from send_datagram_unknown [OF this assms(2) _ assms(6)] known assms(4) show ?thesis
    using n1 by (auto simp: request_due_def arp_frame_def request_msg_def numeral_2_eq_2)
qed

lemma arp_request_repeats_example:
  "let n = (NetworkInterface_new [2, 0, 0, 0, 0, 1] (ipv4_address 7))
         \<lparr>NI_time_passed := 6000, NI_not_mapped := [9 \<mapsto> 0], NI_not_sent := [9 \<mapsto> []]\<rparr>
   in \<exists>n1 n2. send_datagram n example_dgram (ipv4_address 9) = Inr n1 \<and> send_datagram n1 example_dgram (ipv4_address 9) = Inr n2
    \<and> NI_not_mapped n2 9 = Some 0
    \<and> NI_frames_out n2 = NI_frames_out n @ replicate 2 (arp_frame n ETHERNET_BROADCAST (request_msg n 7 9))"
proof -
  let ?n = "(NetworkInterface_new [2, 0, 0, 0, 0, 1] (ipv4_address 7))
         \<lparr>NI_time_passed := 6000, NI_not_mapped := [9 \<mapsto> 0], NI_not_sent := [9 \<mapsto> []]\<rparr>"
  obtain bl where bl: "IPv4Datagram_serialize example_dgram = Inr bl" using example_dgram_serializes by blast
  have "NI_inv 7 ?n" by (simp add: NI_inv_def NetworkInterface_new_def address_ok_def)
  from arp_request_repeats [OF this, of "ipv4_address 9" 9 0, OF _ _ _ bl bl] show ?thesis by (simp add: Let_def)
qed

end
