(* ===== verification/Router.thy ===== *)
theory Router
  imports Network_Interface
begin

text \<open>
  The router, from \<^verbatim>\<open>router.hh\<close> and \<^verbatim>\<open>router.cc\<close>: a vector of network
  interfaces that queue what they receive, a table of routes, and longest-prefix-match forwarding between
  the interfaces.
\<close>

unbundle bit_operations_syntax

section \<open>The classes\<close>

record AsyncNetworkInterface =
  AI_base :: NetworkInterface
  AI_datagrams_out :: "IPv4Datagram list"

definition AsyncNetworkInterface_of :: "NetworkInterface \<Rightarrow> AsyncNetworkInterface" where
  "AsyncNetworkInterface_of n = \<lparr>AI_base = n, AI_datagrams_out = []\<rparr>"

definition AsyncNetworkInterface_recv_frame :: "AsyncNetworkInterface \<Rightarrow> EthernetFrame \<Rightarrow> AsyncNetworkInterface result" where
  "AsyncNetworkInterface_recv_frame a frame =
     bindR (recv_frame (AI_base a) frame) (\<lambda>(optional_dgram, n).
     Inr (case optional_dgram of
            None \<Rightarrow> a\<lparr>AI_base := n\<rparr>
          | Some d \<Rightarrow> a\<lparr>AI_base := n, AI_datagrams_out := AI_datagrams_out a @ [d]\<rparr>))"

record Route_Information =
  route_prefix :: u32
  prefix_length :: u8
  RI_next_hop :: "Address option"
  RI_interface_num :: u64

record Router =
  RT_interfaces :: "AsyncNetworkInterface list"
  RT_routing_table :: "Route_Information list"

definition Router_new :: Router where
  "Router_new = \<lparr>RT_interfaces = [], RT_routing_table = []\<rparr>"

definition Router_add_interface :: "Router \<Rightarrow> AsyncNetworkInterface \<Rightarrow> u64 \<times> Router" where
  "Router_add_interface r interface =
     (let interfaces = RT_interfaces r @ [interface]
      in (of_nat (length interfaces) - 1, r\<lparr>RT_interfaces := interfaces\<rparr>))"

definition Router_interface :: "Router \<Rightarrow> u64 \<Rightarrow> AsyncNetworkInterface result" where
  "Router_interface r N =
     (if unat N < length (RT_interfaces r) then Inr (RT_interfaces r ! unat N) else Inl (OutOfRange ''vector::at''))"

definition Router_add_route :: "Router \<Rightarrow> u32 \<Rightarrow> u8 \<Rightarrow> Address option \<Rightarrow> u64 \<Rightarrow> Router" where
  "Router_add_route r prefix len next_hop interface_num =
     r\<lparr>RT_routing_table := RT_routing_table r @ [\<lparr>route_prefix = prefix, prefix_length = len,
        RI_next_hop = next_hop, RI_interface_num = interface_num\<rparr>]\<rparr>"

text \<open>The test of one route; a prefix length above 32 makes the shift count negative.\<close>

definition route_matches :: "u32 \<Rightarrow> Route_Information \<Rightarrow> bool result" where
  "route_matches dst el =
     (if prefix_length el = 0 then Inr True
      else if prefix_length el > 32 then Inl BadShift
      else Inr (dst AND push_bit (32 - unat (prefix_length el)) 0xffffffff = route_prefix el))"

record route_choice =
  is_matched :: bool
  matched_length :: u8
  CH_interface_num :: u64
  CH_next_hop :: "Address option"

definition no_choice :: route_choice where
  "no_choice = \<lparr>is_matched = False, matched_length = 0, CH_interface_num = 0, CH_next_hop = None\<rparr>"

fun route_scan :: "u32 \<Rightarrow> Route_Information list \<Rightarrow> route_choice \<Rightarrow> route_choice result" where
  "route_scan dst [] ch = Inr ch"
| "route_scan dst (el # els) ch =
     bindR (route_matches dst el) (\<lambda>hit.
     route_scan dst els
       (if hit \<and> matched_length ch \<le> prefix_length el
        then \<lparr>is_matched = True, matched_length = prefix_length el, CH_interface_num = RI_interface_num el,
              CH_next_hop = RI_next_hop el\<rparr>
        else ch))"

definition Router_route_one_datagram :: "Router \<Rightarrow> IPv4Datagram \<Rightarrow> Router result" where
  "Router_route_one_datagram r dgram =
     (if IP_ttl (DG_header dgram) \<le> 1 then Inr r
      else let dgram = dgram\<lparr>DG_header := (DG_header dgram)\<lparr>IP_ttl := IP_ttl (DG_header dgram) - 1\<rparr>\<rparr>
           in bindR (route_scan (IP_dst (DG_header dgram)) (RT_routing_table r) no_choice) (\<lambda>ch.
              if \<not> is_matched ch then Inr r
              else bindR (case CH_next_hop ch of
                            Some a \<Rightarrow> Inr a
                          | None \<Rightarrow> Address_from_ipv4_numeric (IP_dst (DG_header dgram))) (\<lambda>hop.
                   bindR (Router_interface r (CH_interface_num ch)) (\<lambda>a.
                   bindR (send_datagram (AI_base a) dgram hop) (\<lambda>n.
                   Inr (r\<lparr>RT_interfaces := (RT_interfaces r)[unat (CH_interface_num ch) := a\<lparr>AI_base := n\<rparr>]\<rparr>))))))"

definition pop_datagram :: "nat \<Rightarrow> Router \<Rightarrow> Router" where
  "pop_datagram i r =
     (let a = RT_interfaces r ! i
      in r\<lparr>RT_interfaces := (RT_interfaces r)[i := a\<lparr>AI_datagrams_out := tl (AI_datagrams_out a)\<rparr>]\<rparr>)"

text \<open>The inner loop over the queue of interface \<open>i\<close>, and the outer loop over the interfaces.\<close>

fun route_queue :: "nat \<Rightarrow> IPv4Datagram list \<Rightarrow> Router \<Rightarrow> Router result" where
  "route_queue i [] r = Inr r"
| "route_queue i (d # ds) r = bindR (Router_route_one_datagram r d) (\<lambda>r1. route_queue i ds (pop_datagram i r1))"

fun route_interfaces :: "nat list \<Rightarrow> Router \<Rightarrow> Router result" where
  "route_interfaces [] r = Inr r"
| "route_interfaces (i # is) r =
     bindR (route_queue i (AI_datagrams_out (RT_interfaces r ! i)) r) (route_interfaces is)"

definition Router_route :: "Router \<Rightarrow> Router result" where
  "Router_route r = route_interfaces [0..<length (RT_interfaces r)] r"

section \<open>Longest prefix match\<close>

text \<open>What a route is meant to match: the first bits of the destination are those of the prefix.\<close>

definition prefix_match :: "u32 \<Rightarrow> Route_Information \<Rightarrow> bool" where
  "prefix_match dst el \<longleftrightarrow>
     drop_bit (32 - unat (prefix_length el)) dst = drop_bit (32 - unat (prefix_length el)) (route_prefix el)"

definition prefix_clean :: "Route_Information \<Rightarrow> bool" where
  "prefix_clean el \<longleftrightarrow> take_bit (32 - unat (prefix_length el)) (route_prefix el) = 0"

definition route_ok :: "Route_Information \<Rightarrow> bool" where
  "route_ok el \<longleftrightarrow> unat (prefix_length el) \<le> 32 \<and> prefix_clean el"

lemma masked_eq_iff:
  fixes dst p :: u32
  shows "dst AND push_bit k 0xffffffff = p \<longleftrightarrow> drop_bit k dst = drop_bit k p \<and> take_bit k p = 0"
proof -
  have ones: "(0xffffffff :: u32) = - 1" by simp
  have high: "dst AND push_bit k 0xffffffff = push_bit k (drop_bit k dst)"
    unfolding ones by (intro bit_word_eqI) (auto simp: bit_simps)
  have split: "p = push_bit k (drop_bit k p) OR take_bit k p"
    by (intro bit_word_eqI) (auto simp: bit_simps)
  show ?thesis
    unfolding high
  proof
    assume "push_bit k (drop_bit k dst) = p"
    then have bits: "bit p i \<longleftrightarrow> k \<le> i \<and> bit dst i" for i
      using bit_imp_le_length [of p i] bit_imp_le_length [of dst i] by (auto simp: bit_simps)
    show "drop_bit k dst = drop_bit k p \<and> take_bit k p = 0"
      by (auto intro!: bit_word_eqI simp: bit_simps bits)
  next
    assume "drop_bit k dst = drop_bit k p \<and> take_bit k p = 0"
    then show "push_bit k (drop_bit k dst) = p" using split by simp
  qed
qed

lemma route_matches_iff:
  assumes "route_ok el"
  shows "route_matches dst el = Inr (prefix_match dst el)"
proof (cases "prefix_length el = 0")
  case True
  have "drop_bit 32 (x :: u32) = 0" for x by (intro bit_word_eqI) (simp add: bit_simps)
  then show ?thesis using True by (simp add: route_matches_def prefix_match_def)
next
  case False
  then show ?thesis
    using assms by (auto simp: route_matches_def route_ok_def prefix_match_def prefix_clean_def masked_eq_iff word_less_nat_alt)
qed

text \<open>The choice a table leads to: the last of the longest matching routes.\<close>

definition best_route :: "u32 \<Rightarrow> Route_Information list \<Rightarrow> Route_Information \<Rightarrow> bool" where
  "best_route dst table rt \<longleftrightarrow> (\<exists>before after. table = before @ rt # after \<and> prefix_match dst rt
     \<and> (\<forall>x \<in> set before. prefix_match dst x \<longrightarrow> prefix_length x \<le> prefix_length rt)
     \<and> (\<forall>x \<in> set after. prefix_match dst x \<longrightarrow> prefix_length x < prefix_length rt))"

definition choice_of :: "Route_Information \<Rightarrow> route_choice" where
  "choice_of rt = \<lparr>is_matched = True, matched_length = prefix_length rt, CH_interface_num = RI_interface_num rt,
     CH_next_hop = RI_next_hop rt\<rparr>"

lemma route_scan_append:
  "route_scan dst (xs @ ys) ch = bindR (route_scan dst xs ch) (route_scan dst ys)"
  by (induction xs arbitrary: ch) (simp_all add: bindR_assoc)

lemma best_route_snoc:
  assumes "best_route dst table rt"
  shows "best_route dst (table @ [x]) (if prefix_match dst x \<and> prefix_length rt \<le> prefix_length x then x else rt)"
proof -
  obtain before after where t: "table = before @ rt # after" "prefix_match dst rt"
    "\<forall>y \<in> set before. prefix_match dst y \<longrightarrow> prefix_length y \<le> prefix_length rt"
    "\<forall>y \<in> set after. prefix_match dst y \<longrightarrow> prefix_length y < prefix_length rt"
    using assms by (auto simp: best_route_def)
  show ?thesis
  proof (cases "prefix_match dst x \<and> prefix_length rt \<le> prefix_length x")
    case True
    then have "\<forall>y \<in> set table. prefix_match dst y \<longrightarrow> prefix_length y \<le> prefix_length x"
      using t by (auto intro: order_trans less_imp_le)
    then show ?thesis using True unfolding best_route_def by (intro exI [of _ table] exI [of _ "[]"]) simp
  next
    case False
    have "\<forall>y \<in> set (after @ [x]). prefix_match dst y \<longrightarrow> prefix_length y < prefix_length rt"
      using t(4) False by auto
    then show ?thesis
      using t(1-3) False unfolding best_route_def if_not_P [OF False]
      by (intro exI [of _ before] exI [of _ "after @ [x]"]) simp
  qed
qed

lemma route_scan_best:
  assumes "list_all route_ok table"
  shows "(\<forall>x \<in> set table. \<not> prefix_match dst x) \<and> route_scan dst table no_choice = Inr no_choice
    \<or> (\<exists>rt. best_route dst table rt \<and> route_scan dst table no_choice = Inr (choice_of rt))"
  using assms
proof (induction table rule: rev_induct)
  case (snoc x table)
  then have x: "route_matches dst x = Inr (prefix_match dst x)" by (simp add: route_matches_iff)
  consider (none) "\<forall>y \<in> set table. \<not> prefix_match dst y" "route_scan dst table no_choice = Inr no_choice"
    | (some) rt where "best_route dst table rt" "route_scan dst table no_choice = Inr (choice_of rt)"
    using snoc by auto
  then show ?case
  proof cases
    case none
    show ?thesis
    proof (cases "prefix_match dst x")
      case True
      then have "best_route dst (table @ [x]) x"
        using none(1) unfolding best_route_def by (intro exI [of _ table] exI [of _ "[]"]) auto
      then show ?thesis using True none(2) x by (auto simp: route_scan_append no_choice_def choice_of_def)
    next
      case False
      then show ?thesis using none x by (simp add: route_scan_append)
    qed
  next
    case some
    have "route_scan dst (table @ [x]) no_choice
        = Inr (choice_of (if prefix_match dst x \<and> prefix_length rt \<le> prefix_length x then x else rt))"
      using some(2) x by (simp add: route_scan_append choice_of_def)
    then show ?thesis using best_route_snoc [OF some(1)] by blast
  qed
qed simp

section \<open>A router that forwards\<close>

definition dgram_ok :: "IPv4Datagram \<Rightarrow> bool" where
  "dgram_ok d \<longleftrightarrow> IPv4Header_for (DG_header d) (BufferList_concatenate (DG_payload d)) \<and> BufferList_inv (DG_payload d)"

definition router_ok :: "Router \<Rightarrow> bool" where
  "router_ok r \<longleftrightarrow> list_all route_ok (RT_routing_table r)
     \<and> (\<forall>rt \<in> set (RT_routing_table r). unat (RI_interface_num rt) < length (RT_interfaces r)
          \<and> (\<forall>a. RI_next_hop rt = Some a \<longrightarrow> (\<exists>k. Address_ipv4_numeric a = Inr k)))
     \<and> (\<forall>a \<in> set (RT_interfaces r). \<exists>ip. NI_inv ip (AI_base a))"

definition forwarded :: "IPv4Datagram \<Rightarrow> IPv4Datagram" where
  "forwarded d = d\<lparr>DG_header := (DG_header d)\<lparr>IP_ttl := IP_ttl (DG_header d) - 1\<rparr>\<rparr>"

definition hop_of :: "Route_Information \<Rightarrow> u32 \<Rightarrow> Address" where
  "hop_of rt dst = (case RI_next_hop rt of Some a \<Rightarrow> a | None \<Rightarrow> ipv4_address dst)"

lemma forwarded_ok: "dgram_ok d \<Longrightarrow> dgram_ok (forwarded d)"
  by (simp add: dgram_ok_def forwarded_def IPv4Header_for_def IPv4Header_fields_ok_def)

lemma send_datagram_total:
  assumes "NI_inv ip n" and "dgram_ok d" and "Address_ipv4_numeric hop = Inr k"
  shows "\<exists>n'. send_datagram n d hop = Inr n' \<and> NI_inv ip n'"
proof -
  have "\<exists>bl. IPv4Datagram_serialize d = Inr bl"
    using assms(2) IPv4Datagram_serialize_bytes [of d] by (auto simp: dgram_ok_def)
  then have "iface_op_ok (SendDgram d hop)" using assms(3) by simp
  from iface_step_ok [OF assms(1) this] show ?thesis
    by (cases "send_datagram n d hop") auto
qed

text \<open>One datagram, in a router whose routes are sound.\<close>

lemma route_one_cases:
  assumes r: "router_ok r" and d: "dgram_ok d"
  obtains (dropped) "Router_route_one_datagram r d = Inr r"
      "IP_ttl (DG_header d) \<le> 1 \<or> (\<forall>x \<in> set (RT_routing_table r). \<not> prefix_match (IP_dst (DG_header d)) x)"
    | (sent) rt ip n where "best_route (IP_dst (DG_header d)) (RT_routing_table r) rt" "IP_ttl (DG_header d) > 1"
        "rt \<in> set (RT_routing_table r)"
        "send_datagram (AI_base (RT_interfaces r ! unat (RI_interface_num rt))) (forwarded d) (hop_of rt (IP_dst (DG_header d))) = Inr n"
        "NI_inv ip n"
        "Router_route_one_datagram r d = Inr (r\<lparr>RT_interfaces := (RT_interfaces r)[unat (RI_interface_num rt) :=
            (RT_interfaces r ! unat (RI_interface_num rt))\<lparr>AI_base := n\<rparr>]\<rparr>)"
proof (cases "IP_ttl (DG_header d) \<le> 1")
  case True
  then show ?thesis by (intro dropped) (simp_all add: Router_route_one_datagram_def)
next
  case ttl: False
  let ?dst = "IP_dst (DG_header d)"
  have dst: "IP_dst (DG_header (forwarded d)) = ?dst" by (simp add: forwarded_def)
  have run: "Router_route_one_datagram r d = bindR (route_scan ?dst (RT_routing_table r) no_choice) (\<lambda>ch.
      if \<not> is_matched ch then Inr r
      else bindR (case CH_next_hop ch of Some a \<Rightarrow> Inr a | None \<Rightarrow> Address_from_ipv4_numeric ?dst) (\<lambda>hop.
           bindR (Router_interface r (CH_interface_num ch)) (\<lambda>a.
           bindR (send_datagram (AI_base a) (forwarded d) hop) (\<lambda>n.
           Inr (r\<lparr>RT_interfaces := (RT_interfaces r)[unat (CH_interface_num ch) := a\<lparr>AI_base := n\<rparr>]\<rparr>)))))"
    unfolding Router_route_one_datagram_def if_not_P [OF ttl] Let_def forwarded_def [symmetric] dst by (rule refl)
  have ok: "list_all route_ok (RT_routing_table r)" using r by (simp add: router_ok_def)
  from route_scan_best [OF ok, of ?dst] show ?thesis
  proof (elim disjE exE conjE)
    assume none: "\<forall>x \<in> set (RT_routing_table r). \<not> prefix_match ?dst x" "route_scan ?dst (RT_routing_table r) no_choice = Inr no_choice"
    then show ?thesis using run by (intro dropped) (simp_all add: no_choice_def)
  next
    fix rt assume rt: "best_route ?dst (RT_routing_table r) rt" "route_scan ?dst (RT_routing_table r) no_choice = Inr (choice_of rt)"
    let ?i = "unat (RI_interface_num rt)"
    have mem: "rt \<in> set (RT_routing_table r)" using rt(1) by (auto simp: best_route_def)
    then have i: "?i < length (RT_interfaces r)" using r by (simp add: router_ok_def)
    then obtain ip where ip: "NI_inv ip (AI_base (RT_interfaces r ! ?i))" using r nth_mem [OF i] unfolding router_ok_def by blast
    obtain k where k: "Address_ipv4_numeric (hop_of rt ?dst) = Inr k"
      using r mem by (fastforce simp: router_ok_def hop_of_def split: option.splits)
    obtain n where n: "send_datagram (AI_base (RT_interfaces r ! ?i)) (forwarded d) (hop_of rt ?dst) = Inr n" "NI_inv ip n"
      using send_datagram_total [OF ip forwarded_ok [OF d] k] by blast
    have "(case RI_next_hop rt of Some a \<Rightarrow> Inr a | None \<Rightarrow> Address_from_ipv4_numeric ?dst) = (Inr (hop_of rt ?dst) :: Address result)"
      by (simp add: hop_of_def from_ipv4_numeric split: option.splits)
    then show ?thesis
      using ttl mem n rt run i by (intro sent [OF rt(1) _ mem n]) (simp_all add: choice_of_def Router_interface_def)
  qed
qed

lemma route_one_ok:
  assumes r: "router_ok r" and d: "dgram_ok d"
  shows "\<exists>r'. Router_route_one_datagram r d = Inr r' \<and> router_ok r'
    \<and> map AI_datagrams_out (RT_interfaces r') = map AI_datagrams_out (RT_interfaces r)"
  using assms
proof (cases rule: route_one_cases)
  case dropped
  then show ?thesis using r by blast
next
  case (sent rt ip n)
  let ?i = "unat (RI_interface_num rt)"
  let ?is = "(RT_interfaces r)[?i := (RT_interfaces r ! ?i)\<lparr>AI_base := n\<rparr>]"
  have "?i < length (RT_interfaces r)" using r sent(3) by (simp add: router_ok_def)
  then have "map AI_datagrams_out ?is = map AI_datagrams_out (RT_interfaces r)"
    by (intro nth_equalityI) (simp_all add: nth_list_update)
  moreover have "\<forall>a \<in> set ?is. \<exists>ip. NI_inv ip (AI_base a)"
    using r sent(5) set_update_subset_insert [of "RT_interfaces r" ?i] by (fastforce simp: router_ok_def)
  then have "router_ok (r\<lparr>RT_interfaces := ?is\<rparr>)" using r by (simp add: router_ok_def)
  ultimately show ?thesis using sent(6) by auto
qed

lemma pop_datagram_ok:
  assumes "router_ok r" and "i < length (RT_interfaces r)"
  shows "router_ok (pop_datagram i r)"
    and "map AI_datagrams_out (RT_interfaces (pop_datagram i r))
      = (map AI_datagrams_out (RT_interfaces r))[i := tl (AI_datagrams_out (RT_interfaces r ! i))]"
proof -
  let ?a = "(RT_interfaces r ! i)\<lparr>AI_datagrams_out := tl (AI_datagrams_out (RT_interfaces r ! i))\<rparr>"
  have "\<exists>ip. NI_inv ip (AI_base ?a)" using assms nth_mem [OF assms(2)] by (auto simp: router_ok_def)
  then have "\<forall>a \<in> set ((RT_interfaces r)[i := ?a]). \<exists>ip. NI_inv ip (AI_base a)"
    using assms(1) set_update_subset_insert [of "RT_interfaces r" i ?a] by (fastforce simp: router_ok_def)
  then show "router_ok (pop_datagram i r)" using assms(1) by (simp add: pop_datagram_def Let_def router_ok_def)
  show "map AI_datagrams_out (RT_interfaces (pop_datagram i r))
      = (map AI_datagrams_out (RT_interfaces r))[i := tl (AI_datagrams_out (RT_interfaces r ! i))]"
    by (simp add: pop_datagram_def Let_def map_update)
qed

lemma route_queue_ok:
  assumes "router_ok r" and "i < length (RT_interfaces r)" and "AI_datagrams_out (RT_interfaces r ! i) = ds"
    and "list_all dgram_ok ds"
  shows "\<exists>r'. route_queue i ds r = Inr r' \<and> router_ok r'
    \<and> map AI_datagrams_out (RT_interfaces r') = (map AI_datagrams_out (RT_interfaces r))[i := []]"
  using assms
proof (induction ds arbitrary: r)
  case Nil
  then have "map AI_datagrams_out (RT_interfaces r) = (map AI_datagrams_out (RT_interfaces r))[i := []]"
    by (intro nth_equalityI) (auto simp: nth_list_update)
  then show ?case using Nil by auto
next
  case (Cons d ds)
  obtain r1 where r1: "Router_route_one_datagram r d = Inr r1" "router_ok r1"
    "map AI_datagrams_out (RT_interfaces r1) = map AI_datagrams_out (RT_interfaces r)"
    using route_one_ok [OF Cons.prems(1)] Cons.prems(4) by auto
  have len: "length (RT_interfaces r1) = length (RT_interfaces r)" using arg_cong [OF r1(3), of length] by simp
  then have i: "i < length (RT_interfaces r1)" using Cons.prems(2) by simp
  have "AI_datagrams_out (RT_interfaces r1 ! i) = d # ds"
    using arg_cong [OF r1(3), of "\<lambda>xs. xs ! i"] i Cons.prems(2,3) by simp
  then have q: "map AI_datagrams_out (RT_interfaces (pop_datagram i r1)) = (map AI_datagrams_out (RT_interfaces r))[i := ds]"
    using pop_datagram_ok(2) [OF r1(2) i] r1(3) by simp
  have len2: "length (RT_interfaces (pop_datagram i r1)) = length (RT_interfaces r)" using arg_cong [OF q, of length] by simp
  then have "AI_datagrams_out (RT_interfaces (pop_datagram i r1) ! i) = ds"
    using arg_cong [OF q, of "\<lambda>xs. xs ! i"] Cons.prems(2) by simp
  from Cons.IH [OF pop_datagram_ok(1) [OF r1(2) i] _ this] Cons.prems(2,4) len2 show ?case
    using r1(1) q by auto
qed

text \<open>All the interfaces in turn: their queues end up empty.\<close>

lemma route_interfaces_ok:
  assumes "router_ok r" and "\<forall>i \<in> set is. i < length (RT_interfaces r)"
    and "\<forall>a \<in> set (RT_interfaces r). list_all dgram_ok (AI_datagrams_out a)"
  shows "\<exists>r'. route_interfaces is r = Inr r' \<and> router_ok r' \<and> length (RT_interfaces r') = length (RT_interfaces r)
    \<and> (\<forall>i < length (RT_interfaces r). AI_datagrams_out (RT_interfaces r' ! i) =
         (if i \<in> set is then [] else AI_datagrams_out (RT_interfaces r ! i)))"
  using assms
proof (induction "is" arbitrary: r)
  case (Cons i "is")
  have i: "i < length (RT_interfaces r)" using Cons.prems(2) by simp
  then obtain r1 where r1: "route_queue i (AI_datagrams_out (RT_interfaces r ! i)) r = Inr r1" "router_ok r1"
    "map AI_datagrams_out (RT_interfaces r1) = (map AI_datagrams_out (RT_interfaces r))[i := []]"
    using route_queue_ok [OF Cons.prems(1) i refl] Cons.prems(3) by auto
  have len: "length (RT_interfaces r1) = length (RT_interfaces r)" using arg_cong [OF r1(3), of length] by simp
  have out: "AI_datagrams_out (RT_interfaces r1 ! j) = (if j = i then [] else AI_datagrams_out (RT_interfaces r ! j))"
    if "j < length (RT_interfaces r)" for j
    using arg_cong [OF r1(3), of "\<lambda>xs. xs ! j"] that len i by (auto simp: nth_list_update)
  have "\<forall>a \<in> set (RT_interfaces r1). list_all dgram_ok (AI_datagrams_out a)"
    using Cons.prems(3) out len by (auto simp: all_set_conv_all_nth)
  from Cons.IH [OF r1(2) _ this] Cons.prems(2) len obtain r' where
    r': "route_interfaces is r1 = Inr r'" "router_ok r'" "length (RT_interfaces r') = length (RT_interfaces r)"
      "\<forall>j < length (RT_interfaces r). AI_datagrams_out (RT_interfaces r' ! j) =
         (if j \<in> set is then [] else AI_datagrams_out (RT_interfaces r1 ! j))" by auto
  then show ?case using r1(1) out by auto
qed simp

section \<open>Properties\<close>


definition example_router :: Router where
  "example_router = \<lparr>RT_interfaces = [AsyncNetworkInterface_of (NetworkInterface_new [2, 0, 0, 0, 0, 1] (ipv4_address 7)),
       AsyncNetworkInterface_of (NetworkInterface_new [2, 0, 0, 0, 0, 2] (ipv4_address 8))],
     RT_routing_table = [\<lparr>route_prefix = 0, prefix_length = 0, RI_next_hop = Some (ipv4_address 1), RI_interface_num = 0\<rparr>,
       \<lparr>route_prefix = 8, prefix_length = 29, RI_next_hop = None, RI_interface_num = 1\<rparr>]\<rparr>"

lemma example_router_ok: "router_ok example_router"
proof -
  have "take_bit 3 (8 :: u32) = 0" "take_bit 32 (0 :: u32) = 0" by simp_all
  then have "list_all route_ok (RT_routing_table example_router)"
    by (simp add: example_router_def route_ok_def prefix_clean_def)
  moreover have "\<exists>ip. NI_inv ip (NetworkInterface_new [2, 0, 0, 0, 0, 1] (ipv4_address 7))"
    "\<exists>ip. NI_inv ip (NetworkInterface_new [2, 0, 0, 0, 0, 2] (ipv4_address 8))"
    by (auto intro!: exI NI_inv_new simp: address_ok_def)
  ultimately show ?thesis
    by (simp add: router_ok_def) (simp add: example_router_def AsyncNetworkInterface_of_def)
qed


text \<open>Routing finishes and leaves nothing behind: in a router with sound routes and well-formed
  datagrams in its queues, routing terminates without a fault with every queue empty.\<close>

lemma router_drains:
  assumes "router_ok r" and "\<forall>a \<in> set (RT_interfaces r). list_all dgram_ok (AI_datagrams_out a)"
  shows "\<exists>r'. Router_route r = Inr r' \<and> router_ok r' \<and> length (RT_interfaces r') = length (RT_interfaces r)
    \<and> (\<forall>i < length (RT_interfaces r). AI_datagrams_out (RT_interfaces r' ! i) = [])"
  using route_interfaces_ok [OF assms(1) _ assms(2), of "[0..<length (RT_interfaces r)]"] by (auto simp: Router_route_def)

lemma router_drains_example:
  "let r = example_router\<lparr>RT_interfaces := map (\<lambda>a. a\<lparr>AI_datagrams_out := [example_dgram]\<rparr>) (RT_interfaces example_router)\<rparr>
   in \<exists>r'. Router_route r = Inr r' \<and> router_ok r' \<and> length (RT_interfaces r') = length (RT_interfaces r)
    \<and> (\<forall>i < length (RT_interfaces r). AI_datagrams_out (RT_interfaces r' ! i) = [])"
  unfolding Let_def
  by (rule router_drains) (use example_router_ok in \<open>auto simp: router_ok_def dgram_ok_def example_dgram_ok\<close>)

text \<open>A route whose prefix has a bit set below its length matches no destination at all, not even
  those that agree with all the bits that are meant to count.\<close>

lemma route_host_bits_never_match:
  assumes "prefix_length el \<noteq> 0" and "unat (prefix_length el) \<le> 32" and "\<not> prefix_clean el"
  shows "route_matches dst el = Inr False \<and> prefix_match (route_prefix el) el"
  using assms by (auto simp: route_matches_def masked_eq_iff prefix_clean_def prefix_match_def word_less_nat_alt)

lemma route_host_bits_never_match_example:
  "let el = \<lparr>route_prefix = 9, prefix_length = 29, RI_next_hop = None, RI_interface_num = 0\<rparr>
   in route_matches 9 el = Inr False \<and> prefix_match (route_prefix el) el"
proof -
  have "take_bit 3 (9 :: u32) \<noteq> 0" by simp
  then show ?thesis unfolding Let_def by (intro route_host_bits_never_match) (simp_all add: prefix_clean_def)
qed

end
