(* ===== verification/Printing.thy ===== *)
theory Printing
  imports TCP_Segment IPv4_Datagram Ethernet_Frame Address
begin

text \<open>
  The text of headers, from the \<^verbatim>\<open>to_string\<close> and \<^verbatim>\<open>summary\<close> functions of
  \<^verbatim>\<open>tcp_helpers/tcp_header.cc\<close>, \<^verbatim>\<open>tcp_helpers/ipv4_header.cc\<close>,
  \<^verbatim>\<open>tcp_helpers/ethernet_header.cc\<close> and \<^verbatim>\<open>tcp_helpers/arp_message.cc\<close>. The name
  of an address, \<^verbatim>\<open>inet_ntoa\<close>, is an argument. The dump of a packet, \<^verbatim>\<open>hexdump\<close> of
  \<^verbatim>\<open>util/util.cc\<close>, gives the text it prints. Shown here: the summary of a TCP header determines
  the flags and numbers it shows, the text of an Ethernet address determines the address, and the dump of a packet
  determines the packet.
\<close>

unbundle bit_operations_syntax

section \<open>Numbers\<close>

definition hex_char :: "nat \<Rightarrow> char" where
  "hex_char k = (if k < 10 then char_of (48 + k) else char_of (87 + k))"

fun hex_digits :: "nat \<Rightarrow> string" where
  "hex_digits n = (if n < 16 then [hex_char n] else hex_digits (n div 16) @ [hex_char (n mod 16)])"

declare hex_digits.simps [simp del]

abbreviation hex_text :: "'a::len word \<Rightarrow> string" where
  "hex_text n \<equiv> hex_digits (unat n)"

abbreviation dec_text :: "'a::len word \<Rightarrow> string" where
  "dec_text n \<equiv> digits (unat n)"

definition boolalpha :: "bool \<Rightarrow> string" where
  "boolalpha b = (if b then ''true'' else ''false'')"

definition newline :: string where
  "newline = [CHR 0x0a]"

section \<open>Headers\<close>

definition TCPHeader_to_string :: "TCPHeader \<Rightarrow> string" where
  "TCPHeader_to_string h =
     ''TCP source port: '' @ hex_text (TH_sport h) @ newline
     @ ''TCP dest port: '' @ hex_text (TH_dport h) @ newline
     @ ''TCP seqno: '' @ hex_text (raw_value (TH_seqno h)) @ newline
     @ ''TCP ackno: '' @ hex_text (raw_value (TH_ackno h)) @ newline
     @ ''TCP doff: '' @ hex_text (TH_doff h) @ newline
     @ ''Flags: urg: '' @ boolalpha (TH_urg h) @ '' ack: '' @ boolalpha (TH_ack h) @ '' psh: '' @ boolalpha (TH_psh h)
     @ '' rst: '' @ boolalpha (TH_rst h) @ '' syn: '' @ boolalpha (TH_syn h) @ '' fin: '' @ boolalpha (TH_fin h) @ newline
     @ ''TCP winsize: '' @ hex_text (TH_win h) @ newline
     @ ''TCP cksum: '' @ hex_text (TH_cksum h) @ newline
     @ ''TCP uptr: '' @ hex_text (TH_uptr h) @ newline"

definition flag_letters :: "TCPHeader \<Rightarrow> string" where
  "flag_letters h = (if TH_syn h then ''S'' else '''') @ (if TH_ack h then ''A'' else '''')
     @ (if TH_rst h then ''R'' else '''') @ (if TH_fin h then ''F'' else '''')"

definition TCPHeader_summary :: "TCPHeader \<Rightarrow> string" where
  "TCPHeader_summary h =
     ''Header(flags='' @ flag_letters h @ '',seqno='' @ dec_text (raw_value (TH_seqno h))
     @ '',ack='' @ dec_text (raw_value (TH_ackno h)) @ '',win='' @ dec_text (TH_win h) @ '')''"

definition IPv4Header_to_string :: "IPv4Header \<Rightarrow> string" where
  "IPv4Header_to_string h =
     ''IP version: '' @ hex_text (IP_ver h) @ newline
     @ ''IP hdr len: '' @ hex_text (IP_hlen h) @ newline
     @ ''IP tos: '' @ hex_text (IP_tos h) @ newline
     @ ''IP dgram len: '' @ hex_text (IP_len h) @ newline
     @ ''IP id: '' @ hex_text (IP_id h) @ newline
     @ ''Flags: df: '' @ boolalpha (IP_df h) @ '' mf: '' @ boolalpha (IP_mf h) @ newline
     @ ''Offset: '' @ hex_text (IP_offset h) @ newline
     @ ''TTL: '' @ hex_text (IP_ttl h) @ newline
     @ ''Protocol: '' @ hex_text (IP_proto h) @ newline
     @ ''Checksum: '' @ hex_text (IP_cksum h) @ newline
     @ ''Src addr: '' @ hex_text (IP_src h) @ newline
     @ ''Dst addr: '' @ hex_text (IP_dst h) @ newline"

definition IPv4Header_summary :: "(bytes \<Rightarrow> string) \<Rightarrow> IPv4Header \<Rightarrow> string" where
  "IPv4Header_summary inet_ntoa h =
     ''IPv'' @ hex_text (IP_ver h) @ '', '' @ ''len='' @ hex_text (IP_len h) @ '', ''
     @ ''protocol='' @ hex_text (IP_proto h) @ '', '' @ (if IP_ttl h \<ge> 10 then '''' else ''ttl='' @ dec_text (IP_ttl h) @ '', '')
     @ ''src='' @ inet_ntoa (be_bytes (IP_src h)) @ '', '' @ ''dst='' @ inet_ntoa (be_bytes (IP_dst h))"

text \<open>A byte is printed with a width of two, filled up with zeros.\<close>

definition hex_byte :: "u8 \<Rightarrow> string" where
  "hex_byte b = replicate (2 - length (hex_text b)) (CHR 0x30) @ hex_text b"

fun EthernetAddress_to_string :: "EthernetAddress \<Rightarrow> string" where
  "EthernetAddress_to_string [] = ''''" |
  "EthernetAddress_to_string [b] = hex_byte b" |
  "EthernetAddress_to_string (b # bs) = hex_byte b @ '':'' @ EthernetAddress_to_string bs"

definition EthernetHeader_to_string :: "EthernetHeader \<Rightarrow> string" where
  "EthernetHeader_to_string h =
     ''dst='' @ EthernetAddress_to_string (EH_dst h) @ '', src='' @ EthernetAddress_to_string (EH_src h) @ '', type=''
     @ (if EH_type h = TYPE_IPv4 then ''IPv4'' else if EH_type h = TYPE_ARP then ''ARP''
        else ''[unknown type '' @ hex_text (EH_type h) @ ''!]'')"

definition ARPMessage_to_string :: "(bytes \<Rightarrow> string) \<Rightarrow> ARPMessage \<Rightarrow> string" where
  "ARPMessage_to_string inet_ntoa m =
     (let opcode_str = ''(unknown type)'';
          opcode_str = (if opcode m = OPCODE_REQUEST then ''REQUEST'' else opcode_str);
          opcode_str = (if opcode m = OPCODE_REPLY then ''REPLY'' else opcode_str)
      in ''opcode='' @ opcode_str @ '', sender='' @ EthernetAddress_to_string (sender_ethernet_address m) @ ''/''
         @ inet_ntoa (be_bytes (sender_ip_address m)) @ '', target='' @ EthernetAddress_to_string (target_ethernet_address m) @ ''/''
         @ inet_ntoa (be_bytes (target_ip_address m)))"

section \<open>Dumps\<close>

text \<open>
  A string stream is its contents and the position of the next character. One that is made from a string
  starts writing at the beginning, over what it holds.
\<close>

definition stream_put :: "char \<Rightarrow> string \<times> nat \<Rightarrow> string \<times> nat" where
  "stream_put c st = (take (snd st) (fst st) @ [c] @ drop (Suc (snd st)) (fst st), Suc (snd st))"

definition isprint :: "u8 \<Rightarrow> bool" where
  "isprint b \<longleftrightarrow> 0x20 \<le> b \<and> b < 0x7f"

definition hex_field :: "nat \<Rightarrow> u32 \<Rightarrow> string" where
  "hex_field width n = replicate (width - length (hex_text n)) (CHR 0x30) @ hex_text n"

text \<open>What comes before a byte, the characters collected for the line, and what comes after the last byte.\<close>

definition dump_lead :: "string \<Rightarrow> u32 \<Rightarrow> string \<times> nat \<Rightarrow> string" where
  "dump_lead indent_string printed pchars =
     (if printed AND 0xf = 0
      then (if printed \<noteq> 0 then ''    '' @ fst pchars @ newline else []) @ indent_string @ hex_field 8 printed @ '':    ''
      else if printed AND 1 = 0 then '' '' else [])"

definition dump_chars :: "u32 \<Rightarrow> string \<times> nat \<Rightarrow> u8 \<Rightarrow> string \<times> nat" where
  "dump_chars printed pchars b =
     (let pchars = (if printed AND 0xf = 0 \<and> printed \<noteq> 0 then ('' '', 0) else pchars)
      in stream_put (if isprint b then char_of (unat b) else CHR 0x2e) pchars)"

definition dump_rest :: "u32 \<Rightarrow> string \<times> nat \<Rightarrow> string" where
  "dump_rest printed pchars =
     (let print_rem = (16 - unat (printed AND 0xf)) mod 16
      in replicate (2 * print_rem + print_rem div 2 + 4) (CHR 0x20) @ fst pchars @ newline @ newline)"

fun hexdump_loop :: "string \<Rightarrow> bytes \<Rightarrow> u32 \<Rightarrow> string \<times> nat \<Rightarrow> string" where
  "hexdump_loop indent_string [] printed pchars = dump_rest printed pchars" |
  "hexdump_loop indent_string (b # bs) printed pchars =
     dump_lead indent_string printed pchars @ hex_byte b @ hexdump_loop indent_string bs (printed + 1) (dump_chars printed pchars b)"

text \<open>The counters of the code have 32 bits, so the text is that of the code for fewer than \<open>2 ^ 31\<close> bytes.\<close>

definition hexdump :: "bytes \<Rightarrow> nat \<Rightarrow> string" where
  "hexdump data indent = hexdump_loop (replicate indent (CHR 0x20)) data 0 ('' '', 0)"

section \<open>What the text determines\<close>

lemma digits_inj: "digits m = digits n \<longleftrightarrow> m = n"
  by (metis digits_value_digits of_nat_eq_iff)

text \<open>A number followed by a separator can be read back.\<close>

lemma separated_eq:
  "list_all P xs \<Longrightarrow> list_all P ys \<Longrightarrow> \<not> P c \<Longrightarrow> xs @ c # us = ys @ c # vs \<longleftrightarrow> xs = ys \<and> us = vs"
proof (induction xs arbitrary: ys)
  case Nil
  then show ?case by (cases ys) auto
next
  case (Cons x xs)
  then show ?case by (cases ys) auto
qed

lemma not_digit: "\<not> is_digit (CHR 0x2c)" "\<not> is_digit (CHR 0x29)"
  by (simp_all add: is_digit_def)

lemma dec_text_separated:
  "digits m @ CHR 0x2c # us = digits n @ CHR 0x2c # vs \<longleftrightarrow> m = n \<and> us = vs"
  "digits m @ CHR 0x29 # us = digits n @ CHR 0x29 # vs \<longleftrightarrow> m = n \<and> us = vs"
  using separated_eq [of is_digit "digits m" "digits n"] not_digit by (simp_all add: digits_inj)

lemma flag_letters_separated:
  "flag_letters g @ CHR 0x2c # us = flag_letters h @ CHR 0x2c # vs \<longleftrightarrow>
     TH_syn g = TH_syn h \<and> TH_ack g = TH_ack h \<and> TH_rst g = TH_rst h \<and> TH_fin g = TH_fin h \<and> us = vs"
  by (auto simp: flag_letters_def)

lemma raw_value_eq: "raw_value a = raw_value b \<longleftrightarrow> a = b"
  by (cases a; cases b) simp

lemma tcp_summary_faithful:
  "TCPHeader_summary g = TCPHeader_summary h \<longleftrightarrow>
     TH_syn g = TH_syn h \<and> TH_ack g = TH_ack h \<and> TH_rst g = TH_rst h \<and> TH_fin g = TH_fin h
   \<and> TH_seqno g = TH_seqno h \<and> TH_ackno g = TH_ackno h \<and> TH_win g = TH_win h"
  by (simp add: TCPHeader_summary_def flag_letters_separated dec_text_separated digits_inj raw_value_eq flip: word_unat_eq_iff)

lemma hex_byte_eq: "hex_byte b = [hex_char (unat b div 16), hex_char (unat b mod 16)]"
proof -
  have zero: "hex_char 0 = CHR 0x30" by code_simp
  show ?thesis
  proof (cases "unat b < 16")
    case True
    then show ?thesis by (simp add: hex_byte_def hex_digits.simps [of "unat b"] zero)
  next
    case False
    have "unat b < 256" using unat_lt_size [of b] by simp
    then have "unat b div 16 < 16" by (simp add: div_less_iff_less_mult)
    then have "hex_digits (unat b div 16) = [hex_char (unat b div 16)]" by (subst hex_digits.simps) simp
    then have "hex_text b = [hex_char (unat b div 16), hex_char (unat b mod 16)]" using False by (subst hex_digits.simps) simp
    then show ?thesis by (simp add: hex_byte_def)
  qed
qed

lemma hex_char_inj:
  assumes "j < 16" and "k < 16"
  shows "hex_char j = hex_char k \<longleftrightarrow> j = k"
proof -
  have code: "of_char (hex_char m) = (if m < 10 then 48 + m else 87 + m)" if "m < 16" for m :: nat
    using that by (simp add: hex_char_def)
  show ?thesis
  proof
    assume "hex_char j = hex_char k"
    then have "(of_char (hex_char j) :: nat) = of_char (hex_char k)" by simp
    then show "j = k" using assms by (simp add: code split: if_splits)
  qed simp
qed

lemma hex_byte_inj: "hex_byte a = hex_byte b \<longleftrightarrow> a = b"
proof
  assume eq: "hex_byte a = hex_byte b"
  have "unat x < 256" for x :: u8 using unat_lt_size [of x] by simp
  then have "unat x div 16 < 16" for x :: u8 by (simp add: div_less_iff_less_mult)
  then have "unat a div 16 = unat b div 16" "unat a mod 16 = unat b mod 16" using eq by (simp_all add: hex_byte_eq hex_char_inj)
  then have "unat a = unat b" by (metis mult_div_mod_eq)
  then show "a = b" by (simp only: word_unat_eq_iff)
qed simp

lemma ethernet_text_faithful:
  assumes "length a = length b"
  shows "EthernetAddress_to_string a = EthernetAddress_to_string b \<longleftrightarrow> a = b"
  using assms
proof (induction a arbitrary: b rule: EthernetAddress_to_string.induct)
  case (2 x)
  then show ?case by (cases b) (auto simp: hex_byte_inj)
next
  case (3 x y ys)
  then obtain u v vs where b: "b = u # v # vs" by (cases b; cases "tl b") auto
  have "hex_byte x @ '':'' @ s = hex_byte u @ '':'' @ t \<longleftrightarrow> x = u \<and> s = t" for s t
    by (simp add: hex_byte_eq flip: hex_byte_inj)
  then show ?case using 3 b by simp
qed simp

lemma hex_char_graphic: "k < 16 \<Longrightarrow> hex_char k \<noteq> CHR 0x20 \<and> hex_char k \<noteq> CHR 0x0a"
proof -
  assume k: "k < 16"
  have "(of_char (hex_char k) :: nat) = (if k < 10 then 48 + k else 87 + k)" using k by (simp add: hex_char_def)
  then have "(of_char (hex_char k) :: nat) \<noteq> of_char (CHR 0x20)" "(of_char (hex_char k) :: nat) \<noteq> of_char (CHR 0x0a)"
    using k by auto
  then show ?thesis by metis
qed

lemma hex_text_start: "\<exists>c cs. hex_digits n = c # cs \<and> c \<noteq> CHR 0x20 \<and> c \<noteq> CHR 0x0a"
proof (induction n rule: less_induct)
  case (less n)
  show ?case
  proof (cases "n < 16")
    case True
    then show ?thesis using hex_char_graphic by (simp add: hex_digits.simps [of n])
  next
    case False
    then obtain c cs where "hex_digits (n div 16) = c # cs" "c \<noteq> CHR 0x20" "c \<noteq> CHR 0x0a" using less [of "n div 16"] by auto
    then show ?thesis using False by (simp add: hex_digits.simps [of n])
  qed
qed

lemma hex_field_start: "\<exists>c cs. hex_field w n = c # cs \<and> c \<noteq> CHR 0x20 \<and> c \<noteq> CHR 0x0a"
  using hex_text_start [of "unat n"] by (cases "w - length (hex_text n)") (auto simp: hex_field_def)

lemma hex_byte_start: "\<exists>c cs. hex_byte b = c # cs \<and> c \<noteq> CHR 0x20 \<and> c \<noteq> CHR 0x0a"
proof -
  have "unat b < 256" using unat_lt_size [of b] by simp
  then have "unat b div 16 < 16" by (simp add: div_less_iff_less_mult)
  then show ?thesis using hex_char_graphic by (simp add: hex_byte_eq)
qed

lemma spaces_differ:
  assumes "c \<noteq> d" and "c \<noteq> CHR 0x20" and "d \<noteq> CHR 0x20"
  shows "replicate m (CHR 0x20) @ c # xs \<noteq> replicate n (CHR 0x20) @ d # ys"
  using assms
proof (induction m arbitrary: n)
  case 0
  then show ?case by (cases n) auto
next
  case (Suc m)
  then show ?case by (cases n) auto
qed

text \<open>A dump that ends differs from one that goes on.\<close>

lemma dump_goes_on:
  assumes "printed = 0 \<longrightarrow> pchars = ('' '', 0)"
  shows "dump_rest printed pchars \<noteq> dump_lead (replicate indent (CHR 0x20)) printed pchars @ hex_byte b @ t"
proof -
  obtain h hs where h: "hex_byte b = h # hs" "h \<noteq> CHR 0x20" "h \<noteq> CHR 0x0a" using hex_byte_start by blast
  obtain f fs where f: "hex_field 8 printed = f # fs" "f \<noteq> CHR 0x20" "f \<noteq> CHR 0x0a" using hex_field_start by blast
  have four: "replicate (k + 4) (CHR 0x20) = ''    '' @ replicate k (CHR 0x20)" for k by (simp add: numeral_eq_Suc)
  consider "printed = 0" | "printed AND 0xf = 0" "printed \<noteq> 0" | "printed AND 0xf \<noteq> 0" by blast
  then show ?thesis
  proof cases
    case 1
    have "replicate 5 (CHR 0x20) @ CHR 0x0a # newline \<noteq> replicate indent (CHR 0x20) @ f # fs @ u" for u
      by (rule spaces_differ) (use f in auto)
    then show ?thesis using 1 assms f by (simp add: dump_rest_def dump_lead_def newline_def numeral_eq_Suc)
  next
    case 2
    have "CHR 0x0a # u \<noteq> replicate indent (CHR 0x20) @ f # v" for u v using f by (cases indent) auto
    then show ?thesis using 2 f by (simp add: dump_rest_def dump_lead_def newline_def numeral_eq_Suc)
  next
    case 3
    then show ?thesis using h by (simp add: dump_rest_def dump_lead_def Let_def four)
  qed
qed

lemma hexdump_loop_inj:
  assumes "printed = 0 \<longrightarrow> pchars = ('' '', 0)" and "unat printed + length xs < 2 ^ 32" and "unat printed + length ys < 2 ^ 32"
    and "hexdump_loop (replicate indent (CHR 0x20)) xs printed pchars = hexdump_loop (replicate indent (CHR 0x20)) ys printed pchars"
  shows "xs = ys"
  using assms
proof (induction xs arbitrary: ys printed pchars)
  case Nil
  then show ?case using dump_goes_on by (cases ys) auto
next
  case (Cons x xs)
  note prems = Cons.prems and IH = Cons.IH
  show ?case
  proof (cases ys)
    case Nil
    then show ?thesis using prems(4) dump_goes_on [OF prems(1), of indent x, THEN not_sym] by simp
  next
    case (Cons y ys')
    have "x = y \<and> hexdump_loop (replicate indent (CHR 0x20)) xs (printed + 1) (dump_chars printed pchars x)
        = hexdump_loop (replicate indent (CHR 0x20)) ys' (printed + 1) (dump_chars printed pchars y)"
      using prems(4) Cons by (simp add: hex_byte_eq flip: hex_byte_inj)
    moreover have "unat (printed + 1) = Suc (unat printed)" using prems(2) by (intro unat_Suc_small) simp
    moreover from this have "printed + 1 \<noteq> 0" by (metis nat.distinct(1) unat_0)
    ultimately show ?thesis using IH [of "printed + 1" "dump_chars printed pchars x" ys'] prems(2,3) Cons by auto
  qed
qed

lemma hexdump_faithful:
  assumes "length xs < 2 ^ 31" and "length ys < 2 ^ 31"
  shows "hexdump xs indent = hexdump ys indent \<longleftrightarrow> xs = ys"
  using hexdump_loop_inj [of 0 "('' '', 0)" xs ys indent] assms by (auto simp: hexdump_def)

end
