(* ===== verification/File_Descriptor.thy ===== *)
theory File_Descriptor
  imports Net_Buffer Address
begin

text \<open>
  File descriptors, from \<^verbatim>\<open>util/file_descriptor\<close>, and the wrapper of system calls
  from \<^verbatim>\<open>util/util.cc\<close>. The system calls are arguments: each takes the state of the
  operating system and gives its return value, \<^verbatim>\<open>errno\<close> and the next state. A
  \<^verbatim>\<open>FileDescriptor\<close> is a counted pointer to an \<open>FDWrapper\<close>: its operations are those on
  the wrapper. Shown here: a write of everything terminates and hands over exactly the bytes, and reading
  gives what the system gave and detects the end of the input.
\<close>

unbundle bit_operations_syntax

section \<open>System calls\<close>

text \<open>The return value of a system call is converted to a 32-bit \<^verbatim>\<open>int\<close>.\<close>

definition to_int :: "int \<Rightarrow> int" where
  "to_int n = sint (word_of_int n :: 32 word)"

definition SystemCall :: "string \<Rightarrow> int \<Rightarrow> int \<Rightarrow> int \<Rightarrow> int result" where
  "SystemCall attempt return_value errno errno_mask =
     (let return_value = to_int return_value
      in if return_value \<ge> 0 \<or> errno = errno_mask then Inr return_value
         else Inl (SystemError attempt errno))"

section \<open>FDWrapper\<close>

record FDWrapper =
  FD_fd :: int
  FD_eof :: bool
  FD_closed :: bool
  FD_read_count :: u32
  FD_write_count :: u32

definition int_text :: "int \<Rightarrow> string" where
  "int_text n = (if n < 0 then CHR 0x2d # digits (nat (- n)) else digits (nat n))"

definition FDWrapper_new :: "int \<Rightarrow> FDWrapper result" where
  "FDWrapper_new fd =
     (if fd < 0 then Inl (RuntimeError (''invalid fd number:'' @ int_text fd))
      else Inr \<lparr>FD_fd = fd, FD_eof = False, FD_closed = False, FD_read_count = 0, FD_write_count = 0\<rparr>)"

definition FDWrapper_close :: "('k \<Rightarrow> int \<Rightarrow> int \<times> int \<times> 'k) \<Rightarrow> 'k \<Rightarrow> FDWrapper \<Rightarrow> (FDWrapper \<times> 'k) result" where
  "FDWrapper_close sys_close k w =
     (let (r, e, k) = sys_close k (FD_fd w)
      in bindR (SystemCall ''close'' r e 0) (\<lambda>_. Inr (w\<lparr>FD_eof := True, FD_closed := True\<rparr>, k)))"

text \<open>The destructor closes an open descriptor, and reports a failure without throwing.\<close>

definition FDWrapper_destroy :: "('k \<Rightarrow> int \<Rightarrow> int \<times> int \<times> 'k) \<Rightarrow> 'k \<Rightarrow> FDWrapper \<Rightarrow> 'k \<times> cpp_error option" where
  "FDWrapper_destroy sys_close k w =
     (if FD_closed w then (k, None)
      else case FDWrapper_close sys_close k w of
             Inl e \<Rightarrow> (snd (snd (sys_close k (FD_fd w))), Some e)
           | Inr (w, k) \<Rightarrow> (k, None))"

section \<open>FileDescriptor\<close>

definition FileDescriptor_register_read :: "FDWrapper \<Rightarrow> FDWrapper" where
  "FileDescriptor_register_read w = w\<lparr>FD_read_count := FD_read_count w + 1\<rparr>"

definition FileDescriptor_register_write :: "FDWrapper \<Rightarrow> FDWrapper" where
  "FileDescriptor_register_write w = w\<lparr>FD_write_count := FD_write_count w + 1\<rparr>"

definition BUFFER_SIZE :: u64 where
  "BUFFER_SIZE = 1024 * 1024"

definition str_resize_int :: "bytes \<Rightarrow> int \<Rightarrow> bytes result" where
  "str_resize_int s n = (if n < 0 then Inl (LengthError ''basic_string::_M_replace_aux'') else Inr (str_resize s (word_of_int n)))"

text \<open>The call fills the front of the buffer with the bytes it read.\<close>

type_synonym 'k sys_read = "'k \<Rightarrow> int \<Rightarrow> u64 \<Rightarrow> int \<times> int \<times> bytes \<times> 'k"

definition FileDescriptor_read :: "'k sys_read \<Rightarrow> 'k \<Rightarrow> FDWrapper \<Rightarrow> u64 \<Rightarrow> (bytes \<times> FDWrapper \<times> 'k) result" where
  "FileDescriptor_read sys_read k w limit =
     (let size_to_read = min BUFFER_SIZE limit;
          (r, e, data, k) = sys_read k (FD_fd w) size_to_read;
          str = str_resize data size_to_read
      in bindR (SystemCall ''read'' r e 0) (\<lambda>bytes_read.
         let w = (if limit > 0 \<and> bytes_read = 0 then w\<lparr>FD_eof := True\<rparr> else w)
         in if bytes_read > uint size_to_read then Inl (RuntimeError ''read() read more than requested'')
            else bindR (str_resize_int str bytes_read) (\<lambda>str.
                 Inr (str, FileDescriptor_register_read w, k))))"

type_synonym 'k sys_writev = "'k \<Rightarrow> int \<Rightarrow> (bytes \<times> u64) list \<Rightarrow> int \<times> int \<times> 'k"

text \<open>One pass of the loop of write: what is left, and how many bytes went out.\<close>

definition write_once :: "'k sys_writev \<Rightarrow> 'k \<Rightarrow> FDWrapper \<Rightarrow> BufferViewList \<Rightarrow> (int \<times> BufferViewList \<times> FDWrapper \<times> 'k) result" where
  "write_once sys_writev k w buffer =
     (let (r, e, k) = sys_writev k (FD_fd w) (BufferViewList_as_iovecs buffer)
      in bindR (SystemCall ''writev'' r e 0) (\<lambda>bytes_written.
         if bytes_written = 0 \<and> BufferViewList_size buffer \<noteq> 0
         then Inl (RuntimeError ''write returned 0 given non-empty input buffer'')
         else if bytes_written > sint (BufferViewList_size buffer)
         then Inl (RuntimeError ''write wrote more than length of input buffer'')
         else let w = FileDescriptor_register_write w
              in bindR (BufferViewList_remove_prefix buffer (word_of_int bytes_written)) (\<lambda>buffer.
                 Inr (bytes_written, buffer, w, k))))"

lemma to_int_bounds: "- (2 ^ 31) \<le> to_int n" "to_int n < 2 ^ 31"
  using sint_greater_eq [of "word_of_int n :: 32 word"] sint_less [of "word_of_int n :: 32 word"] by (simp_all add: to_int_def)

lemma to_int_small: "0 \<le> n \<Longrightarrow> n < 2 ^ 31 \<Longrightarrow> to_int n = n"
  by (simp add: to_int_def sint_sbintrunc' signed_take_bit_int_eq_self)

lemma SystemCall_int: "SystemCall a r e m = Inr n \<Longrightarrow> n = to_int r"
  by (auto simp: SystemCall_def Let_def split: if_splits)

lemma remove_loop_shrinks:
  "BufferViewList_remove_loop n vs = Inr vs' \<Longrightarrow> n \<noteq> 0 \<Longrightarrow> length (concat vs') < length (concat vs)"
proof (induction n vs rule: BufferViewList_remove_loop.induct)
  case (2 n v vs)
  have pos: "n > 0" using 2(3) by (simp add: word_gt_0)
  show ?case
  proof (cases "n < str_size v")
    case True
    then have "unat n < length v" using unat_str_size_le [of v] by (simp add: word_less_nat_alt)
    moreover have "0 < unat n" using 2(3) by (simp add: unat_gt_0)
    ultimately show ?thesis using 2(2) pos True by auto
  next
    case False
    then have rest: "BufferViewList_remove_loop (n - str_size v) vs = Inr vs'" using 2(2) pos by simp
    show ?thesis
    proof (cases "n - str_size v = 0")
      case True
      then have "vs' = vs" using rest by (cases vs) simp_all
      moreover have "v \<noteq> []" using True 2(3) by (auto simp: str_size_def)
      ultimately show ?thesis by simp
    next
      case nz: False
      then show ?thesis using 2(1) [OF pos False rest nz] by simp
    qed
  qed
qed (simp add: word_gt_0)

lemma write_once_shrinks:
  assumes "write_once sw k w b = Inr (n, b', w', k')" and "BufferViewList_size b' \<noteq> 0"
  shows "length (BufferViewList_contents b') < length (BufferViewList_contents b)"
proof -
  obtain r e k1 where "sw k (FD_fd w) (BufferViewList_as_iovecs b) = (r, e, k1)" by (cases "sw k (FD_fd w) (BufferViewList_as_iovecs b)")
  then have n: "SystemCall ''writev'' r e 0 = Inr n" "\<not> (n = 0 \<and> BufferViewList_size b \<noteq> 0)"
    "BufferViewList_remove_prefix b (word_of_int n) = Inr b'"
    using assms(1) by (auto simp: write_once_def Let_def bindR_eq_Inr_iff split: if_splits)
  obtain vs where vs: "BufferViewList_remove_loop (word_of_int n) (BV_views b) = Inr vs" "b' = b\<lparr>BV_views := vs\<rparr>"
    using n(3) by (auto simp: BufferViewList_remove_prefix_def bindR_eq_Inr_iff)
  show ?thesis
  proof (cases "(word_of_int n :: u64) = 0")
    case True
    have "- (2 ^ 31) \<le> n" "n < 2 ^ 31" using SystemCall_int [OF n(1)] to_int_bounds [of r] by simp_all
    moreover have "(2 ^ 64 :: int) dvd n" using True word_of_int_eq_0_iff [where 'a = 64, of n] by simp
    ultimately have "n = 0" using zdvd_imp_le [of "2 ^ 64" n] zdvd_imp_le [of "2 ^ 64" "- n"] by (cases "n < 0"; cases "n = 0") auto
    moreover have "vs = BV_views b" using vs(1) True by (cases "BV_views b") simp_all
    ultimately show ?thesis using n(2) assms(2) vs(2) by (cases b) simp
  next
    case False
    then show ?thesis using remove_loop_shrinks [OF vs(1)] vs(2) by (simp add: BufferViewList_contents_def)
  qed
qed

function FileDescriptor_write_loop ::
    "'k sys_writev \<Rightarrow> bool \<Rightarrow> u64 \<Rightarrow> 'k \<Rightarrow> FDWrapper \<Rightarrow> BufferViewList \<Rightarrow> (u64 \<times> FDWrapper \<times> 'k) result" where
  "FileDescriptor_write_loop sys_writev write_all total_bytes_written k w buffer =
     bindR (write_once sys_writev k w buffer) (\<lambda>(bytes_written, buffer, w, k).
     let total_bytes_written = total_bytes_written + word_of_int bytes_written
     in if write_all \<and> BufferViewList_size buffer \<noteq> 0 then FileDescriptor_write_loop sys_writev write_all total_bytes_written k w buffer
        else Inr (total_bytes_written, w, k))"
  by pat_completeness auto
termination
  by (relation "measure (\<lambda>(sw, wa, t, k, w, b). length (BufferViewList_contents b))") (auto dest: write_once_shrinks)

declare FileDescriptor_write_loop.simps [simp del]

definition FileDescriptor_write :: "'k sys_writev \<Rightarrow> 'k \<Rightarrow> FDWrapper \<Rightarrow> BufferViewList \<Rightarrow> bool \<Rightarrow> (u64 \<times> FDWrapper \<times> 'k) result" where
  "FileDescriptor_write sys_writev k w buffer write_all = FileDescriptor_write_loop sys_writev write_all 0 k w buffer"

definition O_NONBLOCK :: u32 where
  "O_NONBLOCK = 0x800"

definition FileDescriptor_set_blocking ::
    "('k \<Rightarrow> int \<Rightarrow> int \<times> int \<times> 'k) \<Rightarrow> ('k \<Rightarrow> int \<Rightarrow> int \<Rightarrow> int \<times> int \<times> 'k) \<Rightarrow> 'k \<Rightarrow> FDWrapper \<Rightarrow> bool \<Rightarrow> 'k result" where
  "FileDescriptor_set_blocking getfl setfl k w blocking_state =
     (let (r, e, k) = getfl k (FD_fd w)
      in bindR (SystemCall ''fcntl'' r e 0) (\<lambda>flags.
         let flags = (word_of_int flags :: u32);
             flags = (if blocking_state then flags XOR (flags AND O_NONBLOCK) else flags OR O_NONBLOCK);
             (r, e, k) = setfl k (FD_fd w) (sint flags)
         in bindR (SystemCall ''fcntl'' r e 0) (\<lambda>_. Inr k)))"

section \<open>Reading\<close>

text \<open>A read that succeeds gives at most the bytes asked for.\<close>

definition read_gives :: "'k sys_read \<Rightarrow> 'k \<Rightarrow> int \<Rightarrow> u64 \<Rightarrow> bytes \<Rightarrow> 'k \<Rightarrow> bool" where
  "read_gives sys_read k fd n data k' \<longleftrightarrow>
     (\<exists>e. sys_read k fd n = (int (length data), e, data, k')) \<and> length data \<le> unat n"

lemma str_resize_exact: "length s \<le> unat n \<Longrightarrow> str_resize (str_resize s n) (of_nat (length s)) = s"
proof -
  assume le: "length s \<le> unat n"
  have "unat (of_nat (length s) :: u64) = length s"
    by (rule unat_of_nat_small) (use le unat_lt_size [of n] in \<open>simp add: le_less_trans\<close>)
  then show ?thesis using le by (simp add: str_resize_pad) (simp add: str_resize_def)
qed

lemma FileDescriptor_read_ok:
  assumes "read_gives sr k (FD_fd w) (min BUFFER_SIZE limit) data k'"
  shows "FileDescriptor_read sr k w limit
    = Inr (data, w\<lparr>FD_eof := (FD_eof w \<or> limit > 0 \<and> data = []), FD_read_count := FD_read_count w + 1\<rparr>, k')"
proof -
  define n where "n = min BUFFER_SIZE limit"
  obtain e where r: "sr k (FD_fd w) n = (int (length data), e, data, k')" and le: "length data \<le> unat n"
    using assms by (auto simp: read_gives_def n_def)
  have "unat n \<le> 1048576" unfolding n_def unat_min by (simp add: BUFFER_SIZE_def)
  then have "int (length data) < 2 ^ 31" using le by simp
  then have sc: "SystemCall ''read'' (int (length data)) e 0 = Inr (int (length data))"
    by (simp add: SystemCall_def to_int_small)
  have "uint n = int (unat n)" by simp
  then have more: "\<not> int (length data) > uint n" using le by linarith
  have exact: "str_resize_int (str_resize data n) (int (length data)) = Inr data"
    using str_resize_exact [OF le] by (simp add: str_resize_int_def)
  show ?thesis
    unfolding FileDescriptor_read_def n_def [symmetric] r Let_def prod.case sc bindR.simps if_not_P [OF more] exact
    by (cases w) (auto simp: FileDescriptor_register_read_def)
qed

section \<open>Writing\<close>

text \<open>
  What a write relies on, by the documentation of \<^verbatim>\<open>writev(2)\<close>: given something to
  write, a call that succeeds takes a front part of it that is not empty; given nothing, it does nothing.
  \<open>out\<close> is what has been written to a descriptor.
\<close>

definition writev_ok :: "('k \<Rightarrow> int \<Rightarrow> bytes) \<Rightarrow> 'k sys_writev \<Rightarrow> bool" where
  "writev_ok out sys_writev \<longleftrightarrow> (\<forall>k fd iov.
     let data = concat (map fst iov); (r, e, k') = sys_writev k fd iov
     in 0 \<le> r \<and> r \<le> int (length data) \<and> r < 2 ^ 31 \<and> (r = 0 \<longrightarrow> data = [])
        \<and> out k' fd = out k fd @ take (nat r) data)"

lemma iovecs_data: "concat (map fst (BufferViewList_as_iovecs b)) = BufferViewList_contents b"
  using foldl_append_map [of "\<lambda>x. [(x, str_size x)]" "[]" "BV_views b"]
  by (simp add: BufferViewList_as_iovecs_def BufferViewList_contents_def o_def)

lemma write_once_call:
  assumes call: "sw k (FD_fd w) (BufferViewList_as_iovecs b) = (r, e, k')" and b: "length (BufferViewList_contents b) < 2 ^ 63"
    and r: "0 \<le> r" "r \<le> int (length (BufferViewList_contents b))" "r < 2 ^ 31" "r = 0 \<longrightarrow> BufferViewList_contents b = []"
  shows "\<exists>b'. write_once sw k w b = Inr (r, b', FileDescriptor_register_write w, k')
    \<and> BufferViewList_contents b' = drop (nat r) (BufferViewList_contents b)"
proof -
  let ?data = "BufferViewList_contents b"
  have inv: "BufferViewList_inv b" using b by (simp add: BufferViewList_inv_def)
  have sc: "SystemCall ''writev'' r e 0 = Inr r" using r by (simp add: SystemCall_def to_int_small)
  have size: "unat (BufferViewList_size b) = length ?data" by (rule unat_BufferViewList_size [OF inv])
  then have "uint (BufferViewList_size b) = int (length ?data)" by (simp flip: size)
  then have "sint (BufferViewList_size b) = int (length ?data)"
    using b by (simp add: sint_uint signed_take_bit_int_eq_self)
  then have le: "\<not> r > sint (BufferViewList_size b)" "\<not> (r = 0 \<and> BufferViewList_size b \<noteq> 0)"
    using r size by (auto simp: unat_eq_zero)
  have "unat (word_of_int r :: u64) = nat r"
    using r(1,3) by (simp add: unat_eq_nat_uint uint_word_of_int)
  then obtain b' where "BufferViewList_remove_prefix b (word_of_int r) = Inr b'" "BufferViewList_contents b' = drop (nat r) ?data"
    using views.remove_law [OF inv, of "word_of_int r"] r(2) by (auto simp: nat_le_iff)
  then show ?thesis using call sc le by (simp add: write_once_def)
qed

lemma write_once_ok:
  assumes ok: "writev_ok out sw" and b: "length (BufferViewList_contents b) < 2 ^ 63"
  obtains n b' k' where "write_once sw k w b = Inr (int n, b', FileDescriptor_register_write w, k')"
    "n \<le> length (BufferViewList_contents b)" "BufferViewList_contents b' = drop n (BufferViewList_contents b)"
    "n = 0 \<longrightarrow> BufferViewList_contents b = []"
    "out k' (FD_fd w) = out k (FD_fd w) @ take n (BufferViewList_contents b)"
proof -
  obtain r e k' where call: "sw k (FD_fd w) (BufferViewList_as_iovecs b) = (r, e, k')"
    by (cases "sw k (FD_fd w) (BufferViewList_as_iovecs b)")
  have r: "0 \<le> r" "r \<le> int (length (BufferViewList_contents b))" "r < 2 ^ 31" "r = 0 \<longrightarrow> BufferViewList_contents b = []"
      "out k' (FD_fd w) = out k (FD_fd w) @ take (nat r) (BufferViewList_contents b)"
    using ok [unfolded writev_ok_def, THEN spec [of _ k], THEN spec [of _ "FD_fd w"], THEN spec [of _ "BufferViewList_as_iovecs b"]] call
    by (simp_all add: iovecs_data Let_def)
  obtain b' where "write_once sw k w b = Inr (r, b', FileDescriptor_register_write w, k')"
    "BufferViewList_contents b' = drop (nat r) (BufferViewList_contents b)"
    using write_once_call [of sw k w b r e k'] call b r(1-4) by blast
  then show thesis using that [of "nat r" b' k'] r by simp
qed

lemma write_loop_ok:
  assumes "writev_ok out sw" and "length (BufferViewList_contents b) < 2 ^ 63"
  shows "\<exists>w' k' n. FileDescriptor_write_loop sw True t k w b = Inr (t + of_nat (length (BufferViewList_contents b)), w', k')
    \<and> out k' (FD_fd w) = out k (FD_fd w) @ BufferViewList_contents b
    \<and> w' = w\<lparr>FD_write_count := FD_write_count w + of_nat n\<rparr> \<and> 0 < n \<and> n \<le> max 1 (length (BufferViewList_contents b))"
  using assms(2)
proof (induction "length (BufferViewList_contents b)" arbitrary: t k w b rule: less_induct)
  case less
  let ?data = "BufferViewList_contents b"
  obtain m b' k' where one: "write_once sw k w b = Inr (int m, b', FileDescriptor_register_write w, k')"
    "m \<le> length ?data" "BufferViewList_contents b' = drop m ?data" "m = 0 \<longrightarrow> ?data = []"
    "out k' (FD_fd w) = out k (FD_fd w) @ take m ?data"
    by (rule write_once_ok [OF assms(1) less.prems])
  have b': "length (BufferViewList_contents b') < 2 ^ 63" using one(3) less.prems by simp
  then have size: "BufferViewList_size b' = 0 \<longleftrightarrow> BufferViewList_contents b' = []"
    using unat_BufferViewList_size [of b'] by (auto simp: BufferViewList_inv_def simp flip: unat_eq_zero)
  show ?case
  proof (cases "BufferViewList_contents b' = []")
    case True
    then have "m = length ?data" using one(2,3) by simp
    then show ?thesis
      using True one size
      by (intro exI [of _ "FileDescriptor_register_write w"] exI [of _ k'] exI [of _ 1])
        (subst FileDescriptor_write_loop.simps, simp add: FileDescriptor_register_write_def)
  next
    case False
    then have shorter: "length (BufferViewList_contents b') < length ?data" using one(3,4) by (cases m) auto
    let ?w = "FileDescriptor_register_write w"
    obtain w2 k2 n where "FileDescriptor_write_loop sw True (t + word_of_int (int m)) k' ?w b'
        = Inr (t + word_of_int (int m) + of_nat (length (BufferViewList_contents b')), w2, k2)"
      "out k2 (FD_fd ?w) = out k' (FD_fd ?w) @ BufferViewList_contents b'"
      "w2 = ?w\<lparr>FD_write_count := FD_write_count ?w + of_nat n\<rparr>" "0 < n" "n \<le> max 1 (length (BufferViewList_contents b'))"
      using less.hyps [OF shorter b'] by blast
    moreover have "t + word_of_int (int m) + of_nat (length (BufferViewList_contents b')) = t + of_nat (length ?data)"
      using one(2,3) by (simp add: of_nat_diff)
    ultimately show ?thesis
      using one False size shorter
      by (intro exI [of _ w2] exI [of _ k2] exI [of _ "Suc n"])
        (subst FileDescriptor_write_loop.simps, auto simp: FileDescriptor_register_write_def add.commute add.left_commute)
  qed
qed

section \<open>Counting\<close>

lemma FileDescriptor_read_counts:
  "FileDescriptor_read sr k w n = Inr (data, w', k') \<Longrightarrow> FD_read_count w' = FD_read_count w + 1 \<and> FD_closed w' = FD_closed w"
  by (auto simp: FileDescriptor_read_def Let_def bindR_eq_Inr_iff FileDescriptor_register_read_def split: prod.splits if_splits)

lemma FileDescriptor_write_counts:
  "FileDescriptor_write sw k w b False = Inr (n, w', k') \<Longrightarrow> w' = FileDescriptor_register_write w"
  unfolding FileDescriptor_write_def
  by (subst (asm) FileDescriptor_write_loop.simps)
    (auto simp: write_once_def Let_def bindR_eq_Inr_iff split: prod.splits if_splits)

lemma FileDescriptor_read_length:
  assumes "FileDescriptor_read sr k w limit = Inr (data, w', k')"
  shows "length data \<le> unat limit"
proof -
  define n where "n = min BUFFER_SIZE limit"
  obtain r e d k1 where call: "sr k (FD_fd w) n = (r, e, d, k1)" by (cases "sr k (FD_fd w) n")
  obtain m where "SystemCall ''read'' r e 0 = Inr m"
    using assms call by (cases "SystemCall ''read'' r e 0") (simp_all add: FileDescriptor_read_def n_def [symmetric])
  then have m: "\<not> m > uint n" "str_resize_int (str_resize d n) m = Inr data"
    using assms call by (auto simp: FileDescriptor_read_def n_def [symmetric] Let_def bindR_eq_Inr_iff split: if_splits)
  have uint: "uint n = int (unat n)" by simp
  then have le: "nat m \<le> unat n" using m(1) by linarith
  moreover have "0 \<le> m" "data = str_resize (str_resize d n) (word_of_int m)" using m(2) by (auto simp: str_resize_int_def split: if_splits)
  moreover have "unat (word_of_int m :: u64) \<le> nat m" using \<open>0 \<le> m\<close>
    by (simp add: unat_eq_nat_uint uint_word_of_int nat_le_eq_zle zmod_le_nonneg_dividend)
  ultimately have "length data \<le> unat n" by (simp add: str_resize_def)
  also have "unat n \<le> unat limit" unfolding n_def unat_min by simp
  finally show ?thesis .
qed

section \<open>Properties\<close>

text \<open>C31: a write of everything ends, reports the length of its input, and hands the bytes over
  completely and in order, however few of them each system call takes; every call is counted.\<close>

theorem write_hands_over_all:
  assumes "writev_ok out sys_writev" and "length (BufferViewList_contents b) < 2 ^ 63"
  shows "\<exists>w' k' n. FileDescriptor_write sys_writev k w b True = Inr (of_nat (length (BufferViewList_contents b)), w', k')
    \<and> out k' (FD_fd w) = out k (FD_fd w) @ BufferViewList_contents b
    \<and> w' = w\<lparr>FD_write_count := FD_write_count w + of_nat n\<rparr> \<and> 0 < n \<and> n \<le> max 1 (length (BufferViewList_contents b))"
  using write_loop_ok [OF assms, of 0 k w] by (simp add: FileDescriptor_write_def)

text \<open>A system that takes at most two bytes a call, for use as an example.\<close>

definition two_bytes :: "bytes sys_writev" where
  "two_bytes k fd iov = (let data = take 2 (concat (map fst iov)) in (int (length data), 0, k @ data))"

theorem write_hands_over_all_witness:
  "\<exists>w' k' n. FileDescriptor_write two_bytes [9] \<lparr>FD_fd = 3, FD_eof = False, FD_closed = False, FD_read_count = 0, FD_write_count = 0\<rparr>
       \<lparr>BV_views = [[1, 2, 3], [4, 5]]\<rparr> True = Inr (5, w', k')
    \<and> k' = [9, 1, 2, 3, 4, 5] \<and> FD_write_count w' = of_nat n \<and> 0 < n"
proof -
  have "writev_ok (\<lambda>k fd. k) two_bytes" by (auto simp: writev_ok_def two_bytes_def Let_def take_all_iff min_def)
  from write_hands_over_all [OF this, of "\<lparr>BV_views = [[1, 2, 3], [4, 5]]\<rparr>" "[9]"
      "\<lparr>FD_fd = 3, FD_eof = False, FD_closed = False, FD_read_count = 0, FD_write_count = 0\<rparr>"]
  show ?thesis by (auto simp: BufferViewList_contents_def)
qed

end
