(* ===== verification/Sockets.thy ===== *)
theory Sockets
  imports File_Descriptor
begin

text \<open>
  Sockets of the operating system, from \<^verbatim>\<open>util/socket\<close>. A socket is a descriptor; the system
  calls are arguments, as in \<open>File_Descriptor\<close>. Shown here: a datagram is received whole or the receiver
  throws, it is never cut to the size of the buffer; sending throws unless the whole datagram went out; and a
  descriptor of another kind is never taken for a socket of the expected kind.
\<close>

unbundle bit_operations_syntax

section \<open>Constants of the system\<close>

definition SHUT_RD :: int where "SHUT_RD = 0"
definition SHUT_WR :: int where "SHUT_WR = 1"
definition SHUT_RDWR :: int where "SHUT_RDWR = 2"
definition SOL_SOCKET :: int where "SOL_SOCKET = 1"
definition SO_REUSEADDR :: int where "SO_REUSEADDR = 2"
definition SO_TYPE :: int where "SO_TYPE = 3"
definition SO_DOMAIN :: int where "SO_DOMAIN = 39"
definition SOCK_STREAM :: int where "SOCK_STREAM = 1"
definition SOCK_DGRAM :: int where "SOCK_DGRAM = 2"
definition AF_UNIX :: int where "AF_UNIX = 1"

section \<open>Socket\<close>

definition Socket_new :: "('k \<Rightarrow> int \<Rightarrow> int \<Rightarrow> int \<times> int \<times> 'k) \<Rightarrow> 'k \<Rightarrow> int \<Rightarrow> int \<Rightarrow> (FDWrapper \<times> 'k) result" where
  "Socket_new sys_socket k domain type =
     (let (r, e, k) = sys_socket k domain type
      in bindR (SystemCall ''socket'' r e 0) (\<lambda>fd. bindR (FDWrapper_new fd) (\<lambda>w. Inr (w, k))))"

text \<open>The call for an option gives the return value, \<^verbatim>\<open>errno\<close>, the value and its length.\<close>

type_synonym 'k sys_getsockopt = "'k \<Rightarrow> int \<Rightarrow> int \<Rightarrow> int \<Rightarrow> int \<times> int \<times> int \<times> u32 \<times> 'k"

definition verify_option :: "'k sys_getsockopt \<Rightarrow> string \<Rightarrow> 'k \<Rightarrow> FDWrapper \<Rightarrow> int \<Rightarrow> int \<Rightarrow> 'k result" where
  "verify_option sys_getsockopt mismatch k fd option_name expected =
     (let (r, e, actual_value, len, k) = sys_getsockopt k (FD_fd fd) SOL_SOCKET option_name
      in bindR (SystemCall ''getsockopt'' r e 0) (\<lambda>_.
         if len \<noteq> 4 \<or> actual_value \<noteq> expected then Inl (RuntimeError mismatch) else Inr k))"

definition Socket_of_fd :: "'k sys_getsockopt \<Rightarrow> 'k \<Rightarrow> FDWrapper \<Rightarrow> int \<Rightarrow> int \<Rightarrow> (FDWrapper \<times> 'k) result" where
  "Socket_of_fd sys_getsockopt k fd domain type =
     bindR (verify_option sys_getsockopt ''socket domain mismatch'' k fd SO_DOMAIN domain) (\<lambda>k.
     bindR (verify_option sys_getsockopt ''socket type mismatch'' k fd SO_TYPE type) (\<lambda>k. Inr (fd, k)))"

text \<open>The calls that give an address fill the raw storage and its size.\<close>

type_synonym 'k sys_address = "'k \<Rightarrow> int \<Rightarrow> int \<times> int \<times> bytes \<times> u32 \<times> 'k"

definition Socket_get_address :: "string \<Rightarrow> 'k sys_address \<Rightarrow> 'k \<Rightarrow> FDWrapper \<Rightarrow> (Address \<times> 'k) result" where
  "Socket_get_address name_of_function get_name k w =
     (let (r, e, address, len, k) = get_name k (FD_fd w)
      in bindR (SystemCall name_of_function r e 0) (\<lambda>_.
         bindR (Address_of_sockaddr address (ucast len)) (\<lambda>a. Inr (a, k))))"

definition Socket_local_address :: "'k sys_address \<Rightarrow> 'k \<Rightarrow> FDWrapper \<Rightarrow> (Address \<times> 'k) result" where
  "Socket_local_address getsockname = Socket_get_address ''getsockname'' getsockname"

definition Socket_peer_address :: "'k sys_address \<Rightarrow> 'k \<Rightarrow> FDWrapper \<Rightarrow> (Address \<times> 'k) result" where
  "Socket_peer_address getpeername = Socket_get_address ''getpeername'' getpeername"

type_synonym 'k sys_with_address = "'k \<Rightarrow> int \<Rightarrow> Address \<Rightarrow> int \<times> int \<times> 'k"

definition Socket_bind :: "'k sys_with_address \<Rightarrow> 'k \<Rightarrow> FDWrapper \<Rightarrow> Address \<Rightarrow> 'k result" where
  "Socket_bind sys_bind k w address =
     (let (r, e, k) = sys_bind k (FD_fd w) address in bindR (SystemCall ''bind'' r e 0) (\<lambda>_. Inr k))"

definition Socket_connect :: "'k sys_with_address \<Rightarrow> 'k \<Rightarrow> FDWrapper \<Rightarrow> Address \<Rightarrow> 'k result" where
  "Socket_connect sys_connect k w address =
     (let (r, e, k) = sys_connect k (FD_fd w) address in bindR (SystemCall ''connect'' r e 0) (\<lambda>_. Inr k))"

definition Socket_shutdown :: "('k \<Rightarrow> int \<Rightarrow> int \<Rightarrow> int \<times> int \<times> 'k) \<Rightarrow> 'k \<Rightarrow> FDWrapper \<Rightarrow> int \<Rightarrow> (FDWrapper \<times> 'k) result" where
  "Socket_shutdown sys_shutdown k w how =
     (let (r, e, k) = sys_shutdown k (FD_fd w) how
      in bindR (SystemCall ''shutdown'' r e 0) (\<lambda>_.
         if how = SHUT_RD then Inr (FileDescriptor_register_read w, k)
         else if how = SHUT_WR then Inr (FileDescriptor_register_write w, k)
         else if how = SHUT_RDWR then Inr (FileDescriptor_register_write (FileDescriptor_register_read w), k)
         else Inl (RuntimeError ''Socket::shutdown() called with invalid `how`'')))"

text \<open>All options set are integers.\<close>

definition Socket_setsockopt :: "('k \<Rightarrow> int \<Rightarrow> int \<Rightarrow> int \<Rightarrow> int \<Rightarrow> int \<times> int \<times> 'k) \<Rightarrow> 'k \<Rightarrow> FDWrapper \<Rightarrow> int \<Rightarrow> int \<Rightarrow> int \<Rightarrow> 'k result" where
  "Socket_setsockopt sys_setsockopt k w level option_name option_value =
     (let (r, e, k) = sys_setsockopt k (FD_fd w) level option_name option_value
      in bindR (SystemCall ''setsockopt'' r e 0) (\<lambda>_. Inr k))"

definition Socket_set_reuseaddr :: "('k \<Rightarrow> int \<Rightarrow> int \<Rightarrow> int \<Rightarrow> int \<Rightarrow> int \<times> int \<times> 'k) \<Rightarrow> 'k \<Rightarrow> FDWrapper \<Rightarrow> 'k result" where
  "Socket_set_reuseaddr sys_setsockopt k w = Socket_setsockopt sys_setsockopt k w SOL_SOCKET SO_REUSEADDR 1"

section \<open>UDPSocket\<close>

record received_datagram =
  RD_source_address :: Address
  RD_payload :: bytes

definition UDPSocket_new :: "('k \<Rightarrow> int \<Rightarrow> int \<Rightarrow> int \<times> int \<times> 'k) \<Rightarrow> 'k \<Rightarrow> (FDWrapper \<times> 'k) result" where
  "UDPSocket_new sys_socket k = Socket_new sys_socket k (uint AF_INET) SOCK_DGRAM"

definition UDPSocket_of_fd :: "'k sys_getsockopt \<Rightarrow> 'k \<Rightarrow> FDWrapper \<Rightarrow> (FDWrapper \<times> 'k) result" where
  "UDPSocket_of_fd sys_getsockopt k fd = Socket_of_fd sys_getsockopt k fd (uint AF_INET) SOCK_DGRAM"

text \<open>
  The call is made with the flag \<^verbatim>\<open>MSG_TRUNC\<close>: it gives the return value, \<^verbatim>\<open>errno\<close>,
  the bytes it put at the front of the buffer, and the address of the sender with its size.
\<close>

type_synonym 'k sys_recvfrom = "'k \<Rightarrow> int \<Rightarrow> u64 \<Rightarrow> int \<times> int \<times> bytes \<times> bytes \<times> u32 \<times> 'k"

definition UDPSocket_recv_into ::
    "'k sys_recvfrom \<Rightarrow> 'k \<Rightarrow> FDWrapper \<Rightarrow> received_datagram \<Rightarrow> u64 \<Rightarrow> (received_datagram \<times> FDWrapper \<times> 'k) result" where
  "UDPSocket_recv_into sys_recvfrom k w datagram mtu =
     (let payload = str_resize (RD_payload datagram) mtu;
          (r, e, data, datagram_source_address, fromlen, k) = sys_recvfrom k (FD_fd w) (str_size payload);
          payload = data @ drop (length data) payload
      in bindR (SystemCall ''recvfrom'' r e 0) (\<lambda>recv_len.
         if recv_len > sint mtu then Inl (RuntimeError ''recvfrom (oversized datagram)'')
         else let w = FileDescriptor_register_read w
              in bindR (Address_of_sockaddr datagram_source_address (ucast fromlen)) (\<lambda>source_address.
                 bindR (str_resize_int payload recv_len) (\<lambda>payload.
                 Inr (\<lparr>RD_source_address = source_address, RD_payload = payload\<rparr>, w, k)))))"

definition UDPSocket_recv :: "'k sys_recvfrom \<Rightarrow> 'k \<Rightarrow> FDWrapper \<Rightarrow> u64 \<Rightarrow> (received_datagram \<times> FDWrapper \<times> 'k) result" where
  "UDPSocket_recv sys_recvfrom k w mtu =
     bindR (Address_of_sockaddr [] 0) (\<lambda>no_address.
     UDPSocket_recv_into sys_recvfrom k w \<lparr>RD_source_address = no_address, RD_payload = []\<rparr> mtu)"

text \<open>A destination of \<open>None\<close> is the null pointer: the address the socket is connected to.\<close>

type_synonym 'k sys_sendmsg = "'k \<Rightarrow> int \<Rightarrow> Address option \<Rightarrow> (bytes \<times> u64) list \<Rightarrow> int \<times> int \<times> 'k"

definition sendmsg_helper :: "'k sys_sendmsg \<Rightarrow> 'k \<Rightarrow> int \<Rightarrow> Address option \<Rightarrow> BufferViewList \<Rightarrow> 'k result" where
  "sendmsg_helper sys_sendmsg k fd_num destination payload =
     (let (r, e, k) = sys_sendmsg k fd_num destination (BufferViewList_as_iovecs payload)
      in bindR (SystemCall ''sendmsg'' r e 0) (\<lambda>bytes_sent.
         if word_of_int bytes_sent \<noteq> BufferViewList_size payload
         then Inl (RuntimeError ''datagram payload too big for sendmsg()'') else Inr k))"

definition UDPSocket_sendto :: "'k sys_sendmsg \<Rightarrow> 'k \<Rightarrow> FDWrapper \<Rightarrow> Address \<Rightarrow> BufferViewList \<Rightarrow> (FDWrapper \<times> 'k) result" where
  "UDPSocket_sendto sys_sendmsg k w destination payload =
     bindR (sendmsg_helper sys_sendmsg k (FD_fd w) (Some destination) payload) (\<lambda>k. Inr (FileDescriptor_register_write w, k))"

definition UDPSocket_send :: "'k sys_sendmsg \<Rightarrow> 'k \<Rightarrow> FDWrapper \<Rightarrow> BufferViewList \<Rightarrow> (FDWrapper \<times> 'k) result" where
  "UDPSocket_send sys_sendmsg k w payload =
     bindR (sendmsg_helper sys_sendmsg k (FD_fd w) None payload) (\<lambda>k. Inr (FileDescriptor_register_write w, k))"

section \<open>TCPSocket and LocalStreamSocket\<close>

definition TCPSocket_new :: "('k \<Rightarrow> int \<Rightarrow> int \<Rightarrow> int \<times> int \<times> 'k) \<Rightarrow> 'k \<Rightarrow> (FDWrapper \<times> 'k) result" where
  "TCPSocket_new sys_socket k = Socket_new sys_socket k (uint AF_INET) SOCK_STREAM"

definition TCPSocket_of_fd :: "'k sys_getsockopt \<Rightarrow> 'k \<Rightarrow> FDWrapper \<Rightarrow> (FDWrapper \<times> 'k) result" where
  "TCPSocket_of_fd sys_getsockopt k fd = Socket_of_fd sys_getsockopt k fd (uint AF_INET) SOCK_STREAM"

definition TCPSocket_listen :: "('k \<Rightarrow> int \<Rightarrow> int \<Rightarrow> int \<times> int \<times> 'k) \<Rightarrow> 'k \<Rightarrow> FDWrapper \<Rightarrow> int \<Rightarrow> 'k result" where
  "TCPSocket_listen sys_listen k w backlog =
     (let (r, e, k) = sys_listen k (FD_fd w) backlog in bindR (SystemCall ''listen'' r e 0) (\<lambda>_. Inr k))"

text \<open>The listening socket is counted as read, and the new one comes first in the result.\<close>

definition TCPSocket_accept ::
    "('k \<Rightarrow> int \<Rightarrow> int \<times> int \<times> 'k) \<Rightarrow> 'k sys_getsockopt \<Rightarrow> 'k \<Rightarrow> FDWrapper \<Rightarrow> (FDWrapper \<times> FDWrapper \<times> 'k) result" where
  "TCPSocket_accept sys_accept sys_getsockopt k w =
     (let w = FileDescriptor_register_read w; (r, e, k) = sys_accept k (FD_fd w)
      in bindR (SystemCall ''accept'' r e 0) (\<lambda>fd.
         bindR (FDWrapper_new fd) (\<lambda>new.
         bindR (TCPSocket_of_fd sys_getsockopt k new) (\<lambda>(new, k). Inr (new, w, k)))))"

definition LocalStreamSocket_of_fd :: "'k sys_getsockopt \<Rightarrow> 'k \<Rightarrow> FDWrapper \<Rightarrow> (FDWrapper \<times> 'k) result" where
  "LocalStreamSocket_of_fd sys_getsockopt k fd = Socket_of_fd sys_getsockopt k fd AF_UNIX SOCK_STREAM"

section \<open>TUN and TAP devices\<close>

text \<open>From \<^verbatim>\<open>util/tun\<close>: the request to the driver holds a name of 16 characters and the flags.\<close>

definition CLONEDEV :: string where "CLONEDEV = ''/dev/net/tun''"
definition IFNAMSIZ :: nat where "IFNAMSIZ = 16"
definition IFF_TUN :: u16 where "IFF_TUN = 0x0001"
definition IFF_TAP :: u16 where "IFF_TAP = 0x0002"
definition IFF_NO_PI :: u16 where "IFF_NO_PI = 0x1000"

record ifreq =
  ifr_name :: string
  ifr_flags :: u16

text \<open>Copying at most \<open>n\<close> characters of a C string, the rest being filled up with zeros.\<close>

definition c_strncpy :: "string \<Rightarrow> nat \<Rightarrow> string" where
  "c_strncpy src n = (let s = take n (takeWhile (\<lambda>c. c \<noteq> CHR 0x00) src) in s @ replicate (n - length s) (CHR 0x00))"

definition tun_request :: "string \<Rightarrow> bool \<Rightarrow> ifreq" where
  "tun_request devname is_tun =
     (let tun_req = \<lparr>ifr_name = replicate IFNAMSIZ (CHR 0x00), ifr_flags = 0\<rparr>;
          tun_req = tun_req\<lparr>ifr_flags := (if is_tun then IFF_TUN else IFF_TAP) OR IFF_NO_PI\<rparr>;
          copied = c_strncpy devname (IFNAMSIZ - 1);
          tun_req = tun_req\<lparr>ifr_name := copied @ drop (length copied) (ifr_name tun_req)\<rparr>
      in tun_req\<lparr>ifr_name := (ifr_name tun_req)[IFNAMSIZ - 1 := CHR 0x00]\<rparr>)"

definition TunTapFD_new ::
    "('k \<Rightarrow> string \<Rightarrow> int \<times> int \<times> 'k) \<Rightarrow> ('k \<Rightarrow> int \<Rightarrow> ifreq \<Rightarrow> int \<times> int \<times> 'k) \<Rightarrow> 'k \<Rightarrow> string \<Rightarrow> bool \<Rightarrow> (FDWrapper \<times> 'k) result" where
  "TunTapFD_new sys_open sys_ioctl k devname is_tun =
     (let (r, e, k) = sys_open k CLONEDEV
      in bindR (SystemCall ''open'' r e 0) (\<lambda>fd.
         bindR (FDWrapper_new fd) (\<lambda>w.
         let (r, e, k) = sys_ioctl k (FD_fd w) (tun_request devname is_tun)
         in bindR (SystemCall ''ioctl'' r e 0) (\<lambda>_. Inr (w, k)))))"

text \<open>The name in the request is the name of the device up to 15 characters, and ends in a zero.\<close>

lemma tun_request_name:
  "length (ifr_name (tun_request devname is_tun)) = IFNAMSIZ"
  "last (ifr_name (tun_request devname is_tun)) = CHR 0x00"
  "takeWhile (\<lambda>c. c \<noteq> CHR 0x00) (ifr_name (tun_request devname is_tun)) = take 15 (takeWhile (\<lambda>c. c \<noteq> CHR 0x00) devname)"
proof -
  define s where "s = take 15 (takeWhile (\<lambda>c. c \<noteq> CHR 0x00) devname)"
  have len: "length s \<le> 15" by (simp add: s_def)
  have copied: "c_strncpy devname 15 = s @ replicate (15 - length s) (CHR 0x00)" by (simp only: c_strncpy_def Let_def s_def)
  have "length (c_strncpy devname 15) = 15" using len by (simp add: copied)
  then have "ifr_name (tun_request devname is_tun) = c_strncpy devname 15 @ [CHR 0x00]"
    by (simp add: tun_request_def IFNAMSIZ_def Let_def list_update_append)
  moreover have "16 - length s = Suc (15 - length s)" using len by simp
  ultimately have name: "ifr_name (tun_request devname is_tun) = s @ replicate (16 - length s) (CHR 0x00)"
    by (simp add: copied replicate_append_same)
  show "length (ifr_name (tun_request devname is_tun)) = IFNAMSIZ" using len by (simp add: name IFNAMSIZ_def)
  show "last (ifr_name (tun_request devname is_tun)) = CHR 0x00" using len by (simp add: name last_append)
  have "\<forall>c \<in> set s. c \<noteq> CHR 0x00" by (auto simp: s_def dest!: in_set_takeD set_takeWhileD)
  then show "takeWhile (\<lambda>c. c \<noteq> CHR 0x00) (ifr_name (tun_request devname is_tun)) = take 15 (takeWhile (\<lambda>c. c \<noteq> CHR 0x00) devname)"
    unfolding name s_def [symmetric] by (simp add: takeWhile_append2)
qed

definition TunFD_new :: "('k \<Rightarrow> string \<Rightarrow> int \<times> int \<times> 'k) \<Rightarrow> ('k \<Rightarrow> int \<Rightarrow> ifreq \<Rightarrow> int \<times> int \<times> 'k) \<Rightarrow> 'k \<Rightarrow> string \<Rightarrow> (FDWrapper \<times> 'k) result" where
  "TunFD_new sys_open sys_ioctl k devname = TunTapFD_new sys_open sys_ioctl k devname True"

definition TapFD_new :: "('k \<Rightarrow> string \<Rightarrow> int \<times> int \<times> 'k) \<Rightarrow> ('k \<Rightarrow> int \<Rightarrow> ifreq \<Rightarrow> int \<times> int \<times> 'k) \<Rightarrow> 'k \<Rightarrow> string \<Rightarrow> (FDWrapper \<times> 'k) result" where
  "TapFD_new sys_open sys_ioctl k devname = TunTapFD_new sys_open sys_ioctl k devname False"

section \<open>Kinds of sockets\<close>

text \<open>By the documentation of \<^verbatim>\<open>getsockopt(2)\<close>: the value of an option of the descriptor, an integer.\<close>

definition getsockopt_ok :: "('k \<Rightarrow> int \<Rightarrow> int \<Rightarrow> int) \<Rightarrow> 'k sys_getsockopt \<Rightarrow> bool" where
  "getsockopt_ok opt sys_getsockopt \<longleftrightarrow> (\<forall>k fd name. \<exists>e. sys_getsockopt k fd SOL_SOCKET name = (0, e, opt k fd name, 4, k))"

lemma verify_option_ok:
  assumes "getsockopt_ok opt g"
  shows "verify_option g mismatch k fd name expected = (if opt k (FD_fd fd) name = expected then Inr k else Inl (RuntimeError mismatch))"
proof -
  obtain e where "g k (FD_fd fd) SOL_SOCKET name = (0, e, opt k (FD_fd fd) name, 4, k)"
    using assms unfolding getsockopt_ok_def by blast
  then show ?thesis by (simp add: verify_option_def SystemCall_def to_int_def)
qed

lemma socket_kind_exact:
  assumes "getsockopt_ok opt g"
  shows "Socket_of_fd g k fd domain type =
    (if opt k (FD_fd fd) SO_DOMAIN \<noteq> domain then Inl (RuntimeError ''socket domain mismatch'')
     else if opt k (FD_fd fd) SO_TYPE \<noteq> type then Inl (RuntimeError ''socket type mismatch'') else Inr (fd, k))"
  by (simp add: Socket_of_fd_def verify_option_ok [OF assms])

lemma accept_gives_tcp:
  assumes "getsockopt_ok opt g" and "TCPSocket_accept sys_accept g k w = Inr (new, w', k')"
  shows "opt k' (FD_fd new) SO_DOMAIN = uint AF_INET \<and> opt k' (FD_fd new) SO_TYPE = SOCK_STREAM
    \<and> FD_read_count w' = FD_read_count w + 1 \<and> FD_read_count new = 0 \<and> \<not> FD_eof new"
  using assms(2)
  by (auto simp: TCPSocket_accept_def TCPSocket_of_fd_def socket_kind_exact [OF assms(1)] bindR_eq_Inr_iff Let_def FDWrapper_new_def
      FileDescriptor_register_read_def split: prod.splits if_splits)

section \<open>Datagrams\<close>

text \<open>
  By the documentation of \<^verbatim>\<open>recvfrom(2)\<close> with \<^verbatim>\<open>MSG_TRUNC\<close>: the next datagram is
  \<open>data\<close> from \<open>source\<close>; the call gives its real length, and as much of it as the buffer holds.
\<close>

definition recvfrom_gives :: "'k sys_recvfrom \<Rightarrow> 'k \<Rightarrow> int \<Rightarrow> u64 \<Rightarrow> Address \<Rightarrow> bytes \<Rightarrow> 'k \<Rightarrow> bool" where
  "recvfrom_gives sys_recvfrom k fd n source data k' \<longleftrightarrow>
     (\<exists>e raw len. sys_recvfrom k fd n = (int (length data), e, take (unat n) data, raw, len, k')
        \<and> Address_of_sockaddr raw (ucast len) = Inr source)"

lemma sint_small:
  assumes "unat (n :: u64) < 2 ^ 63"
  shows "sint n = int (unat n)"
proof -
  have "int (unat n) < int (2 ^ 63)" using assms by (simp only: of_nat_less_iff)
  then have "uint n < 2 ^ 63" by simp
  moreover have "- (2 ^ 63) \<le> uint n" by (rule order_trans [OF _ uint_ge_0]) simp
  ultimately have "signed_take_bit 63 (uint n) = uint n" by (intro signed_take_bit_int_eq_self)
  then show ?thesis by (simp add: sint_uint)
qed

lemma str_size_resize: "str_size (str_resize [] n) = n"
  by (simp add: str_resize_def str_size_def)

text \<open>A datagram is received whole or not at all: when the buffer has room for it the receiver gives
  exactly its bytes and its sender and counts the read; a longer one is reported and never cut.\<close>

lemma udp_recv_whole:
  assumes "recvfrom_gives sys_recvfrom k (FD_fd w) mtu source data k'" and "length data < 2 ^ 31" and "unat mtu < 2 ^ 63"
  shows "UDPSocket_recv sys_recvfrom k w mtu =
    (if length data \<le> unat mtu
     then Inr (\<lparr>RD_source_address = source, RD_payload = data\<rparr>, FileDescriptor_register_read w, k')
     else Inl (RuntimeError ''recvfrom (oversized datagram)''))"
proof -
  obtain e raw len where call: "sys_recvfrom k (FD_fd w) mtu = (int (length data), e, take (unat mtu) data, raw, len, k')"
    and source: "Address_of_sockaddr raw (ucast len) = Inr source"
    using assms(1) by (auto simp: recvfrom_gives_def)
  have sc: "SystemCall ''recvfrom'' (int (length data)) e 0 = Inr (int (length data))"
    using assms(2) by (simp add: SystemCall_def to_int_small)
  have more: "sint mtu < int (length data) \<longleftrightarrow> \<not> length data \<le> unat mtu"
    by (simp only: sint_small [OF assms(3)] of_nat_less_iff not_le)
  have exact: "str_resize_int (data @ drop (length data) (str_resize [] mtu)) (int (length data)) = Inr data"
  proof -
    have "unat (of_nat (length data) :: u64) = length data" using assms(2) by (intro unat_of_nat_small) simp
    then show ?thesis by (simp add: str_resize_int_def str_resize_def)
  qed
  show ?thesis
    using exact
    by (simp add: UDPSocket_recv_def UDPSocket_recv_into_def Address_of_sockaddr_def [of "[]"] sizeof_sockaddr_storage_def
        str_size_resize call sc more source Let_def)
qed

text \<open>A system with one datagram waiting, for use as an example.\<close>

definition example_recvfrom :: "bytes sys_recvfrom" where
  "example_recvfrom data fd n = (int (length data), 0, take (unat n) data, [2, 0, 0, 80, 10, 0, 0, 2] @ replicate 8 0, 16, [])"

lemma udp_recv_whole_example:
  "let w = \<lparr>FD_fd = 3, FD_eof = False, FD_closed = False, FD_read_count = 0, FD_write_count = 0\<rparr>;
       source = \<lparr>AD_size = 16, AD_storage = ([2, 0, 0, 80, 10, 0, 0, 2] @ replicate 8 0) @ replicate 112 0\<rparr>
   in UDPSocket_recv example_recvfrom [1, 2, 3] w 65536
        = Inr (\<lparr>RD_source_address = source, RD_payload = [1, 2, 3]\<rparr>, FileDescriptor_register_read w, [])
    \<and> UDPSocket_recv example_recvfrom [1, 2, 3] w 2 = Inl (RuntimeError ''recvfrom (oversized datagram)'')"
proof -
  let ?w = "\<lparr>FD_fd = 3, FD_eof = False, FD_closed = False, FD_read_count = 0, FD_write_count = 0\<rparr>"
  let ?source = "\<lparr>AD_size = 16, AD_storage = ([2, 0, 0, 80, 10, 0, 0, 2] @ replicate 8 0) @ replicate 112 0\<rparr>"
  have "recvfrom_gives example_recvfrom [1, 2, 3] (FD_fd ?w) n ?source [1, 2, 3] []" for n
    by (simp add: recvfrom_gives_def example_recvfrom_def Address_of_sockaddr_def sizeof_sockaddr_storage_def)
  from udp_recv_whole [OF this, of 65536] udp_recv_whole [OF this, of 2] show ?thesis by simp
qed

text \<open>Sending reports success only when the system took the whole datagram.\<close>

lemma udp_sendto_whole:
  assumes "UDPSocket_sendto sys_sendmsg k w destination payload = Inr (w', k')"
  shows "\<exists>n e. sys_sendmsg k (FD_fd w) (Some destination) (BufferViewList_as_iovecs payload) = (n, e, k')
    \<and> word_of_int (to_int n) = BufferViewList_size payload \<and> w' = FileDescriptor_register_write w"
  using assms
  by (auto simp: UDPSocket_sendto_def sendmsg_helper_def Let_def bindR_eq_Inr_iff SystemCall_def split: prod.splits if_splits)

end
