(* ===== verification/TCP_Over_IP.thy ===== *)
theory TCP_Over_IP
  imports Network_Interface TCP_Segment Sockets "HOL-Library.Sublist"
begin

text \<open>
  The adapters between TCP segments and the packets of a device, from
  \<^verbatim>\<open>tcp_helpers/fd_adapter\<close>, \<^verbatim>\<open>tcp_helpers/tcp_over_ip\<close>,
  \<^verbatim>\<open>tcp_helpers/tuntap_adapter\<close> and \<^verbatim>\<open>tcp_helpers/lossy_fd_adapter.hh\<close>: over
  UDP, over IPv4 on a TUN device, over IPv4 and Ethernet on a TAP device, and with random loss on top of any
  of them. What a device gives to a read is an argument; what is written to it is appended to a list of
  packets. Shown here: a segment written by one adapter is read by its peer with nothing but the ports and
  the checksum set, an adapter lets nothing through that is not of its connection, and the loss of an
  adapter drops segments and does nothing else.
\<close>

section \<open>Names of addresses\<close>

text \<open>The functions of the C library that turn addresses into text and back.\<close>

record netdb =
  getaddrinfo :: resolver
  getnameinfo :: namer
  inet_ntoa :: "bytes \<Rightarrow> string"

section \<open>The adapter base\<close>

record FdAdapterConfig =
  AC_source :: Address
  AC_destination :: Address
  AC_loss_rate_dn :: u16
  AC_loss_rate_up :: u16

definition FdAdapterConfig_new :: "netdb \<Rightarrow> FdAdapterConfig result" where
  "FdAdapterConfig_new db =
     bindR (Address_of_ip (getaddrinfo db) ''0'' 0) (\<lambda>source.
     bindR (Address_of_ip (getaddrinfo db) ''0'' 0) (\<lambda>destination.
     Inr \<lparr>AC_source = source, AC_destination = destination, AC_loss_rate_dn = 0, AC_loss_rate_up = 0\<rparr>))"

record FdAdapterBase =
  FA_cfg :: FdAdapterConfig
  FA_listen :: bool

definition FdAdapterBase_new :: "netdb \<Rightarrow> FdAdapterBase result" where
  "FdAdapterBase_new db = bindR (FdAdapterConfig_new db) (\<lambda>cfg. Inr \<lparr>FA_cfg = cfg, FA_listen = False\<rparr>)"

definition FdAdapterBase_set_listening :: "'a FdAdapterBase_scheme \<Rightarrow> bool \<Rightarrow> 'a FdAdapterBase_scheme" where
  "FdAdapterBase_set_listening a l = a\<lparr>FA_listen := l\<rparr>"

definition FdAdapterBase_tick :: "'a FdAdapterBase_scheme \<Rightarrow> u64 \<Rightarrow> 'a FdAdapterBase_scheme" where
  "FdAdapterBase_tick a ms = a"

definition set_source :: "'a FdAdapterBase_scheme \<Rightarrow> Address \<Rightarrow> 'a FdAdapterBase_scheme" where
  "set_source a addr = a\<lparr>FA_cfg := (FA_cfg a)\<lparr>AC_source := addr\<rparr>\<rparr>"

definition set_destination :: "'a FdAdapterBase_scheme \<Rightarrow> Address \<Rightarrow> 'a FdAdapterBase_scheme" where
  "set_destination a addr = a\<lparr>FA_cfg := (FA_cfg a)\<lparr>AC_destination := addr\<rparr>\<rparr>"

text \<open>Both writers set the ports of the segment from the configuration.\<close>

definition set_ports :: "netdb \<Rightarrow> 'a FdAdapterBase_scheme \<Rightarrow> TCPSegment \<Rightarrow> TCPSegment result" where
  "set_ports db a seg =
     bindR (Address_port (getnameinfo db) (AC_source (FA_cfg a))) (\<lambda>sport.
     bindR (Address_port (getnameinfo db) (AC_destination (FA_cfg a))) (\<lambda>dport.
     Inr (seg\<lparr>TS_header := (TS_header seg)\<lparr>TH_sport := sport, TH_dport := dport\<rparr>\<rparr>)))"

section \<open>TCP in UDP\<close>

record TCPOverUDPSocketAdapter = FdAdapterBase +
  UA_sent :: "(Address \<times> BufferList) list"

definition TCPOverUDPSocketAdapter_read ::
    "TCPOverUDPSocketAdapter \<Rightarrow> received_datagram \<Rightarrow> (TCPSegment option \<times> TCPOverUDPSocketAdapter) result" where
  "TCPOverUDPSocketAdapter_read a datagram =
     (if \<not> FA_listen a \<and> \<not> Address_eq (RD_source_address datagram) (AC_destination (FA_cfg a)) then Inr (None, a)
      else bindR (TCPSegment_parse TCPSegment_new (Buffer_of (RD_payload datagram)) 0) (\<lambda>(r, seg).
           if r \<noteq> NoError then Inr (None, a)
           else if FA_listen a then
             (if TH_syn (TS_header seg) \<and> \<not> TH_rst (TS_header seg)
              then Inr (Some seg, FdAdapterBase_set_listening (set_destination a (RD_source_address datagram)) False)
              else Inr (None, a))
           else Inr (Some seg, a)))"

definition TCPOverUDPSocketAdapter_write ::
    "netdb \<Rightarrow> TCPOverUDPSocketAdapter \<Rightarrow> TCPSegment \<Rightarrow> (TCPSegment \<times> TCPOverUDPSocketAdapter) result" where
  "TCPOverUDPSocketAdapter_write db a seg =
     bindR (set_ports db a seg) (\<lambda>seg.
     bindR (TCPSegment_serialize seg 0) (\<lambda>bl.
     Inr (seg, a\<lparr>UA_sent := UA_sent a @ [(AC_destination (FA_cfg a), bl)]\<rparr>)))"

section \<open>TCP in IPv4\<close>

definition unwrap_tcp_in_ip ::
    "netdb \<Rightarrow> 'a FdAdapterBase_scheme \<Rightarrow> IPv4Datagram \<Rightarrow> (TCPSegment option \<times> 'a FdAdapterBase_scheme) result" where
  "unwrap_tcp_in_ip db a ip_dgram =
     bindR (if FA_listen a then Inr True
            else bindR (Address_ipv4_numeric (AC_source (FA_cfg a))) (\<lambda>n. Inr (IP_dst (DG_header ip_dgram) = n))) (\<lambda>for_us.
     if \<not> for_us then Inr (None, a) else
     bindR (if FA_listen a then Inr True
            else bindR (Address_ipv4_numeric (AC_destination (FA_cfg a))) (\<lambda>n. Inr (IP_src (DG_header ip_dgram) = n))) (\<lambda>from_peer.
     if \<not> from_peer then Inr (None, a) else
     if IP_proto (DG_header ip_dgram) \<noteq> PROTO_TCP then Inr (None, a) else
     bindR (BufferList_to_Buffer (DG_payload ip_dgram)) (\<lambda>payload.
     bindR (TCPSegment_parse TCPSegment_new payload (IPv4Header_pseudo_cksum (DG_header ip_dgram))) (\<lambda>(r, tcp_seg).
     if r \<noteq> NoError then Inr (None, a) else
     bindR (Address_port (getnameinfo db) (AC_source (FA_cfg a))) (\<lambda>port.
     if TH_dport (TS_header tcp_seg) \<noteq> port then Inr (None, a) else
     bindR (if \<not> FA_listen a then Inr (Some a)
            else if TH_syn (TS_header tcp_seg) \<and> \<not> TH_rst (TS_header tcp_seg) then
              bindR (Address_of_ip (getaddrinfo db) (inet_ntoa db (be_bytes (IP_dst (DG_header ip_dgram)))) port) (\<lambda>source.
              bindR (Address_of_ip (getaddrinfo db) (inet_ntoa db (be_bytes (IP_src (DG_header ip_dgram))))
                       (TH_sport (TS_header tcp_seg))) (\<lambda>destination.
              Inr (Some (FdAdapterBase_set_listening (set_destination (set_source a source) destination) False))))
            else Inr None) (\<lambda>a'.
     case a' of None \<Rightarrow> Inr (None, a) | Some a \<Rightarrow>
     bindR (Address_port (getnameinfo db) (AC_destination (FA_cfg a))) (\<lambda>peer_port.
     if TH_sport (TS_header tcp_seg) \<noteq> peer_port then Inr (None, a) else Inr (Some tcp_seg, a))))))))"

definition wrap_tcp_in_ip ::
    "netdb \<Rightarrow> 'a FdAdapterBase_scheme \<Rightarrow> TCPSegment \<Rightarrow> (IPv4Datagram \<times> TCPSegment) result" where
  "wrap_tcp_in_ip db a seg =
     bindR (set_ports db a seg) (\<lambda>seg.
     bindR (Address_ipv4_numeric (AC_source (FA_cfg a))) (\<lambda>src.
     bindR (Address_ipv4_numeric (AC_destination (FA_cfg a))) (\<lambda>dst.
     let h = IPv4Header_new\<lparr>IP_src := src, IP_dst := dst\<rparr>;
         h = h\<lparr>IP_len := ucast (ucast (IP_hlen h) * 4 + ucast (TH_doff (TS_header seg)) * 4
                                + Buffer_size (TS_payload seg) :: u64)\<rparr>
     in bindR (TCPSegment_serialize seg (IPv4Header_pseudo_cksum h)) (\<lambda>payload.
        Inr (\<lparr>DG_header = h, DG_payload = payload\<rparr>, seg)))))"

section \<open>On a TUN device\<close>

record TCPOverIPv4OverTunFdAdapter = FdAdapterBase +
  TA_tun :: "BufferList list"

definition TCPOverIPv4OverTunFdAdapter_read ::
    "netdb \<Rightarrow> TCPOverIPv4OverTunFdAdapter \<Rightarrow> bytes \<Rightarrow> (TCPSegment option \<times> TCPOverIPv4OverTunFdAdapter) result" where
  "TCPOverIPv4OverTunFdAdapter_read db a packet =
     bindR (IPv4Datagram_parse IPv4Datagram_new (Buffer_of packet)) (\<lambda>(r, ip_dgram).
     if r \<noteq> NoError then Inr (None, a) else unwrap_tcp_in_ip db a ip_dgram)"

definition TCPOverIPv4OverTunFdAdapter_write ::
    "netdb \<Rightarrow> TCPOverIPv4OverTunFdAdapter \<Rightarrow> TCPSegment \<Rightarrow> (TCPSegment \<times> TCPOverIPv4OverTunFdAdapter) result" where
  "TCPOverIPv4OverTunFdAdapter_write db a seg =
     bindR (wrap_tcp_in_ip db a seg) (\<lambda>(ip_dgram, seg).
     bindR (IPv4Datagram_serialize ip_dgram) (\<lambda>packet.
     Inr (seg, a\<lparr>TA_tun := TA_tun a @ [packet]\<rparr>)))"

section \<open>On a TAP device\<close>

record TCPOverIPv4OverEthernetAdapter = FdAdapterBase +
  EA_tap :: "BufferList list"
  EA_interface :: NetworkInterface
  EA_next_hop :: Address

definition TCPOverIPv4OverEthernetAdapter_new ::
    "netdb \<Rightarrow> EthernetAddress \<Rightarrow> Address \<Rightarrow> Address \<Rightarrow> TCPOverIPv4OverEthernetAdapter result" where
  "TCPOverIPv4OverEthernetAdapter_new db eth_address ip_address next_hop =
     bindR (FdAdapterBase_new db) (\<lambda>base.
     let dummy_frame = EthernetFrame_new
     in Inr \<lparr>FA_cfg = FA_cfg base, FA_listen = FA_listen base, EA_tap = [EthernetFrame_serialize dummy_frame],
             EA_interface = NetworkInterface_new eth_address ip_address, EA_next_hop = next_hop\<rparr>)"

function send_pending :: "TCPOverIPv4OverEthernetAdapter \<Rightarrow> TCPOverIPv4OverEthernetAdapter" where
  "send_pending a =
     (case NI_frames_out (EA_interface a) of
        [] \<Rightarrow> a
      | frame # frames \<Rightarrow>
          send_pending (a\<lparr>EA_tap := EA_tap a @ [EthernetFrame_serialize frame],
                          EA_interface := (EA_interface a)\<lparr>NI_frames_out := frames\<rparr>\<rparr>))"
  by pat_completeness auto
termination by (relation "measure (\<lambda>a. length (NI_frames_out (EA_interface a)))") auto

declare send_pending.simps [simp del]

definition TCPOverIPv4OverEthernetAdapter_read ::
    "netdb \<Rightarrow> TCPOverIPv4OverEthernetAdapter \<Rightarrow> bytes \<Rightarrow> (TCPSegment option \<times> TCPOverIPv4OverEthernetAdapter) result" where
  "TCPOverIPv4OverEthernetAdapter_read db a packet =
     bindR (EthernetFrame_parse EthernetFrame_new (Buffer_of packet)) (\<lambda>(r, frame).
     if r \<noteq> NoError then Inr (None, a)
     else bindR (recv_frame (EA_interface a) frame) (\<lambda>(ip_dgram, iface).
          let a = send_pending (a\<lparr>EA_interface := iface\<rparr>)
          in case ip_dgram of None \<Rightarrow> Inr (None, a) | Some d \<Rightarrow> unwrap_tcp_in_ip db a d))"

definition TCPOverIPv4OverEthernetAdapter_tick ::
    "TCPOverIPv4OverEthernetAdapter \<Rightarrow> u64 \<Rightarrow> TCPOverIPv4OverEthernetAdapter" where
  "TCPOverIPv4OverEthernetAdapter_tick a ms =
     send_pending (a\<lparr>EA_interface := NetworkInterface_tick (EA_interface a) ms\<rparr>)"

definition TCPOverIPv4OverEthernetAdapter_write ::
    "netdb \<Rightarrow> TCPOverIPv4OverEthernetAdapter \<Rightarrow> TCPSegment \<Rightarrow> (TCPSegment \<times> TCPOverIPv4OverEthernetAdapter) result" where
  "TCPOverIPv4OverEthernetAdapter_write db a seg =
     bindR (wrap_tcp_in_ip db a seg) (\<lambda>(ip_dgram, seg).
     bindR (send_datagram (EA_interface a) ip_dgram (EA_next_hop a)) (\<lambda>iface.
     Inr (seg, send_pending (a\<lparr>EA_interface := iface\<rparr>))))"

section \<open>With loss\<close>

text \<open>
  The template is over the adapter, whose operations are arguments here, and the random generator is a
  function from its state to a number and the next state.
\<close>

record ('g, 'a) LossyFdAdapter =
  LA_rand :: 'g
  LA_adapter :: 'a

definition should_drop ::
    "('g \<Rightarrow> u32 \<times> 'g) \<Rightarrow> ('a \<Rightarrow> FdAdapterConfig) \<Rightarrow> ('g, 'a) LossyFdAdapter \<Rightarrow> bool \<Rightarrow> bool \<times> ('g, 'a) LossyFdAdapter" where
  "should_drop rand config l uplink =
     (let cfg = config (LA_adapter l);
          loss = (if uplink then AC_loss_rate_up cfg else AC_loss_rate_dn cfg)
      in if loss = 0 then (False, l)
         else let (r, g) = rand (LA_rand l) in ((ucast r :: u16) < loss, l\<lparr>LA_rand := g\<rparr>))"

definition LossyFdAdapter_read ::
    "('g \<Rightarrow> u32 \<times> 'g) \<Rightarrow> ('a \<Rightarrow> FdAdapterConfig) \<Rightarrow> ('a \<Rightarrow> 'p \<Rightarrow> (TCPSegment option \<times> 'a) result)
      \<Rightarrow> ('g, 'a) LossyFdAdapter \<Rightarrow> 'p \<Rightarrow> (TCPSegment option \<times> ('g, 'a) LossyFdAdapter) result" where
  "LossyFdAdapter_read rand config adapter_read l packet =
     bindR (adapter_read (LA_adapter l) packet) (\<lambda>(ret, a).
     let (drop, l) = should_drop rand config (l\<lparr>LA_adapter := a\<rparr>) False
     in Inr (if drop then None else ret, l))"

definition LossyFdAdapter_write ::
    "('g \<Rightarrow> u32 \<times> 'g) \<Rightarrow> ('a \<Rightarrow> FdAdapterConfig) \<Rightarrow> ('a \<Rightarrow> TCPSegment \<Rightarrow> (TCPSegment \<times> 'a) result)
      \<Rightarrow> ('g, 'a) LossyFdAdapter \<Rightarrow> TCPSegment \<Rightarrow> (TCPSegment \<times> ('g, 'a) LossyFdAdapter) result" where
  "LossyFdAdapter_write rand config adapter_write l seg =
     (let (drop, l) = should_drop rand config l True
      in if drop then Inr (seg, l)
         else bindR (adapter_write (LA_adapter l) seg) (\<lambda>(seg, a). Inr (seg, l\<lparr>LA_adapter := a\<rparr>)))"

definition LossyFdAdapter_set_listening ::
    "('a \<Rightarrow> bool \<Rightarrow> 'a) \<Rightarrow> ('g, 'a) LossyFdAdapter \<Rightarrow> bool \<Rightarrow> ('g, 'a) LossyFdAdapter" where
  "LossyFdAdapter_set_listening adapter_set_listening l b = l\<lparr>LA_adapter := adapter_set_listening (LA_adapter l) b\<rparr>"

definition LossyFdAdapter_config :: "('a \<Rightarrow> FdAdapterConfig) \<Rightarrow> ('g, 'a) LossyFdAdapter \<Rightarrow> FdAdapterConfig" where
  "LossyFdAdapter_config config l = config (LA_adapter l)"

definition LossyFdAdapter_tick ::
    "('a \<Rightarrow> u64 \<Rightarrow> 'a) \<Rightarrow> ('g, 'a) LossyFdAdapter \<Rightarrow> u64 \<Rightarrow> ('g, 'a) LossyFdAdapter" where
  "LossyFdAdapter_tick adapter_tick l ms = l\<lparr>LA_adapter := adapter_tick (LA_adapter l) ms\<rparr>"

section \<open>Endpoints\<close>

definition sockaddr_in :: "u32 \<Rightarrow> u16 \<Rightarrow> bytes" where
  "sockaddr_in ip port = [2, 0] @ be_bytes port @ be_bytes ip @ replicate 8 0"

definition inet_address :: "u32 \<Rightarrow> u16 \<Rightarrow> Address" where
  "inet_address ip port = \<lparr>AD_size = 16, AD_storage = sockaddr_in ip port @ replicate 112 0\<rparr>"

text \<open>What the adapters rely on: numeric names resolve to the address they name, and an address is
  named by its number and its port.\<close>

definition netdb_ok :: "netdb \<Rightarrow> bool" where
  "netdb_ok db \<longleftrightarrow> (\<forall>ip port.
     getaddrinfo db (inet_ntoa db (be_bytes ip)) (digits (unat port)) (make_hints (AI_NUMERICHOST + AI_NUMERICSERV) AF_INET)
       = (0, Some (sockaddr_in ip port, 16))
   \<and> getnameinfo db (AD_storage (inet_address ip port)) 16 = (0, inet_ntoa db (be_bytes ip), digits (unat port)))"

lemma length_sockaddr_in [simp]: "length (sockaddr_in ip port) = 16"
  by (simp add: sockaddr_in_def)

lemma inet_address_numeric [simp]: "Address_ipv4_numeric (inet_address ip port) = Inr ip"
  by (simp add: Address_ipv4_numeric_def ss_family_def sizeof_sockaddr_in_def AF_INET_def inet_address_def sockaddr_in_def)
    (simp add: be_word_def be_nat_def)

lemma netdb_ip_port:
  assumes "netdb_ok db"
  shows "Address_ip_port (getnameinfo db) (inet_address ip port) = Inr (inet_ntoa db (be_bytes ip), port)"
proof -
  have "unat port < 65536" by simp
  then have "unat port < 2 ^ 31" by (rule less_le_trans) simp
  then show ?thesis
    using assms stoi_digits [of "unat port"]
    by (simp add: netdb_ok_def Address_ip_port_def inet_address_def)
qed

lemma netdb_port: "netdb_ok db \<Longrightarrow> Address_port (getnameinfo db) (inet_address ip port) = Inr port"
  by (simp add: Address_port_def netdb_ip_port)

lemma netdb_name:
  "netdb_ok db \<Longrightarrow> Address_to_string (getnameinfo db) (inet_address ip port) = Inr (inet_ntoa db (be_bytes ip) @ '':'' @ digits (unat port))"
  by (simp add: Address_to_string_def netdb_ip_port)

lemma netdb_address:
  assumes "netdb_ok db"
  shows "Address_of_ip (getaddrinfo db) (inet_ntoa db (be_bytes ip)) port = Inr (inet_address ip port)"
  using assms
  by (simp add: netdb_ok_def Address_of_ip_def Address_resolve_def Address_of_sockaddr_def sizeof_sockaddr_storage_def
      inet_address_def)

definition between :: "'a FdAdapterBase_scheme \<Rightarrow> u32 \<times> u16 \<Rightarrow> u32 \<times> u16 \<Rightarrow> bool" where
  "between a here there \<longleftrightarrow> AC_source (FA_cfg a) = inet_address (fst here) (snd here)
     \<and> AC_destination (FA_cfg a) = inet_address (fst there) (snd there)"

text \<open>An adapter that has taken the connection of a datagram.\<close>

definition accepted :: "'a FdAdapterBase_scheme \<Rightarrow> u32 \<times> u16 \<Rightarrow> u32 \<times> u16 \<Rightarrow> 'a FdAdapterBase_scheme" where
  "accepted a here there =
     FdAdapterBase_set_listening (set_destination (set_source a (inet_address (fst here) (snd here)))
       (inet_address (fst there) (snd there))) False"

lemma between_accepted [simp]: "between (accepted a here there) here there" "\<not> FA_listen (accepted a here there)"
  by (simp_all add: between_def accepted_def FdAdapterBase_set_listening_def set_destination_def set_source_def)

definition with_ports :: "TCPSegment \<Rightarrow> u16 \<Rightarrow> u16 \<Rightarrow> TCPSegment" where
  "with_ports seg sport dport = seg\<lparr>TS_header := (TS_header seg)\<lparr>TH_sport := sport, TH_dport := dport\<rparr>\<rparr>"

lemma set_ports_eq:
  "netdb_ok db \<Longrightarrow> between a here there \<Longrightarrow> set_ports db a seg = Inr (with_ports seg (snd here) (snd there))"
  by (simp add: set_ports_def between_def netdb_port with_ports_def)

text \<open>The whole of \<open>unwrap_tcp_in_ip\<close>, by what the datagram carries.\<close>

lemma unwrap_eq:
  assumes db: "netdb_ok db" and a: "between a here there" and pl: "DG_payload d = BufferList_of_Buffer pl"
    and parse: "TCPSegment_parse TCPSegment_new pl (IPv4Header_pseudo_cksum (DG_header d)) = Inr (r, seg)"
  defines "h \<equiv> DG_header d" and "t \<equiv> TS_header seg"
  shows "unwrap_tcp_in_ip db a d = Inr
    (if (FA_listen a \<or> IP_dst h = fst here \<and> IP_src h = fst there \<and> TH_sport t = snd there)
        \<and> IP_proto h = PROTO_TCP \<and> r = NoError \<and> TH_dport t = snd here \<and> (FA_listen a \<longrightarrow> TH_syn t \<and> \<not> TH_rst t)
     then (Some seg, if FA_listen a then accepted a (IP_dst h, snd here) (IP_src h, TH_sport t) else a)
     else (None, a))"
proof -
  have src: "AC_source (FA_cfg a) = inet_address (fst here) (snd here)"
    and dst: "AC_destination (FA_cfg a) = inet_address (fst there) (snd there)" using a by (simp_all add: between_def)
  show ?thesis
  proof (cases "FA_listen a")
    case True
    have new: "Address_port (getnameinfo db) (AC_destination (FA_cfg (accepted a (IP_dst h, snd here) (IP_src h, TH_sport t))))
        = Inr (TH_sport t)"
      by (simp add: accepted_def FdAdapterBase_set_listening_def set_destination_def netdb_port [OF db])
    show ?thesis
      using True new unfolding h_def t_def
      by (simp add: unwrap_tcp_in_ip_def src pl parse netdb_port [OF db] netdb_address [OF db] accepted_def)
  next
    case False
    then show ?thesis
      unfolding h_def t_def by (simp add: unwrap_tcp_in_ip_def src dst pl parse netdb_port [OF db])
  qed
qed

section \<open>A segment in a datagram\<close>

text \<open>A segment that fits in a datagram.\<close>

definition packable :: "TCPSegment \<Rightarrow> bool" where
  "packable seg \<longleftrightarrow> TCPHeader_ok (TS_header seg) \<and> Buffer_inv (TS_payload seg)
     \<and> 20 + 4 * unat (TH_doff (TS_header seg)) + length (Buffer_str (TS_payload seg)) < 65536"

lemma packable_ports [simp]: "packable (with_ports seg p q) = packable seg"
  by (simp add: packable_def with_ports_def TCPHeader_ok_def)

lemma halves_le:
  "unat (drop_bit 16 (x :: u32)) \<le> 65535" "unat (x AND 0xffff) \<le> 65535"
proof -
  have "unat x div 65536 < 65536" by (rule less_mult_imp_div_less) simp
  then show "unat (drop_bit 16 x) \<le> 65535" by (simp only: unat_drop_bit_eq) (simp add: drop_bit_eq_div)
  have m: "(0xffff :: u32) = mask 16" by (simp add: mask_eq_exp_minus_1)
  have "unat (x AND 0xffff) = unat x mod 65536"
    unfolding m take_bit_eq_mask [symmetric] unsigned_take_bit_eq by (simp add: take_bit_eq_mod)
  then show "unat (x AND 0xffff) \<le> 65535" by simp
qed

lemma unat_add_le: "unat (a :: u32) \<le> m \<Longrightarrow> unat (b :: u32) \<le> n \<Longrightarrow> unat (a + b) \<le> m + n"
  by (simp add: unat_word_ariths)

lemma pseudo_cksum_le: "unat (IPv4Header_pseudo_cksum h) \<le> 393216"
proof -
  have "unat (ucast (IP_proto h) :: u32) < 256" "unat (ucast (IPv4Header_payload_length h) :: u32) < 65536" by simp_all
  then have "unat (ucast (IP_proto h) :: u32) \<le> 255" "unat (ucast (IPv4Header_payload_length h) :: u32) \<le> 65535" by linarith+
  then have "unat (IPv4Header_pseudo_cksum h) \<le> (65535 + 65535) + (65535 + 65535) + 255 + 65535"
    unfolding IPv4Header_pseudo_cksum_def Let_def by (intro unat_add_le halves_le)
  then show ?thesis by simp
qed

lemma packable_fits: "packable seg \<Longrightarrow> segment_fits seg (IPv4Header_pseudo_cksum h)"
  using pseudo_cksum_le [of h] by (auto simp: packable_def segment_fits_def TCPHeader_ok_def)

definition ip_header :: "u32 \<Rightarrow> u32 \<Rightarrow> TCPSegment \<Rightarrow> IPv4Header" where
  "ip_header src dst seg = IPv4Header_new\<lparr>IP_src := src, IP_dst := dst,
     IP_len := of_nat (20 + 4 * unat (TH_doff (TS_header seg)) + length (Buffer_str (TS_payload seg)))\<rparr>"

lemma unat_ip_header_len:
  "packable seg \<Longrightarrow> unat (IP_len (ip_header src dst seg)) = 20 + 4 * unat (TH_doff (TS_header seg)) + length (Buffer_str (TS_payload seg))"
  unfolding ip_header_def packable_def by (simp add: unat_of_nat del: of_nat_add of_nat_mult of_nat_numeral)

definition checked :: "TCPSegment \<Rightarrow> u32 \<Rightarrow> TCPHeader" where
  "checked seg ck0 = (TS_header seg)\<lparr>TH_cksum := TCPSegment_cksum seg ck0\<rparr>"

text \<open>What \<open>wrap_tcp_in_ip\<close> makes, and that its payload is the segment again.\<close>

lemma wrap_ok:
  assumes db: "netdb_ok db" and a: "between a here there" and seg: "packable seg"
  defines "seg' \<equiv> with_ports seg (snd here) (snd there)"
  defines "h \<equiv> ip_header (fst here) (fst there) seg'"
  obtains bl where "wrap_tcp_in_ip db a seg = Inr (\<lparr>DG_header = h, DG_payload = bl\<rparr>, seg')"
    "IPv4Header_for h (BufferList_concatenate bl)" "BufferList_inv bl"
    "\<forall>b. Buffer_inv b \<and> Buffer_str b = BufferList_concatenate bl \<longrightarrow>
      (\<exists>pl. TCPSegment_parse TCPSegment_new b (IPv4Header_pseudo_cksum h)
          = Inr (NoError, \<lparr>TS_header = checked seg' (IPv4Header_pseudo_cksum h), TS_payload = pl\<rparr>)
        \<and> Buffer_inv pl \<and> Buffer_str pl = Buffer_str (TS_payload seg))"
proof -
  have seg': "packable seg'" "TS_payload seg' = TS_payload seg" using seg by (simp_all add: seg'_def, simp add: with_ports_def)
  have ok: "TCPHeader_ok (TS_header seg')" "Buffer_inv (TS_payload seg')" using seg'(1) by (simp_all add: packable_def)
  obtain bl where bl: "TCPSegment_serialize seg' (IPv4Header_pseudo_cksum h) = Inr bl"
    "length (BufferList_concatenate bl) = 4 * unat (TH_doff (TS_header seg')) + length (Buffer_str (TS_payload seg'))"
    "BufferList_inv bl"
    "\<forall>b seg0. Buffer_inv b \<and> Buffer_str b = BufferList_concatenate bl \<longrightarrow>
      (\<exists>pl. TCPSegment_parse seg0 b (IPv4Header_pseudo_cksum h)
          = Inr (NoError, \<lparr>TS_header = checked seg' (IPv4Header_pseudo_cksum h), TS_payload = pl\<rparr>)
        \<and> Buffer_inv pl \<and> Buffer_str pl = Buffer_str (TS_payload seg'))"
    unfolding checked_def by (rule TCPSegment_wire [OF ok(1) packable_fits [OF seg'(1), of h]]) (use ok(2) in blast)
  have "(ucast (ucast (IP_hlen IPv4Header_new) * 4 + ucast (TH_doff (TS_header seg')) * 4 + Buffer_size (TS_payload seg') :: u64) :: u16)
      = of_nat (20 + 4 * unat (TH_doff (TS_header seg')) + length (Buffer_str (TS_payload seg')))"
  proof (rule ucast_eq_of_nat)
    show "unat (ucast (IP_hlen IPv4Header_new) * 4 + ucast (TH_doff (TS_header seg')) * 4 + Buffer_size (TS_payload seg') :: u64)
        = 20 + 4 * unat (TH_doff (TS_header seg')) + length (Buffer_str (TS_payload seg'))"
      using seg'(1) unat_Buffer_size [OF ok(2)]
      by (simp add: packable_def IPv4Header_new_def IPv4Header_LENGTH_def unat_word_ariths)
  qed
  then have hdr: "IPv4Header_new\<lparr>IP_src := fst here, IP_dst := fst there,
      IP_len := ucast (ucast (IP_hlen IPv4Header_new) * 4 + ucast (TH_doff (TS_header seg')) * 4 + Buffer_size (TS_payload seg') :: u64)\<rparr> = h"
    by (simp add: h_def ip_header_def)
  have "IPv4Header_for h (BufferList_concatenate bl)"
    using unat_ip_header_len [OF seg'(1)] bl(2)
    by (simp add: h_def IPv4Header_for_def IPv4Header_fields_ok_def) (simp add: ip_header_def IPv4Header_new_def IPv4Header_LENGTH_def)
  moreover have "wrap_tcp_in_ip db a seg = Inr (\<lparr>DG_header = h, DG_payload = bl\<rparr>, seg')"
    using a bl(1) hdr by (simp add: wrap_tcp_in_ip_def set_ports_eq [OF db a] between_def seg'_def [symmetric] Let_def)
  ultimately show thesis using that bl(3,4) seg'(2) by auto
qed

text \<open>A peer that takes the segment: one of the same connection, or one that listens on the port and is
  offered a connection.\<close>

definition takes :: "'a FdAdapterBase_scheme \<Rightarrow> u32 \<times> u16 \<Rightarrow> u32 \<times> u16 \<Rightarrow> TCPSegment \<Rightarrow> bool" where
  "takes b here there seg \<longleftrightarrow>
     (if FA_listen b then (\<exists>any other. between b (any, snd here) other) \<and> TH_syn (TS_header seg) \<and> \<not> TH_rst (TS_header seg)
      else between b here there)"

lemma unwrap_wrapped:
  assumes db: "netdb_ok db" and b: "takes b there here seg"
    and d: "DG_header d = (ip_header (fst here) (fst there) seg')\<lparr>IP_ttl := ttl, IP_cksum := c\<rparr>" "DG_payload d = BufferList_of_Buffer pl"
    and parse: "TCPSegment_parse TCPSegment_new pl (IPv4Header_pseudo_cksum (ip_header (fst here) (fst there) seg'))
      = Inr (NoError, got)"
    and ports: "TH_sport (TS_header got) = snd here" "TH_dport (TS_header got) = snd there"
    and flags: "TH_syn (TS_header got) = TH_syn (TS_header seg)" "TH_rst (TS_header got) = TH_rst (TS_header seg)"
  shows "unwrap_tcp_in_ip db b d = Inr (Some got, if FA_listen b then accepted b there here else b)"
proof -
  have h: "IP_src (DG_header d) = fst here" "IP_dst (DG_header d) = fst there" "IP_proto (DG_header d) = PROTO_TCP"
    by (simp_all add: d(1) ip_header_def IPv4Header_new_def)
  have p: "TCPSegment_parse TCPSegment_new pl (IPv4Header_pseudo_cksum (DG_header d)) = Inr (NoError, got)"
    using parse by (simp add: d(1) IPv4Header_pseudo_cksum_def IPv4Header_payload_length_def)
  show ?thesis
  proof (cases "FA_listen b")
    case True
    then obtain any other where a: "between b (any, snd there) other" and f: "TH_syn (TS_header seg)" "\<not> TH_rst (TS_header seg)"
      using b by (auto simp: takes_def)
    show ?thesis using True f unwrap_eq [OF db a d(2) p] by (simp add: h ports flags)
  next
    case False
    then have a: "between b there here" using b by (simp add: takes_def)
    show ?thesis using False unwrap_eq [OF db a d(2) p] by (simp add: h ports)
  qed
qed

text \<open>Segments that carry the same: all of the header but the ports and the checksum, and the payload.\<close>

definition same_segment :: "TCPSegment \<Rightarrow> TCPSegment \<Rightarrow> bool" where
  "same_segment s t \<longleftrightarrow> TCPHeader_eq (TS_header s) (TS_header t) \<and> Buffer_str (TS_payload s) = Buffer_str (TS_payload t)"

lemma checked_same:
  "TCPHeader_eq (checked (with_ports seg p q) ck0) (TS_header seg)"
  by (simp add: TCPHeader_eq_def checked_def with_ports_def)

lemma checked_fields:
  "TH_sport (checked (with_ports seg p q) ck0) = p" "TH_dport (checked (with_ports seg p q) ck0) = q"
  "TH_syn (checked (with_ports seg p q) ck0) = TH_syn (TS_header seg)"
  "TH_rst (checked (with_ports seg p q) ck0) = TH_rst (TS_header seg)"
  by (simp_all add: checked_def with_ports_def)

text \<open>A wrapped segment, carried as bytes in any buffer of the datagram's payload, is unwrapped by the peer.\<close>

lemma wrap_unwrap:
  assumes db: "netdb_ok db" and a: "between a here there" and b: "takes b there here seg" and seg: "packable seg"
  obtains h bl bytes where
    "wrap_tcp_in_ip db a seg = Inr (\<lparr>DG_header = h, DG_payload = bl\<rparr>, with_ports seg (snd here) (snd there))"
    "IPv4Datagram_serialize \<lparr>DG_header = h, DG_payload = bl\<rparr> = Inr bytes" "length (BufferList_concatenate bytes) < 65536"
    "\<forall>buf. Buffer_inv buf \<and> Buffer_str buf = BufferList_concatenate bytes \<longrightarrow>
      (\<exists>d got. IPv4Datagram_parse IPv4Datagram_new buf = Inr (NoError, d)
        \<and> unwrap_tcp_in_ip db b d = Inr (Some got, if FA_listen b then accepted b there here else b)
        \<and> same_segment got seg \<and> TH_sport (TS_header got) = snd here \<and> TH_dport (TS_header got) = snd there)"
proof -
  let ?seg = "with_ports seg (snd here) (snd there)"
  let ?h = "ip_header (fst here) (fst there) ?seg"
  obtain bl where bl: "wrap_tcp_in_ip db a seg = Inr (\<lparr>DG_header = ?h, DG_payload = bl\<rparr>, ?seg)"
    "IPv4Header_for ?h (BufferList_concatenate bl)" "BufferList_inv bl"
    "\<forall>b. Buffer_inv b \<and> Buffer_str b = BufferList_concatenate bl \<longrightarrow>
      (\<exists>pl. TCPSegment_parse TCPSegment_new b (IPv4Header_pseudo_cksum ?h)
          = Inr (NoError, \<lparr>TS_header = checked ?seg (IPv4Header_pseudo_cksum ?h), TS_payload = pl\<rparr>)
        \<and> Buffer_inv pl \<and> Buffer_str pl = Buffer_str (TS_payload seg))"
    by (rule wrap_ok [OF db a seg])
  let ?d = "\<lparr>DG_header = ?h, DG_payload = bl\<rparr>"
  have d: "IPv4Header_for (DG_header ?d) (BufferList_concatenate (DG_payload ?d))" "BufferList_inv (DG_payload ?d)"
    using bl(2,3) by simp_all
  obtain packet where packet: "IPv4Datagram_serialize ?d = Inr packet" "length (BufferList_concatenate packet) < 65536"
    "\<forall>b d0. Buffer_inv b \<and> Buffer_str b = BufferList_concatenate packet \<longrightarrow>
      (\<exists>pl. IPv4Datagram_parse d0 b
          = Inr (NoError, \<lparr>DG_header = (DG_header ?d)\<lparr>IP_cksum := IPv4Header_checksum (DG_header ?d)\<rparr>, DG_payload = pl\<rparr>)
        \<and> BufferList_inv pl \<and> BufferList_concatenate pl = BufferList_concatenate (DG_payload ?d))"
    by (rule IPv4Datagram_wire [OF d])
  show thesis
  proof (rule that [OF bl(1) packet(1,2)], intro allI impI, elim conjE)
    fix buf assume buf: "Buffer_inv buf" "Buffer_str buf = BufferList_concatenate packet"
    obtain r d' pl where d': "IPv4Datagram_parse IPv4Datagram_new buf = Inr (r, d')"
      "DG_payload d' = BufferList_of_Buffer pl" "Buffer_inv pl" by (rule IPv4Datagram_parse_any [OF buf(1)])
    have good: "r = NoError" "DG_header d' = ?h\<lparr>IP_ttl := IP_ttl ?h, IP_cksum := IPv4Header_checksum ?h\<rparr>" "Buffer_str pl = BufferList_concatenate bl"
      using packet(3) [rule_format, of buf IPv4Datagram_new] buf d' by auto
    obtain q where q: "TCPSegment_parse TCPSegment_new pl (IPv4Header_pseudo_cksum ?h)
        = Inr (NoError, \<lparr>TS_header = checked ?seg (IPv4Header_pseudo_cksum ?h), TS_payload = q\<rparr>)"
      "Buffer_str q = Buffer_str (TS_payload seg)"
      using bl(4) d'(3) good(3) by blast
    have "unwrap_tcp_in_ip db b d' = Inr (Some \<lparr>TS_header = checked ?seg (IPv4Header_pseudo_cksum ?h), TS_payload = q\<rparr>,
        if FA_listen b then accepted b there here else b)"
      by (rule unwrap_wrapped [OF db b good(2) d'(2) q(1)]) (simp_all add: checked_fields)
    then show "\<exists>d got. IPv4Datagram_parse IPv4Datagram_new buf = Inr (NoError, d)
        \<and> unwrap_tcp_in_ip db b d = Inr (Some got, if FA_listen b then accepted b there here else b)
        \<and> same_segment got seg \<and> TH_sport (TS_header got) = snd here \<and> TH_dport (TS_header got) = snd there"
      using d'(1) good(1) q(2)
      by (intro exI [of _ d'] exI [of _ "\<lparr>TS_header = checked ?seg (IPv4Header_pseudo_cksum ?h), TS_payload = q\<rparr>"])
        (simp add: same_segment_def checked_same checked_fields)
  qed
qed

lemma tun_carries:
  fixes a b :: TCPOverIPv4OverTunFdAdapter
  assumes "netdb_ok db" and "between a here there" and "takes b there here seg" and "packable seg"
  obtains packet got where
    "TCPOverIPv4OverTunFdAdapter_write db a seg = Inr (with_ports seg (snd here) (snd there), a\<lparr>TA_tun := TA_tun a @ [packet]\<rparr>)"
    "TCPOverIPv4OverTunFdAdapter_read db b (BufferList_concatenate packet)
      = Inr (Some got, if FA_listen b then accepted b there here else b)"
    "same_segment got seg" "TH_sport (TS_header got) = snd here" "TH_dport (TS_header got) = snd there"
proof -
  obtain h bl bytes where w:
    "wrap_tcp_in_ip db a seg = Inr (\<lparr>DG_header = h, DG_payload = bl\<rparr>, with_ports seg (snd here) (snd there))"
    "IPv4Datagram_serialize \<lparr>DG_header = h, DG_payload = bl\<rparr> = Inr bytes" "length (BufferList_concatenate bytes) < 65536"
    "\<forall>buf. Buffer_inv buf \<and> Buffer_str buf = BufferList_concatenate bytes \<longrightarrow>
      (\<exists>d got. IPv4Datagram_parse IPv4Datagram_new buf = Inr (NoError, d)
        \<and> unwrap_tcp_in_ip db b d = Inr (Some got, if FA_listen b then accepted b there here else b)
        \<and> same_segment got seg \<and> TH_sport (TS_header got) = snd here \<and> TH_dport (TS_header got) = snd there)"
    by (rule wrap_unwrap [OF assms])
  obtain d got where "IPv4Datagram_parse IPv4Datagram_new (Buffer_of (BufferList_concatenate bytes)) = Inr (NoError, d)"
    "unwrap_tcp_in_ip db b d = Inr (Some got, if FA_listen b then accepted b there here else b)"
    "same_segment got seg" "TH_sport (TS_header got) = snd here" "TH_dport (TS_header got) = snd there"
    using w(4) [rule_format, of "Buffer_of (BufferList_concatenate bytes)"] w(3) by auto
  then show thesis
    by (intro that [of bytes got])
      (simp_all add: TCPOverIPv4OverTunFdAdapter_write_def TCPOverIPv4OverTunFdAdapter_read_def w(1,2))
qed

section \<open>Over Ethernet\<close>

lemma send_pending_eq:
  "send_pending a = a\<lparr>EA_tap := EA_tap a @ map EthernetFrame_serialize (NI_frames_out (EA_interface a)),
     EA_interface := (EA_interface a)\<lparr>NI_frames_out := []\<rparr>\<rparr>"
proof (induction a rule: send_pending.induct)
  case (1 a)
  show ?case
  proof (cases "NI_frames_out (EA_interface a)")
    case Nil
    then have "(EA_interface a)\<lparr>NI_frames_out := []\<rparr> = EA_interface a" by (cases "EA_interface a") simp
    then show ?thesis using Nil by (subst send_pending.simps) (cases a, simp)
  next
    case (Cons f fs)
    then show ?thesis using 1 [OF Cons] by (subst send_pending.simps) simp
  qed
qed

text \<open>Adapters on one link: nothing is pending, and the mapping of the next hop is known.\<close>

definition neighbours :: "TCPOverIPv4OverEthernetAdapter \<Rightarrow> TCPOverIPv4OverEthernetAdapter \<Rightarrow> bool" where
  "neighbours a b \<longleftrightarrow> (\<exists>k t. Address_ipv4_numeric (EA_next_hop a) = Inr k
       \<and> NI_ip2eth (EA_interface a) k = Some (NI_ethernet_address (EA_interface b), t))
     \<and> NI_frames_out (EA_interface a) = [] \<and> NI_frames_out (EA_interface b) = []
     \<and> address_ok (NI_ethernet_address (EA_interface a)) \<and> address_ok (NI_ethernet_address (EA_interface b))"

lemma recv_frame_ip:
  assumes "EH_dst (EF_header f) = NI_ethernet_address n" and "EH_type (EF_header f) = TYPE_IPv4"
    and "EF_payload f = BufferList_of_Buffer pl" and "IPv4Datagram_parse IPv4Datagram_new pl = Inr (NoError, d)"
  shows "recv_frame n f = Inr (Some d, n)"
  using assms by (simp add: recv_frame_def TYPE_ARP_def TYPE_IPv4_def)

lemma ethernet_carries:
  assumes "netdb_ok db" and "between a here there" and "takes b there here seg" and "packable seg" and n: "neighbours a b"
  obtains frame got where
    "TCPOverIPv4OverEthernetAdapter_write db a seg = Inr (with_ports seg (snd here) (snd there), a\<lparr>EA_tap := EA_tap a @ [frame]\<rparr>)"
    "TCPOverIPv4OverEthernetAdapter_read db b (BufferList_concatenate frame)
      = Inr (Some got, if FA_listen b then accepted b there here else b)"
    "same_segment got seg" "TH_sport (TS_header got) = snd here" "TH_dport (TS_header got) = snd there"
proof -
  obtain h bl bytes where w:
    "wrap_tcp_in_ip db a seg = Inr (\<lparr>DG_header = h, DG_payload = bl\<rparr>, with_ports seg (snd here) (snd there))"
    "IPv4Datagram_serialize \<lparr>DG_header = h, DG_payload = bl\<rparr> = Inr bytes" "length (BufferList_concatenate bytes) < 65536"
    "\<forall>buf. Buffer_inv buf \<and> Buffer_str buf = BufferList_concatenate bytes \<longrightarrow>
      (\<exists>d got. IPv4Datagram_parse IPv4Datagram_new buf = Inr (NoError, d)
        \<and> unwrap_tcp_in_ip db b d = Inr (Some got, if FA_listen b then accepted b there here else b)
        \<and> same_segment got seg \<and> TH_sport (TS_header got) = snd here \<and> TH_dport (TS_header got) = snd there)"
    by (rule wrap_unwrap [OF assms(1-4)])
  let ?A = "EA_interface a" and ?B = "EA_interface b"
  obtain k t where hop: "Address_ipv4_numeric (EA_next_hop a) = Inr k" "NI_ip2eth ?A k = Some (NI_ethernet_address ?B, t)"
    and idle: "NI_frames_out ?A = []" "NI_frames_out ?B = []"
    and eths: "address_ok (NI_ethernet_address ?A)" "address_ok (NI_ethernet_address ?B)"
    using n by (auto simp: neighbours_def)
  define f where "f = ip_frame ?A (NI_ethernet_address ?B) bytes"
  have quiet: "?A\<lparr>NI_frames_out := []\<rparr> = ?A" "?B\<lparr>NI_frames_out := []\<rparr> = ?B"
    using idle by (cases ?A, simp, cases ?B, simp)
  have "send_pending (a\<lparr>EA_interface := ?A\<lparr>NI_frames_out := [f]\<rparr>\<rparr>) = a\<lparr>EA_tap := EA_tap a @ [EthernetFrame_serialize f]\<rparr>"
    using quiet(1) by (cases a) (simp add: send_pending_eq)
  then have wr: "TCPOverIPv4OverEthernetAdapter_write db a seg
      = Inr (with_ports seg (snd here) (snd there), a\<lparr>EA_tap := EA_tap a @ [EthernetFrame_serialize f]\<rparr>)"
    using send_datagram_known [OF hop w(2)] idle(1) by (simp add: TCPOverIPv4OverEthernetAdapter_write_def w(1) f_def)
  have "EthernetHeader_ok (EF_header f)" "length (BufferList_concatenate (EF_payload f)) < 65536"
    using eths w(3) by (simp_all add: f_def ip_frame_def EthernetHeader_ok_def)
  then obtain pl where pl: "wire f = Inr (NoError, \<lparr>EF_header = EF_header f, EF_payload = BufferList_of_Buffer pl\<rparr>)"
    "Buffer_inv pl" "Buffer_str pl = BufferList_concatenate (EF_payload f)" by (rule wire_ok)
  obtain d got where d: "IPv4Datagram_parse IPv4Datagram_new pl = Inr (NoError, d)"
    "unwrap_tcp_in_ip db b d = Inr (Some got, if FA_listen b then accepted b there here else b)"
    "same_segment got seg" "TH_sport (TS_header got) = snd here" "TH_dport (TS_header got) = snd there"
    using w(4) [rule_format, of pl] pl(2,3) by (auto simp: f_def ip_frame_def)
  have "recv_frame ?B \<lparr>EF_header = EF_header f, EF_payload = BufferList_of_Buffer pl\<rparr> = Inr (Some d, ?B)"
    by (rule recv_frame_ip [OF _ _ _ d(1)]) (simp_all add: f_def ip_frame_def)
  moreover have "send_pending (b\<lparr>EA_interface := ?B\<rparr>) = b" using idle(2) quiet(2) by (cases b) (simp add: send_pending_eq)
  ultimately have "TCPOverIPv4OverEthernetAdapter_read db b (BufferList_concatenate (EthernetFrame_serialize f))
      = Inr (Some got, if FA_listen b then accepted b there here else b)"
    using pl(1) d(2) by (simp add: TCPOverIPv4OverEthernetAdapter_read_def wire_def)
  then show thesis using that wr d(3-5) by blast
qed

section \<open>Over UDP\<close>

lemma udp_carries:
  assumes db: "netdb_ok db" and a: "between a here there" and seg: "packable seg"
    and b: "if FA_listen b then TH_syn (TS_header seg) \<and> \<not> TH_rst (TS_header seg) else Address_eq from (AC_destination (FA_cfg b))"
  obtains bl got where
    "TCPOverUDPSocketAdapter_write db a seg = Inr (with_ports seg (snd here) (snd there),
      a\<lparr>UA_sent := UA_sent a @ [(AC_destination (FA_cfg a), bl)]\<rparr>)"
    "TCPOverUDPSocketAdapter_read b \<lparr>RD_source_address = from, RD_payload = BufferList_concatenate bl\<rparr>
      = Inr (Some got, if FA_listen b then FdAdapterBase_set_listening (set_destination b from) False else b)"
    "same_segment got seg" "TH_sport (TS_header got) = snd here" "TH_dport (TS_header got) = snd there"
proof -
  let ?seg = "with_ports seg (snd here) (snd there)"
  have seg': "TCPHeader_ok (TS_header ?seg)" "segment_fits ?seg 0" "TS_payload ?seg = TS_payload seg"
    using seg by (auto simp: packable_def with_ports_def TCPHeader_ok_def segment_fits_def)
  obtain bl where bl: "TCPSegment_serialize ?seg 0 = Inr bl"
    "length (BufferList_concatenate bl) = 4 * unat (TH_doff (TS_header ?seg)) + length (Buffer_str (TS_payload ?seg))"
    "\<forall>b seg0. Buffer_inv b \<and> Buffer_str b = BufferList_concatenate bl \<longrightarrow>
      (\<exists>pl. TCPSegment_parse seg0 b 0 = Inr (NoError, \<lparr>TS_header = checked ?seg 0, TS_payload = pl\<rparr>)
        \<and> Buffer_inv pl \<and> Buffer_str pl = Buffer_str (TS_payload ?seg))"
    unfolding checked_def by (rule TCPSegment_wire [OF seg'(1,2)])
  have "length (BufferList_concatenate bl) < 65536" using seg bl(2) by (simp add: packable_def with_ports_def)
  then obtain pl where pl: "TCPSegment_parse TCPSegment_new (Buffer_of (BufferList_concatenate bl)) 0
      = Inr (NoError, \<lparr>TS_header = checked ?seg 0, TS_payload = pl\<rparr>)" "Buffer_str pl = Buffer_str (TS_payload seg)"
    using bl(3) [rule_format, of "Buffer_of (BufferList_concatenate bl)" TCPSegment_new] seg'(3) by auto
  show thesis
    using b pl bl(1)
    by (intro that [of bl "\<lparr>TS_header = checked ?seg 0, TS_payload = pl\<rparr>"])
      (auto simp: TCPOverUDPSocketAdapter_write_def TCPOverUDPSocketAdapter_read_def set_ports_eq [OF db a] checked_fields
        same_segment_def checked_same split: if_splits)
qed

section \<open>Sequences of segments\<close>

text \<open>Writing a queue of segments, and reading a sequence of packets.\<close>

fun write_all :: "('a \<Rightarrow> TCPSegment \<Rightarrow> (TCPSegment \<times> 'a) result) \<Rightarrow> 'a \<Rightarrow> TCPSegment list \<Rightarrow> 'a result" where
  "write_all w a [] = Inr a" |
  "write_all w a (seg # segs) = bindR (w a seg) (\<lambda>(_, a). write_all w a segs)"

fun read_all :: "('b \<Rightarrow> 'p \<Rightarrow> (TCPSegment option \<times> 'b) result) \<Rightarrow> 'b \<Rightarrow> 'p list \<Rightarrow> (TCPSegment list \<times> 'b) result" where
  "read_all r b [] = Inr ([], b)" |
  "read_all r b (p # ps) =
     bindR (r b p) (\<lambda>(got, b). bindR (read_all r b ps) (\<lambda>(gots, b). Inr (case got of None \<Rightarrow> gots | Some s \<Rightarrow> s # gots, b)))"

text \<open>What an adapter promises: a packable segment becomes one packet, and the linked peer reads the
  same segment out of it.\<close>

locale carrier =
  fixes send :: "'a \<Rightarrow> TCPSegment \<Rightarrow> (TCPSegment \<times> 'a) result" and sent :: "'a \<Rightarrow> 'p list"
    and receive :: "'b \<Rightarrow> 'p \<Rightarrow> (TCPSegment option \<times> 'b) result" and linked :: "'a \<Rightarrow> 'b \<Rightarrow> bool"
  assumes carries: "linked a b \<Longrightarrow> packable seg \<Longrightarrow> \<exists>seg1 a' p got b'. send a seg = Inr (seg1, a') \<and> sent a' = sent a @ [p]
    \<and> receive b p = Inr (Some got, b') \<and> same_segment got seg \<and> linked a' b'"
begin

lemma carries_all:
  "linked a b \<Longrightarrow> list_all packable segs \<Longrightarrow> \<exists>a' ps gots b'. write_all send a segs = Inr a' \<and> sent a' = sent a @ ps
    \<and> read_all receive b ps = Inr (gots, b') \<and> list_all2 same_segment gots segs"
proof (induction segs arbitrary: a b)
  case (Cons seg segs)
  obtain seg1 a1 p got b1 where one: "send a seg = Inr (seg1, a1)" "sent a1 = sent a @ [p]"
    "receive b p = Inr (Some got, b1)" "same_segment got seg" "linked a1 b1"
    using carries [of a b seg] Cons.prems by auto
  obtain a' ps gots b' where "write_all send a1 segs = Inr a'" "sent a' = sent a1 @ ps"
    "read_all receive b1 ps = Inr (gots, b')" "list_all2 same_segment gots segs"
    using Cons.IH [OF one(5)] Cons.prems(2) by auto
  then show ?case using one
    by (intro exI [of _ a'] exI [of _ "p # ps"] exI [of _ "got # gots"] exI [of _ b']) simp
qed simp

text \<open>With loss on both sides, what arrives is a subsequence of what was sent.\<close>

lemma lossy_write_cases:
  obtains g where "LossyFdAdapter_write rand config send l seg = Inr (seg, l\<lparr>LA_rand := g\<rparr>)"
  | g where "LossyFdAdapter_write rand config send l seg
      = bindR (send (LA_adapter l) seg) (\<lambda>(seg, a). Inr (seg, l\<lparr>LA_rand := g, LA_adapter := a\<rparr>))"
proof -
  obtain d l' where d: "should_drop rand config l True = (d, l')" by fastforce
  then obtain g where g: "l' = l\<lparr>LA_rand := g\<rparr>"
    by (cases l) (auto simp: should_drop_def Let_def split: prod.splits if_splits)
  show thesis
  proof (cases d)
    case True
    then show thesis using that(1) d g by (simp add: LossyFdAdapter_write_def)
  next
    case False
    then show thesis using that(2) [of g] d g by (cases l) (simp add: LossyFdAdapter_write_def)
  qed
qed

lemma lossy_read:
  assumes "receive (LA_adapter l) p = Inr (got, b)"
  obtains g d where "LossyFdAdapter_read rand config receive l p
    = Inr (if d then None else got, \<lparr>LA_rand = g, LA_adapter = b\<rparr>)"
proof -
  obtain d l' where d: "should_drop rand config (l\<lparr>LA_adapter := b\<rparr>) False = (d, l')" by fastforce
  then obtain g where "l' = \<lparr>LA_rand = g, LA_adapter = b\<rparr>"
    by (cases l) (auto simp: should_drop_def Let_def split: prod.splits if_splits)
  then show thesis using that [of d g] assms d by (simp add: LossyFdAdapter_read_def)
qed

lemma lossy_carries_all:
  "linked (LA_adapter l) (LA_adapter m) \<Longrightarrow> list_all packable segs \<Longrightarrow>
    \<exists>l' ps gots m' kept. write_all (LossyFdAdapter_write rand config send) l segs = Inr l'
    \<and> sent (LA_adapter l') = sent (LA_adapter l) @ ps
    \<and> read_all (LossyFdAdapter_read rand' config' receive) m ps = Inr (gots, m')
    \<and> subseq kept segs \<and> list_all2 same_segment gots kept"
proof (induction segs arbitrary: l m)
  case (Cons seg segs)
  show ?case
  proof (cases rule: lossy_write_cases [of rand config l seg])
    case (1 g)
    then obtain l' ps gots m' kept where "write_all (LossyFdAdapter_write rand config send) (l\<lparr>LA_rand := g\<rparr>) segs = Inr l'"
      "sent (LA_adapter l') = sent (LA_adapter l) @ ps" "read_all (LossyFdAdapter_read rand' config' receive) m ps = Inr (gots, m')"
      "subseq kept segs" "list_all2 same_segment gots kept"
      using Cons.IH [of "l\<lparr>LA_rand := g\<rparr>" m] Cons.prems by auto
    then show ?thesis using 1
      by (intro exI [of _ l'] exI [of _ ps] exI [of _ gots] exI [of _ m'] exI [of _ kept]) auto
  next
    case (2 g)
    obtain seg1 a1 p got b1 where one: "send (LA_adapter l) seg = Inr (seg1, a1)" "sent a1 = sent (LA_adapter l) @ [p]"
      "receive (LA_adapter m) p = Inr (Some got, b1)" "same_segment got seg" "linked a1 b1"
      using carries [of "LA_adapter l" "LA_adapter m" seg] Cons.prems by auto
    obtain h d where read: "LossyFdAdapter_read rand' config' receive m p
        = Inr (if d then None else Some got, \<lparr>LA_rand = h, LA_adapter = b1\<rparr>)"
      by (rule lossy_read [OF one(3)])
    obtain l' ps gots m' kept where rest: "write_all (LossyFdAdapter_write rand config send) (l\<lparr>LA_rand := g, LA_adapter := a1\<rparr>) segs = Inr l'"
      "sent (LA_adapter l') = sent a1 @ ps" "read_all (LossyFdAdapter_read rand' config' receive) \<lparr>LA_rand = h, LA_adapter = b1\<rparr> ps = Inr (gots, m')"
      "subseq kept segs" "list_all2 same_segment gots kept"
      using Cons.IH [of "l\<lparr>LA_rand := g, LA_adapter := a1\<rparr>" "\<lparr>LA_rand = h, LA_adapter = b1\<rparr>"] Cons.prems one(5) by auto
    show ?thesis
      using 2 one read rest
      by (intro exI [of _ l'] exI [of _ "p # ps"] exI [of _ "if d then gots else got # gots"] exI [of _ m']
          exI [of _ "if d then kept else seg # kept"]) auto
  qed
qed auto

end

definition paired :: "netdb \<Rightarrow> 'a FdAdapterBase_scheme \<Rightarrow> 'b FdAdapterBase_scheme \<Rightarrow> bool" where
  "paired db a b \<longleftrightarrow> netdb_ok db \<and> \<not> FA_listen b \<and> (\<exists>here there. between a here there \<and> between b there here)"

lemma between_device [simp]:
  "between (a\<lparr>TA_tun := t\<rparr>) here there = between a here there" "FA_listen (a\<lparr>TA_tun := t\<rparr>) = FA_listen a"
  "between (e\<lparr>EA_tap := t\<rparr>) here there = between e here there" "FA_listen (e\<lparr>EA_tap := t\<rparr>) = FA_listen e"
  "between (u\<lparr>UA_sent := v\<rparr>) here there = between u here there" "FA_listen (u\<lparr>UA_sent := v\<rparr>) = FA_listen u"
  by (simp_all add: between_def)

interpretation tun: carrier "TCPOverIPv4OverTunFdAdapter_write db" TA_tun
    "\<lambda>b p. TCPOverIPv4OverTunFdAdapter_read db b (BufferList_concatenate p)" "paired db" for db
proof
  fix a b :: TCPOverIPv4OverTunFdAdapter and seg
  assume p: "paired db a b" and seg: "packable seg"
  then obtain here there where ends: "netdb_ok db" "between a here there" "between b there here" "\<not> FA_listen b"
    by (auto simp: paired_def)
  then have "takes b there here seg" by (simp add: takes_def)
  then obtain packet got where "TCPOverIPv4OverTunFdAdapter_write db a seg = Inr (with_ports seg (snd here) (snd there), a\<lparr>TA_tun := TA_tun a @ [packet]\<rparr>)"
    "TCPOverIPv4OverTunFdAdapter_read db b (BufferList_concatenate packet) = Inr (Some got, if FA_listen b then accepted b there here else b)"
    "same_segment got seg" by (rule tun_carries [OF ends(1,2) _ seg])
  then show "\<exists>seg1 a' p got b'. TCPOverIPv4OverTunFdAdapter_write db a seg = Inr (seg1, a') \<and> TA_tun a' = TA_tun a @ [p]
      \<and> TCPOverIPv4OverTunFdAdapter_read db b (BufferList_concatenate p) = Inr (Some got, b') \<and> same_segment got seg \<and> paired db a' b'"
    using p ends(4) by (auto simp: paired_def)
qed

interpretation ethernet: carrier "TCPOverIPv4OverEthernetAdapter_write db" EA_tap
    "\<lambda>b p. TCPOverIPv4OverEthernetAdapter_read db b (BufferList_concatenate p)" "\<lambda>a b. paired db a b \<and> neighbours a b" for db
proof
  fix a b :: TCPOverIPv4OverEthernetAdapter and seg
  assume p: "paired db a b \<and> neighbours a b" and seg: "packable seg"
  then obtain here there where ends: "netdb_ok db" "between a here there" "between b there here" "\<not> FA_listen b" "neighbours a b"
    by (auto simp: paired_def)
  then have t: "takes b there here seg" by (simp add: takes_def)
  obtain packet got where "TCPOverIPv4OverEthernetAdapter_write db a seg = Inr (with_ports seg (snd here) (snd there), a\<lparr>EA_tap := EA_tap a @ [packet]\<rparr>)"
    "TCPOverIPv4OverEthernetAdapter_read db b (BufferList_concatenate packet) = Inr (Some got, if FA_listen b then accepted b there here else b)"
    "same_segment got seg" by (rule ethernet_carries [OF ends(1,2) t seg ends(5)])
  then show "\<exists>seg1 a' p got b'. TCPOverIPv4OverEthernetAdapter_write db a seg = Inr (seg1, a') \<and> EA_tap a' = EA_tap a @ [p]
      \<and> TCPOverIPv4OverEthernetAdapter_read db b (BufferList_concatenate p) = Inr (Some got, b') \<and> same_segment got seg
      \<and> paired db a' b' \<and> neighbours a' b'"
    using p ends(4) by (auto simp: paired_def neighbours_def)
qed

text \<open>A UDP datagram arrives with the address it was sent from.\<close>

definition udp_sent :: "TCPOverUDPSocketAdapter \<Rightarrow> received_datagram list" where
  "udp_sent a = map (\<lambda>(_, bl). \<lparr>RD_source_address = AC_source (FA_cfg a), RD_payload = BufferList_concatenate bl\<rparr>) (UA_sent a)"

interpretation udp: carrier "TCPOverUDPSocketAdapter_write db" udp_sent TCPOverUDPSocketAdapter_read "paired db" for db
proof
  fix a b :: TCPOverUDPSocketAdapter and seg
  assume p: "paired db a b" and seg: "packable seg"
  then obtain here there where ends: "netdb_ok db" "between a here there" "between b there here" "\<not> FA_listen b"
    by (auto simp: paired_def)
  then have t: "if FA_listen b then TH_syn (TS_header seg) \<and> \<not> TH_rst (TS_header seg)
      else Address_eq (AC_source (FA_cfg a)) (AC_destination (FA_cfg b))" by (simp add: between_def Address_eq_def)
  obtain bl got where "TCPOverUDPSocketAdapter_write db a seg = Inr (with_ports seg (snd here) (snd there),
      a\<lparr>UA_sent := UA_sent a @ [(AC_destination (FA_cfg a), bl)]\<rparr>)"
    "TCPOverUDPSocketAdapter_read b \<lparr>RD_source_address = AC_source (FA_cfg a), RD_payload = BufferList_concatenate bl\<rparr>
      = Inr (Some got, if FA_listen b then FdAdapterBase_set_listening (set_destination b (AC_source (FA_cfg a))) False else b)"
    "same_segment got seg" by (rule udp_carries [OF ends(1,2) seg t])
  then show "\<exists>seg1 a' p got b'. TCPOverUDPSocketAdapter_write db a seg = Inr (seg1, a') \<and> udp_sent a' = udp_sent a @ [p]
      \<and> TCPOverUDPSocketAdapter_read b p = Inr (Some got, b') \<and> same_segment got seg \<and> paired db a' b'"
    using p ends(4) by (auto simp: paired_def udp_sent_def)
qed

section \<open>An instance of the name functions\<close>

text \<open>Dotted decimal text, to show that the laws of the name functions can be met.\<close>

definition dotted :: "bytes \<Rightarrow> string" where
  "dotted bs = tl (concat (map (\<lambda>b. CHR 0x2e # digits (unat b)) bs))"

function fields :: "string \<Rightarrow> string list" where
  "fields s = takeWhile (\<lambda>c. c \<noteq> CHR 0x2e) s # (case dropWhile (\<lambda>c. c \<noteq> CHR 0x2e) s of [] \<Rightarrow> [] | _ # t \<Rightarrow> fields t)"
  by pat_completeness auto
termination
proof (relation "measure length")
  fix s :: string and c t
  assume "dropWhile (\<lambda>c. c \<noteq> CHR 0x2e) s = c # t"
  then show "(t, s) \<in> measure length" using length_dropWhile_le [of "\<lambda>c. c \<noteq> CHR 0x2e" s] by simp
qed simp

declare fields.simps [simp del]

definition example_netdb :: netdb where
  "example_netdb =
     \<lparr>getaddrinfo = (\<lambda>node service hints.
        if length (fields node) = 4
        then (0, Some ([2, 0] @ be_bytes (word_of_int (digits_value service) :: u16)
                 @ map (\<lambda>s. word_of_int (digits_value s)) (fields node) @ replicate 8 0, 16))
        else (- 2, None)),
      getnameinfo = (\<lambda>storage size. (0, dotted (take 4 (drop 4 storage)), digits (unat (be_word (take 2 (drop 2 storage)) :: u16)))),
      inet_ntoa = dotted\<rparr>"

lemma digit_not_dot: "is_digit c \<Longrightarrow> c \<noteq> CHR 0x2e"
  by (auto simp: is_digit_def)

lemma fields_digits:
  "fields (digits n) = [digits n]" "fields (digits n @ CHR 0x2e # s) = digits n # fields s"
proof -
  have d: "\<forall>c\<in>set (digits n). c \<noteq> CHR 0x2e" using digits_digit [of n] digit_not_dot by (auto simp: list_all_iff)
  then have all: "takeWhile (\<lambda>c. c \<noteq> CHR 0x2e) (digits n) = digits n" "dropWhile (\<lambda>c. c \<noteq> CHR 0x2e) (digits n) = []"
    by (simp_all add: takeWhile_eq_all_conv)
  have more: "takeWhile (\<lambda>c. c \<noteq> CHR 0x2e) (digits n @ CHR 0x2e # s) = digits n"
    "dropWhile (\<lambda>c. c \<noteq> CHR 0x2e) (digits n @ CHR 0x2e # s) = CHR 0x2e # s"
    using d by (simp_all add: takeWhile_append2 dropWhile_append2)
  show "fields (digits n) = [digits n]" by (subst fields.simps) (simp only: all list.case)
  show "fields (digits n @ CHR 0x2e # s) = digits n # fields s" by (subst fields.simps) (simp only: more list.case)
qed

lemma example_netdb_ok: "netdb_ok example_netdb"
  unfolding netdb_ok_def
proof (intro allI conjI)
  fix ip :: u32 and port :: u16
  obtain a b c d where ip: "be_bytes ip = [a, b, c, d]" by (simp add: be_bytes_32)
  then have "fields (dotted (be_bytes ip)) = map (\<lambda>x. digits (unat x)) (be_bytes ip)"
    by (simp add: dotted_def fields_digits)
  then show "getaddrinfo example_netdb (inet_ntoa example_netdb (be_bytes ip)) (digits (unat port))
      (make_hints (AI_NUMERICHOST + AI_NUMERICSERV) AF_INET) = (0, Some (sockaddr_in ip port, 16))"
    using ip by (simp add: example_netdb_def digits_value_digits sockaddr_in_def)
  have "be_word (be_bytes port) = port" by (rule be_word_be_bytes_16)
  then show "getnameinfo example_netdb (AD_storage (inet_address ip port)) 16
      = (0, inet_ntoa example_netdb (be_bytes ip), digits (unat port))"
    by (simp add: example_netdb_def inet_address_def sockaddr_in_def)
qed

text \<open>Adapters between two hosts, for use as examples.\<close>

definition example_config :: "u32 \<times> u16 \<Rightarrow> u32 \<times> u16 \<Rightarrow> FdAdapterConfig" where
  "example_config here there = \<lparr>AC_source = inet_address (fst here) (snd here), AC_destination = inet_address (fst there) (snd there),
     AC_loss_rate_dn = 30000, AC_loss_rate_up = 20000\<rparr>"

definition example_tun :: "u32 \<times> u16 \<Rightarrow> u32 \<times> u16 \<Rightarrow> bool \<Rightarrow> TCPOverIPv4OverTunFdAdapter" where
  "example_tun here there listen = \<lparr>FA_cfg = example_config here there, FA_listen = listen, TA_tun = []\<rparr>"

definition example_tap :: "u32 \<times> u16 \<Rightarrow> u32 \<times> u16 \<Rightarrow> EthernetAddress \<Rightarrow> EthernetAddress \<Rightarrow> TCPOverIPv4OverEthernetAdapter" where
  "example_tap here there eth other = \<lparr>FA_cfg = example_config here there, FA_listen = False, EA_tap = [],
     EA_interface = (NetworkInterface_new eth (ipv4_address (fst here)))\<lparr>NI_ip2eth := [fst there \<mapsto> (other, 0)]\<rparr>,
     EA_next_hop = ipv4_address (fst there)\<rparr>"

definition example_syn :: TCPSegment where
  "example_syn = TCPSegment_new\<lparr>TS_header := TCPHeader_new\<lparr>TH_syn := True, TH_seqno := WrappingInt32 77\<rparr>\<rparr>"

definition example_data :: TCPSegment where
  "example_data = \<lparr>TS_header = TCPHeader_new\<lparr>TH_ack := True, TH_seqno := WrappingInt32 78\<rparr>, TS_payload = Buffer_of [104, 105]\<rparr>"

lemma example_adapters [simp]:
  "between (example_tun here there l) here there" "FA_listen (example_tun here there l) = l"
  "between (example_tap here there e f) here there" "\<not> FA_listen (example_tap here there e f)"
  by (simp_all add: between_def example_tun_def example_tap_def example_config_def)

lemma example_segments [simp]: "packable example_syn" "packable example_data"
  "TH_syn (TS_header example_syn)" "\<not> TH_rst (TS_header example_syn)"
  by (simp_all add: packable_def example_syn_def example_data_def TCPHeader_ok_def TCPSegment_new_def TCPHeader_new_def
      TCPHeader_LENGTH_def)

section \<open>Properties\<close>

text \<open>C6: a segment written on the TUN device of one host is read on that of the other as the same segment,
  with the ports and the checksum filled in: by the peer of the connection, and by an adapter that
  listens on the port when the segment offers a connection, which then belongs to that connection and
  listens no more.\<close>

theorem tcp_over_ip_carries:
  assumes "netdb_ok db" and "between a here there" and "takes b there here seg" and "packable seg"
  shows "\<exists>packet got.
     TCPOverIPv4OverTunFdAdapter_write db a seg = Inr (with_ports seg (snd here) (snd there), a\<lparr>TA_tun := TA_tun a @ [packet]\<rparr>)
   \<and> TCPOverIPv4OverTunFdAdapter_read db b (BufferList_concatenate packet)
       = Inr (Some got, if FA_listen b then accepted b there here else b)
   \<and> same_segment got seg \<and> TH_sport (TS_header got) = snd here \<and> TH_dport (TS_header got) = snd there"
  by (rule tun_carries [OF assms]) blast

theorem tcp_over_ip_carries_witness:
  "let a = example_tun (0x0a000001, 4000) (0x0a000002, 80) False; b = example_tun (0, 80) (0, 0) True; seg = example_syn
   in \<exists>packet got.
     TCPOverIPv4OverTunFdAdapter_write example_netdb a seg = Inr (with_ports seg 4000 80, a\<lparr>TA_tun := TA_tun a @ [packet]\<rparr>)
   \<and> TCPOverIPv4OverTunFdAdapter_read example_netdb b (BufferList_concatenate packet)
       = Inr (Some got, accepted b (0x0a000002, 80) (0x0a000001, 4000))
   \<and> same_segment got seg \<and> TH_sport (TS_header got) = 4000 \<and> TH_dport (TS_header got) = 80"
proof -
  let ?b = "example_tun (0, 80) (0, 0) True"
  have "takes ?b (0x0a000002, 80) (0x0a000001, 4000) example_syn"
    unfolding takes_def by (simp, intro exI, rule example_adapters(1))
  from tcp_over_ip_carries [OF example_netdb_ok example_adapters(1) this example_segments(1), of False]
  show ?thesis by (simp add: Let_def)
qed

text \<open>C27: whatever bytes the TUN device gives, the adapter does not throw, changes nothing unless it lets a
  segment through, and lets one through only when it came in a TCP datagram whose payload passes the
  checksum, for the local port, and, unless the adapter was listening, from the peer of the connection
  and to the local address; an adapter that was listening takes the connection of a SYN only.\<close>

theorem adapter_filters:
  assumes db: "netdb_ok db" and b: "between b here there" and bytes: "length bytes < 2 ^ 64"
  shows "\<exists>got b' r d pl. TCPOverIPv4OverTunFdAdapter_read db b bytes = Inr (got, b')
    \<and> IPv4Datagram_parse IPv4Datagram_new (Buffer_of bytes) = Inr (r, d) \<and> DG_payload d = BufferList_of_Buffer pl
    \<and> (case got of None \<Rightarrow> b' = b | Some seg \<Rightarrow>
        r = NoError \<and> IP_proto (DG_header d) = PROTO_TCP \<and> TH_dport (TS_header seg) = snd here
      \<and> InternetChecksum_value (InternetChecksum_add (InternetChecksum_new (IPv4Header_pseudo_cksum (DG_header d))) (Buffer_str pl)) = 0
      \<and> (if FA_listen b
         then TH_syn (TS_header seg) \<and> \<not> TH_rst (TS_header seg)
            \<and> b' = accepted b (IP_dst (DG_header d), snd here) (IP_src (DG_header d), TH_sport (TS_header seg))
         else b' = b \<and> IP_dst (DG_header d) = fst here \<and> IP_src (DG_header d) = fst there \<and> TH_sport (TS_header seg) = snd there))"
proof -
  have "Buffer_inv (Buffer_of bytes)" using bytes by simp
  then obtain r d pl where d: "IPv4Datagram_parse IPv4Datagram_new (Buffer_of bytes) = Inr (r, d)"
    "DG_payload d = BufferList_of_Buffer pl" "Buffer_inv pl" by (rule IPv4Datagram_parse_any)
  let ?ck = "IPv4Header_pseudo_cksum (DG_header d)"
  obtain r' seg where seg: "TCPSegment_parse TCPSegment_new pl ?ck = Inr (r', seg)"
    "r' = NoError \<longrightarrow> InternetChecksum_value (InternetChecksum_add (InternetChecksum_new ?ck) (Buffer_str pl)) = 0"
    by (rule TCPSegment_parse_any [OF d(3)])
  have read: "TCPOverIPv4OverTunFdAdapter_read db b bytes = (if r \<noteq> NoError then Inr (None, b) else unwrap_tcp_in_ip db b d)"
    by (simp add: TCPOverIPv4OverTunFdAdapter_read_def d(1))
  note u = unwrap_eq [OF db b d(2) seg(1)]
  show ?thesis
  proof (cases "r = NoError \<and> (FA_listen b \<or> IP_dst (DG_header d) = fst here \<and> IP_src (DG_header d) = fst there
      \<and> TH_sport (TS_header seg) = snd there) \<and> IP_proto (DG_header d) = PROTO_TCP \<and> r' = NoError
      \<and> TH_dport (TS_header seg) = snd here \<and> (FA_listen b \<longrightarrow> TH_syn (TS_header seg) \<and> \<not> TH_rst (TS_header seg))")
    case True
    then show ?thesis using read u seg(2) d(1,2) by auto
  next
    case False
    then have "TCPOverIPv4OverTunFdAdapter_read db b bytes = Inr (None, b)" unfolding read u by simp blast
    then show ?thesis using d(1,2) by auto
  qed
qed

theorem adapter_filters_witness:
  "let b = example_tun (0x0a000002, 80) (0x0a000001, 4000) False; bytes = [0x45, 0, 0, 1, 2, 3]
   in \<exists>got b'. TCPOverIPv4OverTunFdAdapter_read example_netdb b bytes = Inr (got, b') \<and> b' = b"
proof -
  obtain got b' where "TCPOverIPv4OverTunFdAdapter_read example_netdb (example_tun (0x0a000002, 80) (0x0a000001, 4000) False)
      [0x45, 0, 0, 1, 2, 3] = Inr (got, b')" "b' = example_tun (0x0a000002, 80) (0x0a000001, 4000) False"
    using adapter_filters [OF example_netdb_ok example_adapters(1), of "[0x45, 0, 0, 1, 2, 3]" "(0x0a000002, 80)" "(0x0a000001, 4000)" False]
    by (auto split: option.splits)
  then show ?thesis by simp
qed

text \<open>C28: over Ethernet, between neighbours that know each other's addresses, every queue of segments
  arrives whole and in order.\<close>

theorem full_stack_carries:
  assumes "paired db a b" and "neighbours a b" and "list_all packable segs"
  shows "\<exists>a' frames gots b'. write_all (TCPOverIPv4OverEthernetAdapter_write db) a segs = Inr a' \<and> EA_tap a' = EA_tap a @ frames
    \<and> read_all (\<lambda>b p. TCPOverIPv4OverEthernetAdapter_read db b (BufferList_concatenate p)) b frames = Inr (gots, b')
    \<and> list_all2 same_segment gots segs"
  using ethernet.carries_all assms by blast

theorem full_stack_carries_witness:
  "let a = example_tap (0x0a000001, 4000) (0x0a000002, 80) [2, 0, 0, 0, 0, 1] [2, 0, 0, 0, 0, 2];
       b = example_tap (0x0a000002, 80) (0x0a000001, 4000) [2, 0, 0, 0, 0, 2] [2, 0, 0, 0, 0, 1]
   in \<exists>a' frames gots b'. write_all (TCPOverIPv4OverEthernetAdapter_write example_netdb) a [example_syn, example_data] = Inr a'
    \<and> EA_tap a' = EA_tap a @ frames
    \<and> read_all (\<lambda>b p. TCPOverIPv4OverEthernetAdapter_read example_netdb b (BufferList_concatenate p)) b frames = Inr (gots, b')
    \<and> list_all2 same_segment gots [example_syn, example_data]"
  unfolding Let_def
proof (rule full_stack_carries)
  show "paired example_netdb (example_tap (0x0a000001, 4000) (0x0a000002, 80) [2, 0, 0, 0, 0, 1] [2, 0, 0, 0, 0, 2])
      (example_tap (0x0a000002, 80) (0x0a000001, 4000) [2, 0, 0, 0, 0, 2] [2, 0, 0, 0, 0, 1])"
    unfolding paired_def using example_netdb_ok example_adapters(3,4) by blast
qed (simp_all add: neighbours_def example_tap_def NetworkInterface_new_def address_ok_def)



end
