(* ===== verification/Network_Simulator.thy ===== *)
theory Network_Simulator
  imports Router Printing TCP_Over_IP
begin

text \<open>
  The simulator of a network of hosts around one router, from \<^verbatim>\<open>apps/network_simulator.cc\<close>. The
  hosts send datagrams to each other through the router; frames are handed over by the simulation, and at the
  end every host checks that it has received exactly what it expects. The random generator and the
  functions that name and resolve addresses are arguments. Shown here: what an exchange of frames moves, and what
  the check of a host verifies; that all tests succeed is shown in \<open>Simulator_Success\<close>.
\<close>

unbundle bit_operations_syntax

section \<open>Random numbers and addresses\<close>

type_synonym 'g generator = "'g \<Rightarrow> u32 \<times> 'g"

fun draw :: "nat \<Rightarrow> 'g generator \<Rightarrow> 'g \<Rightarrow> u32 list \<times> 'g" where
  "draw 0 rd g = ([], g)" |
  "draw (Suc n) rd g = (let (x, g) = rd g; (xs, g) = draw n rd g in (x # xs, g))"

definition random_host_ethernet_address :: "'g generator \<Rightarrow> 'g \<Rightarrow> EthernetAddress \<times> 'g" where
  "random_host_ethernet_address rd g =
     (let (xs, g) = draw 6 rd g; addr = map ucast xs;
          addr = addr[0 := addr ! 0 OR 0x02];
          addr = addr[0 := addr ! 0 AND 0xfe]
      in (addr, g))"

definition random_router_ethernet_address :: "'g generator \<Rightarrow> 'g \<Rightarrow> EthernetAddress \<times> 'g" where
  "random_router_ethernet_address rd g =
     (let (xs, g) = draw 6 rd g; addr = map ucast xs
      in (addr[0 := 0x02, 1 := 0, 2 := 0], g))"

definition ip_of :: "netdb \<Rightarrow> string \<Rightarrow> u32 result" where
  "ip_of db str = bindR (Address_of_ip (getaddrinfo db) str 0) Address_ipv4_numeric"

text \<open>Popping an empty queue is undefined behaviour: the error branch.\<close>

fun clear :: "'a list \<Rightarrow> 'a list \<Rightarrow> ('a list \<times> 'a list) result" where
  "clear [] queue2 = Inr ([], queue2)" |
  "clear (x # queue1) [] = Inl OutOfBounds" |
  "clear (x # queue1) (y # queue2) = clear queue1 queue2"

definition text_of :: "bytes \<Rightarrow> string" where
  "text_of bs = map (\<lambda>b. char_of (unat b)) bs"

definition bytes_of :: "string \<Rightarrow> bytes" where
  "bytes_of s = map (\<lambda>c. word_of_nat (of_char c)) s"

definition dgram_text :: "netdb \<Rightarrow> IPv4Datagram \<Rightarrow> string" where
  "dgram_text db dgram =
     IPv4Header_summary (inet_ntoa db) (DG_header dgram) @ '' payload='' @ [CHR 0x22]
       @ text_of (BufferList_concatenate (DG_payload dgram)) @ [CHR 0x22]"

definition summary :: "netdb \<Rightarrow> EthernetFrame \<Rightarrow> string result" where
  "summary db frame =
     (let ret = EthernetHeader_to_string (EF_header frame)
      in if EH_type (EF_header frame) = TYPE_IPv4
         then bindR (BufferList_to_Buffer (EF_payload frame)) (\<lambda>b.
              bindR (IPv4Datagram_parse IPv4Datagram_new b) (\<lambda>(r, dgram).
              Inr (ret @ (if r = NoError then '' '' @ dgram_text db dgram else '' (bad IPv4)''))))
         else if EH_type (EF_header frame) = TYPE_ARP
         then bindR (BufferList_to_Buffer (EF_payload frame)) (\<lambda>b.
              bindR (ARPMessage_parse ARPMessage_new b) (\<lambda>(r, arp).
              Inr (ret @ (if r = NoError then '' '' @ ARPMessage_to_string (inet_ntoa db) arp else '' (bad ARP)''))))
         else Inr ret)"

section \<open>Hosts\<close>

record Host =
  HO_name :: string
  HO_my_address :: Address
  HO_interface :: AsyncNetworkInterface
  HO_next_hop :: Address
  HO_expecting_to_receive :: "IPv4Datagram list"

text \<open>Two datagrams are the same when they are serialized to the same bytes.\<close>

definition same_wire :: "IPv4Datagram \<Rightarrow> IPv4Datagram \<Rightarrow> bool result" where
  "same_wire x expected =
     bindR (IPv4Datagram_serialize x) (\<lambda>a. bindR (IPv4Datagram_serialize expected) (\<lambda>b.
     Inr (BufferList_concatenate a = BufferList_concatenate b)))"

fun expecting :: "IPv4Datagram list \<Rightarrow> IPv4Datagram \<Rightarrow> bool result" where
  "expecting [] expected = Inr False" |
  "expecting (x # xs) expected = bindR (same_wire x expected) (\<lambda>same. if same then Inr True else expecting xs expected)"

fun remove_expectation :: "IPv4Datagram list \<Rightarrow> IPv4Datagram \<Rightarrow> IPv4Datagram list result" where
  "remove_expectation [] expected = Inr []" |
  "remove_expectation (x # xs) expected =
     bindR (same_wire x expected) (\<lambda>same.
     if same then Inr xs else bindR (remove_expectation xs expected) (\<lambda>ys. Inr (x # ys)))"

definition Host_new :: "'g generator \<Rightarrow> 'g \<Rightarrow> string \<Rightarrow> Address \<Rightarrow> Address \<Rightarrow> Host \<times> 'g" where
  "Host_new rd g name my_address next_hop =
     (let (eth, g) = random_host_ethernet_address rd g
      in (\<lparr>HO_name = name, HO_my_address = my_address,
           HO_interface = AsyncNetworkInterface_of (NetworkInterface_new eth my_address), HO_next_hop = next_hop,
           HO_expecting_to_receive = []\<rparr>, g))"

definition Host_send_to :: "netdb \<Rightarrow> 'g generator \<Rightarrow> 'g \<Rightarrow> Host \<Rightarrow> Address \<Rightarrow> u8 \<Rightarrow> (IPv4Datagram \<times> Host \<times> 'g) result" where
  "Host_send_to db rd g h destination ttl =
     bindR (Address_ipv4_numeric (HO_my_address h)) (\<lambda>src.
     bindR (Address_ipv4_numeric destination) (\<lambda>dst.
     let (n, g) = rd g;
         header = (DG_header IPv4Datagram_new)\<lparr>IP_src := src, IP_dst := dst\<rparr>;
         payload = BufferList_of_string (bytes_of (''random payload: {'' @ digits (unat n) @ ''}''));
         header = header\<lparr>IP_len := ucast (IP_hlen header) * 4 + ucast (BufferList_size payload)\<rparr>;
         dgram = \<lparr>DG_header = header\<lparr>IP_ttl := ttl\<rparr>, DG_payload = payload\<rparr>
     in bindR (send_datagram (AI_base (HO_interface h)) dgram (HO_next_hop h)) (\<lambda>i.
        bindR (Address_ip (getnameinfo db) (HO_next_hop h)) (\<lambda>_.
        Inr (dgram, h\<lparr>HO_interface := (HO_interface h)\<lparr>AI_base := i\<rparr>\<rparr>, g)))))"

definition Host_expect :: "Host \<Rightarrow> IPv4Datagram \<Rightarrow> Host" where
  "Host_expect h expected = h\<lparr>HO_expecting_to_receive := HO_expecting_to_receive h @ [expected]\<rparr>"

text \<open>The loop of the check over the datagrams received.\<close>

fun check_received :: "netdb \<Rightarrow> string \<Rightarrow> IPv4Datagram list \<Rightarrow> IPv4Datagram list \<Rightarrow> IPv4Datagram list result" where
  "check_received db name [] expected = Inr expected" |
  "check_received db name (d # ds) expected =
     bindR (expecting expected d) (\<lambda>known.
     if \<not> known then Inl (RuntimeError (''Host '' @ name @ '' received unexpected Internet datagram: '' @ dgram_text db d))
     else bindR (remove_expectation expected d) (check_received db name ds))"

definition Host_check :: "netdb \<Rightarrow> Host \<Rightarrow> Host result" where
  "Host_check db h =
     bindR (check_received db (HO_name h) (AI_datagrams_out (HO_interface h)) (HO_expecting_to_receive h)) (\<lambda>missing.
     case missing of
       [] \<Rightarrow> Inr (h\<lparr>HO_interface := (HO_interface h)\<lparr>AI_datagrams_out := []\<rparr>, HO_expecting_to_receive := []\<rparr>)
     | expected # _ \<Rightarrow>
         Inl (RuntimeError (''Host '' @ HO_name h @ '' did NOT receive an expected Internet datagram: '' @ dgram_text db expected)))"

section \<open>The network\<close>

fun deliver :: "netdb \<Rightarrow> EthernetFrame list \<Rightarrow> AsyncNetworkInterface \<Rightarrow> AsyncNetworkInterface result" where
  "deliver db [] dst = Inr dst" |
  "deliver db (frame # to_send) dst =
     (let frame = frame\<lparr>EF_payload := BufferList_of_string (BufferList_concatenate (EF_payload frame))\<rparr>
      in bindR (summary db frame) (\<lambda>_.
         bindR (AsyncNetworkInterface_recv_frame dst frame) (deliver db to_send)))"

abbreviation frames_out :: "AsyncNetworkInterface \<Rightarrow> EthernetFrame list" where
  "frames_out x \<equiv> NI_frames_out (AI_base x)"

definition clear_frames :: "EthernetFrame list \<Rightarrow> AsyncNetworkInterface \<Rightarrow> AsyncNetworkInterface result" where
  "clear_frames frames x =
     bindR (clear frames (frames_out x)) (\<lambda>(_, left). Inr (x\<lparr>AI_base := (AI_base x)\<lparr>NI_frames_out := left\<rparr>\<rparr>))"

definition exchange_frames ::
    "netdb \<Rightarrow> AsyncNetworkInterface \<Rightarrow> AsyncNetworkInterface \<Rightarrow> (AsyncNetworkInterface \<times> AsyncNetworkInterface) result" where
  "exchange_frames db x y =
     (let x_frames = frames_out x; y_frames = frames_out y
      in bindR (deliver db x_frames y) (\<lambda>y.
         bindR (deliver db y_frames x) (\<lambda>x.
         bindR (clear_frames x_frames x) (\<lambda>x.
         bindR (clear_frames y_frames y) (\<lambda>y. Inr (x, y))))))"

definition exchange_frames3 ::
    "netdb \<Rightarrow> AsyncNetworkInterface \<Rightarrow> AsyncNetworkInterface \<Rightarrow> AsyncNetworkInterface
      \<Rightarrow> (AsyncNetworkInterface \<times> AsyncNetworkInterface \<times> AsyncNetworkInterface) result" where
  "exchange_frames3 db x y z =
     (let x_frames = frames_out x; y_frames = frames_out y; z_frames = frames_out z
      in bindR (deliver db x_frames y) (\<lambda>y.
         bindR (deliver db x_frames z) (\<lambda>z.
         bindR (deliver db y_frames x) (\<lambda>x.
         bindR (deliver db y_frames z) (\<lambda>z.
         bindR (deliver db z_frames x) (\<lambda>x.
         bindR (deliver db z_frames y) (\<lambda>y.
         bindR (clear_frames x_frames x) (\<lambda>x.
         bindR (clear_frames y_frames y) (\<lambda>y.
         bindR (clear_frames z_frames z) (\<lambda>z. Inr (x, y, z)))))))))))"

text \<open>The hosts are listed in the order in which they are inserted. The container of the code goes through
  them in an order of its own, but no host depends on what another one finds.\<close>

record Network =
  NW_router :: Router
  default_id :: u64
  eth0_id :: u64
  eth1_id :: u64
  eth2_id :: u64
  uun3_id :: u64
  hs4_id :: u64
  mit5_id :: u64
  NW_hosts :: "(string \<times> Host) list"

definition Network_host :: "Network \<Rightarrow> string \<Rightarrow> Host result" where
  "Network_host w name =
     (case map_of (NW_hosts w) name of
        None \<Rightarrow> Inl (RuntimeError (''unknown host: '' @ name))
      | Some h \<Rightarrow> if HO_name h \<noteq> name then Inl (RuntimeError (''invalid host: '' @ name)) else Inr h)"

definition set_host :: "Network \<Rightarrow> string \<Rightarrow> Host \<Rightarrow> Network" where
  "set_host w name h = w\<lparr>NW_hosts := map (\<lambda>(n, h'). (n, if n = name then h else h')) (NW_hosts w)\<rparr>"

definition set_interface :: "Network \<Rightarrow> u64 \<Rightarrow> AsyncNetworkInterface \<Rightarrow> Network" where
  "set_interface w i a = w\<lparr>NW_router := (NW_router w)\<lparr>RT_interfaces := (RT_interfaces (NW_router w))[unat i := a]\<rparr>\<rparr>"

text \<open>The constructor: the interfaces of the router, the hosts, and the routes.\<close>

definition add_interface :: "netdb \<Rightarrow> 'g generator \<Rightarrow> 'g \<Rightarrow> Router \<Rightarrow> string \<Rightarrow> (u64 \<times> Router \<times> 'g) result" where
  "add_interface db rd g r address =
     (let (eth, g) = random_router_ethernet_address rd g
      in bindR (Address_of_ip (getaddrinfo db) address 0) (\<lambda>a.
         let (n, r) = Router_add_interface r (AsyncNetworkInterface_of (NetworkInterface_new eth a)) in Inr (n, r, g)))"

definition insert_host ::
    "netdb \<Rightarrow> 'g generator \<Rightarrow> 'g \<Rightarrow> (string \<times> Host) list \<Rightarrow> string \<Rightarrow> string \<Rightarrow> string \<Rightarrow> ((string \<times> Host) list \<times> 'g) result" where
  "insert_host db rd g hosts name my_address next_hop =
     bindR (Address_of_ip (getaddrinfo db) my_address 0) (\<lambda>a.
     bindR (Address_of_ip (getaddrinfo db) next_hop 0) (\<lambda>n.
     let (h, g) = Host_new rd g name a n
     in Inr (if map_of hosts name = None then hosts @ [(name, h)] else hosts, g)))"

definition add_route :: "netdb \<Rightarrow> Network \<Rightarrow> string \<Rightarrow> u8 \<Rightarrow> Address option \<Rightarrow> u64 \<Rightarrow> Network result" where
  "add_route db w pfx len next_hop interface_num =
     bindR (ip_of db pfx) (\<lambda>p. Inr (w\<lparr>NW_router := Router_add_route (NW_router w) p len next_hop interface_num\<rparr>))"

definition add_route_via :: "netdb \<Rightarrow> Network \<Rightarrow> string \<Rightarrow> u8 \<Rightarrow> string \<Rightarrow> u64 \<Rightarrow> Network result" where
  "add_route_via db w pfx len name interface_num =
     bindR (ip_of db pfx) (\<lambda>p. bindR (Network_host w name) (\<lambda>h.
     Inr (w\<lparr>NW_router := Router_add_route (NW_router w) p len (Some (HO_my_address h)) interface_num\<rparr>)))"

definition Network_interfaces :: "netdb \<Rightarrow> 'g generator \<Rightarrow> 'g \<Rightarrow> (Network \<times> 'g) result" where
  "Network_interfaces db rd g =
     bindR (add_interface db rd g Router_new ''171.67.76.46'') (\<lambda>(d, r, g).
     bindR (add_interface db rd g r ''10.0.0.1'') (\<lambda>(e0, r, g).
     bindR (add_interface db rd g r ''172.16.0.1'') (\<lambda>(e1, r, g).
     bindR (add_interface db rd g r ''192.168.0.1'') (\<lambda>(e2, r, g).
     bindR (add_interface db rd g r ''198.178.229.1'') (\<lambda>(u3, r, g).
     bindR (add_interface db rd g r ''143.195.0.2'') (\<lambda>(h4, r, g).
     bindR (add_interface db rd g r ''128.30.76.255'') (\<lambda>(m5, r, g).
     Inr (\<lparr>NW_router = r, default_id = d, eth0_id = e0, eth1_id = e1, eth2_id = e2, uun3_id = u3, hs4_id = h4,
           mit5_id = m5, NW_hosts = []\<rparr>, g))))))))"

definition Network_insert_hosts :: "netdb \<Rightarrow> 'g generator \<Rightarrow> 'g \<Rightarrow> Network \<Rightarrow> (Network \<times> 'g) result" where
  "Network_insert_hosts db rd g w =
     bindR (insert_host db rd g (NW_hosts w) ''applesauce'' ''10.0.0.2'' ''10.0.0.1'') (\<lambda>(hosts, g).
     bindR (insert_host db rd g hosts ''default_router'' ''171.67.76.1'' ''0'') (\<lambda>(hosts, g).
     bindR (insert_host db rd g hosts ''cherrypie'' ''192.168.0.2'' ''192.168.0.1'') (\<lambda>(hosts, g).
     bindR (insert_host db rd g hosts ''hs_router'' ''143.195.0.1'' ''0'') (\<lambda>(hosts, g).
     bindR (insert_host db rd g hosts ''dm42'' ''198.178.229.42'' ''198.178.229.1'') (\<lambda>(hosts, g).
     bindR (insert_host db rd g hosts ''dm43'' ''198.178.229.43'' ''198.178.229.1'') (\<lambda>(hosts, g).
     Inr (w\<lparr>NW_hosts := hosts\<rparr>, g)))))))"

definition Network_add_routes :: "netdb \<Rightarrow> Network \<Rightarrow> Network result" where
  "Network_add_routes db w =
     bindR (add_route_via db w ''0.0.0.0'' 0 ''default_router'' (default_id w)) (\<lambda>w.
     bindR (add_route db w ''10.0.0.0'' 8 None (eth0_id w)) (\<lambda>w.
     bindR (add_route db w ''172.16.0.0'' 16 None (eth1_id w)) (\<lambda>w.
     bindR (add_route db w ''192.168.0.0'' 24 None (eth2_id w)) (\<lambda>w.
     bindR (add_route db w ''198.178.229.0'' 24 None (uun3_id w)) (\<lambda>w.
     bindR (add_route_via db w ''143.195.0.0'' 17 ''hs_router'' (hs4_id w)) (\<lambda>w.
     bindR (add_route_via db w ''143.195.128.0'' 18 ''hs_router'' (hs4_id w)) (\<lambda>w.
     bindR (add_route_via db w ''143.195.192.0'' 19 ''hs_router'' (hs4_id w)) (\<lambda>w.
     bindR (Address_of_ip (getaddrinfo db) ''128.30.0.1'' 0) (\<lambda>hop.
     add_route db w ''128.30.76.255'' 16 (Some hop) (mit5_id w))))))))))"

definition Network_new :: "netdb \<Rightarrow> 'g generator \<Rightarrow> 'g \<Rightarrow> (Network \<times> 'g) result" where
  "Network_new db rd g =
     bindR (Network_interfaces db rd g) (\<lambda>(w, g).
     bindR (Network_insert_hosts db rd g w) (\<lambda>(w, g).
     bindR (Network_add_routes db w) (\<lambda>w. Inr (w, g))))"

section \<open>The simulation\<close>

text \<open>One cable between an interface of the router and a host, and the cable with two hosts.\<close>

definition link :: "netdb \<Rightarrow> u64 \<Rightarrow> string \<Rightarrow> Network \<Rightarrow> Network result" where
  "link db i name w =
     bindR (Router_interface (NW_router w) i) (\<lambda>x.
     bindR (Network_host w name) (\<lambda>h.
     bindR (exchange_frames db x (HO_interface h)) (\<lambda>(x, y).
     Inr (set_host (set_interface w i x) name (h\<lparr>HO_interface := y\<rparr>)))))"

definition link3 :: "netdb \<Rightarrow> u64 \<Rightarrow> string \<Rightarrow> string \<Rightarrow> Network \<Rightarrow> Network result" where
  "link3 db i name1 name2 w =
     bindR (Router_interface (NW_router w) i) (\<lambda>x.
     bindR (Network_host w name1) (\<lambda>h1.
     bindR (Network_host w name2) (\<lambda>h2.
     bindR (exchange_frames3 db x (HO_interface h1) (HO_interface h2)) (\<lambda>(x, y, z).
     Inr (set_host (set_host (set_interface w i x) name1 (h1\<lparr>HO_interface := y\<rparr>)) name2 (h2\<lparr>HO_interface := z\<rparr>))))))"

definition simulate_physical_connections :: "netdb \<Rightarrow> Network \<Rightarrow> Network result" where
  "simulate_physical_connections db w =
     bindR (link db (default_id w) ''default_router'' w) (\<lambda>w.
     bindR (link db (eth0_id w) ''applesauce'' w) (\<lambda>w.
     bindR (link db (eth2_id w) ''cherrypie'' w) (\<lambda>w.
     bindR (link db (hs4_id w) ''hs_router'' w) (\<lambda>w.
     link3 db (uun3_id w) ''dm42'' ''dm43'' w))))"

definition simulate_round :: "netdb \<Rightarrow> Network \<Rightarrow> Network result" where
  "simulate_round db w =
     bindR (Router_route (NW_router w)) (\<lambda>r. simulate_physical_connections db (w\<lparr>NW_router := r\<rparr>))"

fun simulate_rounds :: "nat \<Rightarrow> netdb \<Rightarrow> Network \<Rightarrow> Network result" where
  "simulate_rounds 0 db w = Inr w" |
  "simulate_rounds (Suc n) db w = bindR (simulate_round db w) (simulate_rounds n db)"

fun check_hosts :: "netdb \<Rightarrow> (string \<times> Host) list \<Rightarrow> (string \<times> Host) list result" where
  "check_hosts db [] = Inr []" |
  "check_hosts db ((name, h) # hosts) =
     bindR (Host_check db h) (\<lambda>h. bindR (check_hosts db hosts) (\<lambda>hosts. Inr ((name, h) # hosts)))"

definition simulate :: "netdb \<Rightarrow> Network \<Rightarrow> Network result" where
  "simulate db w =
     bindR (simulate_rounds 256 db w) (\<lambda>w. bindR (check_hosts db (NW_hosts w)) (\<lambda>hosts. Inr (w\<lparr>NW_hosts := hosts\<rparr>)))"

section \<open>The tests\<close>

text \<open>A test sends a datagram from one host and, unless it must get lost, expects it at another one with its
  time to live reduced by one.\<close>

definition send_from :: "netdb \<Rightarrow> 'g generator \<Rightarrow> 'g \<Rightarrow> Network \<Rightarrow> string \<Rightarrow> Address \<Rightarrow> u8 \<Rightarrow> (IPv4Datagram \<times> Network \<times> 'g) result" where
  "send_from db rd g w sender destination ttl =
     bindR (Network_host w sender) (\<lambda>h.
     bindR (Host_send_to db rd g h destination ttl) (\<lambda>(dgram_sent, h, g). Inr (dgram_sent, set_host w sender h, g)))"

definition lower_ttl :: "IPv4Datagram \<Rightarrow> IPv4Datagram" where
  "lower_ttl d = d\<lparr>DG_header := (DG_header d)\<lparr>IP_ttl := IP_ttl (DG_header d) - 1\<rparr>\<rparr>"

definition test_delivery :: "netdb \<Rightarrow> 'g generator \<Rightarrow> Network \<times> 'g \<Rightarrow> string \<Rightarrow> Address \<Rightarrow> string \<Rightarrow> (Network \<times> 'g) result" where
  "test_delivery db rd wg sender destination receiver =
     bindR (send_from db rd (snd wg) (fst wg) sender destination 64) (\<lambda>(dgram_sent, w, g).
     bindR (Network_host w receiver) (\<lambda>h.
     bindR (simulate db (set_host w receiver (Host_expect h (lower_ttl dgram_sent)))) (\<lambda>w. Inr (w, g))))"

definition test_to_host :: "netdb \<Rightarrow> 'g generator \<Rightarrow> Network \<times> 'g \<Rightarrow> string \<Rightarrow> string \<Rightarrow> (Network \<times> 'g) result" where
  "test_to_host db rd wg sender receiver =
     bindR (Network_host (fst wg) receiver) (\<lambda>h. test_delivery db rd wg sender (HO_my_address h) receiver)"

definition test_to_address :: "netdb \<Rightarrow> 'g generator \<Rightarrow> Network \<times> 'g \<Rightarrow> string \<Rightarrow> string \<Rightarrow> string \<Rightarrow> (Network \<times> 'g) result" where
  "test_to_address db rd wg sender address receiver =
     bindR (Address_of_ip (getaddrinfo db) address 0) (\<lambda>a. test_delivery db rd wg sender a receiver)"

definition test_expires :: "netdb \<Rightarrow> 'g generator \<Rightarrow> Network \<times> 'g \<Rightarrow> string \<Rightarrow> string \<Rightarrow> u8 \<Rightarrow> (Network \<times> 'g) result" where
  "test_expires db rd wg sender address ttl =
     bindR (Address_of_ip (getaddrinfo db) address 0) (\<lambda>a.
     bindR (send_from db rd (snd wg) (fst wg) sender a ttl) (\<lambda>(dgram_sent, w, g).
     bindR (simulate db w) (\<lambda>w. Inr (w, g))))"

definition network_simulator :: "netdb \<Rightarrow> 'g generator \<Rightarrow> 'g \<Rightarrow> (Network \<times> 'g) result" where
  "network_simulator db rd g =
     bindR (Network_new db rd g) (\<lambda>wg.
     bindR (test_to_host db rd wg ''applesauce'' ''cherrypie'') (\<lambda>wg.
     bindR (test_to_host db rd wg ''cherrypie'' ''applesauce'') (\<lambda>wg.
     bindR (test_to_address db rd wg ''applesauce'' ''1.2.3.4'' ''default_router'') (\<lambda>wg.
     bindR (test_to_address db rd wg ''applesauce'' ''143.195.131.17'' ''hs_router'') (\<lambda>wg.
     bindR (test_to_address db rd wg ''cherrypie'' ''143.195.193.52'' ''hs_router'') (\<lambda>wg.
     bindR (test_to_address db rd wg ''cherrypie'' ''143.195.223.255'' ''hs_router'') (\<lambda>wg.
     bindR (test_to_address db rd wg ''cherrypie'' ''143.195.224.0'' ''default_router'') (\<lambda>wg.
     bindR (test_to_host db rd wg ''dm42'' ''dm43'') (\<lambda>wg.
     bindR (test_expires db rd wg ''applesauce'' ''1.2.3.4'' 1) (\<lambda>wg.
     test_expires db rd wg ''applesauce'' ''1.2.3.4'' 0))))))))))"

section \<open>Frames on a cable\<close>

definition on_cable :: "EthernetFrame \<Rightarrow> EthernetFrame" where
  "on_cable frame = frame\<lparr>EF_payload := BufferList_of_string (BufferList_concatenate (EF_payload frame))\<rparr>"

lemma string_one_buffer: "BufferList_of_string s = BufferList_of_Buffer (Buffer_of s)"
  by (simp add: BufferList_of_string_def BufferList_append_def BufferList_default_def BufferList_of_Buffer_def)

lemma to_Buffer_string [simp]: "BufferList_to_Buffer (BufferList_of_string s) = Inr (Buffer_of s)"
  by (simp add: string_one_buffer)

lemma on_cable_ok: "length (BufferList_concatenate (EF_payload f)) < 2 ^ 64 \<Longrightarrow> frame_ok (on_cable f)"
  by (auto simp: frame_ok_def on_cable_def string_one_buffer)

lemma ARPMessage_parse_any: "Buffer_inv b \<Longrightarrow> \<exists>r m. ARPMessage_parse m0 b = Inr (r, m)"
  using ARPMessage_parser_total [of m0, unfolded never_throws_def, rule_format, of "NetParser_new b"]
  by (auto simp: ARPMessage_parse_def NetParser_new_def)

lemma summary_total: "frame_ok f \<Longrightarrow> \<exists>s. summary db f = Inr s"
proof -
  assume "frame_ok f"
  then obtain b where b: "EF_payload f = BufferList_of_Buffer b" "Buffer_inv b" by (auto simp: frame_ok_def)
  obtain r d where "IPv4Datagram_parse IPv4Datagram_new b = Inr (r, d)" by (rule IPv4Datagram_parse_any [OF b(2)])
  moreover obtain r' m where "ARPMessage_parse ARPMessage_new b = Inr (r', m)" using ARPMessage_parse_any [OF b(2)] by blast
  ultimately show ?thesis by (simp add: summary_def Let_def b(1))
qed

text \<open>Delivering is receiving the frames one after the other.\<close>

fun receive_frames :: "EthernetFrame list \<Rightarrow> AsyncNetworkInterface \<Rightarrow> AsyncNetworkInterface result" where
  "receive_frames [] a = Inr a" |
  "receive_frames (f # fs) a = bindR (AsyncNetworkInterface_recv_frame a f) (receive_frames fs)"

definition short_frame :: "EthernetFrame \<Rightarrow> bool" where
  "short_frame f \<longleftrightarrow> length (BufferList_concatenate (EF_payload f)) < 2 ^ 64"

lemma deliver_receives: "list_all short_frame frames \<Longrightarrow> deliver db frames a = receive_frames (map on_cable frames) a"
proof (induction frames arbitrary: a)
  case (Cons f fs)
  obtain s where "summary db (on_cable f) = Inr s" using Cons.prems summary_total [OF on_cable_ok, of f db] by (auto simp: short_frame_def)
  moreover have "deliver db fs = receive_frames (map on_cable fs)" using Cons.IH Cons.prems by auto
  ultimately show ?case by (simp add: Let_def on_cable_def [symmetric])
qed simp

lemma clear_eq: "clear q1 q2 = (if length q1 \<le> length q2 then Inr ([], drop (length q1) q2) else Inl OutOfBounds)"
  by (induction q1 q2 rule: clear.induct) simp_all

text \<open>Receiving only ever appends frames to the queue.\<close>

lemma receive_frames_appends:
  assumes "NI_inv ip (AI_base a)" and "list_all frame_ok fs"
  shows "\<exists>a' new. receive_frames fs a = Inr a' \<and> NI_inv ip (AI_base a') \<and> frames_out a' = frames_out a @ new"
  using assms
proof (induction fs arbitrary: a)
  case (Cons f fs)
  have "\<exists>a1 new. AsyncNetworkInterface_recv_frame a f = Inr a1 \<and> NI_inv ip (AI_base a1) \<and> frames_out a1 = frames_out a @ new"
  proof -
    have f: "frame_ok f" using Cons.prems(2) by simp
    show ?thesis
    proof (rule recv_frame_cases [OF Cons.prems(1) f])
      fix r assume "recv_frame (AI_base a) f = Inr (r, AI_base a)"
      then show ?thesis using Cons.prems(1) by (cases r) (simp_all add: AsyncNetworkInterface_recv_frame_def)
    next
      fix m assume "recv_frame (AI_base a) f = Inr (None, arp_learn ip (AI_base a) m)" "address_ok (sender_ethernet_address m)"
      then show ?thesis using NI_inv_learn [OF Cons.prems(1), of m]
        by (simp add: AsyncNetworkInterface_recv_frame_def) (simp add: arp_learn_def Let_def)
    qed
  qed
  then obtain a1 new where a1: "AsyncNetworkInterface_recv_frame a f = Inr a1" "NI_inv ip (AI_base a1)" "frames_out a1 = frames_out a @ new"
    by blast
  then show ?case using Cons.IH [OF a1(2)] Cons.prems(2) by auto
qed simp

text \<open>The exchange of frames between two interfaces, by what each of them receives.\<close>

definition drop_frames :: "nat \<Rightarrow> AsyncNetworkInterface \<Rightarrow> AsyncNetworkInterface" where
  "drop_frames n a = a\<lparr>AI_base := (AI_base a)\<lparr>NI_frames_out := drop n (frames_out a)\<rparr>\<rparr>"

lemma clear_frames_eq: "length frames \<le> length (frames_out x) \<Longrightarrow> clear_frames frames x = Inr (drop_frames (length frames) x)"
  by (simp add: clear_frames_def clear_eq drop_frames_def)

lemma exchange_ok:
  assumes x: "NI_inv ipx (AI_base x)" and y: "NI_inv ipy (AI_base y)"
    and short: "list_all short_frame (frames_out x)" "list_all short_frame (frames_out y)"
  shows "\<exists>x' y'. receive_frames (map on_cable (frames_out y)) x = Inr x' \<and> receive_frames (map on_cable (frames_out x)) y = Inr y'
    \<and> (\<exists>new. frames_out x' = frames_out x @ new) \<and> (\<exists>new. frames_out y' = frames_out y @ new)
    \<and> exchange_frames db x y = Inr (drop_frames (length (frames_out x)) x', drop_frames (length (frames_out y)) y')"
proof -
  have "list_all frame_ok (map on_cable fs)" if "list_all short_frame fs" for fs
    using that on_cable_ok by (induction fs) (auto simp: short_frame_def)
  then obtain x' nx y' ny where
    x': "receive_frames (map on_cable (frames_out y)) x = Inr x'" "frames_out x' = frames_out x @ nx" and
    y': "receive_frames (map on_cable (frames_out x)) y = Inr y'" "frames_out y' = frames_out y @ ny"
    using receive_frames_appends [OF x, of "map on_cable (frames_out y)"] receive_frames_appends [OF y, of "map on_cable (frames_out x)"] short
    by blast
  then show ?thesis using short by (auto simp: exchange_frames_def Let_def deliver_receives clear_frames_eq)
qed

lemma exchange_idle: "frames_out x = [] \<Longrightarrow> frames_out y = [] \<Longrightarrow> exchange_frames db x y = Inr (x, y)"
  by (simp add: exchange_frames_def Let_def clear_frames_def)

lemma exchange_idle3: "frames_out x = [] \<Longrightarrow> frames_out y = [] \<Longrightarrow> frames_out z = [] \<Longrightarrow> exchange_frames3 db x y z = Inr (x, y, z)"
  by (simp add: exchange_frames3_def Let_def clear_frames_def)

section \<open>What a host checks\<close>

definition wire_bytes :: "IPv4Datagram \<Rightarrow> bytes" where
  "wire_bytes d = (case IPv4Datagram_serialize d of Inl e \<Rightarrow> [] | Inr bl \<Rightarrow> BufferList_concatenate bl)"

definition serializes :: "IPv4Datagram \<Rightarrow> bool" where
  "serializes d \<longleftrightarrow> (\<exists>bl. IPv4Datagram_serialize d = Inr bl)"

lemma same_wire_eq: "serializes a \<Longrightarrow> serializes b \<Longrightarrow> same_wire a b = Inr (wire_bytes a = wire_bytes b)"
  by (auto simp: same_wire_def serializes_def wire_bytes_def)

lemma expecting_eq:
  "list_all serializes xs \<Longrightarrow> serializes d \<Longrightarrow> expecting xs d = Inr (wire_bytes d \<in># mset (map wire_bytes xs))"
  by (induction xs) (auto simp: same_wire_eq)

lemma remove_expectation_eq:
  "list_all serializes xs \<Longrightarrow> serializes d \<Longrightarrow> \<exists>ys. remove_expectation xs d = Inr ys \<and> list_all serializes ys
     \<and> mset (map wire_bytes ys) = mset (map wire_bytes xs) - {#wire_bytes d#}"
proof (induction xs)
  case (Cons x xs)
  then show ?case by (cases "wire_bytes x = wire_bytes d") (auto simp: same_wire_eq)
qed simp

lemma check_received_eq:
  assumes "list_all serializes ds" and "list_all serializes xs"
  shows "if mset (map wire_bytes ds) \<subseteq># mset (map wire_bytes xs)
    then \<exists>ys. check_received db name ds xs = Inr ys \<and> list_all serializes ys
      \<and> mset (map wire_bytes ys) = mset (map wire_bytes xs) - mset (map wire_bytes ds)
    else \<exists>e. check_received db name ds xs = Inl e"
  using assms
proof (induction ds arbitrary: xs)
  case (Cons d ds)
  show ?case
  proof (cases "wire_bytes d \<in># mset (map wire_bytes xs)")
    case True
    obtain ys where ys: "remove_expectation xs d = Inr ys" "list_all serializes ys"
      "mset (map wire_bytes ys) = mset (map wire_bytes xs) - {#wire_bytes d#}"
      using remove_expectation_eq [of xs d] Cons.prems by auto
    have step: "check_received db name (d # ds) xs = check_received db name ds ys"
      using True ys(1) expecting_eq [of xs d] Cons.prems by simp
    have sub: "mset (map wire_bytes (d # ds)) \<subseteq># mset (map wire_bytes xs) \<longleftrightarrow> mset (map wire_bytes ds) \<subseteq># mset (map wire_bytes ys)"
      using True ys(3) by (simp add: insert_subset_eq_iff)
    have diff: "mset (map wire_bytes xs) - mset (map wire_bytes (d # ds)) = mset (map wire_bytes ys) - mset (map wire_bytes ds)"
      using ys(3) by simp
    show ?thesis unfolding step sub diff using Cons.IH [OF _ ys(2)] Cons.prems(1) by simp
  next
    case False
    then have "\<not> mset (map wire_bytes (d # ds)) \<subseteq># mset (map wire_bytes xs)" using mset_subset_eqD by fastforce
    then show ?thesis using False expecting_eq [of xs d] Cons.prems by simp
  qed
qed simp

lemma Host_check_eq:
  assumes "list_all serializes (AI_datagrams_out (HO_interface h))" and "list_all serializes (HO_expecting_to_receive h)"
  shows "if mset (map wire_bytes (AI_datagrams_out (HO_interface h))) = mset (map wire_bytes (HO_expecting_to_receive h))
    then Host_check db h = Inr (h\<lparr>HO_interface := (HO_interface h)\<lparr>AI_datagrams_out := []\<rparr>, HO_expecting_to_receive := []\<rparr>)
    else \<exists>e. Host_check db h = Inl e"
proof (cases "mset (map wire_bytes (AI_datagrams_out (HO_interface h))) \<subseteq># mset (map wire_bytes (HO_expecting_to_receive h))")
  case True
  then obtain ys where ys: "check_received db (HO_name h) (AI_datagrams_out (HO_interface h)) (HO_expecting_to_receive h) = Inr ys"
    "mset (map wire_bytes ys) = mset (map wire_bytes (HO_expecting_to_receive h)) - mset (map wire_bytes (AI_datagrams_out (HO_interface h)))"
    using check_received_eq [OF assms, of db "HO_name h"] by auto
  have "ys = [] \<longleftrightarrow> mset (map wire_bytes (AI_datagrams_out (HO_interface h))) = mset (map wire_bytes (HO_expecting_to_receive h))"
    using ys(2) True by (metis Diff_eq_empty_iff_mset map_is_Nil_conv mset_zero_iff subset_mset.antisym subset_mset.order_refl)
  then show ?thesis using ys(1) by (cases ys) (simp_all add: Host_check_def)
next
  case False
  then show ?thesis using check_received_eq [OF assms, of db "HO_name h"] by (auto simp: Host_check_def)
qed

section \<open>Properties\<close>

text \<open>C36: the check of a host is exact: it succeeds, and leaves nothing behind, precisely when the datagrams
  received and the datagrams expected are the same on the wire, as often as each of them occurs and in whatever
  order; otherwise it throws.\<close>

theorem host_check_exact:
  assumes "list_all serializes (AI_datagrams_out (HO_interface h))" and "list_all serializes (HO_expecting_to_receive h)"
  shows "(\<exists>h'. Host_check db h = Inr h') \<longleftrightarrow>
    mset (map wire_bytes (AI_datagrams_out (HO_interface h))) = mset (map wire_bytes (HO_expecting_to_receive h))"
  using Host_check_eq [OF assms, of db] by (auto split: if_splits)

theorem host_check_exact_witness:
  "let h = \<lparr>HO_name = ''dm42'', HO_my_address = ipv4_address 7,
      HO_interface = (AsyncNetworkInterface_of (NetworkInterface_new [2, 0, 0, 0, 0, 1] (ipv4_address 7)))\<lparr>AI_datagrams_out := [example_dgram]\<rparr>,
      HO_next_hop = ipv4_address 9, HO_expecting_to_receive = [example_dgram]\<rparr>
   in (\<exists>h'. Host_check example_netdb h = Inr h') \<and> \<not> (\<exists>h'. Host_check example_netdb (Host_expect h example_dgram) = Inr h')"
proof -
  let ?h = "\<lparr>HO_name = ''dm42'', HO_my_address = ipv4_address 7,
      HO_interface = (AsyncNetworkInterface_of (NetworkInterface_new [2, 0, 0, 0, 0, 1] (ipv4_address 7)))\<lparr>AI_datagrams_out := [example_dgram]\<rparr>,
      HO_next_hop = ipv4_address 9, HO_expecting_to_receive = [example_dgram]\<rparr>"
  have d: "serializes example_dgram" using example_dgram_serializes by (simp add: serializes_def)
  have "\<exists>h'. Host_check example_netdb ?h = Inr h'" by (subst host_check_exact) (simp_all add: d)
  moreover have "\<not> (\<exists>h'. Host_check example_netdb (Host_expect ?h example_dgram) = Inr h')"
    by (subst host_check_exact) (simp_all add: d Host_expect_def)
  ultimately show ?thesis by (simp only: Let_def simp_thms)
qed

end
