(* ===== verification/Simulator_Cables.thy ===== *)
theory Simulator_Cables
  imports Network_Simulator
begin

text \<open>
  Datagrams on the cables of the simulator of \<open>Network_Simulator\<close>. A datagram crosses a cable in one
  exchange of frames when the address of the neighbour is known, and in three when it must be resolved first.
\<close>

section \<open>Datagrams on the way\<close>

definition arrived :: "IPv4Datagram \<Rightarrow> IPv4Datagram \<Rightarrow> bool" where
  "arrived d d' \<longleftrightarrow> DG_header d' = (DG_header d)\<lparr>IP_cksum := IPv4Header_checksum (DG_header d)\<rparr>
     \<and> BufferList_concatenate (DG_payload d') = BufferList_concatenate (DG_payload d) \<and> BufferList_inv (DG_payload d')"

lemma arrived_ok: "dgram_ok d \<Longrightarrow> arrived d d' \<Longrightarrow> dgram_ok d'"
  by (simp add: dgram_ok_def arrived_def)

lemma lower_ttl_forwarded: "lower_ttl d = forwarded d"
  by (simp add: lower_ttl_def forwarded_def)

lemma wire_bytes_ok:
  assumes "dgram_ok d"
  shows "serializes d" and "wire_bytes d = IPv4Header_bytes ((DG_header d)\<lparr>IP_cksum := IPv4Header_checksum (DG_header d)\<rparr>)
    @ BufferList_concatenate (DG_payload d)"
  using IPv4Datagram_serialize_bytes [of d] assms by (auto simp: dgram_ok_def serializes_def wire_bytes_def)

lemma checksum_ignores [simp]: "IPv4Header_checksum (h\<lparr>IP_cksum := c\<rparr>) = IPv4Header_checksum h"
  by (simp add: IPv4Header_checksum_def)

lemma arrived_wire: "dgram_ok d \<Longrightarrow> arrived d d' \<Longrightarrow> wire_bytes d' = wire_bytes d"
  using arrived_ok [of d d'] by (simp add: wire_bytes_ok arrived_def)

lemma forwarded_wire:
  assumes "dgram_ok d" and "arrived d d'"
  shows "wire_bytes (forwarded d') = wire_bytes (forwarded d)"
proof -
  have h: "(DG_header (forwarded d'))\<lparr>IP_cksum := c\<rparr> = (DG_header (forwarded d))\<lparr>IP_cksum := c\<rparr>" for c
    using assms(2) by (simp add: forwarded_def arrived_def)
  have c: "IPv4Header_checksum (DG_header (forwarded d')) = IPv4Header_checksum (DG_header (forwarded d))"
    using arg_cong [OF h [of 0], of IPv4Header_checksum] by simp
  have "DG_payload (forwarded x) = DG_payload x" for x by (simp add: forwarded_def)
  then show ?thesis
    using assms(2) wire_bytes_ok(2) [OF forwarded_ok [OF assms(1)]] wire_bytes_ok(2) [OF forwarded_ok [OF arrived_ok [OF assms]]]
    by (simp add: h c arrived_def)
qed

section \<open>Receiving from the cable\<close>

abbreviation eth :: "AsyncNetworkInterface \<Rightarrow> EthernetAddress" where
  "eth a \<equiv> NI_ethernet_address (AI_base a)"

lemma cable_arp:
  assumes "NI_inv ip (AI_base a)" and "ARPMessage_ok m" and "dst = ETHERNET_BROADCAST \<or> dst = eth a"
  shows "AsyncNetworkInterface_recv_frame a (on_cable (arp_frame s dst m)) = Inr (a\<lparr>AI_base := arp_learn ip (AI_base a) m\<rparr>)"
proof -
  have "length (ARPMessage_bytes m) = 28" using assms(2) by (simp add: ARPMessage_bytes_def ARPMessage_ok_def address_ok_def)
  then have "ARPMessage_parse ARPMessage_new (Buffer_of (ARPMessage_bytes m)) = Inr (NoError, m)"
    using ARPMessage_parse_good [OF assms(2), of "Buffer_of (ARPMessage_bytes m)" "[]"] by simp
  then have "recv_frame (AI_base a) (on_cable (arp_frame s dst m)) = Inr (None, arp_learn ip (AI_base a) m)"
    using assms(3) by (intro recv_arp [OF assms(1)]) (auto simp: for_me_def on_cable_def arp_frame_def)
  then show ?thesis by (simp add: AsyncNetworkInterface_recv_frame_def)
qed

lemma cable_ip:
  assumes "dgram_ok d" and "IPv4Datagram_serialize d = Inr bl"
  obtains d' where "arrived d d'" "length (BufferList_concatenate bl) < 65536"
    "\<forall>a s. AsyncNetworkInterface_recv_frame a (on_cable (ip_frame s (eth a) bl)) = Inr (a\<lparr>AI_datagrams_out := AI_datagrams_out a @ [d']\<rparr>)"
proof -
  obtain bl' where bl': "IPv4Datagram_serialize d = Inr bl'" "length (BufferList_concatenate bl') < 65536"
    "\<forall>b d0. Buffer_inv b \<and> Buffer_str b = BufferList_concatenate bl' \<longrightarrow>
      (\<exists>pl. IPv4Datagram_parse d0 b
          = Inr (NoError, \<lparr>DG_header = (DG_header d)\<lparr>IP_cksum := IPv4Header_checksum (DG_header d)\<rparr>, DG_payload = pl\<rparr>)
        \<and> BufferList_inv pl \<and> BufferList_concatenate pl = BufferList_concatenate (DG_payload d))"
    using assms(1) unfolding dgram_ok_def by (elim conjE) (rule IPv4Datagram_wire)
  have same: "bl' = bl" using bl'(1) assms(2) by simp
  obtain pl where pl: "IPv4Datagram_parse IPv4Datagram_new (Buffer_of (BufferList_concatenate bl))
      = Inr (NoError, \<lparr>DG_header = (DG_header d)\<lparr>IP_cksum := IPv4Header_checksum (DG_header d)\<rparr>, DG_payload = pl\<rparr>)"
    "BufferList_inv pl" "BufferList_concatenate pl = BufferList_concatenate (DG_payload d)"
    using bl'(2) same bl'(3) [rule_format, of "Buffer_of (BufferList_concatenate bl)" IPv4Datagram_new] by auto
  show thesis
  proof (rule that)
    show "arrived d \<lparr>DG_header = (DG_header d)\<lparr>IP_cksum := IPv4Header_checksum (DG_header d)\<rparr>, DG_payload = pl\<rparr>"
      using pl(2,3) by (simp add: arrived_def)
  qed (use bl'(2) same pl(1) in \<open>simp_all add: AsyncNetworkInterface_recv_frame_def recv_frame_def on_cable_def ip_frame_def
      TYPE_ARP_def TYPE_IPv4_def\<close>)
qed

lemma cable_other:
  assumes "dst \<noteq> ETHERNET_BROADCAST" and "dst \<noteq> eth a"
  shows "AsyncNetworkInterface_recv_frame a (on_cable (arp_frame s dst m)) = Inr a"
    and "AsyncNetworkInterface_recv_frame a (on_cable (ip_frame s dst bl)) = Inr a"
  using assms by (simp_all add: AsyncNetworkInterface_recv_frame_def recv_frame_def on_cable_def arp_frame_def ip_frame_def)

lemma short_frames:
  "ARPMessage_ok m \<Longrightarrow> short_frame (arp_frame s dst m)"
  "length (BufferList_concatenate bl) < 65536 \<Longrightarrow> short_frame (ip_frame s dst bl)"
  by (simp_all add: short_frame_def arp_frame_def ip_frame_def ARPMessage_bytes_def ARPMessage_ok_def address_ok_def)

section \<open>Crossing a cable\<close>

text \<open>An interface with nothing to do, and what it knows about a neighbour.\<close>

definition quiet_at :: "u32 \<Rightarrow> AsyncNetworkInterface \<Rightarrow> bool" where
  "quiet_at ip a \<longleftrightarrow> NI_inv ip (AI_base a) \<and> frames_out a = [] \<and> NI_not_sent (AI_base a) = Map.empty \<and> AI_datagrams_out a = []"

definition knows :: "AsyncNetworkInterface \<Rightarrow> u32 \<Rightarrow> EthernetAddress \<Rightarrow> bool" where
  "knows a k e \<longleftrightarrow> (case NI_ip2eth (AI_base a) k of None \<Rightarrow> True | Some (e', t) \<Rightarrow> e' = e)"

lemma quiet_not_mapped: "quiet_at ip a \<Longrightarrow> NI_not_mapped (AI_base a) = Map.empty"
  unfolding quiet_at_def NI_inv_def by (metis dom_empty dom_eq_empty_conv)

text \<open>One exchange of frames, in either order of the two sides.\<close>

definition cable :: "netdb \<Rightarrow> AsyncNetworkInterface \<Rightarrow> AsyncNetworkInterface \<Rightarrow> AsyncNetworkInterface \<Rightarrow> AsyncNetworkInterface \<Rightarrow> bool" where
  "cable db x y x' y' \<longleftrightarrow> exchange_frames db x y = Inr (x', y') \<and> exchange_frames db y x = Inr (y', x')"

lemma cableI:
  assumes "list_all short_frame (frames_out x)" and "list_all short_frame (frames_out y)"
    and "receive_frames (map on_cable (frames_out y)) x = Inr x'" and "receive_frames (map on_cable (frames_out x)) y = Inr y'"
    and "frames_out x' = frames_out x @ nx" and "frames_out y' = frames_out y @ ny"
  shows "cable db x y (drop_frames (length (frames_out x)) x') (drop_frames (length (frames_out y)) y')"
  using assms by (simp add: cable_def exchange_frames_def Let_def deliver_receives clear_frames_eq)

text \<open>Several exchanges, with no datagram received before the last.\<close>

fun cables :: "netdb \<Rightarrow> nat \<Rightarrow> AsyncNetworkInterface \<Rightarrow> AsyncNetworkInterface \<Rightarrow> AsyncNetworkInterface \<Rightarrow> AsyncNetworkInterface \<Rightarrow> bool" where
  "cables db 0 x y x' y' \<longleftrightarrow> x' = x \<and> y' = y" |
  "cables db (Suc n) x y x' y' \<longleftrightarrow> AI_datagrams_out x = [] \<and> AI_datagrams_out y = []
     \<and> (\<exists>a b. cable db x y a b \<and> cables db n a b x' y')"

lemma cables_three:
  assumes "cable db x y a b" "cable db a b a' b'" "cable db a' b' x' y'"
    and "list_all (\<lambda>i. AI_datagrams_out i = []) [x, y, a, b, a', b']"
  shows "cables db 3 x y x' y'"
proof -
  have "cables db 1 a' b' x' y'" using assms by auto
  then have "cables db (Suc 1) a b x' y'" unfolding cables.simps(2) using assms by auto
  then have "cables db (Suc (Suc 1)) x y x' y'" unfolding cables.simps(2) [of _ "Suc 1"] using assms by auto
  then show ?thesis by (simp add: eval_nat_numeral)
qed

lemma cable_sym: "cable db x y x' y' \<longleftrightarrow> cable db y x y' x'"
  by (auto simp: cable_def)

lemma cables_sym: "cables db n x y x' y' \<longleftrightarrow> cables db n y x y' x'"
proof (induction n arbitrary: x y)
  case (Suc n)
  then show ?case using cable_sym by (metis cables.simps(2))
qed auto

text \<open>The last step: the sender has the frame with the datagram ready.\<close>

lemma cross_known:
  assumes x: "quiet_at ipx x" and y: "quiet_at ipy y" and d: "dgram_ok d" "IPv4Datagram_serialize d = Inr bl"
  obtains d' where "arrived d d'"
    "cable db (x\<lparr>AI_base := (AI_base x)\<lparr>NI_frames_out := [ip_frame (AI_base x) (eth y) bl]\<rparr>\<rparr>) y x (y\<lparr>AI_datagrams_out := [d']\<rparr>)"
proof -
  obtain d' where d': "arrived d d'" "length (BufferList_concatenate bl) < 65536"
    "\<forall>a s. AsyncNetworkInterface_recv_frame a (on_cable (ip_frame s (eth a) bl)) = Inr (a\<lparr>AI_datagrams_out := AI_datagrams_out a @ [d']\<rparr>)"
    by (rule cable_ip [OF d])
  let ?x = "x\<lparr>AI_base := (AI_base x)\<lparr>NI_frames_out := [ip_frame (AI_base x) (eth y) bl]\<rparr>\<rparr>"
  have q: "frames_out x = []" "frames_out y = []" "AI_datagrams_out y = []" using x y by (simp_all add: quiet_at_def)
  have "cable db ?x y (drop_frames (length (frames_out ?x)) ?x) (drop_frames (length (frames_out y)) (y\<lparr>AI_datagrams_out := [d']\<rparr>))"
    by (rule cableI [where nx = "[]" and ny = "[]"]) (simp_all add: q d'(3) [rule_format] short_frames(2) [OF d'(2)])
  moreover have "drop_frames (length (frames_out ?x)) ?x = x" "drop_frames (length (frames_out y)) (y\<lparr>AI_datagrams_out := [d']\<rparr>) = y\<lparr>AI_datagrams_out := [d']\<rparr>"
    using q by (simp_all add: drop_frames_def)
  ultimately show thesis using that d'(1) by simp
qed

text \<open>An interface that has learned the address of its neighbour and has nothing else to do.\<close>

definition taught :: "u32 \<Rightarrow> EthernetAddress \<Rightarrow> AsyncNetworkInterface \<Rightarrow> AsyncNetworkInterface" where
  "taught k e a = a\<lparr>AI_base := (AI_base a)\<lparr>NI_ip2eth := (NI_ip2eth (AI_base a))(k := Some (e, NI_time_passed (AI_base a)))\<rparr>\<rparr>"

lemma taught_quiet:
  assumes "quiet_at ip a" and "address_ok e"
  shows "quiet_at ip (taught k e a)" "eth (taught k e a) = eth a" "knows (taught k e a) k e"
  using assms by (auto simp: quiet_at_def taught_def knows_def NI_inv_def)

definition with_frames :: "EthernetFrame list \<Rightarrow> AsyncNetworkInterface \<Rightarrow> AsyncNetworkInterface" where
  "with_frames fs a = a\<lparr>AI_base := (AI_base a)\<lparr>NI_frames_out := fs\<rparr>\<rparr>"

definition asking :: "u32 \<Rightarrow> BufferList \<Rightarrow> AsyncNetworkInterface \<Rightarrow> AsyncNetworkInterface" where
  "asking k bl a = a\<lparr>AI_base := (AI_base a)\<lparr>NI_not_mapped := [k \<mapsto> NI_time_passed (AI_base a)], NI_not_sent := [k \<mapsto> [bl]]\<rparr>\<rparr>"

lemma with_frames_simps [simp]:
  "frames_out (with_frames fs a) = fs" "eth (with_frames fs a) = eth a" "AI_datagrams_out (with_frames fs a) = AI_datagrams_out a"
  "drop_frames n (with_frames fs a) = with_frames (drop n fs) a" "with_frames gs (with_frames fs a) = with_frames gs a"
  "NI_inv ip (AI_base (with_frames fs a)) = NI_inv ip (AI_base a)"
  by (simp_all add: with_frames_def drop_frames_def)

lemma asking_simps [simp]:
  "frames_out (asking k bl a) = frames_out a" "eth (asking k bl a) = eth a" "AI_datagrams_out (asking k bl a) = AI_datagrams_out a"
  by (simp_all add: asking_def)

lemma asking_inv:
  assumes "quiet_at ip a" and "NI_ip2eth (AI_base a) k = None"
  shows "NI_inv ip (AI_base (asking k bl a))"
  using NI_inv_wait [of ip "AI_base a" k "[bl]" "NI_time_passed (AI_base a)"] assms quiet_not_mapped [OF assms(1)]
  by (simp add: quiet_at_def asking_def)

text \<open>The three messages: the question, the answer, and the datagram.\<close>

lemma hear_request:
  assumes y: "quiet_at ipy y" and x: "address_ok (eth x)"
  shows "AsyncNetworkInterface_recv_frame y (on_cable (arp_frame (AI_base x) ETHERNET_BROADCAST (request_msg (AI_base x) ipx target))) =
    Inr (with_frames (if target = ipy then [arp_frame (AI_base y) (eth x) (reply_msg (AI_base y) ipy ipx (eth x))] else []) (taught ipx (eth x) y))"
proof -
  have "arp_learn ipy (AI_base y) (request_msg (AI_base x) ipx target) = AI_base (with_frames (if target = ipy
      then [arp_frame (AI_base y) (eth x) (reply_msg (AI_base y) ipy ipx (eth x))] else []) (taught ipx (eth x) y))"
    using y quiet_not_mapped [OF y]
    by (intro NetworkInterface.equality) (simp_all add: arp_learn_def Let_def request_msg_def queue_def quiet_at_def with_frames_def taught_def)
  then show ?thesis
    using cable_arp [of ipy y "request_msg (AI_base x) ipx target" ETHERNET_BROADCAST "AI_base x"] y x
    by (simp add: quiet_at_def arp_messages_ok) (simp add: with_frames_def taught_def)
qed

lemma hear_reply:
  assumes x: "quiet_at ipx x" and k: "NI_ip2eth (AI_base x) ipy = None" and y: "address_ok (eth y)"
  shows "AsyncNetworkInterface_recv_frame (asking ipy bl x) (on_cable (arp_frame (AI_base y) (eth x) (reply_msg (AI_base y) ipy ipx (eth x)))) =
    Inr (with_frames [ip_frame (AI_base x) (eth y) bl] (taught ipy (eth y) x))"
proof -
  let ?m = "reply_msg (AI_base y) ipy ipx (eth x)"
  have "arp_learn ipx (AI_base (asking ipy bl x)) ?m = AI_base (with_frames [ip_frame (AI_base x) (eth y) bl] (taught ipy (eth y) x))"
    using x quiet_not_mapped [OF x]
    by (intro NetworkInterface.equality)
      (simp_all add: arp_learn_def Let_def reply_msg_def queue_def quiet_at_def with_frames_def taught_def asking_def
        OPCODE_REPLY_def OPCODE_REQUEST_def ip_frame_def)
  moreover have "ARPMessage_ok ?m" using x y by (intro arp_messages_ok(2)) (simp_all add: quiet_at_def NI_inv_def)
  ultimately show ?thesis
    using cable_arp [OF asking_inv [OF x k, of bl], of ?m "eth x" "AI_base y"]
    by (simp, simp add: with_frames_def taught_def asking_def)
qed

text \<open>What an interface does with a datagram for a neighbour: send it, or ask first.\<close>

lemma send_asks:
  assumes x: "quiet_at ipx x" and k: "NI_ip2eth (AI_base x) ipy = None" and hop: "Address_ipv4_numeric hop = Inr ipy" and d: "IPv4Datagram_serialize d = Inr bl"
  obtains xb where "x\<lparr>AI_base := xb\<rparr> = with_frames [arp_frame (AI_base x) ETHERNET_BROADCAST (request_msg (AI_base x) ipx ipy)] (asking ipy bl x)"
    "send_datagram (AI_base x) d hop = Inr xb"
proof -
  have inv: "NI_inv ipx (AI_base x)" using x by (simp add: quiet_at_def)
  show thesis
    using k quiet_not_mapped [OF x] x
    by (intro that [OF _ send_datagram_unknown [OF inv hop k d]]) (simp_all add: request_due_def queue_def quiet_at_def with_frames_def asking_def)
qed

lemma send_or_ask:
  assumes x: "quiet_at ipx x" and k: "knows x ipy e" and hop: "Address_ipv4_numeric hop = Inr ipy" and d: "IPv4Datagram_serialize d = Inr bl"
  obtains (send) xb where "x\<lparr>AI_base := xb\<rparr> = with_frames [ip_frame (AI_base x) e bl] x" "send_datagram (AI_base x) d hop = Inr xb"
    | (ask) xb where "x\<lparr>AI_base := xb\<rparr> = with_frames [arp_frame (AI_base x) ETHERNET_BROADCAST (request_msg (AI_base x) ipx ipy)] (asking ipy bl x)"
      "send_datagram (AI_base x) d hop = Inr xb" "NI_ip2eth (AI_base x) ipy = None"
proof (cases "NI_ip2eth (AI_base x) ipy")
  case None
  then show thesis by (rule send_asks [OF x _ hop d]) (rule ask [OF _ _ None])
next
  case (Some v)
  then have "NI_ip2eth (AI_base x) ipy = Some (e, snd v)" using k by (cases v) (simp add: knows_def)
  then show thesis using x by (intro send [OF _ send_datagram_known [OF hop _ d]]) (simp_all add: quiet_at_def with_frames_def)
qed

lemma cable_request:
  assumes x: "quiet_at ipx x" and y: "quiet_at ipy y" and k: "NI_ip2eth (AI_base x) ipy = None"
  shows "cable db (with_frames [arp_frame (AI_base x) ETHERNET_BROADCAST (request_msg (AI_base x) ipx ipy)] (asking ipy bl x)) y (asking ipy bl x)
    (with_frames [arp_frame (AI_base y) (eth x) (reply_msg (AI_base y) ipy ipx (eth x))] (taught ipx (eth x) y))"
proof -
  let ?f = "arp_frame (AI_base x) ETHERNET_BROADCAST (request_msg (AI_base x) ipx ipy)" and ?x = "asking ipy bl x"
  let ?y = "with_frames [arp_frame (AI_base y) (eth x) (reply_msg (AI_base y) ipy ipx (eth x))] (taught ipx (eth x) y)"
  have q: "frames_out x = []" "frames_out y = []" "address_ok (eth x)" using x y by (simp_all add: quiet_at_def NI_inv_def)
  have "cable db (with_frames [?f] ?x) y (drop_frames (length (frames_out (with_frames [?f] ?x))) (with_frames [?f] ?x)) (drop_frames (length (frames_out y)) ?y)"
    by (rule cableI) (simp_all add: q hear_request [OF y q(3)] short_frames(1) arp_messages_ok)
  moreover have "with_frames [] ?x = ?x" using q(1) by (simp add: with_frames_def asking_def)
  ultimately show ?thesis using q by simp
qed

lemma cable_reply:
  assumes x: "quiet_at ipx x" and y: "quiet_at ipy y" and k: "NI_ip2eth (AI_base x) ipy = None" and e: "address_ok (eth x)"
  shows "cable db (asking ipy bl x) (with_frames [arp_frame (AI_base y) (eth x) (reply_msg (AI_base y) ipy ipx (eth x))] y)
    (with_frames [ip_frame (AI_base x) (eth y) bl] (taught ipy (eth y) x)) y"
proof -
  let ?f = "arp_frame (AI_base y) (eth x) (reply_msg (AI_base y) ipy ipx (eth x))" and ?x = "asking ipy bl x"
  let ?x' = "with_frames [ip_frame (AI_base x) (eth y) bl] (taught ipy (eth y) x)"
  have q: "frames_out x = []" "frames_out y = []" "address_ok (eth y)" using x y by (simp_all add: quiet_at_def NI_inv_def)
  have "cable db ?x (with_frames [?f] y) (drop_frames (length (frames_out ?x)) ?x') (drop_frames (length (frames_out (with_frames [?f] y))) (with_frames [?f] y))"
    by (rule cableI) (simp_all add: q e hear_reply [OF x k q(3)] short_frames(1) arp_messages_ok)
  moreover have "with_frames [] y = y" using q(2) by (simp add: with_frames_def)
  ultimately show ?thesis using q by simp
qed

lemma cross:
  assumes x: "quiet_at ipx x" and y: "quiet_at ipy y" and k: "knows x ipy (eth y)" "knows y ipx (eth x)"
    and d: "dgram_ok d" and hop: "Address_ipv4_numeric hop = Inr ipy"
  obtains xb n x' y' d' where "send_datagram (AI_base x) d hop = Inr xb" "0 < n" "n \<le> 3" "arrived d d'"
    "cables db n (x\<lparr>AI_base := xb\<rparr>) y x' (y'\<lparr>AI_datagrams_out := [d']\<rparr>)"
    "quiet_at ipx x'" "quiet_at ipy y'" "eth x' = eth x" "eth y' = eth y" "knows x' ipy (eth y)" "knows y' ipx (eth x)"
proof -
  obtain bl where bl: "IPv4Datagram_serialize d = Inr bl" using wire_bytes_ok(1) [OF d] by (auto simp: serializes_def)
  have a: "address_ok (eth x)" "address_ok (eth y)" "AI_datagrams_out x = []" "AI_datagrams_out y = []"
    using x y by (simp_all add: quiet_at_def NI_inv_def)
  from x k(1) hop bl show thesis
  proof (cases rule: send_or_ask)
    case (send xb)
    obtain d' where d': "arrived d d'" "cable db (x\<lparr>AI_base := xb\<rparr>) y x (y\<lparr>AI_datagrams_out := [d']\<rparr>)"
      using cross_known [OF x y d bl, of db] send(1) by (auto simp: with_frames_def)
    show thesis by (rule that [of xb 1 d' x y]) (use send d' x y k a in auto)
  next
    case (ask xb)
    let ?x = "taught ipy (eth y) x" and ?y = "taught ipx (eth x) y"
    note tx = taught_quiet [OF x a(2), of ipy] and ty = taught_quiet [OF y a(1), of ipx]
    obtain d' where d': "arrived d d'" "cable db (with_frames [ip_frame (AI_base x) (eth y) bl] ?x) ?y ?x (?y\<lparr>AI_datagrams_out := [d']\<rparr>)"
      using cross_known [OF tx(1) ty(1) d bl, of db] ty(2) by (auto simp: with_frames_def ip_frame_def tx(2))
    have r: "cable db (asking ipy bl x) (with_frames [arp_frame (AI_base y) (eth x) (reply_msg (AI_base y) ipy ipx (eth x))] ?y)
        (with_frames [ip_frame (AI_base x) (eth y) bl] ?x) ?y"
      using cable_reply [OF x ty(1) ask(3) a(1)] by (simp add: ty(2) arp_frame_def reply_msg_def)
    have t: "AI_datagrams_out ?x = []" "AI_datagrams_out ?y = []" using a by (simp_all add: taught_def)
    have "cables db 3 (x\<lparr>AI_base := xb\<rparr>) y ?x (?y\<lparr>AI_datagrams_out := [d']\<rparr>)"
      using a t by (intro cables_three [OF _ r d'(2)]) (simp_all add: ask(1) cable_request [OF x y ask(3)])
    then show thesis by (intro that [of xb 3 d' ?x ?y]) (use ask d' tx ty in auto)
  qed
qed

end
