(* ===== verification/Simulator_Run.thy ===== *)
theory Simulator_Run
  imports Simulator_Cables
begin

text \<open>
  The run of the simulator of \<open>Network_Simulator\<close>: the state of its network between two tests, what one
  round does to it, and that every test succeeds, whatever the random numbers are and whatever the interfaces
  have learned before.
\<close>

section \<open>The network by its ports\<close>

text \<open>Port \<open>p\<close> is the interface \<open>p\<close> of the router; the host at the port has the same number. The
  cable of port 4 has a second host, with number 7; nothing is plugged in at the ports 2 and 6.\<close>

definition ports :: "nat set" where
  "ports = {0, 1, 3, 5}"

definition port_name :: "nat \<Rightarrow> string" where
  "port_name p =
     (if p = 0 then ''default_router'' else if p = 1 then ''applesauce'' else if p = 3 then ''cherrypie''
      else if p = 5 then ''hs_router'' else if p = 4 then ''dm42'' else ''dm43'')"

definition net :: "Route_Information list \<Rightarrow> (nat \<Rightarrow> AsyncNetworkInterface) \<Rightarrow> (nat \<Rightarrow> Host) \<Rightarrow> Network" where
  "net T X Y =
     \<lparr>NW_router = \<lparr>RT_interfaces = map X [0..<7], RT_routing_table = T\<rparr>, default_id = 0, eth0_id = 1, eth1_id = 2, eth2_id = 3,
      uun3_id = 4, hs4_id = 5, mit5_id = 6, NW_hosts = map (\<lambda>p. (port_name p, Y p)) [1, 0, 3, 5, 4, 7]\<rparr>"

abbreviation at_host :: "(nat \<Rightarrow> Host) \<Rightarrow> nat \<Rightarrow> AsyncNetworkInterface" where
  "at_host Y p \<equiv> HO_interface (Y p)"

abbreviation plug :: "(nat \<Rightarrow> Host) \<Rightarrow> nat \<Rightarrow> AsyncNetworkInterface \<Rightarrow> nat \<Rightarrow> Host" where
  "plug Y p a \<equiv> Y(p := (Y p)\<lparr>HO_interface := a\<rparr>)"

definition named :: "(nat \<Rightarrow> Host) \<Rightarrow> bool" where
  "named Y \<longleftrightarrow> (\<forall>p \<in> {0, 1, 3, 4, 5, 7}. HO_name (Y p) = port_name p)"

lemma named_upd [simp]: "HO_name h = HO_name (Y p) \<Longrightarrow> named (Y(p := h)) = named Y"
  by (auto simp: named_def)

lemma same_interface [simp]: "h\<lparr>HO_interface := HO_interface h\<rparr> = h"
  by simp

lemma interface_net: "p < 7 \<Longrightarrow> Router_interface (NW_router (net T X Y)) (word_of_nat p) = Inr (X p)"
  by (simp add: Router_interface_def net_def unat_of_nat)

lemma host_net: "p \<in> {0, 1, 3, 4, 5, 7} \<Longrightarrow> named Y \<Longrightarrow> Network_host (net T X Y) (port_name p) = Inr (Y p)"
  by (auto simp: Network_host_def net_def named_def port_name_def)

lemma set_interface_net: "p < 7 \<Longrightarrow> set_interface (net T X Y) (word_of_nat p) x = net T (X(p := x)) Y"
  by (auto simp: set_interface_def net_def unat_of_nat nth_list_update intro!: nth_equalityI)

lemma set_host_net: "p \<in> {0, 1, 3, 4, 5, 7} \<Longrightarrow> set_host (net T X Y) (port_name p) h = net T X (Y(p := h))"
  by (auto simp: set_host_def net_def port_name_def)

lemma link_net:
  assumes "p \<in> ports" and "named Y" and "exchange_frames db (X p) (at_host Y p) = Inr (x, y)"
  shows "link db (word_of_nat p) (port_name p) (net T X Y) = Inr (net T (X(p := x)) (plug Y p y))"
proof -
  have p: "p \<in> {0, 1, 3, 4, 5, 7}" "p < 7" using assms(1) by (auto simp: ports_def)
  show ?thesis
    using assms(2,3) by (simp add: link_def interface_net [OF p(2)] host_net [OF p(1)] set_interface_net [OF p(2)] set_host_net [OF p(1)])
qed

lemma link3_net:
  assumes "named Y" and "exchange_frames3 db (X 4) (at_host Y 4) (at_host Y 7) = Inr (x, y, z)"
  shows "link3 db 4 ''dm42'' ''dm43'' (net T X Y) = Inr (net T (X(4 := x)) (plug (plug Y 4 y) 7 z))"
proof -
  have n: "(''dm42'') = port_name 4" "(''dm43'') = port_name 7" by (simp_all add: port_name_def)
  show ?thesis
    unfolding n link3_def using assms interface_net [of 4 T X Y] set_interface_net [of 4 T X Y]
    by (simp add: host_net set_host_net)
qed

lemma net_cong:
  "\<forall>p < 7. X p = X' p \<Longrightarrow> \<forall>p \<in> {0, 1, 3, 4, 5, 7}. Y p = Y' p \<Longrightarrow> net T X Y = net T X' Y'"
  by (simp add: net_def)

text \<open>Nothing is under way on a cable.\<close>

definition silent :: "(nat \<Rightarrow> AsyncNetworkInterface) \<Rightarrow> (nat \<Rightarrow> Host) \<Rightarrow> nat \<Rightarrow> bool" where
  "silent X Y p \<longleftrightarrow> (p = 7 \<or> frames_out (X p) = []) \<and> frames_out (at_host Y p) = []"

lemma links_net:
  assumes "named Y"
  shows "exchange_frames db (X 0) (at_host Y 0) = Inr (x, y) \<Longrightarrow> link db 0 ''default_router'' (net T X Y) = Inr (net T (X(0 := x)) (plug Y 0 y))"
    and "exchange_frames db (X 1) (at_host Y 1) = Inr (x, y) \<Longrightarrow> link db 1 ''applesauce'' (net T X Y) = Inr (net T (X(1 := x)) (plug Y 1 y))"
    and "exchange_frames db (X 3) (at_host Y 3) = Inr (x, y) \<Longrightarrow> link db 3 ''cherrypie'' (net T X Y) = Inr (net T (X(3 := x)) (plug Y 3 y))"
    and "exchange_frames db (X 5) (at_host Y 5) = Inr (x, y) \<Longrightarrow> link db 5 ''hs_router'' (net T X Y) = Inr (net T (X(5 := x)) (plug Y 5 y))"
  using link_net [OF _ assms, of 0 db X x y T] link_net [OF _ assms, of 1 db X x y T] link_net [OF _ assms, of 3 db X x y T]
    link_net [OF _ assms, of 5 db X x y T]
  by (simp_all add: ports_def port_name_def)

lemma physical_chain:
  assumes "named Y" and "\<forall>p \<in> ports. exchange_frames db (X p) (at_host Y p) = Inr (x p, y p)"
    and "exchange_frames3 db (X 4) (at_host Y 4) (at_host Y 7) = Inr (x 4, y 4, y 7)"
  shows "simulate_physical_connections db (net T X Y) =
    Inr (net T (X(0 := x 0, 1 := x 1, 3 := x 3, 5 := x 5, 4 := x 4)) (plug (plug (plug (plug (plug (plug Y 0 (y 0)) 1 (y 1)) 3 (y 3)) 5 (y 5)) 4 (y 4)) 7 (y 7)))"
proof -
  have ids: "default_id (net T X Y) = 0" "eth0_id (net T X Y) = 1" "eth2_id (net T X Y) = 3"
    "hs4_id (net T X Y) = 5" "uun3_id (net T X Y) = 4" for X Y by (simp_all add: net_def)
  have "0 \<in> ports" "1 \<in> ports" "3 \<in> ports" "5 \<in> ports" by (simp_all add: ports_def)
  note e = assms(2) [rule_format, OF this(1)] assms(2) [rule_format, OF this(2)] assms(2) [rule_format, OF this(3)] assms(2) [rule_format, OF this(4)]
  show ?thesis
    unfolding simulate_physical_connections_def using assms(1,3) e by (simp add: ids links_net link3_net del: One_nat_def)
qed

lemma physical_one:
  assumes "named Y" and p: "p \<in> ports" and "exchange_frames db (X p) (at_host Y p) = Inr (x, y)"
    and rest: "\<forall>q \<in> {0, 1, 3, 4, 5, 7}. q \<noteq> p \<longrightarrow> silent X Y q"
  shows "simulate_physical_connections db (net T X Y) = Inr (net T (X(p := x)) (plug Y p y))"
proof -
  have e: "\<forall>q \<in> ports. exchange_frames db (X q) (at_host Y q) = Inr ((X(p := x)) q, at_host (plug Y p y) q)"
  proof
    fix q assume q: "q \<in> ports"
    show "exchange_frames db (X q) (at_host Y q) = Inr ((X(p := x)) q, at_host (plug Y p y) q)"
    proof (cases "q = p")
      case False
      then have "silent X Y q" using rest q by (auto simp: ports_def)
      then show ?thesis using False q by (auto simp: silent_def exchange_idle ports_def)
    qed (simp add: assms(3))
  qed
  have e3: "exchange_frames3 db (X 4) (at_host Y 4) (at_host Y 7) = Inr ((X(p := x)) 4, at_host (plug Y p y) 4, at_host (plug Y p y) 7)"
    using rest p by (auto simp: ports_def silent_def exchange_idle3)
  show ?thesis unfolding physical_chain [OF assms(1) e e3, of T] using p by (auto simp: ports_def intro!: net_cong)
qed

lemma physical_three:
  assumes "named Y" and "exchange_frames3 db (X 4) (at_host Y 4) (at_host Y 7) = Inr (x, y, z)" and rest: "\<forall>q \<in> ports. silent X Y q"
  shows "simulate_physical_connections db (net T X Y) = Inr (net T (X(4 := x)) (plug (plug Y 4 y) 7 z))"
proof -
  let ?X = "X(4 := x)" and ?Y = "plug (plug Y 4 y) 7 z"
  have e: "\<forall>q \<in> ports. exchange_frames db (X q) (at_host Y q) = Inr (?X q, at_host ?Y q)"
    using rest by (auto simp: ports_def silent_def exchange_idle)
  have e3: "exchange_frames3 db (X 4) (at_host Y 4) (at_host Y 7) = Inr (?X 4, at_host ?Y 4, at_host ?Y 7)" using assms(2) by simp
  show ?thesis unfolding physical_chain [OF assms(1) e e3, of T] by (auto intro!: net_cong)
qed

section \<open>The router in the network\<close>

definition router_of :: "Route_Information list \<Rightarrow> (nat \<Rightarrow> AsyncNetworkInterface) \<Rightarrow> Router" where
  "router_of T X = \<lparr>RT_interfaces = map X [0..<7], RT_routing_table = T\<rparr>"

lemma router_net [simp]: "NW_router (net T X Y) = router_of T X" "(net T X Y)\<lparr>NW_router := router_of T X'\<rparr> = net T X' Y"
  by (simp_all add: net_def router_of_def)

definition unread :: "(nat \<Rightarrow> AsyncNetworkInterface) \<Rightarrow> nat \<Rightarrow> bool" where
  "unread X p \<longleftrightarrow> AI_datagrams_out (X p) \<noteq> []"

lemma route_interfaces_append: "route_interfaces (is @ js) r = bindR (route_interfaces is r) (route_interfaces js)"
proof (induction "is" arbitrary: r)
  case (Cons i "is")
  then show ?case by (cases "route_queue i (AI_datagrams_out (RT_interfaces r ! i)) r") simp_all
qed simp

lemma route_interfaces_idle: "\<forall>p \<in> set is. p < 7 \<and> \<not> unread X p \<Longrightarrow> route_interfaces is (router_of T X) = Inr (router_of T X)"
  by (induction "is") (simp_all add: router_of_def unread_def)

lemma route_idle: "\<forall>p < 7. \<not> unread X p \<Longrightarrow> Router_route (router_of T X) = Inr (router_of T X)"
  using route_interfaces_idle [of "[0..<7]" X T] by (simp add: Router_route_def router_of_def)

abbreviation unqueued :: "AsyncNetworkInterface \<Rightarrow> AsyncNetworkInterface" where
  "unqueued a \<equiv> a\<lparr>AI_datagrams_out := []\<rparr>"

lemma route_single:
  assumes i: "i < 7" "AI_datagrams_out (X i) = [d]" and rest: "\<forall>p < 7. p \<noteq> i \<longrightarrow> \<not> unread X p"
    and one: "Router_route_one_datagram (router_of T X) d = Inr (router_of T X1)"
    and same: "\<forall>p < 7. AI_datagrams_out (X1 p) = AI_datagrams_out (X p)"
  shows "Router_route (router_of T X) = Inr (router_of T (X1(i := unqueued (X1 i))))"
proof -
  let ?X = "X1(i := unqueued (X1 i))"
  have "pop_datagram i (router_of T X1) = router_of T ?X"
    using i same by (auto simp: pop_datagram_def router_of_def nth_list_update intro!: nth_equalityI)
  then have q: "route_queue i (AI_datagrams_out (RT_interfaces (router_of T X) ! i)) (router_of T X) = Inr (router_of T ?X)"
    using i one by (simp add: router_of_def)
  have split: "[0..<7] = [0..<i] @ i # [Suc i..<7]" using i(1) upt_add_eq_append [of 0 i "7 - i"] upt_conv_Cons [of i 7] by simp
  have "route_interfaces [0..<i] (router_of T X) = Inr (router_of T X)" using i rest by (intro route_interfaces_idle) auto
  moreover have "route_interfaces [Suc i..<7] (router_of T ?X) = Inr (router_of T ?X)"
    using i rest same by (intro route_interfaces_idle) (auto simp: unread_def)
  ultimately have "route_interfaces ([0..<i] @ i # [Suc i..<7]) (router_of T X) = Inr (router_of T ?X)"
    using q by (simp only: route_interfaces_append route_interfaces.simps bindR.simps)
  then show ?thesis unfolding Router_route_def split [symmetric] by (simp add: router_of_def)
qed

section \<open>Rounds\<close>

lemma rounds_add: "simulate_rounds (m + n) db w = bindR (simulate_rounds m db w) (simulate_rounds n db)"
proof (induction m arbitrary: w)
  case (Suc m)
  then show ?case by (cases "simulate_round db w") simp_all
qed simp

lemma round_idle_router:
  "\<forall>p < 7. \<not> unread X p \<Longrightarrow> simulate_round db (net T X Y) = simulate_physical_connections db (net T X Y)"
  by (simp add: simulate_round_def route_idle)

text \<open>The router has something to forward only at the start of the first round.\<close>

lemma rounds_routed:
  assumes "Router_route (router_of T X) = Inr (router_of T X')" and "\<forall>p < 7. \<not> unread X' p"
  shows "0 < n \<Longrightarrow> simulate_rounds n db (net T X Y) = simulate_rounds n db (net T X' Y)"
proof -
  have "simulate_round db (net T X Y) = simulate_round db (net T X' Y)"
    unfolding simulate_round_def by (simp add: assms(1) route_idle [OF assms(2)])
  then show "0 < n \<Longrightarrow> ?thesis" by (cases n) simp_all
qed

lemma rounds_idle:
  assumes "named Y" and "\<forall>p < 7. \<not> unread X p" and "\<forall>q \<in> {0, 1, 3, 4, 5, 7}. silent X Y q"
  shows "simulate_rounds n db (net T X Y) = Inr (net T X Y)"
proof (induction n)
  case (Suc n)
  have "simulate_physical_connections db (net T X Y) = Inr (net T (X(0 := X 0)) (plug Y 0 (at_host Y 0)))"
    using assms by (intro physical_one) (simp_all add: ports_def silent_def exchange_idle)
  then show ?case using Suc by (simp add: round_idle_router [OF assms(2)])
qed simp

lemma rounds_cable:
  assumes "named Y" and "p \<in> ports" and "cables db n (X p) (at_host Y p) x y" and "\<forall>q < 7. q \<noteq> p \<longrightarrow> \<not> unread X q"
    and "\<forall>q \<in> {0, 1, 3, 4, 5, 7}. q \<noteq> p \<longrightarrow> silent X Y q"
  shows "simulate_rounds n db (net T X Y) = Inr (net T (X(p := x)) (plug Y p y))"
  using assms
proof (induction n arbitrary: X Y)
  case (Suc n)
  obtain a b where ab: "cable db (X p) (at_host Y p) a b" "cables db n a b x y" "AI_datagrams_out (X p) = []"
    using Suc.prems(3) by auto
  have idle: "\<forall>q < 7. \<not> unread X q" using Suc.prems(4) ab(3) by (metis unread_def)
  have "simulate_round db (net T X Y) = Inr (net T (X(p := a)) (plug Y p b))"
    unfolding round_idle_router [OF idle]
    using Suc.prems ab(1) by (intro physical_one) (simp_all add: cable_def)
  moreover have nm: "named (plug Y p b)" using Suc.prems(1) by simp
  have "simulate_rounds n db (net T (X(p := a)) (plug Y p b)) = Inr (net T ((X(p := a))(p := x)) (plug (plug Y p b) p y))"
    using Suc.prems ab(2) by (intro Suc.IH [OF nm]) (simp_all add: unread_def silent_def)
  ultimately show ?case by (auto intro!: net_cong)
qed simp

end
