(* ===== verification/Simulator_Tests.thy ===== *)
theory Simulator_Tests
  imports Simulator_Run
begin

text \<open>
  The tests of the simulator of \<open>Network_Simulator\<close>: the network between two tests, the way of a
  datagram through it, and that all tests succeed.
\<close>

section \<open>The datagrams of the hosts\<close>

definition host_dgram :: "u32 \<Rightarrow> u32 \<Rightarrow> u32 \<Rightarrow> u8 \<Rightarrow> IPv4Datagram" where
  "host_dgram src dst n ttl =
     (let payload = BufferList_of_string (bytes_of (''random payload: {'' @ digits (unat n) @ ''}''))
      in \<lparr>DG_header = IPv4Header_new\<lparr>IP_src := src, IP_dst := dst, IP_len := 20 + ucast (BufferList_size payload), IP_ttl := ttl\<rparr>,
          DG_payload = payload\<rparr>)"

lemma digits_short: "n < 10 ^ Suc k \<Longrightarrow> length (digits n) \<le> Suc k"
proof (induction k arbitrary: n)
  case 0
  then show ?case by (subst digits.simps) simp
next
  case (Suc k)
  then have "n div 10 < 10 ^ Suc k" by (simp add: less_mult_imp_div_less)
  then show ?case using Suc.IH [of "n div 10"] by (subst digits.simps) simp
qed

lemma short_payload_ok:
  assumes "length s \<le> 28"
  shows "dgram_ok \<lparr>DG_header = IPv4Header_new\<lparr>IP_src := src, IP_dst := dst, IP_len := 20 + ucast (BufferList_size (BufferList_of_string s)), IP_ttl := ttl\<rparr>,
    DG_payload = BufferList_of_string s\<rparr>"
proof -
  let ?bl = "BufferList_of_string s"
  have whole: "BufferList_concatenate ?bl = s" using assms by (simp add: string_one_buffer)
  have "BL_buffers ?bl = [Buffer_of s]" by (simp add: string_one_buffer BufferList_of_Buffer_def)
  then have inv: "BufferList_inv ?bl" "BufferList_concatenate ?bl = s" using assms whole by (simp_all add: BufferList_inv_def)
  then have "unat (BufferList_size ?bl) = length s" using unat_BufferList_size [OF inv(1)] by simp
  then have "unat (20 + ucast (BufferList_size ?bl) :: u16) = 20 + length s"
    using assms by (simp add: unat_word_ariths unsigned_ucast_eq take_bit_eq_mod)
  then show ?thesis using inv
    by (simp add: dgram_ok_def IPv4Header_for_def IPv4Header_fields_ok_def IPv4Header_new_def IPv4Header_LENGTH_def)
qed

lemma host_dgram_ok [simp]: "dgram_ok (host_dgram src dst n ttl)"
proof -
  have "unat n < 2 ^ 32" by (rule order.strict_trans2 [OF unsigned_less]) simp
  then have "unat n < 10 ^ Suc 9" by (rule less_le_trans) simp
  then have "length (bytes_of (''random payload: {'' @ digits (unat n) @ ''}'')) \<le> 28"
    using digits_short [of "unat n" 9] by (simp add: bytes_of_def)
  then show ?thesis unfolding host_dgram_def Let_def by (rule short_payload_ok)
qed

section \<open>The network between two tests\<close>

definition hosts :: "nat set" where
  "hosts = {0, 1, 3, 4, 5, 7}"

definition router_ip :: "nat \<Rightarrow> u32" where
  "router_ip p = [0xab434c2e, 0x0a000001, 0xac100001, 0xc0a80001, 0xc6b2e501, 0x8fc30002, 0x801e4cff] ! p"

definition host_ip :: "nat \<Rightarrow> u32" where
  "host_ip p = [0xab434c01, 0x0a000002, 0, 0xc0a80002, 0xc6b2e52a, 0x8fc30001, 0, 0xc6b2e52b] ! p"

definition hop_ip :: "nat \<Rightarrow> u32" where
  "hop_ip p = [0, 0x0a000001, 0, 0xc0a80001, 0xc6b2e501, 0, 0, 0xc6b2e501] ! p"

definition route :: "u32 \<Rightarrow> u8 \<Rightarrow> Address option \<Rightarrow> u64 \<Rightarrow> Route_Information" where
  "route pfx len next_hop i = \<lparr>route_prefix = pfx, prefix_length = len, RI_next_hop = next_hop, RI_interface_num = i\<rparr>"

definition routes :: "Route_Information list" where
  "routes =
     [route 0 0 (Some (inet_address 0xab434c01 0)) 0, route 0x0a000000 8 None 1, route 0xac100000 16 None 2,
      route 0xc0a80000 24 None 3, route 0xc6b2e500 24 None 4, route 0x8fc30000 17 (Some (inet_address 0x8fc30001 0)) 5,
      route 0x8fc38000 18 (Some (inet_address 0x8fc30001 0)) 5, route 0x8fc3c000 19 (Some (inet_address 0x8fc30001 0)) 5,
      route 0x801e4cff 16 (Some (inet_address 0x801e0001 0)) 6]"

definition host_ready :: "nat \<Rightarrow> Host \<Rightarrow> bool" where
  "host_ready p h \<longleftrightarrow> HO_name h = port_name p \<and> HO_my_address h = inet_address (host_ip p) 0
     \<and> HO_next_hop h = inet_address (hop_ip p) 0 \<and> quiet_at (host_ip p) (HO_interface h)"

definition calm :: "(nat \<Rightarrow> AsyncNetworkInterface) \<Rightarrow> (nat \<Rightarrow> Host) \<Rightarrow> bool" where
  "calm X Y \<longleftrightarrow> (\<forall>p < 7. quiet_at (router_ip p) (X p)) \<and> (\<forall>p \<in> hosts. host_ready p (Y p))
     \<and> (\<forall>p \<in> ports. knows (X p) (host_ip p) (eth (at_host Y p)) \<and> knows (at_host Y p) (router_ip p) (eth (X p)))"

lemma calm_named: "calm X Y \<Longrightarrow> named Y"
  by (simp add: calm_def named_def hosts_def host_ready_def)

lemma calm_idle: "calm X Y \<Longrightarrow> \<forall>p < 7. \<not> unread X p" "calm X Y \<Longrightarrow> \<forall>p \<in> {0, 1, 3, 4, 5, 7}. silent X Y p"
  by (auto simp: calm_def unread_def silent_def quiet_at_def hosts_def host_ready_def)

text \<open>What the two ends of a cable do keeps the network calm.\<close>

definition settled :: "nat \<Rightarrow> (nat \<Rightarrow> AsyncNetworkInterface) \<Rightarrow> (nat \<Rightarrow> Host) \<Rightarrow> AsyncNetworkInterface \<Rightarrow> AsyncNetworkInterface \<Rightarrow> bool" where
  "settled p X Y x y \<longleftrightarrow> quiet_at (router_ip p) x \<and> quiet_at (host_ip p) y \<and> eth x = eth (X p) \<and> eth y = eth (at_host Y p)
     \<and> knows x (host_ip p) (eth (at_host Y p)) \<and> knows y (router_ip p) (eth (X p))"

lemma calm_settled:
  assumes "calm X Y" and "p \<in> ports" and "settled p X Y x y"
  shows "calm (X(p := x)) (plug Y p y)"
  using assms unfolding calm_def settled_def by (auto simp: ports_def hosts_def host_ready_def)

section \<open>The way of a datagram\<close>

text \<open>The router sends the datagrams for a destination to the host at a port.\<close>

definition routed_to :: "u32 \<Rightarrow> nat \<Rightarrow> bool" where
  "routed_to dst q \<longleftrightarrow> (\<exists>ch. route_scan dst routes no_choice = Inr ch \<and> is_matched ch \<and> CH_interface_num ch = word_of_nat q
     \<and> (CH_next_hop ch = None \<and> dst = host_ip q \<or> CH_next_hop ch = Some (inet_address (host_ip q) 0)))"

lemma route_one:
  assumes "routed_to (IP_dst (DG_header d)) q" and "q < 7" and ttl: "\<not> IP_ttl (DG_header d) \<le> 1"
  obtains hop where "Address_ipv4_numeric hop = Inr (host_ip q)"
    "\<forall>X xb. send_datagram (AI_base (X q)) (forwarded d) hop = Inr xb \<longrightarrow>
       Router_route_one_datagram (router_of routes X) d = Inr (router_of routes (X(q := (X q)\<lparr>AI_base := xb\<rparr>)))"
proof -
  let ?dst = "IP_dst (DG_header d)"
  obtain ch where ch: "route_scan ?dst routes no_choice = Inr ch" "is_matched ch" "CH_interface_num ch = word_of_nat q"
    "CH_next_hop ch = None \<and> ?dst = host_ip q \<or> CH_next_hop ch = Some (inet_address (host_ip q) 0)"
    using assms(1) by (auto simp: routed_to_def)
  let ?hop = "case CH_next_hop ch of None \<Rightarrow> ipv4_address ?dst | Some a \<Rightarrow> a"
  have hop: "(case CH_next_hop ch of Some a \<Rightarrow> Inr a | None \<Rightarrow> Address_from_ipv4_numeric ?dst) = (Inr ?hop :: Address result)"
    "Address_ipv4_numeric ?hop = Inr (host_ip q)" using ch(4) by (auto simp: from_ipv4_numeric)
  have at: "Router_interface (router_of routes X) (word_of_nat q) = Inr (X q)" "unat (word_of_nat q :: u64) = q" for X
    using assms(2) by (simp_all add: Router_interface_def router_of_def unat_of_nat)
  have upd: "(router_of routes X)\<lparr>RT_interfaces := (RT_interfaces (router_of routes X))[q := a]\<rparr> = router_of routes (X(q := a))" for X a
    using assms(2) by (auto simp: router_of_def nth_list_update intro!: nth_equalityI)
  have dst: "IP_dst (DG_header (forwarded d)) = ?dst" and tab: "RT_routing_table (router_of routes X) = routes" for X
    by (simp_all add: forwarded_def router_of_def)
  show thesis
  proof (rule that [OF hop(2)], intro allI impI)
    fix X :: "nat \<Rightarrow> AsyncNetworkInterface" and xb assume "send_datagram (AI_base (X q)) (forwarded d) ?hop = Inr xb"
    then show "Router_route_one_datagram (router_of routes X) d = Inr (router_of routes (X(q := (X q)\<lparr>AI_base := xb\<rparr>)))"
      unfolding Router_route_one_datagram_def if_not_P [OF ttl] Let_def forwarded_def [symmetric] dst tab
      by (simp add: ch hop(1) at upd del: fun_upd_apply)
  qed
qed

abbreviation holding :: "AsyncNetworkInterface \<Rightarrow> IPv4Datagram \<Rightarrow> AsyncNetworkInterface" where
  "holding a d \<equiv> a\<lparr>AI_datagrams_out := [d]\<rparr>"

text \<open>From a host to the router.\<close>

lemma way_up:
  assumes calm: "calm X Y" and p: "p \<in> ports" "hop_ip p = router_ip p" and d: "dgram_ok d"
  obtains yb n x y d' where "send_datagram (AI_base (at_host Y p)) d (inet_address (hop_ip p) 0) = Inr yb" "n \<le> 3" "arrived d d'"
    "settled p X Y x y"
    "simulate_rounds n db (net routes X (plug Y p ((at_host Y p)\<lparr>AI_base := yb\<rparr>))) = Inr (net routes (X(p := holding x d')) (plug Y p y))"
proof -
  let ?y = "at_host Y p"
  have in7: "p < 7" "p \<in> hosts" using p(1) by (auto simp: ports_def hosts_def)
  have q: "quiet_at (host_ip p) ?y" "quiet_at (router_ip p) (X p)" "knows ?y (router_ip p) (eth (X p))" "knows (X p) (host_ip p) (eth ?y)"
    using calm in7 p(1) by (auto simp: calm_def host_ready_def)
  have hop: "Address_ipv4_numeric (inet_address (hop_ip p) 0) = Inr (router_ip p)" using p(2) by simp
  obtain yb n y x d' where c: "send_datagram (AI_base ?y) d (inet_address (hop_ip p) 0) = Inr yb" "0 < n" "n \<le> 3" "arrived d d'"
    "cables db n (?y\<lparr>AI_base := yb\<rparr>) (X p) y (holding x d')"
    "quiet_at (host_ip p) y" "quiet_at (router_ip p) x" "eth y = eth ?y" "eth x = eth (X p)" "knows y (router_ip p) (eth (X p))" "knows x (host_ip p) (eth ?y)"
    by (rule cross [OF q d hop])
  let ?Y = "plug Y p (?y\<lparr>AI_base := yb\<rparr>)"
  have rest: "\<forall>r \<in> {0, 1, 3, 4, 5, 7}. r \<noteq> p \<longrightarrow> silent X ?Y r" using calm_idle(2) [OF calm] by (auto simp: silent_def)
  have nm: "named ?Y" using calm_named [OF calm] by simp
  have "cables db n (X p) (at_host ?Y p) (holding x d') y" using c(5) by (subst cables_sym) simp
  then have "simulate_rounds n db (net routes X ?Y) = Inr (net routes (X(p := holding x d')) (plug ?Y p y))"
    using calm_idle(1) [OF calm] by (intro rounds_cable [OF nm p(1) _ _ rest]) auto
  then show thesis using c by (intro that [of yb n d' x y]) (simp_all add: settled_def)
qed

text \<open>From the router to a host, when the datagram is in the queue of another interface of the router.\<close>

lemma way_down:
  assumes calm: "calm X Y" and q: "q \<in> ports" "q \<noteq> p" "p < 7" and d: "dgram_ok d" "routed_to (IP_dst (DG_header d)) q" "\<not> IP_ttl (DG_header d) \<le> 1"
  obtains n x y d' where "n \<le> 3" "arrived (forwarded d) d'" "settled q X Y x y"
    "simulate_rounds n db (net routes (X(p := holding (X p) d)) Y) = Inr (net routes (X(q := x)) (plug Y q (holding y d')))"
proof -
  let ?y = "at_host Y q"
  have in7: "q < 7" "q \<in> hosts" using q(1) by (auto simp: ports_def hosts_def)
  have k: "quiet_at (router_ip q) (X q)" "quiet_at (host_ip q) ?y" "knows (X q) (host_ip q) (eth ?y)" "knows ?y (router_ip q) (eth (X q))"
    using calm in7 q(1) by (auto simp: calm_def host_ready_def)
  obtain hop where hop: "Address_ipv4_numeric hop = Inr (host_ip q)"
    "\<forall>X xb. send_datagram (AI_base (X q)) (forwarded d) hop = Inr xb \<longrightarrow>
       Router_route_one_datagram (router_of routes X) d = Inr (router_of routes (X(q := (X q)\<lparr>AI_base := xb\<rparr>)))"
    by (rule route_one [OF d(2) in7(1) d(3)])
  obtain xb n x y d' where c: "send_datagram (AI_base (X q)) (forwarded d) hop = Inr xb" "0 < n" "n \<le> 3" "arrived (forwarded d) d'"
    "cables db n ((X q)\<lparr>AI_base := xb\<rparr>) ?y x (holding y d')"
    "quiet_at (router_ip q) x" "quiet_at (host_ip q) y" "eth x = eth (X q)" "eth y = eth ?y" "knows x (host_ip q) (eth ?y)" "knows y (router_ip q) (eth (X q))"
    by (rule cross [OF k forwarded_ok [OF d(1)] hop(1)])
  let ?X = "X(p := holding (X p) d)" and ?X1 = "X(q := (X q)\<lparr>AI_base := xb\<rparr>)"
  have empty: "AI_datagrams_out (X r) = []" if "r < 7" for r using calm_idle(1) [OF calm] that by (simp add: unread_def)
  have "Router_route_one_datagram (router_of routes ?X) d = Inr (router_of routes (?X(q := (?X q)\<lparr>AI_base := xb\<rparr>)))"
    using hop(2) [rule_format, of ?X xb] c(1) q(2) by simp
  then have "Router_route (router_of routes ?X) = Inr (router_of routes ((?X(q := (?X q)\<lparr>AI_base := xb\<rparr>))(p := unqueued ((?X(q := (?X q)\<lparr>AI_base := xb\<rparr>)) p))))"
    using q empty by (intro route_single) (auto simp: unread_def)
  moreover have "(?X(q := (?X q)\<lparr>AI_base := xb\<rparr>))(p := unqueued ((?X(q := (?X q)\<lparr>AI_base := xb\<rparr>)) p)) = ?X1"
    using q(2) empty [OF q(3)] by (auto simp: fun_eq_iff)
  ultimately have route: "Router_route (router_of routes ?X) = Inr (router_of routes ?X1)" by simp
  have unread: "\<forall>r < 7. \<not> unread ?X1 r" using empty in7 by (auto simp: unread_def)
  have rest: "\<forall>r \<in> {0, 1, 3, 4, 5, 7}. r \<noteq> q \<longrightarrow> silent ?X1 Y r" using calm_idle(2) [OF calm] by (auto simp: silent_def)
  have "simulate_rounds n db (net routes ?X Y) = Inr (net routes (?X1(q := x)) (plug Y q (holding y d')))"
    unfolding rounds_routed [OF route unread c(2)]
    using c(5) unread by (intro rounds_cable [OF calm_named [OF calm] q(1) _ _ rest]) auto
  then show thesis using c by (intro that [of n d' x y]) (simp_all add: settled_def)
qed

text \<open>Only the interfaces of the hosts change, and only at two ports.\<close>

definition touched :: "nat set \<Rightarrow> (nat \<Rightarrow> AsyncNetworkInterface) \<Rightarrow> (nat \<Rightarrow> Host) \<Rightarrow> (nat \<Rightarrow> AsyncNetworkInterface) \<Rightarrow> (nat \<Rightarrow> Host) \<Rightarrow> bool" where
  "touched P X Y X' Y' \<longleftrightarrow> (\<forall>r. r \<notin> P \<longrightarrow> X' r = X r) \<and> (\<forall>r. \<exists>y. Y' r = (Y r)\<lparr>HO_interface := y\<rparr>) \<and> (\<forall>r. r \<notin> P \<longrightarrow> Y' r = Y r)"

lemma touched_at: "touched P X Y X' Y' \<Longrightarrow> p \<in> P \<Longrightarrow> touched P X Y (X'(p := x)) (plug Y' p y)"
proof -
  assume t: "touched P X Y X' Y'" and p: "p \<in> P"
  then obtain z where "Y' p = (Y p)\<lparr>HO_interface := z\<rparr>" unfolding touched_def by blast
  then have "(Y' p)\<lparr>HO_interface := y\<rparr> = (Y p)\<lparr>HO_interface := y\<rparr>" by simp
  then show ?thesis using t p unfolding touched_def by auto
qed

lemma touched_refl: "touched P X Y X Y"
  unfolding touched_def by (metis same_interface)

lemma rounds_then: "simulate_rounds m db w = Inr w' \<Longrightarrow> m \<le> n \<Longrightarrow> simulate_rounds n db w = simulate_rounds (n - m) db w'"
  using rounds_add [of m "n - m" db w] by simp

lemma rounds_done:
  assumes "calm X Y"
  shows "simulate_rounds m db (net routes X (plug Y q (holding (at_host Y q) d))) = Inr (net routes X (plug Y q (holding (at_host Y q) d)))"
  using calm_named [OF assms] calm_idle [OF assms] by (intro rounds_idle) (auto simp: silent_def)

lemma journey:
  assumes calm: "calm X Y" and p: "p \<in> ports" "hop_ip p = router_ip p" and q: "q \<in> ports" "q \<noteq> p"
    and d: "dgram_ok d" "routed_to (IP_dst (DG_header d)) q" "\<not> IP_ttl (DG_header d) \<le> 1"
  obtains yb X' Y' d' where "send_datagram (AI_base (at_host Y p)) d (inet_address (hop_ip p) 0) = Inr yb"
    "simulate_rounds 256 db (net routes X (plug Y p ((at_host Y p)\<lparr>AI_base := yb\<rparr>))) = Inr (net routes X' (plug Y' q (holding (at_host Y' q) d')))"
    "calm X' Y'" "touched {p, q} X Y X' Y'" "serializes d'" "wire_bytes d' = wire_bytes (forwarded d)"
proof -
  obtain yb n x y d1 where up: "send_datagram (AI_base (at_host Y p)) d (inet_address (hop_ip p) 0) = Inr yb" "n \<le> 3" "arrived d d1"
    "settled p X Y x y"
    "simulate_rounds n db (net routes X (plug Y p ((at_host Y p)\<lparr>AI_base := yb\<rparr>))) = Inr (net routes (X(p := holding x d1)) (plug Y p y))"
    by (rule way_up [OF calm p d(1)])
  let ?X = "X(p := x)" and ?Y = "plug Y p y"
  have calm1: "calm ?X ?Y" by (rule calm_settled [OF calm p(1) up(4)])
  have p7: "p < 7" using p(1) by (auto simp: ports_def)
  have same: "IP_dst (DG_header d1) = IP_dst (DG_header d)" "IP_ttl (DG_header d1) = IP_ttl (DG_header d)" using up(3) by (simp_all add: arrived_def)
  have d1: "dgram_ok d1" "routed_to (IP_dst (DG_header d1)) q" "\<not> IP_ttl (DG_header d1) \<le> 1"
    using arrived_ok [OF d(1) up(3)] d same by simp_all
  obtain n' x' y' d' where down: "n' \<le> 3" "arrived (forwarded d1) d'" "settled q ?X ?Y x' y'"
    "simulate_rounds n' db (net routes (?X(p := holding (?X p) d1)) ?Y) = Inr (net routes (?X(q := x')) (plug ?Y q (holding y' d')))"
    by (rule way_down [OF calm1 q p7 d1])
  let ?X' = "?X(q := x')" and ?Y' = "plug ?Y q y'"
  have calm2: "calm ?X' ?Y'" by (rule calm_settled [OF calm1 q(1) down(3)])
  have fin: "plug ?Y q (holding y' d') = plug ?Y' q (holding (at_host ?Y' q) d')" by simp
  have "simulate_rounds m db (net routes ?X' (plug ?Y q (holding y' d'))) = Inr (net routes ?X' (plug ?Y q (holding y' d')))" for m
    unfolding fin by (rule rounds_done [OF calm2])
  then have run: "simulate_rounds 256 db (net routes X (plug Y p ((at_host Y p)\<lparr>AI_base := yb\<rparr>))) = Inr (net routes ?X' (plug ?Y q (holding y' d')))"
    using rounds_then [OF up(5), of 256] rounds_then [OF down(4), of "256 - n"] up(2) down(1) by simp
  have "wire_bytes d' = wire_bytes (forwarded d1)" by (rule arrived_wire [OF forwarded_ok [OF d1(1)] down(2)])
  moreover have "wire_bytes (forwarded d1) = wire_bytes (forwarded d)" by (rule forwarded_wire [OF d(1) up(3)])
  moreover have "serializes d'" by (rule wire_bytes_ok(1) [OF arrived_ok [OF forwarded_ok [OF d1(1)] down(2)]])
  moreover have "touched {p, q} X Y ?X' ?Y'" by (intro touched_at touched_refl) simp_all
  ultimately show thesis using run by (intro that [OF up(1) _ calm2, of d']) (simp_all only: fin)
qed

lemma quiet_unqueued: "quiet_at ip a \<Longrightarrow> unqueued a = a"
  unfolding quiet_at_def by (cases a) simp

text \<open>A datagram whose time to live is used up is dropped by the router.\<close>

lemma journey_ends:
  assumes calm: "calm X Y" and p: "p \<in> ports" "hop_ip p = router_ip p" and d: "dgram_ok d" "IP_ttl (DG_header d) \<le> 1"
  obtains yb X' Y' where "send_datagram (AI_base (at_host Y p)) d (inet_address (hop_ip p) 0) = Inr yb"
    "simulate_rounds 256 db (net routes X (plug Y p ((at_host Y p)\<lparr>AI_base := yb\<rparr>))) = Inr (net routes X' Y')"
    "calm X' Y'" "touched {p} X Y X' Y'"
proof -
  obtain yb n x y d1 where up: "send_datagram (AI_base (at_host Y p)) d (inet_address (hop_ip p) 0) = Inr yb" "n \<le> 3" "arrived d d1"
    "settled p X Y x y"
    "simulate_rounds n db (net routes X (plug Y p ((at_host Y p)\<lparr>AI_base := yb\<rparr>))) = Inr (net routes (X(p := holding x d1)) (plug Y p y))"
    by (rule way_up [OF calm p d(1)])
  let ?X = "X(p := holding x d1)" and ?X' = "X(p := x)" and ?Y = "plug Y p y"
  have calm1: "calm ?X' ?Y" by (rule calm_settled [OF calm p(1) up(4)])
  have p7: "p < 7" using p(1) by (auto simp: ports_def)
  have "IP_ttl (DG_header d1) \<le> 1" using up(3) d(2) by (simp add: arrived_def)
  then have "Router_route (router_of routes ?X) = Inr (router_of routes (?X(p := unqueued (?X p))))"
    using p7 calm_idle(1) [OF calm] by (intro route_single) (auto simp: unread_def Router_route_one_datagram_def)
  moreover have "?X(p := unqueued (?X p)) = ?X'" using up(4) quiet_unqueued [of "router_ip p" x] by (simp add: settled_def)
  ultimately have route: "Router_route (router_of routes ?X) = Inr (router_of routes ?X')" by simp
  have "simulate_rounds (256 - n) db (net routes ?X ?Y) = simulate_rounds (256 - n) db (net routes ?X' ?Y)"
    using up(2) by (intro rounds_routed [OF route calm_idle(1) [OF calm1]]) simp
  also have "\<dots> = Inr (net routes ?X' ?Y)" by (rule rounds_idle [OF calm_named [OF calm1] calm_idle [OF calm1]])
  finally have "simulate_rounds 256 db (net routes X (plug Y p ((at_host Y p)\<lparr>AI_base := yb\<rparr>))) = Inr (net routes ?X' ?Y)"
    using rounds_then [OF up(5), of 256] up(2) by simp
  moreover have "touched {p} X Y ?X' ?Y" by (intro touched_at touched_refl) simp
  ultimately show thesis by (intro that [OF up(1) _ calm1])
qed

section \<open>What the hosts find\<close>

definition cleared :: "Host \<Rightarrow> Host" where
  "cleared h = h\<lparr>HO_interface := unqueued (HO_interface h), HO_expecting_to_receive := []\<rparr>"

definition resting :: "(nat \<Rightarrow> Host) \<Rightarrow> bool" where
  "resting Y \<longleftrightarrow> (\<forall>p \<in> hosts. HO_expecting_to_receive (Y p) = [])"

lemma check_satisfied:
  assumes "list_all serializes (AI_datagrams_out (HO_interface h))" and "list_all serializes (HO_expecting_to_receive h)"
    and "map wire_bytes (AI_datagrams_out (HO_interface h)) = map wire_bytes (HO_expecting_to_receive h)"
  shows "Host_check db h = Inr (cleared h)"
  using Host_check_eq [OF assms(1,2), of db] assms(3) by (simp add: cleared_def)

lemma simulate_net:
  assumes "simulate_rounds 256 db w = Inr (net T X Y)" and "\<forall>p \<in> hosts. Host_check db (Y p) = Inr (cleared (Y p))"
  shows "simulate db w = Inr (net T X (\<lambda>p. cleared (Y p)))"
proof -
  have hosts: "NW_hosts (net T X Y) = map (\<lambda>p. (port_name p, Y p)) [1, 0, 3, 5, 4, 7]"
    "(net T X Y)\<lparr>NW_hosts := map (\<lambda>p. (port_name p, cleared (Y p))) [1, 0, 3, 5, 4, 7]\<rparr> = net T X (\<lambda>p. cleared (Y p))" by (simp_all add: net_def)
  have "set ps \<subseteq> hosts \<Longrightarrow> check_hosts db (map (\<lambda>p. (port_name p, Y p)) ps) = Inr (map (\<lambda>p. (port_name p, cleared (Y p))) ps)" for ps
    using assms(2) by (induction ps) auto
  moreover have "set [1, 0, 3, 5, 4, 7] \<subseteq> hosts" by (simp add: hosts_def)
  ultimately have "check_hosts db (NW_hosts (net T X Y)) = Inr (map (\<lambda>p. (port_name p, cleared (Y p))) [1, 0, 3, 5, 4, 7])"
    unfolding hosts(1) by blast
  then show ?thesis unfolding simulate_def assms(1) by (simp only: bindR.simps hosts(2))
qed

lemma cleared_same: "host_ready p h \<Longrightarrow> HO_expecting_to_receive h = [] \<Longrightarrow> cleared h = h"
  using quiet_unqueued [of "host_ip p" "HO_interface h"] by (cases h) (simp add: cleared_def host_ready_def)

lemma check_ready: "host_ready p h \<Longrightarrow> HO_expecting_to_receive h = [] \<Longrightarrow> Host_check db h = Inr (cleared h)"
  by (rule check_satisfied) (simp_all add: host_ready_def quiet_at_def)

section \<open>The tests\<close>

lemma host_sends:
  assumes "netdb_ok db" and "HO_my_address h = inet_address s 0" and "HO_next_hop h = inet_address k 0" and "Address_ipv4_numeric a = Inr dst"
    and "send_datagram (AI_base (HO_interface h)) (host_dgram s dst (fst (rd g)) ttl) (inet_address k 0) = Inr i"
  shows "Host_send_to db rd g h a ttl
    = Inr (host_dgram s dst (fst (rd g)) ttl, h\<lparr>HO_interface := (HO_interface h)\<lparr>AI_base := i\<rparr>\<rparr>, snd (rd g))"
proof -
  have "ucast (IP_hlen IPv4Header_new) * 4 = (20 :: u16)" by (simp add: IPv4Header_new_def IPv4Header_LENGTH_def)
  then have "\<lparr>DG_header = (DG_header IPv4Datagram_new)\<lparr>IP_src := s, IP_dst := dst,
        IP_len := ucast (IP_hlen ((DG_header IPv4Datagram_new)\<lparr>IP_src := s, IP_dst := dst\<rparr>)) * 4 + ucast (BufferList_size pl), IP_ttl := ttl\<rparr>,
      DG_payload = pl\<rparr> = \<lparr>DG_header = IPv4Header_new\<lparr>IP_src := s, IP_dst := dst, IP_len := 20 + ucast (BufferList_size pl), IP_ttl := ttl\<rparr>, DG_payload = pl\<rparr>" for pl
    by (simp add: IPv4Datagram_new_def)
  then show ?thesis
    using assms by (simp add: Host_send_to_def host_dgram_def Let_def split_beta Address_ip_def netdb_ip_port)
qed

lemma sends_net:
  assumes "netdb_ok db" and calm: "calm X Y" and p: "p \<in> hosts" and "Address_ipv4_numeric a = Inr dst"
    and "send_datagram (AI_base (at_host Y p)) (host_dgram (host_ip p) dst (fst (rd g)) ttl) (inet_address (hop_ip p) 0) = Inr yb"
  shows "send_from db rd g (net routes X Y) (port_name p) a ttl
    = Inr (host_dgram (host_ip p) dst (fst (rd g)) ttl, net routes X (plug Y p ((at_host Y p)\<lparr>AI_base := yb\<rparr>)), snd (rd g))"
proof -
  have h: "HO_my_address (Y p) = inet_address (host_ip p) 0" "HO_next_hop (Y p) = inet_address (hop_ip p) 0"
    using calm p by (simp_all add: calm_def host_ready_def)
  have in6: "p \<in> {0, 1, 3, 4, 5, 7}" using p by (simp add: hosts_def)
  show ?thesis
    using host_sends [of db "Y p" "host_ip p" "hop_ip p" a dst rd g ttl yb, OF assms(1) h assms(4,5)]
    by (simp add: send_from_def host_net [OF in6 calm_named [OF calm]] set_host_net [OF in6])
qed

text \<open>A network at rest, which is how every test finds it and leaves it.\<close>

definition at_rest :: "(nat \<Rightarrow> AsyncNetworkInterface) \<Rightarrow> (nat \<Rightarrow> Host) \<Rightarrow> bool" where
  "at_rest X Y \<longleftrightarrow> calm X Y \<and> resting Y"

lemma calm_expect: "calm X (Y(q := Host_expect (Y q) e)) = calm X Y"
  by (auto simp: calm_def Host_expect_def host_ready_def)

text \<open>The hosts after the test: one has received what it expected, the others nothing.\<close>

lemma hosts_satisfied:
  assumes calm: "calm X Y" and q: "q \<in> hosts" and others: "\<forall>r \<in> hosts. r \<noteq> q \<longrightarrow> HO_expecting_to_receive (Y r) = []"
    and e: "HO_expecting_to_receive (Y q) = [e]" "serializes e" "serializes d" "wire_bytes d = wire_bytes e"
    and run: "simulate_rounds 256 db w = Inr (net routes X (plug Y q (holding (at_host Y q) d)))"
  shows "simulate db w = Inr (net routes X (Y(q := (Y q)\<lparr>HO_expecting_to_receive := []\<rparr>)))" (is "_ = Inr (net routes X ?Y')")
    and "at_rest X (Y(q := (Y q)\<lparr>HO_expecting_to_receive := []\<rparr>))"
proof -
  let ?Y = "plug Y q (holding (at_host Y q) d)"
  have ready: "host_ready r (Y r)" if "r \<in> hosts" for r using calm that by (simp add: calm_def)
  have same: "cleared (?Y r) = ?Y' r" if "r \<in> hosts" for r
    using ready [OF that] others that quiet_unqueued [of "host_ip q" "at_host Y q"]
    by (auto simp: cleared_same) (auto simp: cleared_def host_ready_def)
  have "Host_check db (?Y r) = Inr (cleared (?Y r))" if "r \<in> hosts" for r
  proof (cases "r = q")
    case True
    then show ?thesis using e by (auto intro!: check_satisfied)
  next
    case False
    then show ?thesis using others that ready [OF that] by (simp add: check_ready)
  qed
  then have "simulate db w = Inr (net routes X (\<lambda>r. cleared (?Y r)))" by (intro simulate_net [OF run]) simp
  also have "net routes X (\<lambda>r. cleared (?Y r)) = net routes X ?Y'" using same by (intro net_cong) (simp_all add: hosts_def)
  finally show "simulate db w = Inr (net routes X ?Y')" .
  have "calm X ?Y'" using calm by (auto simp: calm_def host_ready_def)
  then show "at_rest X ?Y'" using others by (simp add: at_rest_def resting_def)
qed

lemma touched_expect:
  assumes t: "touched P X (Y(q := Host_expect (Y q) e)) X' Y'" and q: "q \<in> P" "HO_expecting_to_receive (Y q) = []"
  shows "touched P X Y X' (Y'(q := (Y' q)\<lparr>HO_expecting_to_receive := []\<rparr>))"
proof -
  have "\<exists>y. (Y'(q := (Y' q)\<lparr>HO_expecting_to_receive := []\<rparr>)) r = (Y r)\<lparr>HO_interface := y\<rparr>" for r
  proof -
    obtain y where y: "Y' r = ((Y(q := Host_expect (Y q) e)) r)\<lparr>HO_interface := y\<rparr>" using t unfolding touched_def by blast
    have "(Y q)\<lparr>HO_interface := y, HO_expecting_to_receive := []\<rparr> = (Y q)\<lparr>HO_interface := y\<rparr>" using q(2) by (cases "Y q") simp
    then show ?thesis using y by (cases "r = q") (auto simp: Host_expect_def)
  qed
  then show ?thesis using t q(1) unfolding touched_def by auto
qed

text \<open>A test succeeds when the datagram makes its way to the host that expects it.\<close>

lemma test_concludes:
  fixes rd :: "'g generator" and g :: 'g
  assumes db: "netdb_ok db" and rest: "at_rest X Y" and p: "p \<in> hosts" and q: "q \<in> hosts" "q \<noteq> p" "q \<in> P" and a: "Address_ipv4_numeric a = Inr dst"
  defines "d \<equiv> host_dgram (host_ip p) dst (fst (rd g)) 64"
  defines "E \<equiv> Y(q := Host_expect (Y q) (lower_ttl d))"
  assumes sent: "send_datagram (AI_base (at_host E p)) d (inet_address (hop_ip p) 0) = Inr yb"
    and run: "simulate_rounds 256 db (net routes X (plug E p ((at_host E p)\<lparr>AI_base := yb\<rparr>))) = Inr (net routes X' (plug Y' q (holding (at_host Y' q) d')))"
    and calm': "calm X' Y'" and t: "touched P X E X' Y'" and d': "serializes d'" "wire_bytes d' = wire_bytes (forwarded d)"
  obtains X' Y' where "test_delivery db rd (net routes X Y, g) (port_name p) a (port_name q) = Inr (net routes X' Y', snd (rd g))"
    "at_rest X' Y'" "touched P X Y X' Y'"
proof -
  let ?Y' = "Y'(q := (Y' q)\<lparr>HO_expecting_to_receive := []\<rparr>)" and ?w = "net routes X (plug E p ((at_host E p)\<lparr>AI_base := yb\<rparr>))"
  have calm: "calm X Y" using rest by (simp add: at_rest_def)
  have in6: "q \<in> {0, 1, 3, 4, 5, 7}" using q(1) by (simp add: hosts_def)
  have kept: "HO_expecting_to_receive (Y' r) = HO_expecting_to_receive (E r)" for r
    using t unfolding touched_def by (metis Host.select_convs(5) Host.surjective Host.update_convs(3))
  have r: "HO_expecting_to_receive (Y r) = []" if "r \<in> hosts" for r using rest that by (simp add: at_rest_def resting_def)
  have e: "\<forall>r \<in> hosts. r \<noteq> q \<longrightarrow> HO_expecting_to_receive (Y' r) = []" "HO_expecting_to_receive (Y' q) = [lower_ttl d]"
    using r q(1) by (simp_all add: kept Host_expect_def E_def)
  have wire: "serializes (lower_ttl d)" "wire_bytes d' = wire_bytes (lower_ttl d)"
    using wire_bytes_ok(1) [OF forwarded_ok, of d] d'(2) by (simp_all add: lower_ttl_forwarded d_def)
  note sat = hosts_satisfied [OF calm' q(1) e wire(1) d'(1) wire(2) run]
  have "send_from db rd g (net routes X Y) (port_name p) a 64 = Inr (d, net routes X (plug Y p ((at_host Y p)\<lparr>AI_base := yb\<rparr>)), snd (rd g))"
    unfolding d_def using sent q(2) by (intro sends_net [OF db calm p a]) (simp add: E_def d_def)
  moreover have "(plug Y p ((at_host Y p)\<lparr>AI_base := yb\<rparr>))(q := Host_expect (Y q) (lower_ttl d)) = plug E p ((at_host E p)\<lparr>AI_base := yb\<rparr>)"
    using q(2) by (auto simp: fun_eq_iff E_def)
  ultimately have "test_delivery db rd (net routes X Y, g) (port_name p) a (port_name q) = bindR (simulate db ?w) (\<lambda>w. Inr (w, snd (rd g)))"
    using calm_named [OF calm] q(2) by (simp add: test_delivery_def host_net [OF in6] set_host_net [OF in6] del: fun_upd_apply) (simp add: host_net)
  moreover have "touched P X Y X' ?Y'" using t r [OF q(1)] q(3) unfolding E_def by (intro touched_expect)
  ultimately show thesis using that sat by simp
qed

lemma delivery_passes:
  assumes db: "netdb_ok db" and rest: "at_rest X Y" and p: "p \<in> ports" "hop_ip p = router_ip p" and q: "q \<in> ports" "q \<noteq> p"
    and a: "Address_ipv4_numeric a = Inr dst" "routed_to dst q"
  obtains X' Y' where "test_delivery db rd (net routes X Y, g) (port_name p) a (port_name q) = Inr (net routes X' Y', snd (rd g))"
    "at_rest X' Y'" "touched {p, q} X Y X' Y'"
proof -
  let ?d = "host_dgram (host_ip p) dst (fst (rd g)) 64"
  let ?E = "Y(q := Host_expect (Y q) (lower_ttl ?d))"
  have calm: "calm X ?E" using rest by (simp add: at_rest_def calm_expect)
  have "IP_dst (DG_header ?d) = dst" "IP_ttl (DG_header ?d) = 64" by (simp_all add: host_dgram_def Let_def)
  then have d: "dgram_ok ?d" "routed_to (IP_dst (DG_header ?d)) q" "\<not> IP_ttl (DG_header ?d) \<le> 1" using a(2) by (simp_all add: word_le_nat_alt)
  obtain yb X' Y' d' where j: "send_datagram (AI_base (at_host ?E p)) ?d (inet_address (hop_ip p) 0) = Inr yb"
    "simulate_rounds 256 db (net routes X (plug ?E p ((at_host ?E p)\<lparr>AI_base := yb\<rparr>))) = Inr (net routes X' (plug Y' q (holding (at_host Y' q) d')))"
    "calm X' Y'" "touched {p, q} X ?E X' Y'" "serializes d'" "wire_bytes d' = wire_bytes (forwarded ?d)"
    by (rule journey [OF calm p q d])
  have h: "p \<in> hosts" "q \<in> hosts" "q \<in> {p, q}" using p(1) q(1) by (auto simp: ports_def hosts_def)
  show thesis by (rule test_concludes [where rd = rd and g = g, OF db rest h(1,2) q(2) h(3) a(1) j]) (rule that)
qed

lemma expiry_passes:
  assumes db: "netdb_ok db" and rest: "at_rest X Y" and p: "p \<in> ports" "hop_ip p = router_ip p"
    and a: "Address_of_ip (getaddrinfo db) address 0 = Inr a" "Address_ipv4_numeric a = Inr dst" and ttl: "ttl \<le> 1"
  obtains X' Y' where "test_expires db rd (net routes X Y, g) (port_name p) address ttl = Inr (net routes X' Y', snd (rd g))"
    "at_rest X' Y'" "touched {p} X Y X' Y'"
proof -
  let ?d = "host_dgram (host_ip p) dst (fst (rd g)) ttl"
  have calm: "calm X Y" using rest by (simp add: at_rest_def)
  have d: "dgram_ok ?d" "IP_ttl (DG_header ?d) \<le> 1" using ttl host_dgram_ok by (simp_all add: host_dgram_def Let_def)
  obtain yb X' Y' where j: "send_datagram (AI_base (at_host Y p)) ?d (inet_address (hop_ip p) 0) = Inr yb"
    "simulate_rounds 256 db (net routes X (plug Y p ((at_host Y p)\<lparr>AI_base := yb\<rparr>))) = Inr (net routes X' Y')"
    "calm X' Y'" "touched {p} X Y X' Y'"
    by (rule journey_ends [OF calm p d])
  have in6: "p \<in> hosts" using p(1) by (auto simp: ports_def hosts_def)
  have e: "HO_expecting_to_receive (Y' r) = []" if "r \<in> hosts" for r
    using that rest j(4) unfolding touched_def at_rest_def resting_def
    by (metis Host.select_convs(5) Host.surjective Host.update_convs(3))
  have ready: "host_ready r (Y' r)" if "r \<in> hosts" for r using j(3) that by (simp add: calm_def)
  have "simulate db (net routes X (plug Y p ((at_host Y p)\<lparr>AI_base := yb\<rparr>))) = Inr (net routes X' (\<lambda>r. cleared (Y' r)))"
    using check_ready [OF ready e] by (intro simulate_net [OF j(2)]) simp
  also have "net routes X' (\<lambda>r. cleared (Y' r)) = net routes X' Y'"
    using cleared_same [OF ready e] by (intro net_cong) (simp_all add: hosts_def)
  finally have "test_expires db rd (net routes X Y, g) (port_name p) address ttl = Inr (net routes X' Y', snd (rd g))"
    by (simp add: test_expires_def a(1) sends_net [where rd = rd and g = g, OF db calm in6 a(2) j(1)] del: fun_upd_apply)
  moreover have "at_rest X' Y'" using j(3) e by (simp add: at_rest_def resting_def)
  ultimately show thesis using j(4) by (rule that)
qed

text \<open>Where the router sends the destinations of the tests.\<close>

lemma scan_routes:
  "routed_to 0xc0a80002 3" "routed_to 0x0a000002 1" "routed_to 0x01020304 0" "routed_to 0x8fc38311 5" "routed_to 0x8fc3c134 5"
  "routed_to 0x8fc3dfff 5" "routed_to 0x8fc3e000 0"
  by (simp_all add: routed_to_def routes_def route_def route_matches_def no_choice_def host_ip_def word_le_nat_alt word_less_nat_alt)

end
