(* ===== verification/Simulator_Segment.thy ===== *)
theory Simulator_Segment
  imports Simulator_Tests
begin

text \<open>
  The cable of the simulator of \<open>Network_Simulator\<close> with two hosts: a datagram from one to the other goes
  over the router, and every frame on the cable reaches both of the others.
\<close>

section \<open>Three interfaces on a cable\<close>

lemma deliver_one: "short_frame f \<Longrightarrow> deliver db [f] a = AsyncNetworkInterface_recv_frame a (on_cable f)"
proof -
  assume "short_frame f"
  then have "deliver db [f] a = receive_frames [on_cable f] a" using deliver_receives [of "[f]" db a] by simp
  moreover have "receive_frames [] = Inr" by (rule ext) simp
  ultimately show ?thesis by simp
qed

lemma clear_frames_none [simp]: "clear_frames [] x = Inr x" "clear_frames [f] (with_frames [f] x) = Inr (with_frames [] x)"
  by (simp_all add: clear_frames_def with_frames_def)

lemma with_no_frames: "frames_out x = [] \<Longrightarrow> with_frames [] x = x"
  by (simp add: with_frames_def)

lemma speaks:
  assumes "short_frame f" and "frames_out x = []" "frames_out y = []" "frames_out z = []"
  shows "AsyncNetworkInterface_recv_frame y (on_cable f) = Inr y' \<Longrightarrow> AsyncNetworkInterface_recv_frame z (on_cable f) = Inr z'
      \<Longrightarrow> exchange_frames3 db (with_frames [f] x) y z = Inr (x, y', z')"
    and "AsyncNetworkInterface_recv_frame x (on_cable f) = Inr x' \<Longrightarrow> AsyncNetworkInterface_recv_frame z (on_cable f) = Inr z'
      \<Longrightarrow> exchange_frames3 db x (with_frames [f] y) z = Inr (x', y, z')"
    and "AsyncNetworkInterface_recv_frame x (on_cable f) = Inr x' \<Longrightarrow> AsyncNetworkInterface_recv_frame y (on_cable f) = Inr y'
      \<Longrightarrow> exchange_frames3 db x y (with_frames [f] z) = Inr (x', y', z)"
  using assms by (simp_all add: exchange_frames3_def Let_def deliver_one with_no_frames del: deliver.simps(2))

lemma eth_taught [simp]: "eth (taught k e a) = eth a"
  by (simp add: taught_def)

text \<open>A cable on which one interface talks to another and a third one listens, whatever their order.\<close>

locale overheard =
  fixes step :: "AsyncNetworkInterface \<Rightarrow> AsyncNetworkInterface \<Rightarrow> AsyncNetworkInterface
    \<Rightarrow> AsyncNetworkInterface \<Rightarrow> AsyncNetworkInterface \<Rightarrow> AsyncNetworkInterface \<Rightarrow> bool"
  assumes asks: "short_frame f \<Longrightarrow> frames_out a = [] \<Longrightarrow> frames_out b = [] \<Longrightarrow> frames_out c = []
      \<Longrightarrow> AsyncNetworkInterface_recv_frame b (on_cable f) = Inr b' \<Longrightarrow> AsyncNetworkInterface_recv_frame c (on_cable f) = Inr c'
      \<Longrightarrow> step (with_frames [f] a) b c a b' c'"
    and answers: "short_frame f \<Longrightarrow> frames_out a = [] \<Longrightarrow> frames_out b = [] \<Longrightarrow> frames_out c = []
      \<Longrightarrow> AsyncNetworkInterface_recv_frame a (on_cable f) = Inr a' \<Longrightarrow> AsyncNetworkInterface_recv_frame c (on_cable f) = Inr c'
      \<Longrightarrow> step a (with_frames [f] b) c a' b c'"
begin

lemma question:
  assumes a: "quiet_at ipa a" and b: "quiet_at ipb b" and c: "quiet_at ipc c" and ip: "ipb \<noteq> ipc"
  shows "step (with_frames [arp_frame (AI_base a) ETHERNET_BROADCAST (request_msg (AI_base a) ipa ipb)] (asking ipb bl a)) b c (asking ipb bl a)
    (with_frames [arp_frame (AI_base b) (eth a) (reply_msg (AI_base b) ipb ipa (eth a))] (taught ipa (eth a) b)) (taught ipa (eth a) c)"
proof -
  have ok: "address_ok (eth a)" "frames_out a = []" "frames_out b = []" "frames_out c = []" using a b c by (simp_all add: quiet_at_def NI_inv_def)
  have "frames_out (taught ipa (eth a) c) = []" using ok by (simp add: taught_def)
  then show ?thesis
    using ok ip by (intro asks) (simp_all add: hear_request [OF b] hear_request [OF c] short_frames(1) arp_messages_ok with_no_frames)
qed

lemma answer:
  assumes a: "quiet_at ipa a" and b: "quiet_at ipb b" and c: "quiet_at ipc c" and k: "NI_ip2eth (AI_base a) ipb = None"
    and e: "eth a \<noteq> ETHERNET_BROADCAST" "eth a \<noteq> eth c"
  shows "step (asking ipb bl a) (with_frames [arp_frame (AI_base b) (eth a) (reply_msg (AI_base b) ipb ipa (eth a))] b) c
    (with_frames [ip_frame (AI_base a) (eth b) bl] (taught ipb (eth b) a)) b c"
proof -
  have ok: "address_ok (eth a)" "address_ok (eth b)" "frames_out a = []" "frames_out b = []" "frames_out c = []"
    using a b c by (simp_all add: quiet_at_def NI_inv_def)
  then show ?thesis
    by (intro answers) (simp_all add: hear_reply [OF a k] cable_other(1) [OF e] short_frames(1) arp_messages_ok)
qed

lemma datagram:
  assumes a: "quiet_at ipa a" and b: "quiet_at ipb b" and c: "quiet_at ipc c"
    and d: "dgram_ok d" "IPv4Datagram_serialize d = Inr bl" and e: "eth b \<noteq> ETHERNET_BROADCAST" "eth b \<noteq> eth c"
  obtains d' where "arrived d d'" "step (with_frames [ip_frame (AI_base a) (eth b) bl] a) b c a (holding b d') c"
proof -
  obtain d' where d': "arrived d d'" "length (BufferList_concatenate bl) < 65536"
    "\<forall>a s. AsyncNetworkInterface_recv_frame a (on_cable (ip_frame s (eth a) bl)) = Inr (a\<lparr>AI_datagrams_out := AI_datagrams_out a @ [d']\<rparr>)"
    by (rule cable_ip [OF d])
  have ok: "frames_out a = []" "frames_out b = []" "frames_out c = []" "AI_datagrams_out b = []" using a b c by (simp_all add: quiet_at_def)
  have "step (with_frames [ip_frame (AI_base a) (eth b) bl] a) b c a (holding b d') c"
    using ok d'(3) [rule_format, of b "AI_base a"] by (intro asks) (simp_all add: cable_other(2) [OF e] short_frames(2) [OF d'(2)])
  then show thesis using that d'(1) by blast
qed

lemma conversation:
  assumes a: "quiet_at ipa a" and b: "quiet_at ipb b" and c: "quiet_at ipc c" and k: "NI_ip2eth (AI_base a) ipb = None"
    and e: "distinct [eth a, eth b, eth c, ETHERNET_BROADCAST]" "ipb \<noteq> ipc" and d: "dgram_ok d" "IPv4Datagram_serialize d = Inr bl"
  defines "A \<equiv> taught ipb (eth b) a" and "B \<equiv> taught ipa (eth a) b" and "C \<equiv> taught ipa (eth a) c"
  obtains d' b1 a1 where "arrived d d'"
    "step (with_frames [arp_frame (AI_base a) ETHERNET_BROADCAST (request_msg (AI_base a) ipa ipb)] (asking ipb bl a)) b c (asking ipb bl a) b1 C"
    "step (asking ipb bl a) b1 C a1 B C" "step a1 B C A (holding B d') C"
    "AI_datagrams_out a1 = []" "AI_datagrams_out b1 = []"
proof -
  have ok: "address_ok (eth a)" "address_ok (eth b)" "AI_datagrams_out a = []" "AI_datagrams_out b = []"
    using a b by (simp_all add: quiet_at_def NI_inv_def)
  have A: "quiet_at ipa A" "eth A = eth a" and B: "quiet_at ipb B" "eth B = eth b" and C: "quiet_at ipc C" "eth C = eth c"
    unfolding A_def B_def C_def using ok by (simp_all add: taught_quiet a b c)
  let ?reply = "arp_frame (AI_base b) (eth a) (reply_msg (AI_base b) ipb ipa (eth a))" and ?ip = "ip_frame (AI_base a) (eth b) bl"
  have ne: "eth a \<noteq> ETHERNET_BROADCAST" "eth a \<noteq> eth C" "eth B \<noteq> ETHERNET_BROADCAST" "eth B \<noteq> eth C" using e(1) B C by auto
  have "step (asking ipb bl a) (with_frames [?reply] B) C (with_frames [?ip] A) B C"
    using answer [OF a B(1) C(1) k ne(1,2), of bl] by (simp add: B(2) arp_frame_def reply_msg_def A_def)
  moreover obtain d' where "arrived d d'" "step (with_frames [?ip] A) B C A (holding B d') C"
    using datagram [OF A(1) B(1) C(1) d ne(3,4)] by (auto simp: ip_frame_def A(2) B(2))
  ultimately show thesis
    using question [OF a b c e(2), of bl] A(1) B(1)
    by (intro that [of d' "with_frames [?reply] B" "with_frames [?ip] A"]) (simp_all add: B_def C_def quiet_at_def)
qed

end

text \<open>A host talks to the router while the other host listens, and the router to a host while the first one listens.\<close>

interpretation upward: overheard "\<lambda>a b c a' b' c'. exchange_frames3 db b a c = Inr (b', a', c')" for db
  by unfold_locales (simp_all add: speaks)

interpretation downward: overheard "\<lambda>a b c a' b' c'. exchange_frames3 db a c b = Inr (a', c', b')" for db
  by unfold_locales (simp_all add: speaks)

section \<open>The segment in the network\<close>

definition net4 :: "(nat \<Rightarrow> AsyncNetworkInterface) \<Rightarrow> (nat \<Rightarrow> Host) \<Rightarrow> AsyncNetworkInterface \<Rightarrow> AsyncNetworkInterface \<Rightarrow> AsyncNetworkInterface \<Rightarrow> Network" where
  "net4 X Y x y z = net routes (X(4 := x)) (plug (plug Y 4 y) 7 z)"

lemma round4:
  assumes calm: "calm X Y" and "AI_datagrams_out x = []" and "exchange_frames3 db x y z = Inr (x', y', z')"
  shows "simulate_round db (net4 X Y x y z) = Inr (net4 X Y x' y' z')"
proof -
  let ?X = "X(4 := x)" and ?Y = "plug (plug Y 4 y) 7 z"
  have "\<forall>p < 7. \<not> unread ?X p" using calm_idle(1) [OF calm] assms(2) by (simp add: unread_def)
  then have "simulate_round db (net routes ?X ?Y) = simulate_physical_connections db (net routes ?X ?Y)" by (rule round_idle_router)
  also have "\<dots> = Inr (net routes (?X(4 := x')) (plug (plug ?Y 4 y') 7 z'))"
    using calm_named [OF calm] assms(3) calm_idle(2) [OF calm] by (intro physical_three) (auto simp: ports_def silent_def)
  also have "net routes (?X(4 := x')) (plug (plug ?Y 4 y') 7 z') = net4 X Y x' y' z'" unfolding net4_def by (rule net_cong) auto
  finally show ?thesis by (simp add: net4_def del: fun_upd_apply)
qed

lemma rounds4:
  assumes "calm X Y" and "exchange_frames3 db x y z = Inr (x1, y1, z1)" "exchange_frames3 db x1 y1 z1 = Inr (x2, y2, z2)"
    "exchange_frames3 db x2 y2 z2 = Inr (x3, y3, z3)" and "list_all (\<lambda>a. AI_datagrams_out a = []) [x, x1, x2]"
  shows "simulate_rounds 3 db (net4 X Y x y z) = Inr (net4 X Y x3 y3 z3)"
  using assms by (simp add: eval_nat_numeral round4)

lemma route4:
  assumes calm: "calm X Y" and d: "IP_dst (DG_header d) = host_ip 7" "\<not> IP_ttl (DG_header d) \<le> 1"
    and x: "AI_datagrams_out x = []" "send_datagram (AI_base x) (forwarded d) (ipv4_address (host_ip 7)) = Inr xb"
  shows "Router_route (router_of routes (X(4 := holding x d))) = Inr (router_of routes (X(4 := x\<lparr>AI_base := xb\<rparr>)))"
proof -
  let ?X = "X(4 := holding x d)" and ?X1 = "X(4 := (holding x d)\<lparr>AI_base := xb\<rparr>)"
  have scan: "route_scan (host_ip 7) routes no_choice = Inr \<lparr>is_matched = True, matched_length = 24, CH_interface_num = 4, CH_next_hop = None\<rparr>"
    by (simp add: routes_def route_def route_matches_def no_choice_def host_ip_def word_le_nat_alt word_less_nat_alt)
  have at: "Router_interface (router_of routes ?X) 4 = Inr (holding x d)" by (simp add: Router_interface_def router_of_def)
  have upd: "(router_of routes ?X)\<lparr>RT_interfaces := (RT_interfaces (router_of routes ?X))[4 := a]\<rparr> = router_of routes (X(4 := a))" for a
    by (auto simp: router_of_def nth_list_update intro!: nth_equalityI)
  have fwd: "IP_dst (DG_header (forwarded d)) = host_ip 7" and tab: "RT_routing_table (router_of routes ?X) = routes"
    using d(1) by (simp_all add: forwarded_def router_of_def)
  have one: "Router_route_one_datagram (router_of routes ?X) d = Inr (router_of routes ?X1)"
    unfolding Router_route_one_datagram_def if_not_P [OF d(2)] Let_def forwarded_def [symmetric] fwd tab scan
    using x(2) by (simp add: from_ipv4_numeric at upd del: fun_upd_apply)
  have "Router_route (router_of routes ?X) = Inr (router_of routes (?X1(4 := unqueued (?X1 4))))"
    using calm_idle(1) [OF calm] by (intro route_single [OF _ _ _ one]) (auto simp: unread_def)
  moreover have "?X1(4 := unqueued (?X1 4)) = X(4 := x\<lparr>AI_base := xb\<rparr>)" using x(1) by (cases x) simp
  ultimately show ?thesis by simp
qed

text \<open>The interfaces on the cable have not yet learned anything.\<close>

definition strangers :: "(nat \<Rightarrow> AsyncNetworkInterface) \<Rightarrow> (nat \<Rightarrow> Host) \<Rightarrow> bool" where
  "strangers X Y \<longleftrightarrow> NI_ip2eth (AI_base (X 4)) = Map.empty \<and> NI_ip2eth (AI_base (at_host Y 4)) = Map.empty
     \<and> distinct [eth (X 4), eth (at_host Y 4), eth (at_host Y 7), ETHERNET_BROADCAST]"

lemma segment_ips: "distinct [router_ip 4, host_ip 4, host_ip 7]" "hop_ip 4 = router_ip 4"
  by (simp_all add: router_ip_def host_ip_def hop_ip_def)

lemma segment_up:
  assumes calm: "calm X Y" and new: "strangers X Y" and d: "dgram_ok d"
  defines "x \<equiv> X 4" and "y \<equiv> at_host Y 4" and "z \<equiv> at_host Y 7"
  obtains yb d' where "send_datagram (AI_base y) d (inet_address (hop_ip 4) 0) = Inr yb" "arrived d d'"
    "simulate_rounds 3 db (net4 X Y x (y\<lparr>AI_base := yb\<rparr>) z)
      = Inr (net4 X Y (holding (taught (host_ip 4) (eth y) x) d') (taught (router_ip 4) (eth x) y) (taught (host_ip 4) (eth y) z))"
proof -
  have q: "quiet_at (host_ip 4) y" "quiet_at (router_ip 4) x" "quiet_at (host_ip 7) z"
    using calm by (simp_all add: calm_def hosts_def host_ready_def x_def y_def z_def)
  have k: "NI_ip2eth (AI_base y) (router_ip 4) = None" "distinct [eth y, eth x, eth z, ETHERNET_BROADCAST]"
    using new by (auto simp: strangers_def x_def y_def z_def)
  obtain bl where bl: "IPv4Datagram_serialize d = Inr bl" using wire_bytes_ok(1) [OF d] by (auto simp: serializes_def)
  have hop: "Address_ipv4_numeric (inet_address (hop_ip 4) 0) = Inr (router_ip 4)" by (simp add: segment_ips)
  obtain yb where yb: "y\<lparr>AI_base := yb\<rparr> = with_frames [arp_frame (AI_base y) ETHERNET_BROADCAST (request_msg (AI_base y) (host_ip 4) (router_ip 4))] (asking (router_ip 4) bl y)"
    "send_datagram (AI_base y) d (inet_address (hop_ip 4) 0) = Inr yb"
    by (rule send_asks [OF q(1) k(1) hop bl])
  have "router_ip 4 \<noteq> host_ip 7" using segment_ips by simp
  then obtain d' x1 y1 where c: "arrived d d'" "exchange_frames3 db x (y\<lparr>AI_base := yb\<rparr>) z = Inr (x1, asking (router_ip 4) bl y, taught (host_ip 4) (eth y) z)"
    "exchange_frames3 db x1 (asking (router_ip 4) bl y) (taught (host_ip 4) (eth y) z)
      = Inr (taught (host_ip 4) (eth y) x, y1, taught (host_ip 4) (eth y) z)"
    "exchange_frames3 db (taught (host_ip 4) (eth y) x) y1 (taught (host_ip 4) (eth y) z)
      = Inr (holding (taught (host_ip 4) (eth y) x) d', taught (router_ip 4) (eth x) y, taught (host_ip 4) (eth y) z)"
    "AI_datagrams_out y1 = []" "AI_datagrams_out x1 = []"
    unfolding yb(1) by (rule upward.conversation [OF q k _ d bl, of db])
  have "list_all (\<lambda>a. AI_datagrams_out a = []) [x, x1, taught (host_ip 4) (eth y) x]" using q(2) c(6) by (simp add: quiet_at_def taught_def)
  from that [OF yb(2) c(1) rounds4 [OF calm c(2-4) this]] show thesis .
qed

lemma segment_down:
  assumes calm: "calm X Y" and q: "quiet_at (router_ip 4) x" "quiet_at (host_ip 4) y" "quiet_at (host_ip 7) z"
    and k: "NI_ip2eth (AI_base x) (host_ip 7) = None" "distinct [eth x, eth z, eth y, ETHERNET_BROADCAST]"
    and d: "dgram_ok d" "IP_dst (DG_header d) = host_ip 7" "\<not> IP_ttl (DG_header d) \<le> 1"
  obtains d' where "arrived (forwarded d) d'"
    "simulate_rounds 3 db (net4 X Y (holding x d) y z)
      = Inr (net4 X Y (taught (host_ip 7) (eth z) x) (taught (router_ip 4) (eth x) y) (holding (taught (router_ip 4) (eth x) z) d'))"
proof -
  note fwd = forwarded_ok [OF d(1)]
  obtain bl where bl: "IPv4Datagram_serialize (forwarded d) = Inr bl" using wire_bytes_ok(1) [OF fwd] by (auto simp: serializes_def)
  have hop: "Address_ipv4_numeric (ipv4_address (host_ip 7)) = Inr (host_ip 7)" by simp
  obtain xb where xb: "x\<lparr>AI_base := xb\<rparr> = with_frames [arp_frame (AI_base x) ETHERNET_BROADCAST (request_msg (AI_base x) (router_ip 4) (host_ip 7))] (asking (host_ip 7) bl x)"
    "send_datagram (AI_base x) (forwarded d) (ipv4_address (host_ip 7)) = Inr xb"
    by (rule send_asks [OF q(1) k(1) hop bl])
  have x: "AI_datagrams_out x = []" using q(1) by (simp add: quiet_at_def)
  have ne: "host_ip 7 \<noteq> host_ip 4" using segment_ips by auto
  obtain d' z1 x1 where c: "arrived (forwarded d) d'" "exchange_frames3 db (x\<lparr>AI_base := xb\<rparr>) y z = Inr (asking (host_ip 7) bl x, taught (router_ip 4) (eth x) y, z1)"
    "exchange_frames3 db (asking (host_ip 7) bl x) (taught (router_ip 4) (eth x) y) z1
      = Inr (x1, taught (router_ip 4) (eth x) y, taught (router_ip 4) (eth x) z)"
    "exchange_frames3 db x1 (taught (router_ip 4) (eth x) y) (taught (router_ip 4) (eth x) z)
      = Inr (taught (host_ip 7) (eth z) x, taught (router_ip 4) (eth x) y, holding (taught (router_ip 4) (eth x) z) d')"
    "AI_datagrams_out x1 = []" "AI_datagrams_out z1 = []"
    unfolding xb(1) by (rule downward.conversation [OF q(1,3,2) k ne fwd bl, of db])
  have "list_all (\<lambda>a. AI_datagrams_out a = []) [x\<lparr>AI_base := xb\<rparr>, asking (host_ip 7) bl x, x1]" using x c(5) by simp
  note run = rounds4 [OF calm c(2-4) this]
  have "\<forall>p < 7. \<not> unread (X(4 := x\<lparr>AI_base := xb\<rparr>)) p" using calm_idle(1) [OF calm] x by (simp add: unread_def)
  then have "simulate_rounds 3 db (net4 X Y (holding x d) y z) = simulate_rounds 3 db (net4 X Y (x\<lparr>AI_base := xb\<rparr>) y z)"
    unfolding net4_def by (intro rounds_routed [OF route4 [OF calm d(2,3) x xb(2)]]) simp_all
  then show thesis using that c(1) run by simp
qed

lemma segment_calm:
  assumes "calm X Y" and "quiet_at (router_ip 4) x" "quiet_at (host_ip 4) y" "quiet_at (host_ip 7) z"
  shows "calm (X(4 := x)) (plug (plug Y 4 y) 7 z)"
  using assms unfolding calm_def by (auto simp: ports_def hosts_def host_ready_def)

lemma segment_settles:
  assumes "calm X Y" and "quiet_at (router_ip 4) x" "quiet_at (host_ip 4) y" "quiet_at (host_ip 7) z"
  defines "X' \<equiv> X(4 := x)" and "Y' \<equiv> plug (plug Y 4 y) 7 z"
  shows "simulate_rounds m db (net4 X Y x y (holding z d)) = Inr (net routes X' (plug Y' 7 (holding (at_host Y' 7) d)))"
    and "calm X' Y'" and "touched {4, 7} X Y X' Y'"
proof -
  show calm: "calm X' Y'" unfolding X'_def Y'_def by (rule segment_calm [OF assms(1-4)])
  have "net4 X Y x y (holding z d) = net routes X' (plug Y' 7 (holding (at_host Y' 7) d))"
    unfolding net4_def by (rule net_cong) (auto simp: X'_def Y'_def)
  then show "simulate_rounds m db (net4 X Y x y (holding z d)) = Inr (net routes X' (plug Y' 7 (holding (at_host Y' 7) d)))"
    using rounds_done [OF calm] by simp
  show "touched {4, 7} X Y X' Y'"
    using touched_at [OF touched_at [OF touched_refl, of 4 "{4, 7}" X Y x y], of 7 "X' 7" z] by (simp add: X'_def Y'_def del: fun_upd_apply)
qed

lemma segment_journey:
  assumes calm: "calm X Y" and new: "strangers X Y" and d: "dgram_ok d" "IP_dst (DG_header d) = host_ip 7" "\<not> IP_ttl (DG_header d) \<le> 1"
  obtains yb X' Y' d' where "send_datagram (AI_base (at_host Y 4)) d (inet_address (hop_ip 4) 0) = Inr yb"
    "simulate_rounds 256 db (net routes X (plug Y 4 ((at_host Y 4)\<lparr>AI_base := yb\<rparr>))) = Inr (net routes X' (plug Y' 7 (holding (at_host Y' 7) d')))"
    "calm X' Y'" "touched {4, 7} X Y X' Y'" "serializes d'" "wire_bytes d' = wire_bytes (forwarded d)"
proof -
  let ?x = "X 4" and ?y = "at_host Y 4" and ?z = "at_host Y 7"
  obtain yb d1 where up: "send_datagram (AI_base ?y) d (inet_address (hop_ip 4) 0) = Inr yb" "arrived d d1"
    "simulate_rounds 3 db (net4 X Y ?x (?y\<lparr>AI_base := yb\<rparr>) ?z)
      = Inr (net4 X Y (holding (taught (host_ip 4) (eth ?y) ?x) d1) (taught (router_ip 4) (eth ?x) ?y) (taught (host_ip 4) (eth ?y) ?z))"
    by (rule segment_up [OF calm new d(1)])
  have q: "quiet_at (router_ip 4) ?x" "quiet_at (host_ip 4) ?y" "quiet_at (host_ip 7) ?z"
    using calm by (simp_all add: calm_def hosts_def host_ready_def)
  then have a: "address_ok (eth ?x)" "address_ok (eth ?y)" "address_ok (eth ?z)" by (simp_all add: quiet_at_def NI_inv_def)
  let ?x1 = "taught (host_ip 4) (eth ?y) ?x" and ?y1 = "taught (router_ip 4) (eth ?x) ?y" and ?z1 = "taught (host_ip 4) (eth ?y) ?z"
  have q1: "quiet_at (router_ip 4) ?x1" "quiet_at (host_ip 4) ?y1" "quiet_at (host_ip 7) ?z1" using q a by (simp_all add: taught_quiet)
  have k: "NI_ip2eth (AI_base ?x1) (host_ip 7) = None" "distinct [eth ?x1, eth ?z1, eth ?y1, ETHERNET_BROADCAST]"
    using new segment_ips by (auto simp: strangers_def taught_def)
  have d1: "dgram_ok d1" "IP_dst (DG_header d1) = host_ip 7" "\<not> IP_ttl (DG_header d1) \<le> 1"
    using arrived_ok [OF d(1) up(2)] up(2) d(2,3) by (simp_all add: arrived_def)
  obtain d' where down: "arrived (forwarded d1) d'" "simulate_rounds 3 db (net4 X Y (holding ?x1 d1) ?y1 ?z1)
      = Inr (net4 X Y (taught (host_ip 7) (eth ?z1) ?x1) (taught (router_ip 4) (eth ?x1) ?y1) (holding (taught (router_ip 4) (eth ?x1) ?z1) d'))"
    by (rule segment_down [OF calm q1 k d1])
  let ?x2 = "taught (host_ip 7) (eth ?z1) ?x1" and ?y2 = "taught (router_ip 4) (eth ?x1) ?y1" and ?z2 = "taught (router_ip 4) (eth ?x1) ?z1"
  have q2: "quiet_at (router_ip 4) ?x2" "quiet_at (host_ip 4) ?y2" "quiet_at (host_ip 7) ?z2" using q1 a by (simp_all add: taught_quiet)
  note fin = segment_settles [OF calm q2]
  have "net routes X (plug Y 4 (?y\<lparr>AI_base := yb\<rparr>)) = net4 X Y ?x (?y\<lparr>AI_base := yb\<rparr>) ?z" unfolding net4_def by (rule net_cong) auto
  then have "simulate_rounds 256 db (net routes X (plug Y 4 (?y\<lparr>AI_base := yb\<rparr>)))
      = Inr (net routes (X(4 := ?x2)) (plug (plug (plug Y 4 ?y2) 7 ?z2) 7 (holding (at_host (plug (plug Y 4 ?y2) 7 ?z2) 7) d')))"
    using rounds_then [OF up(3), of 256] rounds_then [OF down(2), of 253] fin(1) by (simp del: fun_upd_apply fun_upd_upd)
  moreover have "wire_bytes d' = wire_bytes (forwarded d)"
    using arrived_wire [OF forwarded_ok [OF d1(1)] down(1)] forwarded_wire [OF d(1) up(2)] by simp
  moreover have "serializes d'" by (rule wire_bytes_ok(1) [OF arrived_ok [OF forwarded_ok [OF d1(1)] down(1)]])
  ultimately show thesis using that [OF up(1) _ fin(2,3)] by blast
qed

lemma segment_passes:
  assumes db: "netdb_ok db" and rest: "at_rest X Y" and new: "strangers X Y" and a: "Address_ipv4_numeric a = Inr (host_ip 7)"
  obtains X' Y' where "test_delivery db rd (net routes X Y, g) ''dm42'' a ''dm43'' = Inr (net routes X' Y', snd (rd g))" "at_rest X' Y'"
proof -
  let ?d = "host_dgram (host_ip 4) (host_ip 7) (fst (rd g)) 64"
  let ?E = "Y(7 := Host_expect (Y 7) (lower_ttl ?d))"
  have calm: "calm X ?E" using rest by (simp add: at_rest_def calm_expect)
  have "strangers X ?E" using new by (simp add: strangers_def Host_expect_def)
  have "IP_dst (DG_header ?d) = host_ip 7" "IP_ttl (DG_header ?d) = 64" by (simp_all add: host_dgram_def Let_def)
  then have d: "dgram_ok ?d" "IP_dst (DG_header ?d) = host_ip 7" "\<not> IP_ttl (DG_header ?d) \<le> 1" by (simp_all add: word_le_nat_alt)
  obtain yb X' Y' d' where j: "send_datagram (AI_base (at_host ?E 4)) ?d (inet_address (hop_ip 4) 0) = Inr yb"
    "simulate_rounds 256 db (net routes X (plug ?E 4 ((at_host ?E 4)\<lparr>AI_base := yb\<rparr>))) = Inr (net routes X' (plug Y' 7 (holding (at_host Y' 7) d')))"
    "calm X' Y'" "touched {4, 7} X ?E X' Y'" "serializes d'" "wire_bytes d' = wire_bytes (forwarded ?d)"
    by (rule segment_journey [OF calm \<open>strangers X ?E\<close> d])
  have h: "(4 :: nat) \<in> hosts" "(7 :: nat) \<in> hosts" "(7 :: nat) \<noteq> 4" "(7 :: nat) \<in> {4, 7}" by (simp_all add: hosts_def)
  have n: "port_name 4 = ''dm42''" "port_name 7 = ''dm43''" by (simp_all add: port_name_def)
  show thesis by (rule test_concludes [where rd = rd and g = g, OF db rest h a j, unfolded n]) (rule that)
qed

end
