(* ===== verification/Simulator_Success.thy ===== *)
theory Simulator_Success
  imports Simulator_Segment
begin

text \<open>
  The whole of \<^verbatim>\<open>apps/network_simulator.cc\<close>: its network is set up as its constructor says, and its
  tests succeed one after the other.
\<close>

section \<open>Setting up the network\<close>

text \<open>What the program relies on: addresses in dotted notation resolve to what they say, and so does the address 0.\<close>

definition numeric_names :: "netdb \<Rightarrow> bool" where
  "numeric_names db \<longleftrightarrow> netdb_ok db \<and> inet_ntoa db = dotted \<and> Address_of_ip (getaddrinfo db) ''0'' 0 = Inr (inet_address 0 0)"

lemma resolves: "numeric_names db \<Longrightarrow> dotted (be_bytes ip) = s \<Longrightarrow> Address_of_ip (getaddrinfo db) s 0 = Inr (inet_address ip 0)"
  using netdb_address [of db ip 0] by (auto simp: numeric_names_def)

lemma digit_chars:
  "char_of (48 :: nat) = CHR 0x30" "char_of (49 :: nat) = CHR 0x31" "char_of (50 :: nat) = CHR 0x32" "char_of (51 :: nat) = CHR 0x33"
  "char_of (52 :: nat) = CHR 0x34" "char_of (53 :: nat) = CHR 0x35" "char_of (54 :: nat) = CHR 0x36" "char_of (55 :: nat) = CHR 0x37"
  "char_of (56 :: nat) = CHR 0x38" "char_of (57 :: nat) = CHR 0x39"
  by (simp_all add: char_of_def bit_0)

lemma dotted_names:
  "dotted (be_bytes (0xab434c2e :: u32)) = ''171.67.76.46''" "dotted (be_bytes (0x0a000001 :: u32)) = ''10.0.0.1''"
  "dotted (be_bytes (0xac100001 :: u32)) = ''172.16.0.1''" "dotted (be_bytes (0xc0a80001 :: u32)) = ''192.168.0.1''"
  "dotted (be_bytes (0xc6b2e501 :: u32)) = ''198.178.229.1''" "dotted (be_bytes (0x8fc30002 :: u32)) = ''143.195.0.2''"
  "dotted (be_bytes (0x801e4cff :: u32)) = ''128.30.76.255''" "dotted (be_bytes (0x0a000002 :: u32)) = ''10.0.0.2''"
  "dotted (be_bytes (0xab434c01 :: u32)) = ''171.67.76.1''" "dotted (be_bytes (0xc0a80002 :: u32)) = ''192.168.0.2''"
  "dotted (be_bytes (0x8fc30001 :: u32)) = ''143.195.0.1''" "dotted (be_bytes (0xc6b2e52a :: u32)) = ''198.178.229.42''"
  "dotted (be_bytes (0xc6b2e52b :: u32)) = ''198.178.229.43''" "dotted (be_bytes (0 :: u32)) = ''0.0.0.0''"
  "dotted (be_bytes (0x0a000000 :: u32)) = ''10.0.0.0''" "dotted (be_bytes (0xac100000 :: u32)) = ''172.16.0.0''"
  "dotted (be_bytes (0xc0a80000 :: u32)) = ''192.168.0.0''" "dotted (be_bytes (0xc6b2e500 :: u32)) = ''198.178.229.0''"
  "dotted (be_bytes (0x8fc30000 :: u32)) = ''143.195.0.0''" "dotted (be_bytes (0x8fc38000 :: u32)) = ''143.195.128.0''"
  "dotted (be_bytes (0x8fc3c000 :: u32)) = ''143.195.192.0''" "dotted (be_bytes (0x801e0001 :: u32)) = ''128.30.0.1''"
  "dotted (be_bytes (0x01020304 :: u32)) = ''1.2.3.4''" "dotted (be_bytes (0x8fc38311 :: u32)) = ''143.195.131.17''"
  "dotted (be_bytes (0x8fc3c134 :: u32)) = ''143.195.193.52''" "dotted (be_bytes (0x8fc3dfff :: u32)) = ''143.195.223.255''"
  "dotted (be_bytes (0x8fc3e000 :: u32)) = ''143.195.224.0''"
  by (simp_all add: dotted_def be_bytes_32 digits.simps digit_chars)

lemmas names_resolve = resolves [OF _ dotted_names(1)] resolves [OF _ dotted_names(2)] resolves [OF _ dotted_names(3)]
  resolves [OF _ dotted_names(4)] resolves [OF _ dotted_names(5)] resolves [OF _ dotted_names(6)] resolves [OF _ dotted_names(7)]
  resolves [OF _ dotted_names(8)] resolves [OF _ dotted_names(9)] resolves [OF _ dotted_names(10)] resolves [OF _ dotted_names(11)]
  resolves [OF _ dotted_names(12)] resolves [OF _ dotted_names(13)] resolves [OF _ dotted_names(14)] resolves [OF _ dotted_names(15)]
  resolves [OF _ dotted_names(16)] resolves [OF _ dotted_names(17)] resolves [OF _ dotted_names(18)] resolves [OF _ dotted_names(19)]
  resolves [OF _ dotted_names(20)] resolves [OF _ dotted_names(21)] resolves [OF _ dotted_names(22)] resolves [OF _ dotted_names(23)]
  resolves [OF _ dotted_names(24)] resolves [OF _ dotted_names(25)] resolves [OF _ dotted_names(26)] resolves [OF _ dotted_names(27)]

text \<open>The Ethernet addresses in the order in which they are drawn.\<close>

fun addresses :: "nat \<Rightarrow> ('g \<Rightarrow> EthernetAddress \<times> 'g) \<Rightarrow> 'g \<Rightarrow> EthernetAddress list \<times> 'g" where
  "addresses 0 new g = ([], g)" |
  "addresses (Suc n) new g = (let (e, g) = new g; (es, g) = addresses n new g in (e # es, g))"

definition port_interface :: "EthernetAddress list \<Rightarrow> nat \<Rightarrow> AsyncNetworkInterface" where
  "port_interface es p = AsyncNetworkInterface_of (NetworkInterface_new (es ! p) (inet_address (router_ip p) 0))"

definition host_order :: "nat \<Rightarrow> nat" where
  "host_order p = [1, 0, 0, 2, 4, 3, 0, 5] ! p"

definition port_host :: "EthernetAddress list \<Rightarrow> nat \<Rightarrow> Host" where
  "port_host es p = \<lparr>HO_name = port_name p, HO_my_address = inet_address (host_ip p) 0,
     HO_interface = AsyncNetworkInterface_of (NetworkInterface_new (es ! host_order p) (inet_address (host_ip p) 0)),
     HO_next_hop = inet_address (hop_ip p) 0, HO_expecting_to_receive = []\<rparr>"

lemma addresses_seven: "addresses 7 new g =
    (let (a, g) = new g; (b, g) = new g; (c, g) = new g; (d, g) = new g; (e, g) = new g; (f, g) = new g; (h, g) = new g in ([a, b, c, d, e, f, h], g))"
  by (simp add: eval_nat_numeral Let_def split_beta)

lemma addresses_six: "addresses 6 new g =
    (let (a, g) = new g; (b, g) = new g; (c, g) = new g; (d, g) = new g; (e, g) = new g; (f, g) = new g in ([a, b, c, d, e, f], g))"
  by (simp add: eval_nat_numeral Let_def split_beta)

lemma interfaces_new:
  assumes "numeric_names db" and "addresses 7 (random_router_ethernet_address rd) g = (es, g')"
  shows "Network_interfaces db rd g = Inr ((net [] (port_interface es) Y)\<lparr>NW_hosts := []\<rparr>, g')"
proof -
  have list: "map f [0..<7] = [f 0, f 1, f 2, f 3, f 4, f 5, f 6]" for f :: "nat \<Rightarrow> AsyncNetworkInterface"
    by (simp add: upt_rec) (simp add: eval_nat_numeral)
  show ?thesis
    using assms(2) names_resolve(1-7) [OF assms(1)]
    by (auto simp: Network_interfaces_def add_interface_def Router_add_interface_def Router_new_def net_def list Let_def split_beta
        addresses_seven port_interface_def router_ip_def)
qed

definition host_at :: "string \<Rightarrow> u32 \<Rightarrow> u32 \<Rightarrow> EthernetAddress \<Rightarrow> Host" where
  "host_at name ip hop e = \<lparr>HO_name = name, HO_my_address = inet_address ip 0,
     HO_interface = AsyncNetworkInterface_of (NetworkInterface_new e (inet_address ip 0)), HO_next_hop = inet_address hop 0, HO_expecting_to_receive = []\<rparr>"

lemma insert_host_eq:
  assumes "Address_of_ip (getaddrinfo db) my 0 = Inr (inet_address ip 0)" and "Address_of_ip (getaddrinfo db) next_hop 0 = Inr (inet_address hop 0)"
    and "random_host_ethernet_address rd g = (e, g')" and "name \<notin> fst ` set hs"
  shows "insert_host db rd g hs name my next_hop = Inr (hs @ [(name, host_at name ip hop e)], g')"
  using assms by (simp add: insert_host_def Host_new_def host_at_def map_of_eq_None_iff)

lemma port_hosts:
  "port_host es 1 = host_at ''applesauce'' 0x0a000002 0x0a000001 (es ! 0)" "port_host es 0 = host_at ''default_router'' 0xab434c01 0 (es ! 1)"
  "port_host es 3 = host_at ''cherrypie'' 0xc0a80002 0xc0a80001 (es ! 2)" "port_host es 5 = host_at ''hs_router'' 0x8fc30001 0 (es ! 3)"
  "port_host es 4 = host_at ''dm42'' 0xc6b2e52a 0xc6b2e501 (es ! 4)" "port_host es 7 = host_at ''dm43'' 0xc6b2e52b 0xc6b2e501 (es ! 5)"
  by (simp_all add: port_host_def host_at_def port_name_def host_ip_def hop_ip_def host_order_def)

lemma hosts_new:
  assumes db: "numeric_names db" and six: "addresses 6 (random_host_ethernet_address rd) g = (es, g')"
  shows "Network_insert_hosts db rd g ((net T X Y)\<lparr>NW_hosts := []\<rparr>) = Inr (net T X (port_host es), g')"
proof -
  have zero: "Address_of_ip (getaddrinfo db) ''0'' 0 = Inr (inet_address 0 0)" using db by (simp add: numeric_names_def)
  obtain a ga b gb c gc d gd e ge f where draws: "random_host_ethernet_address rd g = (a, ga)" "random_host_ethernet_address rd ga = (b, gb)"
    "random_host_ethernet_address rd gb = (c, gc)" "random_host_ethernet_address rd gc = (d, gd)" "random_host_ethernet_address rd gd = (e, ge)"
    "random_host_ethernet_address rd ge = (f, g')" "es = [a, b, c, d, e, f]"
    using six by (auto simp: addresses_six Let_def split: prod.splits)
  note names = names_resolve(2,4,5,8-13) [OF db] zero
  have "Network_insert_hosts db rd g ((net T X Y)\<lparr>NW_hosts := []\<rparr>) = Inr ((net T X Y)\<lparr>NW_hosts :=
      [(''applesauce'', host_at ''applesauce'' 0x0a000002 0x0a000001 a), (''default_router'', host_at ''default_router'' 0xab434c01 0 b),
       (''cherrypie'', host_at ''cherrypie'' 0xc0a80002 0xc0a80001 c), (''hs_router'', host_at ''hs_router'' 0x8fc30001 0 d),
       (''dm42'', host_at ''dm42'' 0xc6b2e52a 0xc6b2e501 e), (''dm43'', host_at ''dm43'' 0xc6b2e52b 0xc6b2e501 f)]\<rparr>, g')"
    unfolding Network_insert_hosts_def by (simp add: insert_host_eq names draws)
  then show ?thesis by (simp add: net_def port_hosts [unfolded One_nat_def] draws(7) port_name_def)
qed

lemma add_route_net:
  "ip_of db pfx = Inr p \<Longrightarrow> add_route db (net T X Y) pfx len hop i = Inr (net (T @ [route p len hop i]) X Y)"
  "ip_of db pfx = Inr p \<Longrightarrow> Network_host (net T X Y) name = Inr h
    \<Longrightarrow> add_route_via db (net T X Y) pfx len name i = Inr (net (T @ [route p len (Some (HO_my_address h)) i]) X Y)"
  by (simp_all add: add_route_def add_route_via_def) (simp_all add: net_def router_of_def Router_add_route_def route_def)

lemma routes_new:
  assumes db: "numeric_names db"
  shows "Network_add_routes db (net [] X (port_host es)) = Inr (net routes X (port_host es))"
proof -
  have nm: "named (port_host es)" by (auto simp: named_def port_host_def)
  have h: "Network_host (net T X (port_host es)) ''default_router'' = Inr (port_host es 0)"
    "Network_host (net T X (port_host es)) ''hs_router'' = Inr (port_host es 5)" for T
    using host_net [OF _ nm, of 0 T X] host_net [OF _ nm, of 5 T X] by (simp_all add: port_name_def)
  have ids: "default_id (net T X Y) = 0" "eth0_id (net T X Y) = 1" "eth1_id (net T X Y) = 2" "eth2_id (net T X Y) = 3"
    "uun3_id (net T X Y) = 4" "hs4_id (net T X Y) = 5" "mit5_id (net T X Y) = 6" for T Y by (simp_all add: net_def)
  have a: "HO_my_address (port_host es 0) = inet_address 0xab434c01 0" "HO_my_address (port_host es 5) = inet_address 0x8fc30001 0"
    by (simp_all add: port_host_def host_ip_def)
  show ?thesis
    using names_resolve(7,14-22) [OF db]
    by (simp add: Network_add_routes_def add_route_net h ip_of_def ids a routes_def)
qed

lemma Network_new_eq:
  assumes "numeric_names db" and "addresses 7 (random_router_ethernet_address rd) g = (es, g1)"
    and "addresses 6 (random_host_ethernet_address rd) g1 = (hs, g2)"
  shows "Network_new db rd g = Inr (net routes (port_interface es) (port_host hs), g2)"
  using interfaces_new [OF assms(1,2), of undefined] hosts_new [OF assms(1,3), of "[]" "port_interface es" undefined] routes_new [OF assms(1)]
  by (simp add: Network_new_def)

text \<open>Random addresses are Ethernet addresses, and never the broadcast address.\<close>

lemma length_draw [simp]: "length (fst (draw n rd g)) = n"
  by (induction n arbitrary: g) (simp_all add: Let_def split_beta)

lemma random_addresses:
  "address_ok (fst (random_router_ethernet_address rd g))" "address_ok (fst (random_host_ethernet_address rd g))"
  "fst (random_router_ethernet_address rd g) \<noteq> ETHERNET_BROADCAST" "fst (random_host_ethernet_address rd g) \<noteq> ETHERNET_BROADCAST"
proof -
  show "address_ok (fst (random_router_ethernet_address rd g))" "address_ok (fst (random_host_ethernet_address rd g))"
    by (simp_all add: random_router_ethernet_address_def random_host_ethernet_address_def address_ok_def Let_def split_beta)
  have "fst (random_router_ethernet_address rd g) ! 0 \<noteq> ETHERNET_BROADCAST ! 0"
    by (simp add: random_router_ethernet_address_def Let_def split_beta ETHERNET_BROADCAST_def)
  then show "fst (random_router_ethernet_address rd g) \<noteq> ETHERNET_BROADCAST" by auto
  have "\<not> bit (x AND 0xfe :: u8) 0" for x by (simp add: bit_and_iff)
  moreover have "bit (0xff :: u8) 0" by simp
  ultimately have "(x AND 0xfe :: u8) \<noteq> 0xff" for x by metis
  then have "fst (random_host_ethernet_address rd g) ! 0 \<noteq> ETHERNET_BROADCAST ! 0"
    by (simp add: random_host_ethernet_address_def Let_def split_beta ETHERNET_BROADCAST_def)
  then show "fst (random_host_ethernet_address rd g) \<noteq> ETHERNET_BROADCAST" by auto
qed

lemma addresses_all: "addresses n new g = (es, g') \<Longrightarrow> (\<And>g. P (fst (new g))) \<Longrightarrow> length es = n \<and> (\<forall>i < n. P (es ! i))"
proof (induction n arbitrary: g es)
  case (Suc n)
  obtain e g1 fs where e: "new g = (e, g1)" "addresses n new g1 = (fs, g')" "es = e # fs"
    using Suc.prems(1) by (auto simp: Let_def split: prod.splits)
  then show ?case using Suc.IH [OF e(2) Suc.prems(2)] Suc.prems(2) [of g] by (auto simp: nth_Cons split: nat.splits)
qed simp

lemma quiet_new: "address_ok e \<Longrightarrow> quiet_at ip (AsyncNetworkInterface_of (NetworkInterface_new e (inet_address ip 0)))"
  by (simp add: quiet_at_def NI_inv_new AsyncNetworkInterface_of_def) (simp add: NetworkInterface_new_def)

lemma start_at_rest:
  assumes "\<forall>i < 7. address_ok (es ! i)" and "\<forall>i < 6. address_ok (hs ! i)"
  shows "at_rest (port_interface es) (port_host hs)"
proof -
  have "host_order p < 6" if "p \<in> hosts" for p using that by (auto simp: hosts_def host_order_def)
  then have "host_ready p (port_host hs p)" if "p \<in> hosts" for p using that assms(2) by (simp add: host_ready_def port_host_def quiet_new)
  moreover have "quiet_at (router_ip p) (port_interface es p)" if "p < 7" for p using that assms(1) by (simp add: port_interface_def quiet_new)
  moreover have "knows (port_interface es p) k e" "knows (at_host (port_host hs) p) k e" for p k e
    by (simp_all add: knows_def port_interface_def port_host_def AsyncNetworkInterface_of_def NetworkInterface_new_def)
  ultimately show ?thesis by (simp add: at_rest_def calm_def resting_def port_host_def)
qed

text \<open>The Ethernet addresses on the cable with two hosts.\<close>

definition segment_addresses :: "Network \<Rightarrow> EthernetAddress list" where
  "segment_addresses w = eth (RT_interfaces (NW_router w) ! unat (uun3_id w))
     # map (\<lambda>name. eth (HO_interface (the (map_of (NW_hosts w) name)))) [''dm42'', ''dm43'']"

lemma segment_addresses_net: "segment_addresses (net T X Y) = [eth (X 4), eth (at_host Y 4), eth (at_host Y 7)]"
  by (simp add: segment_addresses_def net_def port_name_def)

lemma start_strangers:
  assumes "distinct (segment_addresses (net routes (port_interface es) (port_host hs)))"
    and "\<forall>i < 7. es ! i \<noteq> ETHERNET_BROADCAST" and "\<forall>i < 6. hs ! i \<noteq> ETHERNET_BROADCAST"
  shows "strangers (port_interface es) (port_host hs)"
proof -
  have "eth (port_interface es 4) = es ! 4" "eth (at_host (port_host hs) 4) = hs ! 4" "eth (at_host (port_host hs) 7) = hs ! 5"
    by (simp_all add: port_interface_def port_host_def AsyncNetworkInterface_of_def NetworkInterface_new_def host_order_def)
  moreover have "NI_ip2eth (AI_base (port_interface es 4)) = Map.empty" "NI_ip2eth (AI_base (at_host (port_host hs) 4)) = Map.empty"
    by (simp_all add: port_interface_def port_host_def AsyncNetworkInterface_of_def NetworkInterface_new_def)
  ultimately show ?thesis
    using assms(1) assms(2) [rule_format, of 4] assms(3) [rule_format, of 4] assms(3) [rule_format, of 5]
    by (simp add: strangers_def segment_addresses_net)
qed

section \<open>All tests\<close>

definition ends_in :: "((nat \<Rightarrow> AsyncNetworkInterface) \<Rightarrow> (nat \<Rightarrow> Host) \<Rightarrow> bool) \<Rightarrow> (Network \<times> 'g) result \<Rightarrow> bool" where
  "ends_in P r \<longleftrightarrow> (\<exists>X Y g. r = Inr (net routes X Y, g) \<and> P X Y)"

lemma ends_in_bind:
  assumes "ends_in P m" and "\<And>X Y g. P X Y \<Longrightarrow> ends_in Q (f (net routes X Y, g))"
  shows "ends_in Q (bindR m f)"
  using assms by (fastforce simp: ends_in_def)

definition before_segment :: "(nat \<Rightarrow> AsyncNetworkInterface) \<Rightarrow> (nat \<Rightarrow> Host) \<Rightarrow> bool" where
  "before_segment X Y \<longleftrightarrow> at_rest X Y \<and> strangers X Y"

lemma strangers_touched: "touched P X Y X' Y' \<Longrightarrow> 4 \<notin> P \<Longrightarrow> 7 \<notin> P \<Longrightarrow> strangers X Y \<Longrightarrow> strangers X' Y'"
  by (simp add: touched_def strangers_def)

lemma senders: "(1 :: nat) \<in> ports" "(3 :: nat) \<in> ports" "hop_ip 1 = router_ip 1" "hop_ip 3 = router_ip 3"
  by (simp_all add: ports_def hop_ip_def router_ip_def)

lemma delivery_ends:
  assumes db: "numeric_names db" and X: "before_segment X Y" and p: "p \<in> ports" "hop_ip p = router_ip p" and q: "q \<in> ports" "q \<noteq> p"
    and a: "Address_ipv4_numeric a = Inr dst" "routed_to dst q"
  shows "ends_in before_segment (test_delivery db rd (net routes X Y, g) (port_name p) a (port_name q))"
proof -
  have ok: "netdb_ok db" "at_rest X Y" using db X by (simp_all add: numeric_names_def before_segment_def)
  obtain X' Y' where "test_delivery db rd (net routes X Y, g) (port_name p) a (port_name q) = Inr (net routes X' Y', snd (rd g))"
    "at_rest X' Y'" "touched {p, q} X Y X' Y'"
    by (rule delivery_passes [OF ok p q a])
  moreover have "4 \<notin> {p, q}" "7 \<notin> {p, q}" using p(1) q(1) by (auto simp: ports_def)
  ultimately show ?thesis using X strangers_touched [of "{p, q}" X Y X' Y'] by (auto simp: ends_in_def before_segment_def)
qed

lemma host_test_ends:
  assumes "numeric_names db" and X: "before_segment X Y" and "p \<in> ports" "hop_ip p = router_ip p" and "q \<in> ports" "q \<noteq> p" and "routed_to (host_ip q) q"
  shows "ends_in before_segment (test_to_host db rd (net routes X Y, g) (port_name p) (port_name q))"
proof -
  have calm: "calm X Y" using X by (simp add: before_segment_def at_rest_def)
  have q: "q \<in> hosts" "q \<in> {0, 1, 3, 4, 5, 7}" using assms(5) by (auto simp: ports_def hosts_def)
  have "HO_my_address (Y q) = inet_address (host_ip q) 0" using calm q(1) by (simp add: calm_def host_ready_def)
  then show ?thesis
    using delivery_ends [OF assms(1-6) _ assms(7), of "inet_address (host_ip q) 0" rd g]
    by (simp add: test_to_host_def host_net [OF q(2) calm_named [OF calm]])
qed

lemma address_test_ends:
  assumes "numeric_names db" and "before_segment X Y" and "p \<in> ports" "hop_ip p = router_ip p" and "q \<in> ports" "q \<noteq> p"
    and "Address_of_ip (getaddrinfo db) address 0 = Inr (inet_address dst 0)" and "routed_to dst q"
  shows "ends_in before_segment (test_to_address db rd (net routes X Y, g) (port_name p) address (port_name q))"
  using delivery_ends [OF assms(1-6) _ assms(8), of "inet_address dst 0" rd g] assms(7) by (simp add: test_to_address_def)

lemma segment_test_ends:
  assumes db: "numeric_names db" and X: "before_segment X Y"
  shows "ends_in at_rest (test_to_host db rd (net routes X Y, g) ''dm42'' ''dm43'')"
proof -
  have ok: "netdb_ok db" "at_rest X Y" "strangers X Y" using db X by (simp_all add: numeric_names_def before_segment_def)
  have calm: "calm X Y" using ok(2) by (simp add: at_rest_def)
  have a: "HO_my_address (Y 7) = inet_address (host_ip 7) 0" using calm by (simp add: calm_def host_ready_def hosts_def)
  have h: "Network_host (net routes X Y) ''dm43'' = Inr (Y 7)"
    using host_net [OF _ calm_named [OF calm], of 7 routes X] by (simp add: port_name_def)
  obtain X' Y' where "test_delivery db rd (net routes X Y, g) ''dm42'' (inet_address (host_ip 7) 0) ''dm43'' = Inr (net routes X' Y', snd (rd g))" "at_rest X' Y'"
    by (rule segment_passes [OF ok, of "inet_address (host_ip 7) 0"]) simp_all
  then show ?thesis by (auto simp: ends_in_def test_to_host_def h a)
qed

lemma expiry_ends:
  assumes db: "numeric_names db" and X: "at_rest X Y" and ttl: "ttl \<le> 1"
  shows "ends_in at_rest (test_expires db rd (net routes X Y, g) ''applesauce'' ''1.2.3.4'' ttl)"
proof -
  have ok: "netdb_ok db" using db by (simp add: numeric_names_def)
  have n: "port_name 1 = ''applesauce''" by (simp add: port_name_def)
  obtain X' Y' where "test_expires db rd (net routes X Y, g) (port_name 1) ''1.2.3.4'' ttl = Inr (net routes X' Y', snd (rd g))" "at_rest X' Y'"
    by (rule expiry_passes [OF ok X senders(1,3) names_resolve(23) [OF db] inet_address_numeric ttl])
  then show ?thesis unfolding n ends_in_def by blast
qed

lemma tests_succeed:
  assumes db: "numeric_names db" and "Network_new db rd g = Inr (net routes X Y, g1)" and X: "before_segment X Y"
  shows "ends_in at_rest (network_simulator db rd g)"
proof -
  have n: "port_name 0 = ''default_router''" "port_name 1 = ''applesauce''" "port_name 3 = ''cherrypie''" "port_name 5 = ''hs_router''"
    by (simp_all add: port_name_def)
  have p: "(0 :: nat) \<in> ports" "(5 :: nat) \<in> ports" "routed_to (host_ip 3) 3" "routed_to (host_ip 1) 1"
    using scan_routes by (simp_all add: ports_def host_ip_def)
  have ne: "(3 :: nat) \<noteq> 1" "(1 :: nat) \<noteq> 3" "(0 :: nat) \<noteq> 1" "(5 :: nat) \<noteq> 1" "(5 :: nat) \<noteq> 3" "(0 :: nat) \<noteq> 3" by simp_all
  note names = names_resolve(23-27) [OF db]
  note tests = host_test_ends [OF db _ senders(1,3,2) ne(1) p(3), unfolded n] host_test_ends [OF db _ senders(2,4,1) ne(2) p(4), unfolded n]
    address_test_ends [OF db _ senders(1,3) p(1) ne(3) names(1) scan_routes(3), unfolded n]
    address_test_ends [OF db _ senders(1,3) p(2) ne(4) names(2) scan_routes(4), unfolded n]
    address_test_ends [OF db _ senders(2,4) p(2) ne(5) names(3) scan_routes(5), unfolded n]
    address_test_ends [OF db _ senders(2,4) p(2) ne(5) names(4) scan_routes(6), unfolded n]
    address_test_ends [OF db _ senders(2,4) p(1) ne(6) names(5) scan_routes(7), unfolded n]
    segment_test_ends [OF db] expiry_ends [OF db]
  have "ends_in before_segment (Network_new db rd g)" using assms(2) X unfolding ends_in_def by blast
  then show ?thesis
    unfolding network_simulator_def by (rule ends_in_bind) (rule ends_in_bind tests order.refl word_coorder.extremum | assumption)+
qed

text \<open>An instance: name functions that also know the address 0, and a generator that counts.\<close>

definition simulator_netdb :: netdb where
  "simulator_netdb = example_netdb\<lparr>getaddrinfo := (\<lambda>node. getaddrinfo example_netdb (if node = ''0'' then ''0.0.0.0'' else node))\<rparr>"

definition counter :: "u32 generator" where
  "counter g = (g, g + 1)"

lemma simulator_netdb_ok: "numeric_names simulator_netdb"
proof -
  have ok: "netdb_ok example_netdb" by (rule example_netdb_ok)
  have "dotted (be_bytes ip) \<noteq> ''0''" for ip :: u32
  proof
    assume "dotted (be_bytes ip) = ''0''"
    moreover have "CHR 0x2e \<in> set (dotted (be_bytes ip))" by (simp add: dotted_def be_bytes_32)
    ultimately show False by simp
  qed
  then have db: "netdb_ok simulator_netdb" using ok by (simp add: netdb_ok_def simulator_netdb_def example_netdb_def)
  have "getaddrinfo example_netdb (dotted (be_bytes (0 :: u32))) (digits (unat (0 :: u16))) (make_hints (AI_NUMERICHOST + AI_NUMERICSERV) AF_INET)
      = (0, Some (sockaddr_in 0 0, 16))"
    using ok [unfolded netdb_ok_def, rule_format, of 0 0] by (simp add: example_netdb_def)
  then have "Address_of_ip (getaddrinfo simulator_netdb) ''0'' 0 = Inr (inet_address 0 0)"
    by (simp add: dotted_names(14) Address_of_ip_def Address_resolve_def Address_of_sockaddr_def sizeof_sockaddr_storage_def inet_address_def simulator_netdb_def)
  then show ?thesis using db by (simp add: numeric_names_def) (simp add: simulator_netdb_def example_netdb_def)
qed

section \<open>Properties\<close>

text \<open>C9: the network simulator sets up its network, and if the three interfaces on its cable with two hosts have
  different Ethernet addresses then all its tests succeed: every datagram reaches the host that the routing table
  says, with its time to live reduced by one, no other host receives anything, and a datagram whose time to live is
  used up is dropped.\<close>

theorem network_simulator_succeeds:
  assumes "numeric_names db"
  shows "\<exists>w g1. Network_new db rd g = Inr (w, g1)
    \<and> (distinct (segment_addresses w) \<longrightarrow> (\<exists>w' g2. network_simulator db rd g = Inr (w', g2)))"
proof -
  obtain es g1 hs g2 where draw: "addresses 7 (random_router_ethernet_address rd) g = (es, g1)" "addresses 6 (random_host_ethernet_address rd) g1 = (hs, g2)"
    by (meson surj_pair)
  note new = Network_new_eq [OF assms draw]
  have es: "\<forall>i < 7. address_ok (es ! i) \<and> es ! i \<noteq> ETHERNET_BROADCAST" 
    using addresses_all [where P = "\<lambda>e. address_ok e \<and> e \<noteq> ETHERNET_BROADCAST", OF draw(1)] by (simp add: random_addresses)
  have hs: "\<forall>i < 6. address_ok (hs ! i) \<and> hs ! i \<noteq> ETHERNET_BROADCAST" 
    using addresses_all [where P = "\<lambda>e. address_ok e \<and> e \<noteq> ETHERNET_BROADCAST", OF draw(2)] by (simp add: random_addresses)
  have "\<exists>w' g'. network_simulator db rd g = Inr (w', g')" if "distinct (segment_addresses (net routes (port_interface es) (port_host hs)))"
  proof -
    have "before_segment (port_interface es) (port_host hs)"
      using es hs start_at_rest [of es hs] start_strangers [OF that] by (simp add: before_segment_def)
    from tests_succeed [OF assms new this] show ?thesis by (auto simp: ends_in_def)
  qed
  then show ?thesis using new by blast
qed

theorem network_simulator_succeeds_witness:
  "numeric_names simulator_netdb \<and> (\<exists>w g. network_simulator simulator_netdb counter 0 = Inr (w, g))"
proof -
  obtain w g1 where w: "Network_new simulator_netdb counter 0 = Inr (w, g1)"
    "distinct (segment_addresses w) \<longrightarrow> (\<exists>w' g2. network_simulator simulator_netdb counter 0 = Inr (w', g2))"
    using network_simulator_succeeds [OF simulator_netdb_ok, of counter 0] by blast
  obtain es g2 hs g3 where draw: "addresses 7 (random_router_ethernet_address counter) 0 = (es, g2)" "addresses 6 (random_host_ethernet_address counter) g2 = (hs, g3)"
    by (meson surj_pair)
  have "draw 6 counter g = ([g, g + 1, g + 2, g + 3, g + 4, g + 5], g + 6)" for g
    by (simp add: eval_nat_numeral(3) numeral_eq_Suc counter_def Let_def add.assoc)
  then have e: "es ! 4 = [2, 0, 0, 27, 28, 29]" "hs ! 4 = [66, 67, 68, 69, 70, 71]" "hs ! 5 = [74, 73, 74, 75, 76, 77]"
    using draw by (auto simp: addresses_seven addresses_six random_router_ethernet_address_def random_host_ethernet_address_def Let_def)
  have "w = net routes (port_interface es) (port_host hs)" using w(1) Network_new_eq [OF simulator_netdb_ok draw] by simp
  then have "distinct (segment_addresses w)"
    by (simp add: segment_addresses_net port_interface_def port_host_def AsyncNetworkInterface_of_def NetworkInterface_new_def host_order_def e)
  then show ?thesis using w(2) simulator_netdb_ok by blast
qed

end
