(* ===== verification/Event_Loop.thy ===== *)
theory Event_Loop
  imports File_Descriptor "HOL-Library.Sublist"
begin

text \<open>
  The event loop, from \<^verbatim>\<open>util/eventloop\<close>: rules that tie a descriptor and a direction to
  callbacks, and one round of waiting for events. The callbacks are functions on the state \<open>'e\<close> of
  everything they capture; a rule reaches its descriptor in that state, so that the duplicates of a
  descriptor are one wrapper. The call of \<^verbatim>\<open>poll(2)\<close> is an argument. Shown here: what a
  round cancels and what it keeps, that a rule which is served makes progress, and what becomes of a
  failed poll.
\<close>

unbundle bit_operations_syntax

section \<open>Rules\<close>

datatype Direction = DirIn | DirOut

definition POLLIN :: u16 where "POLLIN = 1"
definition POLLOUT :: u16 where "POLLOUT = 4"
definition POLLERR :: u16 where "POLLERR = 8"
definition POLLHUP :: u16 where "POLLHUP = 16"
definition POLLNVAL :: u16 where "POLLNVAL = 32"
definition EINTR :: int where "EINTR = 4"

fun Direction_value :: "Direction \<Rightarrow> u16" where
  "Direction_value DirIn = POLLIN" |
  "Direction_value DirOut = POLLOUT"

record 'e Rule =
  RL_fd :: "'e \<Rightarrow> FDWrapper"
  RL_direction :: Direction
  RL_callback :: "'e \<Rightarrow> 'e result"
  RL_interest :: "'e \<Rightarrow> bool result"
  RL_cancel :: "'e \<Rightarrow> 'e result"

definition Rule_service_count :: "'e Rule \<Rightarrow> 'e \<Rightarrow> u32" where
  "Rule_service_count r e = (if RL_direction r = DirIn then FD_read_count (RL_fd r e) else FD_write_count (RL_fd r e))"

record 'e EventLoop =
  EL_rules :: "'e Rule list"

datatype Result = Success | Timeout | Exit

definition EventLoop_new :: "'e EventLoop" where
  "EventLoop_new = \<lparr>EL_rules = []\<rparr>"

definition EventLoop_add_rule ::
    "'e EventLoop \<Rightarrow> ('e \<Rightarrow> FDWrapper) \<Rightarrow> Direction \<Rightarrow> ('e \<Rightarrow> 'e result) \<Rightarrow> ('e \<Rightarrow> bool result) \<Rightarrow> ('e \<Rightarrow> 'e result) \<Rightarrow> 'e EventLoop" where
  "EventLoop_add_rule l fd direction callback interest cancel =
     l\<lparr>EL_rules := EL_rules l @ [\<lparr>RL_fd = fd, RL_direction = direction, RL_callback = callback, RL_interest = interest, RL_cancel = cancel\<rparr>]\<rparr>"

text \<open>The default arguments of \<open>add_rule\<close>.\<close>

definition default_interest :: "'e \<Rightarrow> bool result" where
  "default_interest e = Inr True"

definition default_cancel :: "'e \<Rightarrow> 'e result" where
  "default_cancel e = Inr e"

section \<open>Waiting for events\<close>

record pollfd =
  PF_fd :: int
  PF_events :: u16
  PF_revents :: u16

text \<open>The first loop: rules at the end of their input and of closed descriptors are cancelled, the others polled.\<close>

fun setup_rules :: "'e Rule list \<Rightarrow> 'e \<Rightarrow> ('e Rule list \<times> pollfd list \<times> bool \<times> 'e) result" where
  "setup_rules [] e = Inr ([], [], False, e)" |
  "setup_rules (r # rs) e =
     (if RL_direction r = DirIn \<and> FD_eof (RL_fd r e) then bindR (RL_cancel r e) (setup_rules rs)
      else if FD_closed (RL_fd r e) then bindR (RL_cancel r e) (setup_rules rs)
      else bindR (RL_interest r e) (\<lambda>interested.
           let p = \<lparr>PF_fd = FD_fd (RL_fd r e), PF_events = (if interested then Direction_value (RL_direction r) else 0), PF_revents = 0\<rparr>
           in bindR (setup_rules rs e) (\<lambda>(kept, pollfds, something_to_poll, e).
              Inr (r # kept, p # pollfds, interested \<or> something_to_poll, e))))"

text \<open>The second loop: hangups cancel, ready rules are called, and a callback that neither serves its
  descriptor nor loses interest is reported.\<close>

definition busy_wait :: cpp_error where
  "busy_wait = RuntimeError ''EventLoop: busy wait detected: callback did not read/write fd and is still interested''"

definition serve_ready :: "'e Rule \<Rightarrow> 'e \<Rightarrow> 'e result" where
  "serve_ready r e =
     (let count_before = Rule_service_count r e
      in bindR (RL_callback r e) (\<lambda>e.
         bindR (if count_before = Rule_service_count r e then RL_interest r e else Inr False) (\<lambda>busy.
         if busy then Inl busy_wait else Inr e)))"

fun serve_rules :: "'e Rule list \<Rightarrow> pollfd list \<Rightarrow> 'e \<Rightarrow> ('e Rule list \<times> 'e) result" where
  "serve_rules [] pollfds e = Inr ([], e)" |
  "serve_rules (r # rs) [] e = Inl OutOfBounds" |
  "serve_rules (r # rs) (this_pollfd # pollfds) e =
     (if PF_revents this_pollfd AND (POLLERR OR POLLNVAL) \<noteq> 0
      then Inl (RuntimeError ''EventLoop: error on polled file descriptor'')
      else let poll_ready = (PF_revents this_pollfd AND PF_events this_pollfd \<noteq> 0);
               poll_hup = (PF_revents this_pollfd AND POLLHUP \<noteq> 0)
           in if poll_hup \<and> PF_events this_pollfd \<noteq> 0 \<and> \<not> poll_ready
              then bindR (RL_cancel r e) (serve_rules rs pollfds)
              else bindR (if poll_ready then serve_ready r e else Inr e) (\<lambda>e.
                   bindR (serve_rules rs pollfds e) (\<lambda>(kept, e). Inr (r # kept, e))))"

text \<open>\<^verbatim>\<open>poll(2)\<close> gives its return value, \<^verbatim>\<open>errno\<close>, the descriptors with the
  events it found, and the state in which it returns.\<close>

type_synonym 'e sys_poll = "'e \<Rightarrow> pollfd list \<Rightarrow> int \<Rightarrow> int \<times> int \<times> pollfd list \<times> 'e"

definition EventLoop_wait_next_event :: "'e sys_poll \<Rightarrow> 'e EventLoop \<Rightarrow> int \<Rightarrow> 'e \<Rightarrow> (Result \<times> 'e EventLoop \<times> 'e) result" where
  "EventLoop_wait_next_event sys_poll l timeout_ms e =
     bindR (setup_rules (EL_rules l) e) (\<lambda>(rules, pollfds, something_to_poll, e).
     if \<not> something_to_poll then Inr (Exit, l\<lparr>EL_rules := rules\<rparr>, e)
     else let (ret, errno, pollfds, e) = sys_poll e pollfds timeout_ms;
              serve = bindR (serve_rules rules pollfds e) (\<lambda>(rules, e). Inr (Success, l\<lparr>EL_rules := rules\<rparr>, e))
          in case SystemCall ''poll'' ret errno 0 of
               Inr n \<Rightarrow> if n = 0 then Inr (Timeout, l\<lparr>EL_rules := rules\<rparr>, e) else serve
             | Inl _ \<Rightarrow> if errno = EINTR then Inr (Exit, l\<lparr>EL_rules := rules\<rparr>, e) else serve)"

section \<open>The contract of a rule\<close>

text \<open>One pass over the polled rules without the detection of busy waits, for reference.\<close>

fun serve_plain :: "'e Rule list \<Rightarrow> pollfd list \<Rightarrow> 'e \<Rightarrow> ('e Rule list \<times> 'e) result" where
  "serve_plain [] pollfds e = Inr ([], e)" |
  "serve_plain (r # rs) [] e = Inl OutOfBounds" |
  "serve_plain (r # rs) (p # ps) e =
     (if PF_revents p AND (POLLERR OR POLLNVAL) \<noteq> 0 then Inl (RuntimeError ''EventLoop: error on polled file descriptor'')
      else if PF_revents p AND PF_events p \<noteq> 0
      then bindR (RL_callback r e) (\<lambda>e. bindR (serve_plain rs ps e) (\<lambda>(kept, e). Inr (r # kept, e)))
      else if PF_revents p AND POLLHUP \<noteq> 0 \<and> PF_events p \<noteq> 0 then bindR (RL_cancel r e) (serve_plain rs ps)
      else bindR (serve_plain rs ps e) (\<lambda>(kept, e). Inr (r # kept, e)))"

text \<open>
  The documentation asks that a callback reads or writes its descriptor, or that the rule loses its
  interest. That is what the provider of the rules promises.
\<close>

locale progressing =
  fixes rules :: "'e Rule list"
  assumes progress: "r \<in> set rules \<Longrightarrow> RL_callback r e = Inr e' \<Longrightarrow>
      Rule_service_count r e' \<noteq> Rule_service_count r e \<or> RL_interest r e' = Inr False"
begin

lemma serve_ready_eq:
  assumes "r \<in> set rules"
  shows "serve_ready r e = RL_callback r e"
  using progress [OF assms, of e] by (cases "RL_callback r e") (auto simp: serve_ready_def Let_def)

lemma serve_eq: "set rs \<subseteq> set rules \<Longrightarrow> serve_rules rs ps e = serve_plain rs ps e"
  by (induction rs ps e rule: serve_plain.induct) (auto simp: Let_def serve_ready_eq intro!: bindR_cong)

end

text \<open>What the first loop keeps.\<close>

lemma setup_subseq:
  "setup_rules rs e = Inr (kept, ps, b, e') \<Longrightarrow> subseq kept rs \<and> length ps = length kept"
proof (induction rs arbitrary: e kept ps b e')
  case (Cons r rs)
  show ?case
  proof (cases "RL_direction r = DirIn \<and> FD_eof (RL_fd r e) \<or> FD_closed (RL_fd r e)")
    case True
    then have "\<exists>e1. setup_rules rs e1 = Inr (kept, ps, b, e')"
      using Cons.prems by (auto simp: bindR_eq_Inr_iff split: if_splits)
    then show ?thesis using Cons.IH by (meson list_emb_Cons)
  next
    case False
    then obtain p b0 where "bindR (setup_rules rs e) (\<lambda>(kept, ps, b, e). Inr (r # kept, p # ps, b0 \<or> b, e)) = Inr (kept, ps, b, e')"
      using Cons.prems by (cases "RL_interest r e") (auto simp: Let_def)
    then obtain v where v: "setup_rules rs e = Inr v" "(case v of (kept, ps, b, e) \<Rightarrow> (r # kept, p # ps, b0 \<or> b, e)) = (kept, ps, b, e')"
      by (cases "setup_rules rs e") (auto split: prod.splits)
    obtain kept' ps' b' where "v = (kept', ps', b', e')" "kept = r # kept'" "length ps = Suc (length ps')"
      using v(2) by (cases v) auto
    with v(1) have "setup_rules rs e = Inr (kept', ps', b', e')" "kept = r # kept'" "length ps = Suc (length ps')" by simp_all
    then show ?thesis using Cons.IH by auto
  qed
qed simp

lemma serve_nothing:
  "length ps = length rs \<Longrightarrow> list_all (\<lambda>p. PF_revents p = 0) ps \<Longrightarrow> serve_rules rs ps e = Inr (rs, e)"
proof (induction rs arbitrary: ps)
  case (Cons r rs)
  then show ?case by (cases ps) auto
qed simp

section \<open>Rules that keep an invariant\<close>

text \<open>A rule whose descriptor is open, and not at its end when the rule reads.\<close>

definition open_for :: "'e Rule \<Rightarrow> 'e \<Rightarrow> bool" where
  "open_for r e \<longleftrightarrow> \<not> (RL_direction r = DirIn \<and> FD_eof (RL_fd r e)) \<and> \<not> FD_closed (RL_fd r e)"

definition poll_error :: cpp_error where
  "poll_error = RuntimeError ''EventLoop: error on polled file descriptor''"

definition no_hangup :: "pollfd \<Rightarrow> bool" where
  "no_hangup p \<longleftrightarrow> (PF_revents p AND POLLHUP \<noteq> 0 \<and> PF_events p \<noteq> 0 \<longrightarrow> PF_revents p AND PF_events p \<noteq> 0)"

text \<open>What a pass over the polled rules may give.\<close>

definition served_from ::
    "'e Rule list \<Rightarrow> ('e \<Rightarrow> bool) \<Rightarrow> (cpp_error \<Rightarrow> bool) \<Rightarrow> 'e \<Rightarrow> 'e Rule list \<Rightarrow> ('e Rule list \<times> 'e) result \<Rightarrow> bool" where
  "served_from rules I harmless e rs res \<longleftrightarrow> (case res of
     Inl x \<Rightarrow> harmless x \<or> x = poll_error
   | Inr (kept, e') \<Rightarrow> kept = rs \<and> I e' \<and> (\<forall>r \<in> set rules. open_for r e' \<longrightarrow> open_for r e))"

text \<open>The rules missing from a loop are at their end; and what a call of poll may do.\<close>

definition rules_left :: "'e Rule list \<Rightarrow> ('e \<Rightarrow> bool) \<Rightarrow> 'e EventLoop \<Rightarrow> 'e \<Rightarrow> bool" where
  "rules_left rules I l e \<longleftrightarrow> I e \<and> set (EL_rules l) \<subseteq> set rules \<and> distinct (EL_rules l)
     \<and> (\<forall>r \<in> set rules. open_for r e \<longrightarrow> r \<in> set (EL_rules l))"

definition poll_ok :: "'e Rule list \<Rightarrow> ('e \<Rightarrow> bool) \<Rightarrow> 'e sys_poll \<Rightarrow> bool" where
  "poll_ok rules I sys_poll \<longleftrightarrow> (\<forall>e ps t ret errno ps' e'. sys_poll e ps t = (ret, errno, ps', e') \<longrightarrow>
     errno \<noteq> EINTR \<and> length ps' = length ps \<and> list_all no_hangup ps' \<and> (I e \<longrightarrow> I e')
     \<and> (\<forall>r \<in> set rules. open_for r e' \<longleftrightarrow> open_for r e))"

text \<open>
  A contract for the rules of a program: their callbacks keep an invariant and throw harmless exceptions
  only, a callback reaches the end of its own descriptor at most, an end is final, and cancelling a rule at
  its end changes nothing any more.
\<close>

locale orderly = progressing rules for rules :: "'e Rule list" +
  fixes I :: "'e \<Rightarrow> bool" and harmless :: "cpp_error \<Rightarrow> bool"
  assumes distinct_rules: "distinct rules"
    and interest_total: "I e \<Longrightarrow> r \<in> set rules \<Longrightarrow> \<exists>b. RL_interest r e = Inr b"
    and cancel_idle: "I e \<Longrightarrow> r \<in> set rules \<Longrightarrow> \<not> open_for r e \<Longrightarrow> RL_cancel r e = Inr e"
    and callback_keeps: "I e \<Longrightarrow> r \<in> set rules \<Longrightarrow> open_for r e \<Longrightarrow> RL_callback r e = Inr e' \<Longrightarrow> I e'"
    and callback_final: "I e \<Longrightarrow> r \<in> set rules \<Longrightarrow> open_for r e \<Longrightarrow> RL_callback r e = Inr e'
      \<Longrightarrow> r' \<in> set rules \<Longrightarrow> open_for r' e' \<Longrightarrow> open_for r' e"
    and callback_own: "I e \<Longrightarrow> r \<in> set rules \<Longrightarrow> open_for r e \<Longrightarrow> RL_callback r e = Inr e'
      \<Longrightarrow> r' \<in> set rules \<Longrightarrow> r' \<noteq> r \<Longrightarrow> open_for r' e \<Longrightarrow> open_for r' e'"
    and callback_throws: "I e \<Longrightarrow> r \<in> set rules \<Longrightarrow> open_for r e \<Longrightarrow> RL_callback r e = Inl x \<Longrightarrow> harmless x"
begin

text \<open>The first loop drops the rules at their end and does nothing else.\<close>

lemma setup_eq:
  assumes "I e" and "set rs \<subseteq> set rules"
  shows "\<exists>ps b. setup_rules rs e = Inr (filter (\<lambda>r. open_for r e) rs, ps, b, e) \<and> length ps = length (filter (\<lambda>r. open_for r e) rs)
    \<and> (b \<longleftrightarrow> (\<exists>r \<in> set rs. open_for r e \<and> RL_interest r e = Inr True))"
  using assms(2)
proof (induction rs)
  case (Cons r rs)
  then obtain ps b where rest: "setup_rules rs e = Inr (filter (\<lambda>r. open_for r e) rs, ps, b, e)"
    "length ps = length (filter (\<lambda>r. open_for r e) rs)" "b \<longleftrightarrow> (\<exists>r \<in> set rs. open_for r e \<and> RL_interest r e = Inr True)" by auto
  show ?case
  proof (cases "open_for r e")
    case True
    obtain i where i: "RL_interest r e = Inr i" using interest_total [OF assms(1), of r] Cons.prems by auto
    have go: "\<not> (RL_direction r = DirIn \<and> FD_eof (RL_fd r e))" "\<not> FD_closed (RL_fd r e)" using True by (simp_all add: open_for_def)
    show ?thesis using True go i rest by (auto simp: Let_def)
  next
    case False
    then have "RL_cancel r e = Inr e" using cancel_idle [OF assms(1)] Cons.prems by simp
    then show ?thesis using False rest by (auto simp: open_for_def)
  qed
qed (intro exI [of _ "[]"] exI [of _ False], simp)

text \<open>The second loop keeps the rules and the invariant.\<close>

lemma serve_keeps:
  assumes "I e" and "set rs \<subseteq> set rules" and "distinct rs" and "\<forall>r \<in> set rs. open_for r e"
    and "length ps = length rs" and "list_all no_hangup ps"
  shows "served_from rules I harmless e rs (serve_plain rs ps e)"
  using assms
proof (induction rs ps e rule: serve_plain.induct)
  case (3 r rs p ps e)
  note prems = "3.prems"
  have r: "r \<in> set rules" "open_for r e" using prems by simp_all
  have later: "served_from rules I harmless e (r # rs) (bindR (serve_plain rs ps e1) (\<lambda>(kept, e). Inr (r # kept, e)))"
    if "served_from rules I harmless e1 rs (serve_plain rs ps e1)" and "\<forall>r \<in> set rules. open_for r e1 \<longrightarrow> open_for r e" for e1
    using that by (cases "serve_plain rs ps e1") (auto simp: served_from_def)
  consider (bad) "PF_revents p AND (POLLERR OR POLLNVAL) \<noteq> 0"
    | (ready) "PF_revents p AND (POLLERR OR POLLNVAL) = 0" "PF_revents p AND PF_events p \<noteq> 0"
    | (idle) "PF_revents p AND (POLLERR OR POLLNVAL) = 0" "PF_revents p AND PF_events p = 0" by blast
  then show ?case
  proof cases
    case bad
    then show ?thesis by (simp add: served_from_def poll_error_def)
  next
    case ready
    show ?thesis
    proof (cases "RL_callback r e")
      case (Inl x)
      then show ?thesis using ready callback_throws [OF prems(1) r Inl] by (simp add: served_from_def)
    next
      case (Inr e1)
      have "\<forall>r' \<in> set rs. open_for r' e1"
        using callback_own [OF prems(1) r Inr] prems(2-4) by auto
      then have "served_from rules I harmless e1 rs (serve_plain rs ps e1)"
        using "3.IH"(1) [of e1] callback_keeps [OF prems(1) r Inr] ready Inr prems by simp
      then show ?thesis using later [of e1] callback_final [OF prems(1) r Inr] ready Inr by simp
    qed
  next
    case idle
    then have "\<not> (PF_revents p AND POLLHUP \<noteq> 0 \<and> PF_events p \<noteq> 0)" using prems(6) by (auto simp: no_hangup_def)
    moreover have "served_from rules I harmless e rs (serve_plain rs ps e)" using "3.IH"(3) idle calculation prems by simp
    ultimately show ?thesis using later [of e] idle by auto
  qed
qed (simp_all add: served_from_def)

text \<open>A round throws nothing of its own; it keeps the invariant and drops rules at their end only; and it asks
  to leave only when no open rule is interested.\<close>

lemma wait_keeps:
  assumes "rules_left rules I l e" and "poll_ok rules I sys_poll"
  shows "case EventLoop_wait_next_event sys_poll l t e of
      Inl x \<Rightarrow> harmless x \<or> x = poll_error
    | Inr (ret, l', e') \<Rightarrow> rules_left rules I l' e'
        \<and> (ret = Exit \<longrightarrow> (\<forall>r \<in> set rules. open_for r e' \<longrightarrow> RL_interest r e' = Inr False))"
proof -
  have I: "I e" and sub: "set (EL_rules l) \<subseteq> set rules" using assms(1) by (simp_all add: rules_left_def)
  define kept where "kept = filter (\<lambda>r. open_for r e) (EL_rules l)"
  have kept: "set kept \<subseteq> set rules" "distinct kept" "\<forall>r \<in> set rules. open_for r e \<longleftrightarrow> r \<in> set kept"
    using assms(1) by (auto simp: kept_def rules_left_def)
  obtain ps b where setup_: "setup_rules (EL_rules l) e = Inr (kept, ps, b, e)" "length ps = length kept"
    "b \<longleftrightarrow> (\<exists>r \<in> set (EL_rules l). open_for r e \<and> RL_interest r e = Inr True)"
    using setup_eq [OF I sub] by (auto simp: kept_def)
  show ?thesis
  proof (cases b)
    case False
    have "RL_interest r e = Inr False" if "r \<in> set rules" "open_for r e" for r
      using interest_total [OF I that(1)] False setup_(3) assms(1) that by (auto simp: rules_left_def)
    then show ?thesis
      using False setup_(1) I kept by (auto simp: EventLoop_wait_next_event_def rules_left_def)
  next
    case True
    obtain ret errno ps' e' where poll: "sys_poll e ps t = (ret, errno, ps', e')" by (cases "sys_poll e ps t")
    then have p: "errno \<noteq> EINTR" "length ps' = length kept" "list_all no_hangup ps'" "I e'"
      "\<forall>r \<in> set rules. open_for r e' \<longleftrightarrow> open_for r e"
      using assms(2) I setup_(2) unfolding poll_ok_def by (blast, metis, blast, blast, blast)
    have "\<forall>r \<in> set kept. open_for r e'" using p(5) kept by blast
    then have served: "served_from rules I harmless e' kept (serve_rules kept ps' e')"
      unfolding serve_eq [OF kept(1)] using serve_keeps [OF p(4) kept(1,2) _ p(2,3)] by blast
    have out: "EventLoop_wait_next_event sys_poll l t e = Inr (Timeout, l\<lparr>EL_rules := kept\<rparr>, e')
      \<or> EventLoop_wait_next_event sys_poll l t e = bindR (serve_rules kept ps' e') (\<lambda>(rules, e). Inr (Success, l\<lparr>EL_rules := rules\<rparr>, e))"
      using True setup_(1) poll p(1) by (auto simp: EventLoop_wait_next_event_def Let_def split: sum.splits)
    have left: "rules_left rules I (l\<lparr>EL_rules := kept\<rparr>) e2" if "I e2" "\<forall>r \<in> set rules. open_for r e2 \<longrightarrow> open_for r e'" for e2
      using that kept p(5) by (simp add: rules_left_def)
    show ?thesis
    proof (cases "serve_rules kept ps' e'")
      case (Inl x)
      then show ?thesis using out served left [OF p(4)] by (auto simp: served_from_def)
    next
      case (Inr v)
      then obtain e2 where "serve_rules kept ps' e' = Inr (kept, e2)" "I e2" "\<forall>r \<in> set rules. open_for r e2 \<longrightarrow> open_for r e'"
        using served by (cases v) (auto simp: served_from_def)
      then show ?thesis using out left [OF p(4)] left [of e2] by auto
    qed
  qed
qed

end

section \<open>Properties\<close>

text \<open>A failed poll is passed over: when \<^verbatim>\<open>poll(2)\<close> fails for any reason but an interrupt,
  and marks no descriptor, the round calls nothing and reports success.\<close>

lemma poll_failure_ignored:
  assumes "setup_rules (EL_rules l) e = Inr (rules, pollfds, True, e1)"
    and "sys_poll e1 pollfds timeout_ms = (-1, errno, pollfds, e2)" and "errno \<noteq> EINTR" and "errno \<noteq> 0"
    and "list_all (\<lambda>p. PF_revents p = 0) pollfds"
  shows "EventLoop_wait_next_event sys_poll l timeout_ms e = Inr (Success, l\<lparr>EL_rules := rules\<rparr>, e2)"
proof -
  have "to_int (- 1) = - 1" by (simp add: to_int_def)
  then show ?thesis
    using assms setup_subseq [OF assms(1)] by (simp add: EventLoop_wait_next_event_def SystemCall_def serve_nothing)
qed

text \<open>A loop with one rule on an open descriptor, for use as an example.\<close>

definition example_fd :: FDWrapper where
  "example_fd = \<lparr>FD_fd = 3, FD_eof = False, FD_closed = False, FD_read_count = 0, FD_write_count = 0\<rparr>"

lemma poll_failure_ignored_example:
  "let l = EventLoop_add_rule EventLoop_new (\<lambda>n :: nat. example_fd) DirIn (\<lambda>n. Inr (n + 1)) default_interest default_cancel
   in EventLoop_wait_next_event (\<lambda>n ps t. (-1, 22, ps, n)) l 10 5 = Inr (Success, l, 5)"
proof -
  let ?l = "EventLoop_add_rule EventLoop_new (\<lambda>n :: nat. example_fd) DirIn (\<lambda>n. Inr (n + 1)) default_interest default_cancel"
  have "setup_rules (EL_rules ?l) 5 = Inr (EL_rules ?l, [\<lparr>PF_fd = 3, PF_events = POLLIN, PF_revents = 0\<rparr>], True, 5)"
    by (simp add: EventLoop_add_rule_def EventLoop_new_def example_fd_def default_interest_def)
  from poll_failure_ignored [OF this, of "\<lambda>n ps t. (-1, 22, ps, n)" 10 22 5] show ?thesis
    by (simp add: EINTR_def Let_def)
qed

end
