(* ===== verification/Sponge_Socket.thy ===== *)
theory Sponge_Socket
  imports TCP_End_To_End TCP_Over_IP Event_Loop Sockets
begin

text \<open>
  The socket that runs a TCP connection, from \<^verbatim>\<open>tcp_helpers/tcp_sponge_socket\<close>: the four
  rules of its event loop, its main loop, connecting and accepting. The adapter (the parameter of the C++
  template) and the operating system are the arguments \<open>platform\<close>. The thread that runs the connection
  is modelled as the function it executes; the owner's thread reaches it through the socket pair and the
  abort flag only. Shown here: no rule makes the event loop wait busily, the connection takes every byte
  it is given, and the loop ends only when nothing is left to be done.
\<close>

unbundle bit_operations_syntax

section \<open>The platform\<close>

record ('k, 'a) platform =
  p_read :: "'k sys_read"
  p_writev :: "'k sys_writev"
  p_shutdown :: "'k \<Rightarrow> int \<Rightarrow> int \<Rightarrow> int \<times> int \<times> 'k"
  p_timestamp_ms :: "'k \<Rightarrow> u64"
  p_netdb :: netdb
  adapter_read :: "'k \<Rightarrow> FDWrapper \<Rightarrow> 'a \<Rightarrow> (TCPSegment option \<times> FDWrapper \<times> 'a \<times> 'k) result"
  adapter_write :: "'k \<Rightarrow> FDWrapper \<Rightarrow> 'a \<Rightarrow> TCPSegment \<Rightarrow> (FDWrapper \<times> 'a \<times> 'k) result"
  adapter_tick :: "'a \<Rightarrow> u64 \<Rightarrow> 'a result"
  adapter_config :: "'a \<Rightarrow> FdAdapterConfig"
  adapter_set_config :: "'a \<Rightarrow> FdAdapterConfig \<Rightarrow> 'a"
  adapter_set_listening :: "'a \<Rightarrow> bool \<Rightarrow> 'a"

record ('k, 'a) TCPSpongeSocket =
  SS_kernel :: 'k
  SS_owner :: FDWrapper
  SS_thread_data :: FDWrapper
  SS_device :: FDWrapper
  SS_adapter :: 'a
  SS_tcp :: "TCPConnection option"
  SS_abort :: bool
  SS_inbound_shutdown :: bool
  SS_outbound_shutdown :: bool
  SS_fully_acked :: bool
  SS_tcp_thread :: bool

text \<open>The connection through \<^verbatim>\<open>operator->\<close>, undefined when there is none, and through
  \<^verbatim>\<open>value()\<close>, which throws.\<close>

definition tcp_arrow :: "('k, 'a) TCPSpongeSocket \<Rightarrow> TCPConnection result" where
  "tcp_arrow s = (case SS_tcp s of None \<Rightarrow> Inl OutOfBounds | Some c \<Rightarrow> Inr c)"

definition tcp_value :: "('k, 'a) TCPSpongeSocket \<Rightarrow> TCPConnection result" where
  "tcp_value s = (case SS_tcp s of None \<Rightarrow> Inl BadOptionalAccess | Some c \<Rightarrow> Inr c)"

definition peer_name :: "('k, 'a) platform \<Rightarrow> ('k, 'a) TCPSpongeSocket \<Rightarrow> string result" where
  "peer_name P s = Address_to_string (getnameinfo (p_netdb P)) (AC_destination (adapter_config P (SS_adapter s)))"

section \<open>The four rules\<close>

text \<open>The reading and the debugging part of the first callback.\<close>

definition rule1_read :: "('k, 'a) platform \<Rightarrow> ('k, 'a) TCPSpongeSocket \<Rightarrow> ('k, 'a) TCPSpongeSocket result" where
  "rule1_read P s =
     bindR (adapter_read P (SS_kernel s) (SS_device s) (SS_adapter s)) (\<lambda>(seg, device, adapter, kernel).
     let s = s\<lparr>SS_device := device, SS_adapter := adapter, SS_kernel := kernel\<rparr>
     in case seg of
          None \<Rightarrow> Inr s
        | Some seg \<Rightarrow> bindR (tcp_arrow s) (\<lambda>c. bindR (TCPConnection_segment_received c seg) (\<lambda>c. Inr (s\<lparr>SS_tcp := Some c\<rparr>))))"

definition rule1_debug :: "('k, 'a) platform \<Rightarrow> ('k, 'a) TCPSpongeSocket \<Rightarrow> ('k, 'a) TCPSpongeSocket result" where
  "rule1_debug P s =
     bindR (if FD_eof (SS_thread_data s) then bindR (tcp_value s) (\<lambda>c. Inr (TCPConnection_bytes_in_flight c = 0 \<and> \<not> SS_fully_acked s))
            else Inr False) (\<lambda>acked.
     if acked then bindR (peer_name P s) (\<lambda>_. Inr (s\<lparr>SS_fully_acked := True\<rparr>)) else Inr s)"

definition rule1_callback :: "('k, 'a) platform \<Rightarrow> ('k, 'a) TCPSpongeSocket \<Rightarrow> ('k, 'a) TCPSpongeSocket result" where
  "rule1_callback P s = bindR (rule1_read P s) (rule1_debug P)"

definition rule1_interest :: "('k, 'a) TCPSpongeSocket \<Rightarrow> bool result" where
  "rule1_interest s = bindR (tcp_arrow s) (\<lambda>c. Inr (TCPConnection_active c))"

definition rule2_callback :: "('k, 'a) platform \<Rightarrow> ('k, 'a) TCPSpongeSocket \<Rightarrow> ('k, 'a) TCPSpongeSocket result" where
  "rule2_callback P s =
     bindR (tcp_arrow s) (\<lambda>c.
     bindR (FileDescriptor_read (p_read P) (SS_kernel s) (SS_thread_data s) (TCPConnection_remaining_outbound_capacity c)) (\<lambda>(data, thread_data, kernel).
     let s = s\<lparr>SS_thread_data := thread_data, SS_kernel := kernel\<rparr>; len = str_size data
     in bindR (TCPConnection_write c data) (\<lambda>(amount_written, c).
        let s = s\<lparr>SS_tcp := Some c\<rparr>
        in if amount_written \<noteq> len then Inl (RuntimeError ''TCPConnection::write() accepted less than advertised length'')
           else if FD_eof (SS_thread_data s)
           then bindR (TCPConnection_end_input_stream c) (\<lambda>c.
                let s = s\<lparr>SS_tcp := Some c, SS_outbound_shutdown := True\<rparr>
                in bindR (peer_name P s) (\<lambda>_. Inr s))
           else Inr s)))"

definition rule2_interest :: "('k, 'a) TCPSpongeSocket \<Rightarrow> bool result" where
  "rule2_interest s = bindR (tcp_arrow s) (\<lambda>c.
     Inr (TCPConnection_active c \<and> \<not> SS_outbound_shutdown s \<and> TCPConnection_remaining_outbound_capacity c > 0))"

definition rule2_cancel :: "('k, 'a) TCPSpongeSocket \<Rightarrow> ('k, 'a) TCPSpongeSocket result" where
  "rule2_cancel s = bindR (tcp_arrow s) (\<lambda>c. bindR (TCPConnection_end_input_stream c) (\<lambda>c.
     Inr (s\<lparr>SS_tcp := Some c, SS_outbound_shutdown := True\<rparr>)))"

definition set_inbound :: "TCPConnection \<Rightarrow> ByteStream \<Rightarrow> TCPConnection" where
  "set_inbound c st = c\<lparr>TC_receiver := TCPReceiver_set_stream_out (TC_receiver c) st\<rparr>"

text \<open>The writing part of the third callback, and what it does at the end of the stream.\<close>

definition rule3_write :: "('k, 'a) platform \<Rightarrow> ('k, 'a) TCPSpongeSocket \<Rightarrow> (ByteStream \<times> ('k, 'a) TCPSpongeSocket) result" where
  "rule3_write P s =
     bindR (tcp_arrow s) (\<lambda>c.
     let inbound = TCPConnection_inbound_stream c;
         amount_to_write = min 65536 (ByteStream_buffer_size inbound);
         buffer = ByteStream_peek_output inbound amount_to_write
     in bindR (FileDescriptor_write (p_writev P) (SS_kernel s) (SS_thread_data s) (BufferViewList_of_view buffer) False) (\<lambda>(bytes_written, thread_data, kernel).
        let s = s\<lparr>SS_thread_data := thread_data, SS_kernel := kernel\<rparr>
        in bindR (ByteStream_pop_output inbound bytes_written) (\<lambda>inbound.
           Inr (inbound, s\<lparr>SS_tcp := Some (set_inbound c inbound)\<rparr>))))"

definition rule3_callback :: "('k, 'a) platform \<Rightarrow> ('k, 'a) TCPSpongeSocket \<Rightarrow> ('k, 'a) TCPSpongeSocket result" where
  "rule3_callback P s =
     bindR (rule3_write P s) (\<lambda>(inbound, s).
     if ByteStream_eof inbound \<or> ByteStream_error inbound
     then bindR (Socket_shutdown (p_shutdown P) (SS_kernel s) (SS_thread_data s) SHUT_WR) (\<lambda>(thread_data, kernel).
          let s = s\<lparr>SS_thread_data := thread_data, SS_kernel := kernel, SS_inbound_shutdown := True\<rparr>
          in bindR (peer_name P s) (\<lambda>_. Inr s))
     else Inr s)"

definition rule3_interest :: "('k, 'a) TCPSpongeSocket \<Rightarrow> bool result" where
  "rule3_interest s = bindR (tcp_arrow s) (\<lambda>c.
     let inbound = TCPConnection_inbound_stream c
     in Inr (\<not> ByteStream_buffer_empty inbound \<or> (ByteStream_eof inbound \<or> ByteStream_error inbound) \<and> \<not> SS_inbound_shutdown s))"

text \<open>The loop of the fourth rule, by the queue of the connection.\<close>

fun send_datagrams :: "('k, 'a) platform \<Rightarrow> TCPSegment list \<Rightarrow> ('k, 'a) TCPSpongeSocket \<Rightarrow> ('k, 'a) TCPSpongeSocket result" where
  "send_datagrams P [] s = Inr s" |
  "send_datagrams P (seg # segs) s =
     bindR (adapter_write P (SS_kernel s) (SS_device s) (SS_adapter s) seg) (\<lambda>(device, adapter, kernel).
     send_datagrams P segs (s\<lparr>SS_device := device, SS_adapter := adapter, SS_kernel := kernel,
       SS_tcp := map_option (\<lambda>c. c\<lparr>TC_segments_out := segs\<rparr>) (SS_tcp s)\<rparr>))"

definition rule4_callback :: "('k, 'a) platform \<Rightarrow> ('k, 'a) TCPSpongeSocket \<Rightarrow> ('k, 'a) TCPSpongeSocket result" where
  "rule4_callback P s = bindR (tcp_arrow s) (\<lambda>c. send_datagrams P (TC_segments_out c) s)"

definition rule4_interest :: "('k, 'a) TCPSpongeSocket \<Rightarrow> bool result" where
  "rule4_interest s = bindR (tcp_arrow s) (\<lambda>c. Inr (TC_segments_out c \<noteq> []))"

definition initialize_TCP ::
    "('k, 'a) platform \<Rightarrow> TCPConfig \<Rightarrow> u32 \<Rightarrow> ('k, 'a) TCPSpongeSocket EventLoop \<times> ('k, 'a) TCPSpongeSocket
      \<Rightarrow> ('k, 'a) TCPSpongeSocket EventLoop \<times> ('k, 'a) TCPSpongeSocket" where
  "initialize_TCP P config random ls =
     (let (l, s) = ls;
          s = s\<lparr>SS_tcp := Some (TCPConnection_new config random)\<rparr>;
          l = EventLoop_add_rule l SS_device DirIn (rule1_callback P) rule1_interest default_cancel;
          l = EventLoop_add_rule l SS_thread_data DirIn (rule2_callback P) rule2_interest rule2_cancel;
          l = EventLoop_add_rule l SS_thread_data DirOut (rule3_callback P) rule3_interest default_cancel;
          l = EventLoop_add_rule l SS_device DirOut (rule4_callback P) rule4_interest default_cancel
      in (l, s))"

section \<open>The loop\<close>

definition TCP_TICK_MS :: int where
  "TCP_TICK_MS = 10"

text \<open>One pass of the loop that runs the connection: it stops (\<open>Inl\<close>) or goes on (\<open>Inr\<close>) with a new base time.\<close>

type_synonym ('k, 'a) loop_state = "('k, 'a) TCPSpongeSocket EventLoop \<times> ('k, 'a) TCPSpongeSocket"

definition tcp_loop_pass ::
    "('k, 'a) platform \<Rightarrow> ('k, 'a) TCPSpongeSocket sys_poll \<Rightarrow> (('k, 'a) TCPSpongeSocket \<Rightarrow> bool result) \<Rightarrow> u64 \<Rightarrow> ('k, 'a) loop_state
      \<Rightarrow> (('k, 'a) loop_state + u64 \<times> ('k, 'a) loop_state) result" where
  "tcp_loop_pass P sys_poll condition base_time ls =
     (let (l, s) = ls
      in bindR (condition s) (\<lambda>go.
         if \<not> go then Inr (Inl (l, s))
         else bindR (EventLoop_wait_next_event sys_poll l TCP_TICK_MS s) (\<lambda>(ret, l, s).
              if ret = Exit \<or> SS_abort s then Inr (Inl (l, s))
              else bindR (tcp_value s) (\<lambda>c.
                   if TCPConnection_active c
                   then let next_time = p_timestamp_ms P (SS_kernel s)
                        in bindR (TCPConnection_tick c (next_time - base_time)) (\<lambda>c.
                           bindR (adapter_tick P (SS_adapter s) (next_time - base_time)) (\<lambda>adapter.
                           Inr (Inr (next_time, l, s\<lparr>SS_tcp := Some c, SS_adapter := adapter\<rparr>))))
                   else Inr (Inr (base_time, l, s))))))"

text \<open>The loop need not end: \<open>None\<close> stands for a run that does not.\<close>

partial_function (option) tcp_loop_from ::
    "('k, 'a) platform \<Rightarrow> ('k, 'a) TCPSpongeSocket sys_poll \<Rightarrow> (('k, 'a) TCPSpongeSocket \<Rightarrow> bool result) \<Rightarrow> u64 \<Rightarrow> ('k, 'a) loop_state
      \<Rightarrow> ('k, 'a) loop_state result option" where
  "tcp_loop_from P sys_poll condition base_time ls =
     (case tcp_loop_pass P sys_poll condition base_time ls of
        Inl e \<Rightarrow> Some (Inl e)
      | Inr next \<Rightarrow> (case next of
          Inl stop \<Rightarrow> Some (Inr stop)
        | Inr again \<Rightarrow> tcp_loop_from P sys_poll condition (fst again) (snd again)))"

definition tcp_loop ::
    "('k, 'a) platform \<Rightarrow> ('k, 'a) TCPSpongeSocket sys_poll \<Rightarrow> (('k, 'a) TCPSpongeSocket \<Rightarrow> bool result) \<Rightarrow> ('k, 'a) loop_state
      \<Rightarrow> ('k, 'a) loop_state result option" where
  "tcp_loop P sys_poll condition ls = tcp_loop_from P sys_poll condition (p_timestamp_ms P (SS_kernel (snd ls))) ls"

section \<open>Connecting and accepting\<close>

definition in_state :: "State \<Rightarrow> ('k, 'a) TCPSpongeSocket \<Rightarrow> bool result" where
  "in_state st s = bindR (tcp_arrow s) (\<lambda>c. Inr (TCPState_eq (TCPConnection_state c) (TCPState_of_State st)))"

text \<open>Up to the loop that waits for the peer's answer.\<close>

definition connect_begin ::
    "('k, 'a) platform \<Rightarrow> TCPConfig \<Rightarrow> u32 \<Rightarrow> FdAdapterConfig \<Rightarrow> ('k, 'a) loop_state \<Rightarrow> ('k, 'a) loop_state result" where
  "connect_begin P c_tcp random c_ad ls =
     (if SS_tcp (snd ls) \<noteq> None then Inl (RuntimeError ''connect() with TCPConnection already initialized'')
      else let (l, s) = initialize_TCP P c_tcp random ls;
               s = s\<lparr>SS_adapter := adapter_set_config P (SS_adapter s) c_ad\<rparr>
           in bindR (Address_to_string (getnameinfo (p_netdb P)) (AC_destination c_ad)) (\<lambda>_.
              bindR (tcp_arrow s) (\<lambda>c.
              bindR (TCPConnection_connect c) (\<lambda>c.
              let expected_state = TCPState_of_State SYN_SENT
              in if TCPState_neq (TCPConnection_state c) expected_state
                 then Inl (RuntimeError (''After TCPConnection::connect(), state was '' @ TCPState_name (TCPConnection_state c)
                        @ '' but expected '' @ TCPState_name expected_state))
                 else Inr (l, s\<lparr>SS_tcp := Some c\<rparr>)))))"

definition TCPSpongeSocket_connect ::
    "('k, 'a) platform \<Rightarrow> ('k, 'a) TCPSpongeSocket sys_poll \<Rightarrow> TCPConfig \<Rightarrow> u32 \<Rightarrow> FdAdapterConfig \<Rightarrow> ('k, 'a) loop_state
      \<Rightarrow> ('k, 'a) loop_state result option" where
  "TCPSpongeSocket_connect P sys_poll c_tcp random c_ad ls =
     (case connect_begin P c_tcp random c_ad ls of
        Inl e \<Rightarrow> Some (Inl e)
      | Inr ls \<Rightarrow> map_option (\<lambda>r. bindR r (\<lambda>(l, s).
          bindR (Address_to_string (getnameinfo (p_netdb P)) (AC_destination c_ad)) (\<lambda>_. Inr (l, s\<lparr>SS_tcp_thread := True\<rparr>))))
          (tcp_loop P sys_poll (in_state SYN_SENT) ls))"

definition accept_begin ::
    "('k, 'a) platform \<Rightarrow> TCPConfig \<Rightarrow> u32 \<Rightarrow> FdAdapterConfig \<Rightarrow> ('k, 'a) loop_state \<Rightarrow> ('k, 'a) loop_state result" where
  "accept_begin P c_tcp random c_ad ls =
     (if SS_tcp (snd ls) \<noteq> None then Inl (RuntimeError ''listen_and_accept() with TCPConnection already initialized'')
      else let (l, s) = initialize_TCP P c_tcp random ls
           in Inr (l, s\<lparr>SS_adapter := adapter_set_listening P (adapter_set_config P (SS_adapter s) c_ad) True\<rparr>))"

definition accepting :: "('k, 'a) TCPSpongeSocket \<Rightarrow> bool result" where
  "accepting s =
     bindR (in_state LISTEN s) (\<lambda>a. bindR (in_state SYN_RCVD s) (\<lambda>b. bindR (in_state SYN_SENT s) (\<lambda>c. Inr (a \<or> b \<or> c))))"

definition TCPSpongeSocket_listen_and_accept ::
    "('k, 'a) platform \<Rightarrow> ('k, 'a) TCPSpongeSocket sys_poll \<Rightarrow> TCPConfig \<Rightarrow> u32 \<Rightarrow> FdAdapterConfig \<Rightarrow> ('k, 'a) loop_state
      \<Rightarrow> ('k, 'a) loop_state result option" where
  "TCPSpongeSocket_listen_and_accept P sys_poll c_tcp random c_ad ls =
     (case accept_begin P c_tcp random c_ad ls of
        Inl e \<Rightarrow> Some (Inl e)
      | Inr ls \<Rightarrow> map_option (\<lambda>r. bindR r (\<lambda>(l, s). bindR (peer_name P s) (\<lambda>_. Inr (l, s\<lparr>SS_tcp_thread := True\<rparr>))))
          (tcp_loop P sys_poll accepting ls))"

text \<open>The main function of the thread; resetting the connection destroys it.\<close>

definition tcp_main_end :: "('k, 'a) platform \<Rightarrow> ('k, 'a) loop_state \<Rightarrow> ('k, 'a) loop_state result" where
  "tcp_main_end P ls =
     (let (l, s) = ls
      in bindR (Socket_shutdown (p_shutdown P) (SS_kernel s) (SS_owner s) SHUT_RDWR) (\<lambda>(owner, kernel).
         let s = s\<lparr>SS_owner := owner, SS_kernel := kernel\<rparr>
         in bindR (tcp_value s) (\<lambda>c. Inr (l, s\<lparr>SS_tcp := None\<rparr>))))"

definition tcp_main ::
    "('k, 'a) platform \<Rightarrow> ('k, 'a) TCPSpongeSocket sys_poll \<Rightarrow> ('k, 'a) loop_state \<Rightarrow> ('k, 'a) loop_state result option" where
  "tcp_main P sys_poll ls =
     (if SS_tcp (snd ls) = None then Some (Inl (RuntimeError ''no TCP''))
      else map_option (\<lambda>r. bindR r (tcp_main_end P)) (tcp_loop P sys_poll (\<lambda>_. Inr True) ls))"

section \<open>Ready-made sockets\<close>

definition LOCAL_TAP_IP_ADDRESS :: string where
  "LOCAL_TAP_IP_ADDRESS = ''169.254.10.9''"

definition LOCAL_TAP_NEXT_HOP_ADDRESS :: string where
  "LOCAL_TAP_NEXT_HOP_ADDRESS = ''169.254.10.1''"

definition random_private_ethernet_address :: "u32 list \<Rightarrow> EthernetAddress" where
  "random_private_ethernet_address random =
     (let addr = map ucast (take 6 random)
      in addr[0 := (addr ! 0 OR 0x02) AND 0xfe])"

definition socket_config :: "netdb \<Rightarrow> string \<Rightarrow> u32 \<Rightarrow> Address \<Rightarrow> (TCPConfig \<times> FdAdapterConfig) result" where
  "socket_config db local random address =
     (let tcp_config = TCPConfig_new\<lparr>rt_timeout := 100\<rparr>
      in bindR (FdAdapterConfig_new db) (\<lambda>multiplexer_config.
         bindR (Address_of_hostname (getaddrinfo db) local (digits (unat (ucast random :: u16)))) (\<lambda>source.
         Inr (tcp_config, multiplexer_config\<lparr>AC_source := source, AC_destination := address\<rparr>))))"

definition CS144TCPSocket_connect ::
    "('k, 'a) platform \<Rightarrow> ('k, 'a) TCPSpongeSocket sys_poll \<Rightarrow> u32 \<Rightarrow> u32 \<Rightarrow> Address \<Rightarrow> ('k, 'a) loop_state \<Rightarrow> ('k, 'a) loop_state result option" where
  "CS144TCPSocket_connect P sys_poll random port_random address ls =
     (case socket_config (p_netdb P) ''169.254.144.9'' port_random address of
        Inl e \<Rightarrow> Some (Inl e)
      | Inr (tcp_config, multiplexer_config) \<Rightarrow> TCPSpongeSocket_connect P sys_poll tcp_config random multiplexer_config ls)"

definition FullStackSocket_adapter :: "netdb \<Rightarrow> u32 list \<Rightarrow> TCPOverIPv4OverEthernetAdapter result" where
  "FullStackSocket_adapter db random =
     bindR (Address_of_hostname (getaddrinfo db) LOCAL_TAP_IP_ADDRESS ''0'') (\<lambda>ip_address.
     bindR (Address_of_hostname (getaddrinfo db) LOCAL_TAP_NEXT_HOP_ADDRESS ''0'') (\<lambda>next_hop.
     TCPOverIPv4OverEthernetAdapter_new db (random_private_ethernet_address random) ip_address next_hop))"

definition FullStackSocket_connect ::
    "('k, 'a) platform \<Rightarrow> ('k, 'a) TCPSpongeSocket sys_poll \<Rightarrow> u32 \<Rightarrow> u32 \<Rightarrow> Address \<Rightarrow> ('k, 'a) loop_state \<Rightarrow> ('k, 'a) loop_state result option" where
  "FullStackSocket_connect P sys_poll random port_random address ls =
     (case socket_config (p_netdb P) LOCAL_TAP_IP_ADDRESS port_random address of
        Inl e \<Rightarrow> Some (Inl e)
      | Inr (tcp_config, multiplexer_config) \<Rightarrow> TCPSpongeSocket_connect P sys_poll tcp_config random multiplexer_config ls)"

section \<open>On a TUN device\<close>

text \<open>The adapter for a TUN device as the socket uses it: its packets come from reading the device and
  go out by writing to it.\<close>

definition tun_device_read ::
    "'k sys_read \<Rightarrow> netdb \<Rightarrow> 'k \<Rightarrow> FDWrapper \<Rightarrow> TCPOverIPv4OverTunFdAdapter
      \<Rightarrow> (TCPSegment option \<times> FDWrapper \<times> TCPOverIPv4OverTunFdAdapter \<times> 'k) result" where
  "tun_device_read sys_read db k w a =
     bindR (FileDescriptor_read sys_read k w (- 1)) (\<lambda>(packet, w, k).
     bindR (TCPOverIPv4OverTunFdAdapter_read db a packet) (\<lambda>(seg, a). Inr (seg, w, a, k)))"

definition tun_device_write ::
    "'k sys_writev \<Rightarrow> netdb \<Rightarrow> 'k \<Rightarrow> FDWrapper \<Rightarrow> TCPOverIPv4OverTunFdAdapter \<Rightarrow> TCPSegment
      \<Rightarrow> (FDWrapper \<times> TCPOverIPv4OverTunFdAdapter \<times> 'k) result" where
  "tun_device_write sys_writev db k w a seg =
     bindR (TCPOverIPv4OverTunFdAdapter_write db a seg) (\<lambda>(_, a).
     bindR (FileDescriptor_write sys_writev k w (BufferViewList_of_BufferList (last (TA_tun a))) True) (\<lambda>(_, w, k).
     Inr (w, a, k)))"

definition tun_platform ::
    "'k sys_read \<Rightarrow> 'k sys_writev \<Rightarrow> ('k \<Rightarrow> int \<Rightarrow> int \<Rightarrow> int \<times> int \<times> 'k) \<Rightarrow> ('k \<Rightarrow> u64) \<Rightarrow> netdb
      \<Rightarrow> ('k, TCPOverIPv4OverTunFdAdapter) platform" where
  "tun_platform sys_read sys_writev sys_shutdown clock db =
     \<lparr>p_read = sys_read, p_writev = sys_writev, p_shutdown = sys_shutdown, p_timestamp_ms = clock, p_netdb = db,
      adapter_read = tun_device_read sys_read db, adapter_write = tun_device_write sys_writev db,
      adapter_tick = (\<lambda>a ms. Inr (FdAdapterBase_tick a ms)), adapter_config = FA_cfg,
      adapter_set_config = (\<lambda>a c. a\<lparr>FA_cfg := c\<rparr>), adapter_set_listening = FdAdapterBase_set_listening\<rparr>"

section \<open>Progress\<close>

definition socket_rules :: "('k, 'a) platform \<Rightarrow> ('k, 'a) TCPSpongeSocket Rule list" where
  "socket_rules P =
     [\<lparr>RL_fd = SS_device, RL_direction = DirIn, RL_callback = rule1_callback P, RL_interest = rule1_interest, RL_cancel = default_cancel\<rparr>,
      \<lparr>RL_fd = SS_thread_data, RL_direction = DirIn, RL_callback = rule2_callback P, RL_interest = rule2_interest, RL_cancel = rule2_cancel\<rparr>,
      \<lparr>RL_fd = SS_thread_data, RL_direction = DirOut, RL_callback = rule3_callback P, RL_interest = rule3_interest, RL_cancel = default_cancel\<rparr>,
      \<lparr>RL_fd = SS_device, RL_direction = DirOut, RL_callback = rule4_callback P, RL_interest = rule4_interest, RL_cancel = default_cancel\<rparr>]"

lemma initialize_TCP_eq:
  "initialize_TCP P config random (l, s) = (l\<lparr>EL_rules := EL_rules l @ socket_rules P\<rparr>, s\<lparr>SS_tcp := Some (TCPConnection_new config random)\<rparr>)"
  by (simp add: initialize_TCP_def socket_rules_def EventLoop_add_rule_def)

text \<open>Reading a descriptor counts one read, writing part of a buffer one write.\<close>

lemma send_datagrams_empties:
  "send_datagrams P segs s = Inr s' \<Longrightarrow> SS_tcp s = Some c \<Longrightarrow> TC_segments_out c = segs \<Longrightarrow>
   \<exists>c'. SS_tcp s' = Some c' \<and> TC_segments_out c' = []"
proof (induction segs arbitrary: s c)
  case (Cons seg segs)
  obtain d a k where "adapter_write P (SS_kernel s) (SS_device s) (SS_adapter s) seg = Inr (d, a, k)"
    "send_datagrams P segs (s\<lparr>SS_device := d, SS_adapter := a, SS_kernel := k,
       SS_tcp := map_option (\<lambda>c. c\<lparr>TC_segments_out := segs\<rparr>) (SS_tcp s)\<rparr>) = Inr s'"
    using Cons.prems(1) by (auto simp: bindR_eq_Inr_iff)
  then show ?case using Cons.IH [of _ "c\<lparr>TC_segments_out := segs\<rparr>"] Cons.prems(2) by simp
qed auto

text \<open>An adapter whose reads are counted.\<close>

definition counts_reads :: "('k, 'a) platform \<Rightarrow> bool" where
  "counts_reads P \<longleftrightarrow> (\<forall>k w a seg w' a' k'. adapter_read P k w a = Inr (seg, w', a', k') \<longrightarrow> FD_read_count w' = FD_read_count w + 1)"

lemma rule1_progress:
  assumes P: "counts_reads P" and "rule1_callback P s = Inr s'"
  shows "FD_read_count (SS_device s') = FD_read_count (SS_device s) + 1"
proof -
  obtain s1 where s1: "rule1_read P s = Inr s1" "rule1_debug P s1 = Inr s'"
    using assms(2) unfolding rule1_callback_def by (rule bindR_eq_InrE)
  have "SS_device s' = SS_device s1"
    using s1(2) by (auto simp: rule1_debug_def bindR_eq_Inr_iff split: if_splits)
  moreover obtain seg d a k where "adapter_read P (SS_kernel s) (SS_device s) (SS_adapter s) = Inr (seg, d, a, k)" "SS_device s1 = d"
    using s1(1) by (auto simp: rule1_read_def bindR_eq_Inr_iff Let_def split: option.splits)
  ultimately show ?thesis using P unfolding counts_reads_def by metis
qed

lemma rule2_progress:
  assumes "rule2_callback P s = Inr s'"
  shows "FD_read_count (SS_thread_data s') = FD_read_count (SS_thread_data s) + 1"
proof -
  obtain c data w k where "FileDescriptor_read (p_read P) (SS_kernel s) (SS_thread_data s) (TCPConnection_remaining_outbound_capacity c)
      = Inr (data, w, k)" "SS_thread_data s' = w"
    using assms by (auto simp: rule2_callback_def bindR_eq_Inr_iff Let_def split: if_splits)
  then show ?thesis using FileDescriptor_read_counts by metis
qed

lemma rule3_progress:
  assumes "rule3_callback P s = Inr s'"
  shows "FD_write_count (SS_thread_data s') \<noteq> FD_write_count (SS_thread_data s)"
proof -
  obtain st s1 where s1: "rule3_write P s = Inr (st, s1)" and rest: "SS_thread_data s' = SS_thread_data s1
      \<or> (\<exists>k. Socket_shutdown (p_shutdown P) (SS_kernel s1) (SS_thread_data s1) SHUT_WR = Inr (SS_thread_data s', k))"
    using assms by (auto simp: rule3_callback_def bindR_eq_Inr_iff Let_def split: if_splits)
  obtain c n k where "FileDescriptor_write (p_writev P) (SS_kernel s) (SS_thread_data s)
      (BufferViewList_of_view (ByteStream_peek_output (TCPConnection_inbound_stream c)
        (min 65536 (ByteStream_buffer_size (TCPConnection_inbound_stream c))))) False = Inr (n, SS_thread_data s1, k)"
    using s1 by (auto simp: rule3_write_def bindR_eq_Inr_iff Let_def)
  from FileDescriptor_write_counts [OF this]
  have one: "FD_write_count (SS_thread_data s1) = FD_write_count (SS_thread_data s) + 1"
    by (simp add: FileDescriptor_register_write_def)
  have "SS_thread_data s' = FileDescriptor_register_write (SS_thread_data s1)"
    if "Socket_shutdown (p_shutdown P) (SS_kernel s1) (SS_thread_data s1) SHUT_WR = Inr (SS_thread_data s', k)" for k
    using that by (auto simp: Socket_shutdown_def Let_def bindR_eq_Inr_iff SHUT_WR_def SHUT_RD_def split: prod.splits)
  then have "FD_write_count (SS_thread_data s') = FD_write_count (SS_thread_data s) + 1
      \<or> FD_write_count (SS_thread_data s') = FD_write_count (SS_thread_data s) + 2"
    using rest one by (auto simp: FileDescriptor_register_write_def)
  then show ?thesis by auto
qed

lemma rule4_progress:
  assumes "rule4_callback P s = Inr s'"
  shows "rule4_interest s' = Inr False"
  using assms send_datagrams_empties [of P _ s s']
  by (fastforce simp: rule4_callback_def rule4_interest_def tcp_arrow_def bindR_eq_Inr_iff split: option.splits)

lemma socket_progress:
  assumes "counts_reads P" and "r \<in> set (socket_rules P)" and "RL_callback r s = Inr s'"
  shows "Rule_service_count r s' \<noteq> Rule_service_count r s \<or> RL_interest r s' = Inr False"
  using assms rule1_progress [OF assms(1), of s s'] rule2_progress [of P s s'] rule3_progress [of P s s'] rule4_progress [of P s s']
  by (auto simp: socket_rules_def Rule_service_count_def)

lemma tun_counts_reads: "counts_reads (tun_platform sr sw sd clk db)"
  unfolding counts_reads_def
  by (auto simp: tun_platform_def tun_device_read_def bindR_eq_Inr_iff dest: FileDescriptor_read_counts)

interpretation tun_socket: progressing "socket_rules (tun_platform sr sw sd clk db)" for sr sw sd clk db
  by unfold_locales (rule socket_progress [OF tun_counts_reads])

section \<open>What the rules take and leave\<close>

lemma send_segments_stays_inactive:
  "TCPConnection_send_segments rst c = Inr c' \<Longrightarrow> \<not> TC_is_active c \<Longrightarrow> \<not> TC_is_active c'"
  by (auto simp: TCPConnection_send_segments_def Let_def bindR_eq_Inr_iff TCPConnection_clean_shutdown_def split: if_splits)

text \<open>Nothing is left for the socket to do.\<close>

definition all_done :: "('k, 'a) TCPSpongeSocket \<Rightarrow> bool" where
  "all_done s \<longleftrightarrow> (\<exists>c. SS_tcp s = Some c \<and> \<not> TCPConnection_active c \<and> TC_segments_out c = []
     \<and> ByteStream_buffer_empty (TCPConnection_inbound_stream c)
     \<and> (ByteStream_eof (TCPConnection_inbound_stream c) \<or> ByteStream_error (TCPConnection_inbound_stream c) \<longrightarrow> SS_inbound_shutdown s))"

lemma setup_rules_idle:
  assumes tcp: "SS_tcp s = Some c" and open_fds: "\<not> FD_eof (SS_device s)" "\<not> FD_closed (SS_device s)" "\<not> FD_closed (SS_thread_data s)"
    and ready: "setup_rules (socket_rules P) s = Inr (kept, ps, False, s')"
  shows "all_done s'"
proof (cases "FD_eof (SS_thread_data s)")
  case False
  then show ?thesis
    using assms
    by (auto simp: socket_rules_def Let_def bindR_eq_Inr_iff rule1_interest_def rule2_interest_def rule3_interest_def
        rule4_interest_def tcp_arrow_def all_done_def)
next
  case True
  obtain c' where c': "TCPConnection_end_input_stream c = Inr c'"
    using True ready tcp open_fds
    by (auto simp: socket_rules_def Let_def bindR_eq_Inr_iff rule1_interest_def rule2_cancel_def tcp_arrow_def)
  have "\<not> TC_is_active c'" if "\<not> TC_is_active c"
    using that send_segments_stays_inactive [OF c' [unfolded TCPConnection_end_input_stream_def]] by (simp add: set_stream_in_def)
  then show ?thesis
    using True ready tcp open_fds c'
    by (auto simp: socket_rules_def Let_def bindR_eq_Inr_iff rule1_interest_def rule2_cancel_def rule3_interest_def
        rule4_interest_def tcp_arrow_def all_done_def TCPConnection_active_def)
qed

text \<open>A system that gives two bytes to every read and takes every write, and a socket on it, for use as examples.\<close>

definition example_platform :: "(unit, TCPOverIPv4OverTunFdAdapter) platform" where
  "example_platform = tun_platform (\<lambda>k fd n. (2, 0, [104, 105], k)) (\<lambda>k fd iov. (int (length (concat (map fst iov))), 0, k))
     (\<lambda>k fd how. (0, 0, k)) (\<lambda>k. 0) example_netdb"

definition example_socket :: "TCPConnection option \<Rightarrow> (unit, TCPOverIPv4OverTunFdAdapter) TCPSpongeSocket" where
  "example_socket tcp = \<lparr>SS_kernel = (), SS_owner = example_fd, SS_thread_data = example_fd, SS_device = example_fd,
     SS_adapter = example_tun (0x0a000001, 4000) (0x0a000002, 80) False, SS_tcp = tcp, SS_abort = False,
     SS_inbound_shutdown = False, SS_outbound_shutdown = False, SS_fully_acked = False, SS_tcp_thread = False\<rparr>"

section \<open>Properties\<close>

text \<open>C32: on a TUN device no callback of the socket trips the detection of busy waits: serving any of the
  rules that are left is the same with and without it.\<close>

theorem socket_never_busy:
  assumes "subseq rules (EL_rules (fst (initialize_TCP (tun_platform sr sw sd clk db) config random (EventLoop_new, s0))))"
  shows "serve_rules rules pollfds s = serve_plain rules pollfds s"
proof -
  have "set rules \<subseteq> set (socket_rules (tun_platform sr sw sd clk db))"
    using assms by (auto simp: initialize_TCP_eq EventLoop_new_def dest: list_emb_set)
  then show ?thesis by (rule tun_socket.serve_eq)
qed

theorem socket_never_busy_witness:
  "let rules = EL_rules (fst (initialize_TCP example_platform TCPConfig_new 7 (EventLoop_new, example_socket None)));
       ready = map (\<lambda>r. \<lparr>PF_fd = 3, PF_events = Direction_value (RL_direction r), PF_revents = POLLIN OR POLLOUT\<rparr>) rules;
       s = example_socket (Some (TCPConnection_new TCPConfig_new 7))
   in serve_rules rules ready s = serve_plain rules ready s \<and> length ready = 4"
  unfolding Let_def example_platform_def
proof (rule conjI, rule socket_never_busy, rule list_emb_refl)
qed (simp_all add: initialize_TCP_eq EventLoop_new_def socket_rules_def)

text \<open>The connection takes every byte the socket reads for it: what the owner's end gives is never
  longer than the capacity that was asked for, so the write never falls short.\<close>

lemma socket_write_accepted:
  assumes "FileDescriptor_read sr k w (TCPConnection_remaining_outbound_capacity c) = Inr (data, w', k')"
    and "TCPConnection_write c data = Inr (amount_written, c')"
  shows "amount_written = str_size data"
proof -
  let ?r = "ByteStream_remaining_capacity (SD_stream (TC_sender c))"
  have "length data \<le> unat ?r"
    using FileDescriptor_read_length [OF assms(1)] by (simp add: TCPConnection_remaining_outbound_capacity_def)
  then have "str_size data \<le> ?r" using unat_str_size_le [of data] by (simp add: word_le_nat_alt)
  then have "min (str_size data) ?r = str_size data" by (simp add: min_absorb1)
  moreover have "amount_written = min (str_size data) ?r"
    using write_amount [OF assms(2)] by (simp add: TCPConnection_remaining_outbound_capacity_def)
  ultimately show ?thesis by simp
qed

lemma socket_write_accepted_example:
  "\<exists>n c'. TCPConnection_write (TCPConnection_new TCPConfig_new 7) [104, 105] = Inr (n, c') \<and> n = 2"
proof -
  let ?c = "TCPConnection_new TCPConfig_new 7"
  have inv: "conn_inv [] (SD_isn (TC_sender ?c)) [] [] (WrappingInt32 0) ?c"
    by (rule conn_inv_new) (simp_all add: TCPConfig_new_def DEFAULT_CAPACITY_def)
  have "written [] (TC_sender ?c) = []"
    by (simp add: written_def TCPConnection_new_def TCPSender_new_def ByteStream_contents_def ByteStream_new_def)
  then obtain n c' where w: "TCPConnection_write ?c [104, 105] = Inr (n, c')"
    using conn_write_ok [OF inv, of "[104, 105]"] by auto
  have "FileDescriptor_read (\<lambda>k fd n. (2, 0, [104, 105], k)) () example_fd (TCPConnection_remaining_outbound_capacity ?c)
      = Inr ([104, 105], example_fd\<lparr>FD_eof := False, FD_read_count := 1\<rparr>, ())"
    using FileDescriptor_read_ok [of "\<lambda>k fd n. (2, 0, [104, 105], k)" "()" example_fd "TCPConnection_remaining_outbound_capacity ?c" "[104, 105]" "()"]
    by (simp add: read_gives_def TCPConnection_remaining_outbound_capacity_def TCPConnection_new_def TCPSender_new_def
        ByteStream_remaining_capacity_def ByteStream_new_def TCPConfig_new_def DEFAULT_CAPACITY_def BUFFER_SIZE_def example_fd_def)
  from socket_write_accepted [OF this w] show ?thesis using w by (simp add: str_size_def)
qed



text \<open>Connecting a fresh socket finds the state it expects: the connection is in SYN-SENT with its SYN
  queued, the adapter has the given configuration and the four rules are installed; a socket that has a
  connection is refused.\<close>

lemma socket_connect_begins:
  assumes "Address_to_string (getnameinfo (p_netdb P)) (AC_destination c_ad) = Inr name"
  shows "connect_begin P c_tcp random c_ad (l, s) =
    (if SS_tcp s \<noteq> None then Inl (RuntimeError ''connect() with TCPConnection already initialized'')
     else let c = TCPConnection_new c_tcp random
          in Inr (l\<lparr>EL_rules := EL_rules l @ socket_rules P\<rparr>,
               s\<lparr>SS_adapter := adapter_set_config P (SS_adapter s) c_ad,
                 SS_tcp := Some ((conn_syn_sent c)\<lparr>TC_segments_out := [stamp (TC_receiver c) False (syn_segment (isn_of c))]\<rparr>)\<rparr>))"
proof -
  define c where "c = TCPConnection_new c_tcp random"
  show ?thesis
    using handshake_connect [OF c_def] handshake_states(2) [OF c_def]
    by (simp add: connect_begin_def initialize_TCP_eq c_def [symmetric] assms tcp_arrow_def TCPState_neq_def TCPState_eq_iff Let_def)
qed

lemma socket_connect_begins_example:
  "let c = TCPConnection_new TCPConfig_new 7; c_ad = example_config (0x0a000001, 4000) (0x0a000002, 80)
   in connect_begin example_platform TCPConfig_new 7 c_ad (EventLoop_new, example_socket None)
     = Inr (EventLoop_new\<lparr>EL_rules := socket_rules example_platform\<rparr>,
         (example_socket None)\<lparr>SS_adapter := adapter_set_config example_platform (SS_adapter (example_socket None)) c_ad,
           SS_tcp := Some ((conn_syn_sent c)\<lparr>TC_segments_out := [stamp (TC_receiver c) False (syn_segment (isn_of c))]\<rparr>)\<rparr>)"
proof -
  have "Address_to_string (getnameinfo (p_netdb example_platform)) (AC_destination (example_config (0x0a000001, 4000) (0x0a000002, 80)))
      = Inr (inet_ntoa example_netdb (be_bytes (0x0a000002 :: u32)) @ '':'' @ digits 80)"
    using netdb_name [OF example_netdb_ok, of "0x0a000002" "80"] by (simp add: example_platform_def tun_platform_def example_config_def)
  from socket_connect_begins [OF this, of TCPConfig_new 7 "EventLoop_new" "example_socket None"] show ?thesis
    by (simp add: Let_def EventLoop_new_def) (simp add: example_socket_def)
qed

end
