(* ===== verification/Socket_Lifecycle.thy ===== *)
theory Socket_Lifecycle
  imports Sponge_Socket
begin

text \<open>
  The beginning and the end of a socket, from \<^verbatim>\<open>tcp_helpers/tcp_sponge_socket\<close>: the pair of
  descriptors it is built on, its constructors, waiting until it is closed and its destructor. Joining the
  thread is running what it has left to do, which is an argument \<open>rest\<close>: for a thread that is between two
  rounds that is \<open>tcp_main\<close>. Shown here: both ends of a new socket are checked to be stream sockets, the
  destructor always gets its thread back, and the reset that it should cause never reaches the device.
\<close>

section \<open>Construction\<close>

definition socket_pair_helper :: "('k \<Rightarrow> int \<Rightarrow> int \<Rightarrow> int \<times> int \<times> (int \<times> int) \<times> 'k) \<Rightarrow> 'k \<Rightarrow> int \<Rightarrow> (FDWrapper \<times> FDWrapper \<times> 'k) result" where
  "socket_pair_helper sys_socketpair k type =
     (let (r, e, fds, k) = sys_socketpair k AF_UNIX type
      in bindR (SystemCall ''socketpair'' r e 0) (\<lambda>_.
         bindR (FDWrapper_new (fst fds)) (\<lambda>first.
         bindR (FDWrapper_new (snd fds)) (\<lambda>second. Inr (first, second, k)))))"

text \<open>The system calls of the constructors.\<close>

record 'k socket_system =
  ss_socketpair :: "'k \<Rightarrow> int \<Rightarrow> int \<Rightarrow> int \<times> int \<times> (int \<times> int) \<times> 'k"
  ss_getsockopt :: "'k sys_getsockopt"
  ss_getfl :: "'k \<Rightarrow> int \<Rightarrow> int \<times> int \<times> 'k"
  ss_setfl :: "'k \<Rightarrow> int \<Rightarrow> int \<Rightarrow> int \<times> int \<times> 'k"
  ss_open :: "'k \<Rightarrow> string \<Rightarrow> int \<times> int \<times> 'k"
  ss_ioctl :: "'k \<Rightarrow> int \<Rightarrow> ifreq \<Rightarrow> int \<times> int \<times> 'k"

definition TCPSpongeSocket_of_pair ::
    "'k socket_system \<Rightarrow> 'k \<Rightarrow> FDWrapper \<Rightarrow> FDWrapper \<Rightarrow> FDWrapper \<Rightarrow> 'a \<Rightarrow> ('k, 'a) loop_state result" where
  "TCPSpongeSocket_of_pair S k first second device datagram_interface =
     bindR (LocalStreamSocket_of_fd (ss_getsockopt S) k first) (\<lambda>(owner, k).
     bindR (LocalStreamSocket_of_fd (ss_getsockopt S) k second) (\<lambda>(thread_data, k).
     bindR (FileDescriptor_set_blocking (ss_getfl S) (ss_setfl S) k thread_data False) (\<lambda>k.
     Inr (EventLoop_new,
       \<lparr>SS_kernel = k, SS_owner = owner, SS_thread_data = thread_data, SS_device = device, SS_adapter = datagram_interface,
        SS_tcp = None, SS_abort = False, SS_inbound_shutdown = False, SS_outbound_shutdown = False, SS_fully_acked = False,
        SS_tcp_thread = False\<rparr>))))"

definition TCPSpongeSocket_new :: "'k socket_system \<Rightarrow> 'k \<Rightarrow> FDWrapper \<Rightarrow> 'a \<Rightarrow> ('k, 'a) loop_state result" where
  "TCPSpongeSocket_new S k device datagram_interface =
     bindR (socket_pair_helper (ss_socketpair S) k SOCK_STREAM) (\<lambda>(first, second, k).
     TCPSpongeSocket_of_pair S k first second device datagram_interface)"

definition TCPOverIPv4OverTunFdAdapter_new :: "netdb \<Rightarrow> TCPOverIPv4OverTunFdAdapter result" where
  "TCPOverIPv4OverTunFdAdapter_new db =
     bindR (FdAdapterBase_new db) (\<lambda>base. Inr \<lparr>FA_cfg = FA_cfg base, FA_listen = FA_listen base, TA_tun = []\<rparr>)"

definition CS144TCPSocket_new :: "'k socket_system \<Rightarrow> netdb \<Rightarrow> 'k \<Rightarrow> ('k, TCPOverIPv4OverTunFdAdapter) loop_state result" where
  "CS144TCPSocket_new S db k =
     bindR (TunFD_new (ss_open S) (ss_ioctl S) k ''tun144'') (\<lambda>(tun, k).
     bindR (TCPOverIPv4OverTunFdAdapter_new db) (TCPSpongeSocket_new S k tun))"

definition FullStackSocket_new :: "'k socket_system \<Rightarrow> netdb \<Rightarrow> u32 list \<Rightarrow> 'k \<Rightarrow> ('k, TCPOverIPv4OverEthernetAdapter) loop_state result" where
  "FullStackSocket_new S db random k =
     bindR (TapFD_new (ss_open S) (ss_ioctl S) k ''tap10'') (\<lambda>(tap, k).
     bindR (FullStackSocket_adapter db random) (TCPSpongeSocket_new S k tap))"

section \<open>The end\<close>

text \<open>Joining: the thread does what is left, and is not joinable afterwards. An exception that leaves the
  thread ends the program.\<close>

definition thread_join :: "(('k, 'a) loop_state \<Rightarrow> ('k, 'a) loop_state result option) \<Rightarrow> ('k, 'a) loop_state \<Rightarrow> ('k, 'a) loop_state result option" where
  "thread_join rest ls = map_option (\<lambda>r. bindR r (\<lambda>(l, s). Inr (l, s\<lparr>SS_tcp_thread := False\<rparr>))) (rest ls)"

definition TCPSpongeSocket_destroy ::
    "(('k, 'a) loop_state \<Rightarrow> ('k, 'a) loop_state result option) \<Rightarrow> ('k, 'a) loop_state \<Rightarrow> ('k, 'a) loop_state result option" where
  "TCPSpongeSocket_destroy rest ls =
     (let (l, s) = ls
      in if SS_tcp_thread s then thread_join rest (l, s\<lparr>SS_abort := True\<rparr>) else Some (Inr (l, s)))"

definition TCPSpongeSocket_wait_until_closed ::
    "('k, 'a) platform \<Rightarrow> (('k, 'a) loop_state \<Rightarrow> ('k, 'a) loop_state result option) \<Rightarrow> ('k, 'a) loop_state \<Rightarrow> ('k, 'a) loop_state result option" where
  "TCPSpongeSocket_wait_until_closed P rest ls =
     (let (l, s) = ls
      in case Socket_shutdown (p_shutdown P) (SS_kernel s) (SS_owner s) SHUT_RDWR of
           Inl e \<Rightarrow> Some (Inl e)
         | Inr (owner, k) \<Rightarrow>
             let s = s\<lparr>SS_owner := owner, SS_kernel := k\<rparr>
             in if SS_tcp_thread s then thread_join rest (l, s) else Some (Inr (l, s)))"

section \<open>The flag that stops the loop\<close>

lemma setup_keeps_state:
  assumes "setup_rules rules e = Inr (kept, ps, b, e')" and "Q e"
    and "\<And>r e e'. r \<in> set rules \<Longrightarrow> Q e \<Longrightarrow> RL_cancel r e = Inr e' \<Longrightarrow> Q e'"
  shows "Q e'"
  using assms
proof (induction rules arbitrary: e kept ps b)
  case (Cons r rs)
  have keep: "Q e'" if "setup_rules rs e1 = Inr (kept1, ps1, b1, e')" "Q e1" for e1 kept1 ps1 b1
    by (rule Cons.IH [OF that]) (rule Cons.prems(3), simp_all)
  show ?case
    using Cons.prems(1,2) Cons.prems(3) [of r e]
    by (auto simp: bindR_eq_Inr_iff Let_def split: if_splits intro: keep)
qed simp

lemma serve_keeps_state:
  assumes "serve_rules rules ps e = Inr (kept, e')" and "Q e"
    and "\<And>r e e'. r \<in> set rules \<Longrightarrow> Q e \<Longrightarrow> RL_cancel r e = Inr e' \<or> RL_callback r e = Inr e' \<Longrightarrow> Q e'"
  shows "Q e'"
  using assms
proof (induction rules arbitrary: ps e kept)
  case (Cons r rs)
  obtain p ps1 where ps: "ps = p # ps1" using Cons.prems(1) by (cases ps) simp_all
  have keep: "Q e'" if "serve_rules rs ps1 e1 = Inr (kept1, e')" "Q e1" for e1 kept1
    by (rule Cons.IH [OF that]) (rule Cons.prems(3), simp_all)
  show ?case
    using Cons.prems(1,2) Cons.prems(3) [of r e]
    by (auto simp: ps bindR_eq_Inr_iff Let_def serve_ready_def split: if_splits intro: keep)
qed simp

lemma wait_keeps_state:
  assumes "EventLoop_wait_next_event sys_poll l t e = Inr (ret, l', e')" and "Q e"
    and rules: "\<And>r e e'. r \<in> set (EL_rules l) \<Longrightarrow> Q e \<Longrightarrow> RL_cancel r e = Inr e' \<or> RL_callback r e = Inr e' \<Longrightarrow> Q e'"
    and poll: "\<And>e ps. Q e \<Longrightarrow> Q (snd (snd (snd (sys_poll e ps t))))"
  shows "Q e'"
proof -
  obtain kept ps b e1 where e1: "setup_rules (EL_rules l) e = Inr (kept, ps, b, e1)"
    using assms(1) by (auto simp: EventLoop_wait_next_event_def bindR_eq_Inr_iff)
  obtain n errno ps2 e2 where e2: "sys_poll e1 ps t = (n, errno, ps2, e2)" by (cases "sys_poll e1 ps t")
  have kept: "set kept \<subseteq> set (EL_rules l)" using setup_subseq [OF e1] by (auto dest: list_emb_set)
  have "Q e1" by (rule setup_keeps_state [where Q = Q, OF e1 assms(2)]) (use rules in blast)
  moreover have "Q e2" using poll [OF \<open>Q e1\<close>, of ps] e2 by simp
  moreover have "Q e'" if "serve_rules kept ps2 e2 = Inr (kept', e')" for kept'
    by (rule serve_keeps_state [where Q = Q, OF that \<open>Q e2\<close>]) (use rules kept in blast)
  ultimately show ?thesis
    using assms(1) e1 e2
    by (auto simp: EventLoop_wait_next_event_def bindR_eq_Inr_iff Let_def split: sum.splits if_splits)
qed

lemma send_datagrams_abort: "send_datagrams P segs s = Inr s' \<Longrightarrow> SS_abort s' = SS_abort s"
  by (induction segs arbitrary: s) (fastforce simp: bindR_eq_Inr_iff)+

lemma socket_rules_abort:
  assumes "r \<in> set (socket_rules P)" and "RL_cancel r s = Inr s' \<or> RL_callback r s = Inr s'"
  shows "SS_abort s' = SS_abort s"
proof -
  have "rule1_callback P s = Inr s' \<Longrightarrow> SS_abort s' = SS_abort s"
    by (auto simp: rule1_callback_def rule1_read_def rule1_debug_def bindR_eq_Inr_iff Let_def split: option.splits if_splits)
  moreover have "rule2_callback P s = Inr s' \<Longrightarrow> SS_abort s' = SS_abort s"
    by (auto simp: rule2_callback_def bindR_eq_Inr_iff Let_def split: if_splits)
  moreover have "rule2_cancel s = Inr s' \<Longrightarrow> SS_abort s' = SS_abort s"
    by (auto simp: rule2_cancel_def bindR_eq_Inr_iff)
  moreover have "rule3_callback P s = Inr s' \<Longrightarrow> SS_abort s' = SS_abort s"
    by (auto simp: rule3_callback_def rule3_write_def bindR_eq_Inr_iff Let_def split: if_splits)
  moreover have "rule4_callback P s = Inr s' \<Longrightarrow> SS_abort s' = SS_abort s"
    by (auto simp: rule4_callback_def bindR_eq_Inr_iff dest: send_datagrams_abort)
  ultimately show ?thesis using assms by (auto simp: socket_rules_def default_cancel_def)
qed

text \<open>A loop whose flag is set makes one more round.\<close>

lemma aborted_loop:
  assumes "set (EL_rules l) \<subseteq> set (socket_rules P)" and "SS_abort s"
    and "\<And>s ps t. SS_abort (snd (snd (snd (sys_poll s ps t)))) = SS_abort s"
  shows "tcp_loop P sys_poll (\<lambda>_. Inr True) (l, s) =
    Some (bindR (EventLoop_wait_next_event sys_poll l TCP_TICK_MS s) (\<lambda>(ret, l, s). Inr (l, s)))"
proof (cases "EventLoop_wait_next_event sys_poll l TCP_TICK_MS s")
  case (Inl e)
  then show ?thesis by (simp add: tcp_loop_def tcp_loop_from.simps tcp_loop_pass_def)
next
  case (Inr x)
  obtain ret l' s' where x: "x = (ret, l', s')" by (cases x)
  have "SS_abort s'"
    by (rule wait_keeps_state [where Q = SS_abort, OF Inr [unfolded x]]) (use assms socket_rules_abort in blast)+
  then show ?thesis using Inr x by (simp add: tcp_loop_def tcp_loop_from.simps tcp_loop_pass_def)
qed

section \<open>Properties\<close>

text \<open>C37: the destructor gets its thread back: when the socket of a connection is destroyed while its thread
  is waiting for the next round, the thread makes at most that one round, shuts the owner's end down and drops
  the connection; so the destructor returns, and what it returns is given by that round alone.\<close>

theorem socket_destroy_ends:
  assumes "set (EL_rules l) \<subseteq> set (socket_rules P)" and "SS_tcp s \<noteq> None" and "SS_tcp_thread s"
    and "\<forall>s ps t. SS_abort (snd (snd (snd (sys_poll s ps t)))) = SS_abort s"
  shows "TCPSpongeSocket_destroy (tcp_main P sys_poll) (l, s) =
    Some (bindR (EventLoop_wait_next_event sys_poll l TCP_TICK_MS (s\<lparr>SS_abort := True\<rparr>)) (\<lambda>(ret, l, s).
          bindR (tcp_main_end P (l, s)) (\<lambda>(l, s). Inr (l, s\<lparr>SS_tcp_thread := False\<rparr>))))"
  using assms(2-4) aborted_loop [OF assms(1), of "s\<lparr>SS_abort := True\<rparr>" sys_poll]
  by (simp add: TCPSpongeSocket_destroy_def thread_join_def tcp_main_def bindR_assoc case_prod_beta') auto

theorem socket_destroy_ends_witness:
  "let (l, s) = initialize_TCP example_platform TCPConfig_new 7 (EventLoop_new, (example_socket None)\<lparr>SS_tcp_thread := True\<rparr>)
   in \<exists>r. TCPSpongeSocket_destroy (tcp_main example_platform (\<lambda>s ps t. (0, 0, ps, s))) (l, s) = Some r"
proof -
  let ?s = "(example_socket None)\<lparr>SS_tcp_thread := True, SS_tcp := Some (TCPConnection_new TCPConfig_new 7)\<rparr>"
  let ?l = "EventLoop_new\<lparr>EL_rules := socket_rules example_platform\<rparr>"
  have "set (EL_rules ?l) \<subseteq> set (socket_rules example_platform)" by simp
  from socket_destroy_ends [OF this, of ?s "\<lambda>s ps t. (0, 0, ps, s)"] show ?thesis
    by (simp add: initialize_TCP_eq EventLoop_new_def)
qed

text \<open>Destroying an open connection puts a reset in its queue, but the thread never sends it: after dropping
  the connection the device and the adapter are as they were, and the queue is gone.\<close>

lemma destroyed_reset_unsent:
  assumes "SS_tcp s = Some c" and "TCPConnection_active c" and "TCPConnection_destroy c = Inr c'"
    and "tcp_main_end P (l, s) = Inr (l', s')"
  shows "(\<exists>seg \<in> set (TC_segments_out c'). TH_rst (TS_header seg)) \<and> SS_tcp s' = None
    \<and> SS_device s' = SS_device s \<and> SS_adapter s' = SS_adapter s"
proof -
  have "TCPConnection_unclean_shutdown c = Inr c'" using assms(2,3) by (simp add: TCPConnection_destroy_def)
  then obtain new where "TC_segments_out c' = TC_segments_out c @ new" "new \<noteq> []" "TH_rst (TS_header (last new))"
    using unclean_shutdown_out(1) by blast
  then have "\<exists>seg \<in> set (TC_segments_out c'). TH_rst (TS_header seg)" by (intro bexI [of _ "last new"]) simp_all
  then show ?thesis using assms(1,4) by (auto simp: tcp_main_end_def bindR_eq_Inr_iff Let_def)
qed

text \<open>Both ends of a new socket are Unix stream sockets, and it has no connection yet.\<close>

lemma new_socket_ends:
  assumes "getsockopt_ok opt (ss_getsockopt S)" and "TCPSpongeSocket_of_pair S k first second device a = Inr (l, s)"
  shows "opt k (FD_fd first) SO_DOMAIN = AF_UNIX \<and> opt k (FD_fd first) SO_TYPE = SOCK_STREAM
    \<and> opt k (FD_fd second) SO_DOMAIN = AF_UNIX \<and> opt k (FD_fd second) SO_TYPE = SOCK_STREAM
    \<and> SS_owner s = first \<and> SS_thread_data s = second \<and> SS_tcp s = None \<and> EL_rules l = []"
  using assms(2)
  by (auto simp: TCPSpongeSocket_of_pair_def LocalStreamSocket_of_fd_def socket_kind_exact [OF assms(1)] bindR_eq_Inr_iff
      EventLoop_new_def split: if_splits)

end
