(* ===== verification/Stream_Copy.thy ===== *)
theory Stream_Copy
  imports Sockets Event_Loop Byte_Stream
begin

text \<open>
  The copying between the terminal and a socket, from \<^verbatim>\<open>apps/bidirectional_stream_copy.cc\<close>: an
  application of the event loop with one byte stream for each direction. The system calls are arguments. Shown
  here: when the copying ends, everything read from either side has been written to the other, up to the end of
  both inputs; and the program itself throws nothing, only failing system calls and failing polls do.
\<close>

section \<open>The program\<close>

record 'k copy_system =
  cs_read :: "'k sys_read"
  cs_writev :: "'k sys_writev"
  cs_shutdown :: "'k \<Rightarrow> int \<Rightarrow> int \<Rightarrow> int \<times> int \<times> 'k"
  cs_close :: "'k \<Rightarrow> int \<Rightarrow> int \<times> int \<times> 'k"
  cs_getfl :: "'k \<Rightarrow> int \<Rightarrow> int \<times> int \<times> 'k"
  cs_setfl :: "'k \<Rightarrow> int \<Rightarrow> int \<Rightarrow> int \<times> int \<times> 'k"

record 'k copy_state =
  CP_kernel :: 'k
  CP_input :: FDWrapper
  CP_output :: FDWrapper
  CP_socket :: FDWrapper
  CP_outbound :: ByteStream
  CP_inbound :: ByteStream
  CP_outbound_shutdown :: bool
  CP_inbound_shutdown :: bool

definition STDIN_FILENO :: int where "STDIN_FILENO = 0"
definition STDOUT_FILENO :: int where "STDOUT_FILENO = 1"

definition max_copy_length :: u64 where
  "max_copy_length = 65536"

definition copy_buffer_size :: u64 where
  "copy_buffer_size = 1048576"

text \<open>Both directions read a descriptor into a stream, and write the front of a stream to a descriptor.\<close>

definition copy_in :: "'k copy_system \<Rightarrow> 'k \<Rightarrow> FDWrapper \<Rightarrow> ByteStream \<Rightarrow> (ByteStream \<times> FDWrapper \<times> 'k) result" where
  "copy_in S k fd st =
     bindR (FileDescriptor_read (cs_read S) k fd (ByteStream_remaining_capacity st)) (\<lambda>(data, fd, k).
     bindR (ByteStream_write st data) (\<lambda>(_, st).
     Inr (if FD_eof fd then ByteStream_end_input st else st, fd, k)))"

definition copy_out :: "'k copy_system \<Rightarrow> 'k \<Rightarrow> FDWrapper \<Rightarrow> ByteStream \<Rightarrow> (ByteStream \<times> FDWrapper \<times> 'k) result" where
  "copy_out S k fd st =
     (let bytes_to_write = min max_copy_length (ByteStream_buffer_size st)
      in bindR (FileDescriptor_write (cs_writev S) k fd (BufferViewList_of_view (ByteStream_peek_output st bytes_to_write)) False) (\<lambda>(bytes_written, fd, k).
         bindR (ByteStream_pop_output st bytes_written) (\<lambda>st. Inr (st, fd, k))))"

definition copy1_callback :: "'k copy_system \<Rightarrow> 'k copy_state \<Rightarrow> 'k copy_state result" where
  "copy1_callback S s = bindR (copy_in S (CP_kernel s) (CP_input s) (CP_outbound s)) (\<lambda>(outbound, input, k).
     Inr (s\<lparr>CP_outbound := outbound, CP_input := input, CP_kernel := k\<rparr>))"

definition copy1_interest :: "'k copy_state \<Rightarrow> bool result" where
  "copy1_interest s = Inr (\<not> ByteStream_error (CP_outbound s) \<and> ByteStream_remaining_capacity (CP_outbound s) > 0
     \<and> \<not> ByteStream_error (CP_inbound s))"

text \<open>The first two rules are cancelled in the same way.\<close>

definition end_outbound :: "'k copy_state \<Rightarrow> 'k copy_state result" where
  "end_outbound s = Inr (s\<lparr>CP_outbound := ByteStream_end_input (CP_outbound s)\<rparr>)"

definition copy2_callback :: "'k copy_system \<Rightarrow> 'k copy_state \<Rightarrow> 'k copy_state result" where
  "copy2_callback S s = bindR (copy_out S (CP_kernel s) (CP_socket s) (CP_outbound s)) (\<lambda>(outbound, socket, k).
     if ByteStream_eof outbound
     then bindR (Socket_shutdown (cs_shutdown S) k socket SHUT_WR) (\<lambda>(socket, k).
          Inr (s\<lparr>CP_outbound := outbound, CP_socket := socket, CP_kernel := k, CP_outbound_shutdown := True\<rparr>))
     else Inr (s\<lparr>CP_outbound := outbound, CP_socket := socket, CP_kernel := k\<rparr>))"

definition copy2_interest :: "'k copy_state \<Rightarrow> bool result" where
  "copy2_interest s = Inr (\<not> ByteStream_buffer_empty (CP_outbound s) \<or> ByteStream_eof (CP_outbound s) \<and> \<not> CP_outbound_shutdown s)"

definition copy3_callback :: "'k copy_system \<Rightarrow> 'k copy_state \<Rightarrow> 'k copy_state result" where
  "copy3_callback S s = bindR (copy_in S (CP_kernel s) (CP_socket s) (CP_inbound s)) (\<lambda>(inbound, socket, k).
     Inr (s\<lparr>CP_inbound := inbound, CP_socket := socket, CP_kernel := k\<rparr>))"

definition copy3_interest :: "'k copy_state \<Rightarrow> bool result" where
  "copy3_interest s = Inr (\<not> ByteStream_error (CP_inbound s) \<and> ByteStream_remaining_capacity (CP_inbound s) > 0
     \<and> \<not> ByteStream_error (CP_outbound s))"

definition end_inbound :: "'k copy_state \<Rightarrow> 'k copy_state result" where
  "end_inbound s = Inr (s\<lparr>CP_inbound := ByteStream_end_input (CP_inbound s)\<rparr>)"

definition copy4_callback :: "'k copy_system \<Rightarrow> 'k copy_state \<Rightarrow> 'k copy_state result" where
  "copy4_callback S s = bindR (copy_out S (CP_kernel s) (CP_output s) (CP_inbound s)) (\<lambda>(inbound, output, k).
     if ByteStream_eof inbound
     then bindR (FDWrapper_close (cs_close S) k output) (\<lambda>(output, k).
          Inr (s\<lparr>CP_inbound := inbound, CP_output := output, CP_kernel := k, CP_inbound_shutdown := True\<rparr>))
     else Inr (s\<lparr>CP_inbound := inbound, CP_output := output, CP_kernel := k\<rparr>))"

definition copy4_interest :: "'k copy_state \<Rightarrow> bool result" where
  "copy4_interest s = Inr (\<not> ByteStream_buffer_empty (CP_inbound s) \<or> ByteStream_eof (CP_inbound s) \<and> \<not> CP_inbound_shutdown s)"

definition copy_rules :: "'k copy_system \<Rightarrow> 'k copy_state EventLoop" where
  "copy_rules S =
     (let l = EventLoop_new;
          l = EventLoop_add_rule l CP_input DirIn (copy1_callback S) copy1_interest end_outbound;
          l = EventLoop_add_rule l CP_socket DirOut (copy2_callback S) copy2_interest end_outbound;
          l = EventLoop_add_rule l CP_socket DirIn (copy3_callback S) copy3_interest end_inbound;
          l = EventLoop_add_rule l CP_output DirOut (copy4_callback S) copy4_interest end_inbound
      in l)"

definition copy_begin :: "'k copy_system \<Rightarrow> 'k \<Rightarrow> FDWrapper \<Rightarrow> 'k copy_state result" where
  "copy_begin S k socket =
     bindR (FDWrapper_new STDIN_FILENO) (\<lambda>input.
     bindR (FDWrapper_new STDOUT_FILENO) (\<lambda>output.
     bindR (FileDescriptor_set_blocking (cs_getfl S) (cs_setfl S) k socket False) (\<lambda>k.
     bindR (FileDescriptor_set_blocking (cs_getfl S) (cs_setfl S) k input False) (\<lambda>k.
     bindR (FileDescriptor_set_blocking (cs_getfl S) (cs_setfl S) k output False) (\<lambda>k.
     Inr \<lparr>CP_kernel = k, CP_input = input, CP_output = output, CP_socket = socket,
          CP_outbound = ByteStream_new copy_buffer_size, CP_inbound = ByteStream_new copy_buffer_size,
          CP_outbound_shutdown = False, CP_inbound_shutdown = False\<rparr>)))))"

text \<open>The loop need not end: \<open>None\<close> stands for a run that does not.\<close>

partial_function (option) copy_loop ::
    "'k copy_state sys_poll \<Rightarrow> 'k copy_state EventLoop \<Rightarrow> 'k copy_state \<Rightarrow> 'k copy_state result option" where
  "copy_loop sys_poll l s =
     (case EventLoop_wait_next_event sys_poll l (- 1) s of
        Inl x \<Rightarrow> Some (Inl x)
      | Inr round \<Rightarrow> if fst round = Exit then Some (Inr (snd (snd round)))
                     else copy_loop sys_poll (fst (snd round)) (snd (snd round)))"

definition bidirectional_stream_copy ::
    "'k copy_system \<Rightarrow> 'k copy_state sys_poll \<Rightarrow> 'k \<Rightarrow> FDWrapper \<Rightarrow> 'k copy_state result option" where
  "bidirectional_stream_copy S sys_poll k socket =
     (case copy_begin S k socket of Inl x \<Rightarrow> Some (Inl x) | Inr s \<Rightarrow> copy_loop sys_poll (copy_rules S) s)"

section \<open>The system\<close>

text \<open>
  By the documentation of the calls: a call fails with \<open>-1\<close> and an error number, or it does what it says.
  \<open>inp\<close> is what has been read from a descriptor and \<open>out\<close> what has been written to it.
\<close>

definition system_ok :: "('k \<Rightarrow> int \<Rightarrow> bytes) \<Rightarrow> ('k \<Rightarrow> int \<Rightarrow> bytes) \<Rightarrow> 'k copy_system \<Rightarrow> bool" where
  "system_ok inp out S \<longleftrightarrow>
     (\<forall>k fd n r e data k'. cs_read S k fd n = (r, e, data, k') \<longrightarrow> r = - 1 \<and> e \<noteq> 0
        \<or> r = int (length data) \<and> length data \<le> unat n \<and> inp k' = (inp k)(fd := inp k fd @ data) \<and> out k' = out k)
   \<and> (\<forall>k fd iov r e k'. cs_writev S k fd iov = (r, e, k') \<longrightarrow> r = - 1 \<and> e \<noteq> 0
        \<or> 0 \<le> r \<and> r \<le> int (length (concat (map fst iov))) \<and> r < 2 ^ 31 \<and> (r = 0 \<longrightarrow> concat (map fst iov) = [])
          \<and> out k' = (out k)(fd := out k fd @ take (nat r) (concat (map fst iov))) \<and> inp k' = inp k)
   \<and> (\<forall>k fd how. inp (snd (snd (cs_shutdown S k fd how))) = inp k \<and> out (snd (snd (cs_shutdown S k fd how))) = out k)
   \<and> (\<forall>k fd. inp (snd (snd (cs_close S k fd))) = inp k \<and> out (snd (snd (cs_close S k fd))) = out k)
   \<and> (\<forall>k fd. inp (snd (snd (cs_getfl S k fd))) = inp k \<and> out (snd (snd (cs_getfl S k fd))) = out k)
   \<and> (\<forall>k fd n. inp (snd (snd (cs_setfl S k fd n))) = inp k \<and> out (snd (snd (cs_setfl S k fd n))) = out k)"

fun system_failure :: "cpp_error \<Rightarrow> bool" where
  "system_failure (SystemError attempt errno) = True" |
  "system_failure _ = False"

lemma SystemCall_throws: "SystemCall a r e m = Inl x \<Longrightarrow> system_failure x"
  by (auto simp: SystemCall_def Let_def split: if_splits)

lemma set_blocking_throws:
  assumes "FileDescriptor_set_blocking getfl setfl k w b = Inl x"
  shows "system_failure x"
proof -
  obtain r e k1 where get: "getfl k (FD_fd w) = (r, e, k1)" by (cases "getfl k (FD_fd w)")
  show ?thesis
  proof (cases "SystemCall ''fcntl'' r e 0")
    case (Inl y)
    then show ?thesis using assms get SystemCall_throws [OF Inl] by (simp add: FileDescriptor_set_blocking_def)
  next
    case (Inr flags)
    then obtain fl where "(case setfl k1 (FD_fd w) fl of (r, e, k) \<Rightarrow> bindR (SystemCall ''fcntl'' r e 0) (\<lambda>_. Inr k)) = Inl x"
      using assms get by (simp add: FileDescriptor_set_blocking_def Let_def)
    then show ?thesis by (cases "setfl k1 (FD_fd w) fl") (auto simp: bindR_eq_Inl dest: SystemCall_throws)
  qed
qed

lemma system_ok_read:
  assumes "system_ok inp out S" and "cs_read S k fd n = (r, e, data, k')"
  shows "r = - 1 \<and> e \<noteq> 0
    \<or> r = int (length data) \<and> length data \<le> unat n \<and> inp k' = (inp k)(fd := inp k fd @ data) \<and> out k' = out k"
  using assms(1) [unfolded system_ok_def, THEN conjunct1, rule_format, OF assms(2)] .

lemma system_ok_writev:
  assumes "system_ok inp out S" and "cs_writev S k fd iov = (r, e, k')"
  shows "r = - 1 \<and> e \<noteq> 0
    \<or> 0 \<le> r \<and> r \<le> int (length (concat (map fst iov))) \<and> r < 2 ^ 31 \<and> (r = 0 \<longrightarrow> concat (map fst iov) = [])
      \<and> out k' = (out k)(fd := out k fd @ take (nat r) (concat (map fst iov))) \<and> inp k' = inp k"
  using assms(1) [unfolded system_ok_def, THEN conjunct2, THEN conjunct1, rule_format, OF assms(2)] .

lemma system_ok_others:
  assumes "system_ok inp out S"
  shows "inp (snd (snd (cs_shutdown S k fd how))) = inp k" "out (snd (snd (cs_shutdown S k fd how))) = out k"
    "inp (snd (snd (cs_close S k fd))) = inp k" "out (snd (snd (cs_close S k fd))) = out k"
    "inp (snd (snd (cs_getfl S k fd))) = inp k" "out (snd (snd (cs_getfl S k fd))) = out k"
    "inp (snd (snd (cs_setfl S k fd n))) = inp k" "out (snd (snd (cs_setfl S k fd n))) = out k"
  using assms [unfolded system_ok_def, THEN conjunct2, THEN conjunct2] by blast+

lemma set_blocking_keeps:
  assumes ok: "system_ok inp out S" and "FileDescriptor_set_blocking (cs_getfl S) (cs_setfl S) k w b = Inr k'"
  shows "inp k' = inp k \<and> out k' = out k"
proof -
  obtain r e k1 where get: "cs_getfl S k (FD_fd w) = (r, e, k1)" by (cases "cs_getfl S k (FD_fd w)")
  then obtain fl where "(case cs_setfl S k1 (FD_fd w) fl of (r, e, k) \<Rightarrow> bindR (SystemCall ''fcntl'' r e 0) (\<lambda>_. Inr k)) = Inr k'"
    using assms(2) by (cases "SystemCall ''fcntl'' r e 0") (auto simp: FileDescriptor_set_blocking_def Let_def)
  then have "k' = snd (snd (cs_setfl S k1 (FD_fd w) fl))" by (cases "cs_setfl S k1 (FD_fd w) fl") (auto simp: bindR_eq_Inr_iff)
  moreover have "inp k1 = inp k" "out k1 = out k" using system_ok_others(5,6) [OF ok, of k "FD_fd w"] get by simp_all
  ultimately show ?thesis using system_ok_others(7,8) [OF ok] by simp
qed

lemma copy_in_ok:
  assumes ok: "system_ok inp out S" and st: "ByteStream_inv st"
  shows "(\<exists>x. copy_in S k fd st = Inl x \<and> system_failure x)
    \<or> (\<exists>st' fd' k' data. copy_in S k fd st = Inr (st', fd', k') \<and> ByteStream_inv st'
        \<and> ByteStream_contents st' = ByteStream_contents st @ data \<and> BS_capacity st' = BS_capacity st \<and> BS_error st' = BS_error st
        \<and> isInputEnded st' = (isInputEnded st \<or> FD_eof fd')
        \<and> fd' = fd\<lparr>FD_eof := FD_eof fd', FD_read_count := FD_read_count fd + 1\<rparr> \<and> (FD_eof fd \<longrightarrow> FD_eof fd')
        \<and> inp k' = (inp k)(FD_fd fd := inp k (FD_fd fd) @ data) \<and> out k' = out k)"
proof -
  define limit where "limit = ByteStream_remaining_capacity st"
  let ?n = "min BUFFER_SIZE limit"
  obtain r e data k' where call: "cs_read S k (FD_fd fd) ?n = (r, e, data, k')" by (cases "cs_read S k (FD_fd fd) ?n")
  then consider (bad) "r = - 1" "e \<noteq> 0"
    | (good) "r = int (length data)" "length data \<le> unat ?n"
        "inp k' = (inp k)(FD_fd fd := inp k (FD_fd fd) @ data)" "out k' = out k"
    using system_ok_read [OF ok] by blast
  then show ?thesis
  proof cases
    case bad
    then show ?thesis
      using call by (simp add: copy_in_def FileDescriptor_read_def limit_def SystemCall_def to_int_def)
  next
    case good
    then have "read_gives (cs_read S) k (FD_fd fd) ?n data k'" using call by (simp add: read_gives_def)
    from FileDescriptor_read_ok [OF this] obtain fd' where read: "FileDescriptor_read (cs_read S) k fd limit = Inr (data, fd', k')"
      "fd' = fd\<lparr>FD_eof := FD_eof fd', FD_read_count := FD_read_count fd + 1\<rparr>" "FD_eof fd \<longrightarrow> FD_eof fd'" by simp
    have len: "length data \<le> unat limit" using good(2) unfolding unat_min by simp
    then have small: "length data < 2 ^ 64" using unat_lt_size [of limit] by (simp add: le_less_trans)
    obtain st' m where w: "ByteStream_write st data = Inr (of_nat m, st')" "ByteStream_inv st'"
      "m = min (length data) (unat (BS_capacity st) - length (ByteStream_contents st))"
      "ByteStream_contents st' = ByteStream_contents st @ take m data" "BS_capacity st' = BS_capacity st"
      "BS_error st' = BS_error st" "isInputEnded st' = isInputEnded st"
      by (rule ByteStream_writeE [OF st small]) blast
    have "m = length data" using w(3) len by (simp add: limit_def unat_remaining_capacity [OF st])
    then have "ByteStream_contents st' = ByteStream_contents st @ data" using w(4) by simp
    then show ?thesis
      using read w good
      by (intro disjI2 exI [of _ "if FD_eof fd' then ByteStream_end_input st' else st'"] exI [of _ fd'] exI [of _ k'] exI [of _ data])
        (auto simp: copy_in_def limit_def [symmetric] ByteStream_end_input_def ByteStream_inv_def ByteStream_contents_def)
  qed
qed

lemma copy_out_ok:
  assumes ok: "system_ok inp out S" and st: "ByteStream_inv st"
  shows "(\<exists>x. copy_out S k fd st = Inl x \<and> system_failure x)
    \<or> (\<exists>st' k' data. copy_out S k fd st = Inr (st', FileDescriptor_register_write fd, k') \<and> ByteStream_inv st'
        \<and> ByteStream_contents st = data @ ByteStream_contents st' \<and> BS_capacity st' = BS_capacity st \<and> BS_error st' = BS_error st
        \<and> isInputEnded st' = isInputEnded st
        \<and> out k' = (out k)(FD_fd fd := out k (FD_fd fd) @ data) \<and> inp k' = inp k)"
proof -
  define m where "m = min max_copy_length (ByteStream_buffer_size st)"
  define view where "view = BufferViewList_of_view (ByteStream_peek_output st m)"
  have within: "unat m \<le> unat (endOfBuffer st)" unfolding m_def unat_min by (simp add: ByteStream_buffer_size_def)
  have m: "unat m \<le> length (ByteStream_contents st)" using within by (simp only: length_contents [OF st])
  have data: "BufferViewList_contents view = take (unat m) (ByteStream_contents st)"
    using within by (simp add: view_def BufferViewList_of_view_def BufferViewList_contents_def ByteStream_peek_output_def str_head_def
        ByteStream_contents_def min_absorb1)
  have small: "length (BufferViewList_contents view) < 2 ^ 63"
  proof -
    have "unat m \<le> 65536" unfolding m_def unat_min by (simp add: max_copy_length_def)
    then show ?thesis by (simp add: data)
  qed
  obtain r e k' where call: "cs_writev S k (FD_fd fd) (BufferViewList_as_iovecs view) = (r, e, k')"
    by (cases "cs_writev S k (FD_fd fd) (BufferViewList_as_iovecs view)")
  then consider (bad) "r = - 1" "e \<noteq> 0"
    | (good) "0 \<le> r" "r \<le> int (length (BufferViewList_contents view))" "r < 2 ^ 31" "r = 0 \<longrightarrow> BufferViewList_contents view = []"
        "out k' = (out k)(FD_fd fd := out k (FD_fd fd) @ take (nat r) (BufferViewList_contents view))" "inp k' = inp k"
    using system_ok_writev [OF ok call] unfolding iovecs_data by blast
  then show ?thesis
  proof cases
    case bad
    then have "write_once (cs_writev S) k fd view = Inl (SystemError ''writev'' e)"
      using call by (simp add: write_once_def SystemCall_def to_int_def)
    then show ?thesis
      by (simp add: copy_out_def FileDescriptor_write_def FileDescriptor_write_loop.simps m_def [symmetric] view_def [symmetric])
  next
    case good
    obtain b' where "write_once (cs_writev S) k fd view = Inr (r, b', FileDescriptor_register_write fd, k')"
      using write_once_call [of "cs_writev S" k fd view r e k'] call small good(1-4) by blast
    then have wrote: "FileDescriptor_write (cs_writev S) k fd view False = Inr (word_of_int r, FileDescriptor_register_write fd, k')"
      by (simp add: FileDescriptor_write_def FileDescriptor_write_loop.simps)
    have r: "unat (word_of_int r :: u64) = nat r" using good(1,3) by (simp add: unat_eq_nat_uint uint_word_of_int)
    have len: "nat r \<le> length (BufferViewList_contents view)" using good(2) by (simp only: nat_le_iff)
    then have "nat r \<le> length (ByteStream_contents st)" by (simp add: data)
    then obtain st' where pop: "ByteStream_pop_output st (word_of_int r) = Inr st'" "ByteStream_inv st'"
      "ByteStream_abs st' = spec_pop (ByteStream_abs st) (nat r)"
      using ByteStream_pop_refines [OF st, of "word_of_int r"] r by auto
    note st' = ByteStream_popE [OF pop(3)]
    have "take (nat r) (BufferViewList_contents view) = take (nat r) (ByteStream_contents st)"
      using len by (simp add: data min_absorb1)
    then show ?thesis
      using wrote pop(1,2) st' good(5,6)
      by (intro disjI2 exI [of _ st'] exI [of _ k'] exI [of _ "take (nat r) (ByteStream_contents st)"])
        (simp add: copy_out_def m_def [symmetric] view_def [symmetric])
  qed
qed

section \<open>The invariant\<close>

text \<open>What was read on one side is what was written on the other and what is in the stream between them;
  a stream is at its end exactly when its descriptor is; the terminal is closed only after the last byte.\<close>

definition copy_inv :: "int \<Rightarrow> ('k \<Rightarrow> int \<Rightarrow> bytes) \<Rightarrow> ('k \<Rightarrow> int \<Rightarrow> bytes) \<Rightarrow> 'k copy_state \<Rightarrow> bool" where
  "copy_inv n inp out s \<longleftrightarrow>
     ByteStream_inv (CP_outbound s) \<and> BS_capacity (CP_outbound s) = copy_buffer_size \<and> \<not> BS_error (CP_outbound s)
   \<and> ByteStream_inv (CP_inbound s) \<and> BS_capacity (CP_inbound s) = copy_buffer_size \<and> \<not> BS_error (CP_inbound s)
   \<and> FD_fd (CP_input s) = STDIN_FILENO \<and> FD_fd (CP_output s) = STDOUT_FILENO \<and> FD_fd (CP_socket s) = n \<and> n \<notin> {STDIN_FILENO, STDOUT_FILENO}
   \<and> \<not> FD_closed (CP_input s) \<and> \<not> FD_closed (CP_socket s)
   \<and> (isInputEnded (CP_outbound s) \<longleftrightarrow> FD_eof (CP_input s)) \<and> (isInputEnded (CP_inbound s) \<longleftrightarrow> FD_eof (CP_socket s))
   \<and> (FD_closed (CP_output s) \<longrightarrow> isInputEnded (CP_inbound s) \<and> ByteStream_contents (CP_inbound s) = [])
   \<and> inp (CP_kernel s) (FD_fd (CP_input s)) = out (CP_kernel s) (FD_fd (CP_socket s)) @ ByteStream_contents (CP_outbound s)
   \<and> inp (CP_kernel s) (FD_fd (CP_socket s)) = out (CP_kernel s) (FD_fd (CP_output s)) @ ByteStream_contents (CP_inbound s)"

text \<open>The flags of a descriptor that the rules look at.\<close>

definition fd_flags :: "FDWrapper \<Rightarrow> bool \<times> bool" where
  "fd_flags w = (FD_eof w, FD_closed w)"

lemma copy1_ok:
  assumes ok: "system_ok inp out S" and inv: "copy_inv n inp out s"
  shows "case copy1_callback S s of Inl x \<Rightarrow> system_failure x
    | Inr s' \<Rightarrow> copy_inv n inp out s' \<and> (FD_eof (CP_input s) \<longrightarrow> FD_eof (CP_input s')) \<and> FD_closed (CP_input s') = FD_closed (CP_input s)
        \<and> fd_flags (CP_output s') = fd_flags (CP_output s) \<and> fd_flags (CP_socket s') = fd_flags (CP_socket s)"
proof -
  have st: "ByteStream_inv (CP_outbound s)" using inv by (simp add: copy_inv_def)
  from copy_in_ok [OF ok st, of "CP_kernel s" "CP_input s"] show ?thesis
  proof (elim disjE exE conjE)
    fix st' fd' k' data
    assume cp: "copy_in S (CP_kernel s) (CP_input s) (CP_outbound s) = Inr (st', fd', k')"
      and fd': "fd' = (CP_input s)\<lparr>FD_eof := FD_eof fd', FD_read_count := FD_read_count (CP_input s) + 1\<rparr>"
      and facts: "ByteStream_inv st'" "ByteStream_contents st' = ByteStream_contents (CP_outbound s) @ data"
        "BS_capacity st' = BS_capacity (CP_outbound s)" "BS_error st' = BS_error (CP_outbound s)"
        "isInputEnded st' = (isInputEnded (CP_outbound s) \<or> FD_eof fd')" "FD_eof (CP_input s) \<longrightarrow> FD_eof fd'"
        "inp k' = (inp (CP_kernel s))(FD_fd (CP_input s) := inp (CP_kernel s) (FD_fd (CP_input s)) @ data)" "out k' = out (CP_kernel s)"
    have fds: "FD_fd fd' = FD_fd (CP_input s)" "FD_closed fd' = FD_closed (CP_input s)" by (subst fd', simp)+
    show ?thesis using inv facts fds by (auto simp: copy1_callback_def cp copy_inv_def fd_flags_def)
  qed (simp add: copy1_callback_def)
qed

lemma copy3_ok:
  assumes ok: "system_ok inp out S" and inv: "copy_inv n inp out s" and more: "\<not> FD_eof (CP_socket s)"
  shows "case copy3_callback S s of Inl x \<Rightarrow> system_failure x
    | Inr s' \<Rightarrow> copy_inv n inp out s' \<and> FD_closed (CP_socket s') = FD_closed (CP_socket s)
        \<and> fd_flags (CP_input s') = fd_flags (CP_input s) \<and> fd_flags (CP_output s') = fd_flags (CP_output s)"
proof -
  have st: "ByteStream_inv (CP_inbound s)" and opened: "\<not> FD_closed (CP_output s)" using inv more by (auto simp: copy_inv_def)
  from copy_in_ok [OF ok st, of "CP_kernel s" "CP_socket s"] show ?thesis
  proof (elim disjE exE conjE)
    fix st' fd' k' data
    assume cp: "copy_in S (CP_kernel s) (CP_socket s) (CP_inbound s) = Inr (st', fd', k')"
      and fd': "fd' = (CP_socket s)\<lparr>FD_eof := FD_eof fd', FD_read_count := FD_read_count (CP_socket s) + 1\<rparr>"
      and facts: "ByteStream_inv st'" "ByteStream_contents st' = ByteStream_contents (CP_inbound s) @ data"
        "BS_capacity st' = BS_capacity (CP_inbound s)" "BS_error st' = BS_error (CP_inbound s)"
        "isInputEnded st' = (isInputEnded (CP_inbound s) \<or> FD_eof fd')" "FD_eof (CP_socket s) \<longrightarrow> FD_eof fd'"
        "inp k' = (inp (CP_kernel s))(FD_fd (CP_socket s) := inp (CP_kernel s) (FD_fd (CP_socket s)) @ data)" "out k' = out (CP_kernel s)"
    have fds: "FD_fd fd' = FD_fd (CP_socket s)" "FD_closed fd' = FD_closed (CP_socket s)" by (subst fd', simp)+
    show ?thesis using inv facts fds opened by (auto simp: copy3_callback_def cp copy_inv_def fd_flags_def)
  qed (simp add: copy3_callback_def)
qed

lemma Socket_shutdown_wr:
  "Socket_shutdown sd k w SHUT_WR = (case sd k (FD_fd w) SHUT_WR of (r, e, k') \<Rightarrow>
     bindR (SystemCall ''shutdown'' r e 0) (\<lambda>_. Inr (FileDescriptor_register_write w, k')))"
  by (simp add: Socket_shutdown_def SHUT_RD_def SHUT_WR_def Let_def split: prod.splits)

lemma copy2_ok:
  assumes ok: "system_ok inp out S" and inv: "copy_inv n inp out s"
  shows "case copy2_callback S s of Inl x \<Rightarrow> system_failure x
    | Inr s' \<Rightarrow> copy_inv n inp out s' \<and> fd_flags (CP_input s') = fd_flags (CP_input s)
        \<and> fd_flags (CP_output s') = fd_flags (CP_output s) \<and> fd_flags (CP_socket s') = fd_flags (CP_socket s)"
proof -
  have st: "ByteStream_inv (CP_outbound s)" using inv by (simp add: copy_inv_def)
  from copy_out_ok [OF ok st, of "CP_kernel s" "CP_socket s"] show ?thesis
  proof (elim disjE exE conjE)
    fix st' k' data
    let ?w = "FileDescriptor_register_write (CP_socket s)"
    assume cp: "copy_out S (CP_kernel s) (CP_socket s) (CP_outbound s) = Inr (st', ?w, k')"
      and facts: "ByteStream_inv st'" "ByteStream_contents (CP_outbound s) = data @ ByteStream_contents st'"
        "BS_capacity st' = BS_capacity (CP_outbound s)" "BS_error st' = BS_error (CP_outbound s)"
        "isInputEnded st' = isInputEnded (CP_outbound s)" "inp k' = inp (CP_kernel s)"
        "out k' = (out (CP_kernel s))(FD_fd (CP_socket s) := out (CP_kernel s) (FD_fd (CP_socket s)) @ data)"
    obtain r e k2 where sd: "cs_shutdown S k' n SHUT_WR = (r, e, k2)" by (cases "cs_shutdown S k' n SHUT_WR")
    have k2: "inp k2 = inp k'" "out k2 = out k'" using system_ok_others(1,2) [OF ok, of k' n SHUT_WR] sd by simp_all
    show ?thesis
      using inv facts k2 SystemCall_throws [of "''shutdown''" r e 0]
      by (cases "SystemCall ''shutdown'' r e 0")
        (auto simp: copy2_callback_def cp Socket_shutdown_wr sd copy_inv_def fd_flags_def FileDescriptor_register_write_def)
  qed (simp add: copy2_callback_def)
qed

lemma copy4_ok:
  assumes ok: "system_ok inp out S" and inv: "copy_inv n inp out s" and opened: "\<not> FD_closed (CP_output s)"
  shows "case copy4_callback S s of Inl x \<Rightarrow> system_failure x
    | Inr s' \<Rightarrow> copy_inv n inp out s' \<and> fd_flags (CP_input s') = fd_flags (CP_input s) \<and> fd_flags (CP_socket s') = fd_flags (CP_socket s)"
proof -
  have st: "ByteStream_inv (CP_inbound s)" using inv by (simp add: copy_inv_def)
  from copy_out_ok [OF ok st, of "CP_kernel s" "CP_output s"] show ?thesis
  proof (elim disjE exE conjE)
    fix st' k' data
    let ?w = "FileDescriptor_register_write (CP_output s)"
    assume cp: "copy_out S (CP_kernel s) (CP_output s) (CP_inbound s) = Inr (st', ?w, k')"
      and facts: "ByteStream_inv st'" "ByteStream_contents (CP_inbound s) = data @ ByteStream_contents st'"
        "BS_capacity st' = BS_capacity (CP_inbound s)" "BS_error st' = BS_error (CP_inbound s)"
        "isInputEnded st' = isInputEnded (CP_inbound s)" "inp k' = inp (CP_kernel s)"
        "out k' = (out (CP_kernel s))(FD_fd (CP_output s) := out (CP_kernel s) (FD_fd (CP_output s)) @ data)"
    obtain r e k2 where cl: "cs_close S k' STDOUT_FILENO = (r, e, k2)" by (cases "cs_close S k' STDOUT_FILENO")
    have k2: "inp k2 = inp k'" "out k2 = out k'" using system_ok_others(3,4) [OF ok, of k' STDOUT_FILENO] cl by simp_all
    show ?thesis
      using inv facts k2 opened SystemCall_throws [of "''close''" r e 0] eof_iff [OF facts(1)]
      by (cases "SystemCall ''close'' r e 0")
        (auto simp: copy4_callback_def cp FDWrapper_close_def cl copy_inv_def fd_flags_def FileDescriptor_register_write_def)
  qed (simp add: copy4_callback_def)
qed

section \<open>The rules fulfil their contract\<close>

lemma copy_rules_eq:
  "EL_rules (copy_rules S) =
     [\<lparr>RL_fd = CP_input, RL_direction = DirIn, RL_callback = copy1_callback S, RL_interest = copy1_interest, RL_cancel = end_outbound\<rparr>,
      \<lparr>RL_fd = CP_socket, RL_direction = DirOut, RL_callback = copy2_callback S, RL_interest = copy2_interest, RL_cancel = end_outbound\<rparr>,
      \<lparr>RL_fd = CP_socket, RL_direction = DirIn, RL_callback = copy3_callback S, RL_interest = copy3_interest, RL_cancel = end_inbound\<rparr>,
      \<lparr>RL_fd = CP_output, RL_direction = DirOut, RL_callback = copy4_callback S, RL_interest = copy4_interest, RL_cancel = end_inbound\<rparr>]"
  by (simp add: copy_rules_def EventLoop_new_def EventLoop_add_rule_def)

lemma copy_rules_distinct: "distinct (EL_rules (copy_rules S))"
proof -
  obtain a b :: FDWrapper where ab: "a \<noteq> b"
    using that [of "\<lparr>FD_fd = 0, FD_eof = False, FD_closed = False, FD_read_count = 0, FD_write_count = 0\<rparr>"
        "\<lparr>FD_fd = 1, FD_eof = False, FD_closed = False, FD_read_count = 0, FD_write_count = 0\<rparr>"] by simp
  define s :: "'a copy_state" where "s = \<lparr>CP_kernel = undefined, CP_input = a, CP_output = a, CP_socket = b,
    CP_outbound = ByteStream_new 0, CP_inbound = ByteStream_new 0, CP_outbound_shutdown = False, CP_inbound_shutdown = False\<rparr>"
  have "CP_input s \<noteq> CP_socket s" "CP_socket s \<noteq> CP_output s" using ab by (simp_all add: s_def)
  then have "(CP_input :: 'a copy_state \<Rightarrow> FDWrapper) \<noteq> CP_socket" "(CP_socket :: 'a copy_state \<Rightarrow> FDWrapper) \<noteq> CP_output" by metis+
  then show ?thesis by (simp add: copy_rules_eq)
qed

lemma copy_in_counts: "copy_in S k fd st = Inr (st', fd', k') \<Longrightarrow> FD_read_count fd' = FD_read_count fd + 1"
  by (auto simp: copy_in_def bindR_eq_Inr_iff dest: FileDescriptor_read_counts)

lemma copy_out_counts: "copy_out S k fd st = Inr (st', fd', k') \<Longrightarrow> FD_write_count fd' = FD_write_count fd + 1"
  by (auto simp: copy_out_def Let_def bindR_eq_Inr_iff FileDescriptor_register_write_def dest!: FileDescriptor_write_counts)

lemma copy_progress:
  assumes "r \<in> set (EL_rules (copy_rules S))" and "RL_callback r s = Inr s'"
  shows "Rule_service_count r s' \<noteq> Rule_service_count r s"
proof -
  have "FD_read_count (CP_input s') = FD_read_count (CP_input s) + 1" if "copy1_callback S s = Inr s'"
    using that by (auto simp: copy1_callback_def bindR_eq_Inr_iff dest: copy_in_counts)
  moreover have "FD_read_count (CP_socket s') = FD_read_count (CP_socket s) + 1" if "copy3_callback S s = Inr s'"
    using that by (auto simp: copy3_callback_def bindR_eq_Inr_iff dest: copy_in_counts)
  moreover have "FD_write_count (CP_socket s') = FD_write_count (CP_socket s) + 1 \<or> FD_write_count (CP_socket s') = FD_write_count (CP_socket s) + 2"
    if "copy2_callback S s = Inr s'"
    using that by (auto simp: copy2_callback_def bindR_eq_Inr_iff Socket_shutdown_wr FileDescriptor_register_write_def
        dest!: copy_out_counts split: if_splits prod.splits)
  moreover have "FD_write_count (CP_output s') = FD_write_count (CP_output s) + 1" if "copy4_callback S s = Inr s'"
    using that by (auto simp: copy4_callback_def bindR_eq_Inr_iff FDWrapper_close_def dest!: copy_out_counts split: if_splits prod.splits)
  ultimately show ?thesis using assms by (auto simp: copy_rules_eq Rule_service_count_def)
qed

lemma copy_cancel:
  assumes "copy_inv n inp out s" and "r \<in> set (EL_rules (copy_rules S))" and "\<not> open_for r s"
  shows "RL_cancel r s = Inr s"
proof -
  have "end_outbound s = Inr s" if "isInputEnded (CP_outbound s)"
    using that by (simp add: end_outbound_def ByteStream_end_input_def)
  moreover have "end_inbound s = Inr s" if "isInputEnded (CP_inbound s)"
    using that by (simp add: end_inbound_def ByteStream_end_input_def)
  ultimately show ?thesis using assms by (auto simp: copy_rules_eq open_for_def copy_inv_def)
qed

lemma copy_callback:
  assumes "system_ok inp out S" and "copy_inv n inp out s" and "r \<in> set (EL_rules (copy_rules S))" and "open_for r s"
  shows "case RL_callback r s of Inl x \<Rightarrow> system_failure x
    | Inr s' \<Rightarrow> copy_inv n inp out s'
        \<and> (\<forall>r' \<in> set (EL_rules (copy_rules S)). (open_for r' s' \<longrightarrow> open_for r' s) \<and> (r' \<noteq> r \<longrightarrow> open_for r' s \<longrightarrow> open_for r' s'))"
proof -
  consider (r1) "r = EL_rules (copy_rules S) ! 0" | (r2) "r = EL_rules (copy_rules S) ! 1"
    | (r3) "r = EL_rules (copy_rules S) ! 2" | (r4) "r = EL_rules (copy_rules S) ! 3"
    using assms(3) by (auto simp: copy_rules_eq numeral_eq_Suc)
  then show ?thesis
  proof cases
    case r1
    then show ?thesis using copy1_ok [OF assms(1,2)]
      by (cases "copy1_callback S s") (auto simp: copy_rules_eq open_for_def fd_flags_def)
  next
    case r2
    then show ?thesis using copy2_ok [OF assms(1,2)]
      by (cases "copy2_callback S s") (auto simp: copy_rules_eq open_for_def fd_flags_def)
  next
    case r3
    then have "\<not> FD_eof (CP_socket s)" using assms(4) by (simp add: copy_rules_eq open_for_def)
    then show ?thesis using r3 copy3_ok [OF assms(1,2)]
      by (cases "copy3_callback S s") (auto simp: copy_rules_eq open_for_def fd_flags_def)
  next
    case r4
    then have "\<not> FD_closed (CP_output s)" using assms(4) by (simp add: copy_rules_eq open_for_def numeral_eq_Suc)
    then show ?thesis using r4 copy4_ok [OF assms(1,2)]
      by (cases "copy4_callback S s") (auto simp: copy_rules_eq open_for_def fd_flags_def numeral_eq_Suc)
  qed
qed

interpretation copying: orderly "EL_rules (copy_rules S)" "\<lambda>s. system_ok inp out S \<and> copy_inv n inp out s" system_failure for S n inp out
proof
  show "distinct (EL_rules (copy_rules S))" by (rule copy_rules_distinct)
next
  fix s r assume "system_ok inp out S \<and> copy_inv n inp out s" "r \<in> set (EL_rules (copy_rules S))"
  then show "\<exists>b. RL_interest r s = Inr b"
    by (auto simp: copy_rules_eq copy1_interest_def copy2_interest_def copy3_interest_def copy4_interest_def)
next
  fix r and s s' :: "'a copy_state" assume "r \<in> set (EL_rules (copy_rules S))" "RL_callback r s = Inr s'"
  then show "Rule_service_count r s' \<noteq> Rule_service_count r s \<or> RL_interest r s' = Inr False" using copy_progress by blast
next
  fix s r assume I: "system_ok inp out S \<and> copy_inv n inp out s" and r: "r \<in> set (EL_rules (copy_rules S))"
  show "RL_cancel r s = Inr s" if "\<not> open_for r s" using copy_cancel [OF _ r that] I by blast
  assume "open_for r s"
  with I r have out: "case RL_callback r s of Inl x \<Rightarrow> system_failure x
    | Inr s' \<Rightarrow> copy_inv n inp out s'
        \<and> (\<forall>r' \<in> set (EL_rules (copy_rules S)). (open_for r' s' \<longrightarrow> open_for r' s) \<and> (r' \<noteq> r \<longrightarrow> open_for r' s \<longrightarrow> open_for r' s'))"
    by (intro copy_callback) simp_all
  show "system_failure x" if "RL_callback r s = Inl x" for x using out unfolding that by simp
  fix s' assume s': "RL_callback r s = Inr s'"
  show "system_ok inp out S \<and> copy_inv n inp out s'" using I out unfolding s' by simp
  fix r' assume r': "r' \<in> set (EL_rules (copy_rules S))"
  show "open_for r' s" if "open_for r' s'" using out r' that unfolding s' by simp
  show "open_for r' s'" if "r' \<noteq> r" "open_for r' s" using out r' that unfolding s' by simp
qed

section \<open>Properties\<close>

text \<open>Polling waits: it changes nothing but the state of the system, without reading or writing; it is not
  interrupted, and reports no hangup of a descriptor it finds neither readable nor writable.\<close>

definition waits :: "('k \<Rightarrow> int \<Rightarrow> bytes) \<Rightarrow> ('k \<Rightarrow> int \<Rightarrow> bytes) \<Rightarrow> 'k copy_state sys_poll \<Rightarrow> bool" where
  "waits inp out sys_poll \<longleftrightarrow> (\<forall>s ps t ret errno ps' s'. sys_poll s ps t = (ret, errno, ps', s') \<longrightarrow>
     errno \<noteq> EINTR \<and> length ps' = length ps \<and> list_all no_hangup ps'
     \<and> (\<exists>k'. s' = s\<lparr>CP_kernel := k'\<rparr> \<and> inp k' = inp (CP_kernel s) \<and> out k' = out (CP_kernel s)))"

lemma waits_poll_ok:
  assumes "waits inp out sys_poll"
  shows "poll_ok (EL_rules (copy_rules S)) (\<lambda>s. system_ok inp out S \<and> copy_inv n inp out s) sys_poll"
  unfolding poll_ok_def
proof (intro allI impI)
  fix s ps t ret errno ps' and s' :: "'a copy_state"
  assume "sys_poll s ps t = (ret, errno, ps', s')"
  then obtain k' where p: "errno \<noteq> EINTR" "length ps' = length ps" "list_all no_hangup ps'"
    "s' = s\<lparr>CP_kernel := k'\<rparr>" "inp k' = inp (CP_kernel s)" "out k' = out (CP_kernel s)"
    using assms unfolding waits_def by blast
  moreover have "copy_inv n inp out s' = copy_inv n inp out s" by (simp add: p(4-6) copy_inv_def)
  ultimately show "errno \<noteq> EINTR \<and> length ps' = length ps \<and> list_all no_hangup ps'
      \<and> (system_ok inp out S \<and> copy_inv n inp out s \<longrightarrow> system_ok inp out S \<and> copy_inv n inp out s')
      \<and> (\<forall>r \<in> set (EL_rules (copy_rules S)). open_for r s' = open_for r s)"
    by (auto simp: copy_rules_eq open_for_def)
qed

text \<open>When no open rule is interested any more, everything has been copied.\<close>

definition copied :: "int \<Rightarrow> ('k \<Rightarrow> int \<Rightarrow> bytes) \<Rightarrow> ('k \<Rightarrow> int \<Rightarrow> bytes) \<Rightarrow> 'k copy_state \<Rightarrow> bool" where
  "copied n inp out s \<longleftrightarrow> FD_eof (CP_input s) \<and> FD_eof (CP_socket s) \<and> CP_outbound_shutdown s
     \<and> out (CP_kernel s) n = inp (CP_kernel s) STDIN_FILENO \<and> out (CP_kernel s) STDOUT_FILENO = inp (CP_kernel s) n"

lemma copied_at_rest:
  assumes inv: "copy_inv n inp out s" and rest: "\<forall>r \<in> set (EL_rules (copy_rules S)). open_for r s \<longrightarrow> RL_interest r s = Inr False"
  shows "copied n inp out s"
proof -
  note i = inv [unfolded copy_inv_def]
  have st: "ByteStream_inv (CP_outbound s)" "ByteStream_inv (CP_inbound s)" using i by simp_all
  have uninterested: "copy2_interest s = Inr False" "\<not> FD_eof (CP_input s) \<Longrightarrow> copy1_interest s = Inr False"
    "\<not> FD_eof (CP_socket s) \<Longrightarrow> copy3_interest s = Inr False" "\<not> FD_closed (CP_output s) \<Longrightarrow> copy4_interest s = Inr False"
    using rest i by (auto simp: copy_rules_eq open_for_def)
  have out_empty: "ByteStream_contents (CP_outbound s) = []"
    using uninterested(1) by (simp add: copy2_interest_def buffer_empty_iff [OF st(1)])
  have in_empty: "ByteStream_contents (CP_inbound s) = []"
    using uninterested(4) i by (cases "FD_closed (CP_output s)") (auto simp: copy4_interest_def buffer_empty_iff [OF st(2)])
  have "unat (ByteStream_remaining_capacity (CP_outbound s)) = 1048576" "unat (ByteStream_remaining_capacity (CP_inbound s)) = 1048576"
    using i out_empty in_empty by (simp_all add: unat_remaining_capacity st copy_buffer_size_def)
  then have "ByteStream_remaining_capacity (CP_outbound s) > 0" "ByteStream_remaining_capacity (CP_inbound s) > 0"
    by (simp_all add: word_less_nat_alt)
  then have "FD_eof (CP_input s)" "FD_eof (CP_socket s)"
    using uninterested(2,3) i by (auto simp: copy1_interest_def copy3_interest_def ByteStream_error_def)
  then show ?thesis
    using i out_empty in_empty uninterested(1) by (auto simp: copied_def copy2_interest_def eof_iff [OF st(1)] buffer_empty_iff [OF st(1)])
qed

lemma copy_loop_ends:
  assumes polls: "waits inp out sys_poll"
    and "copy_loop sys_poll l s = Some res" and "rules_left (EL_rules (copy_rules S)) (\<lambda>s. system_ok inp out S \<and> copy_inv n inp out s) l s"
  shows "case res of Inl x \<Rightarrow> system_failure x \<or> x = poll_error | Inr s' \<Rightarrow> copied n inp out s'"
proof -
  let ?left = "rules_left (EL_rules (copy_rules S)) (\<lambda>s. system_ok inp out S \<and> copy_inv n inp out s)"
  let ?done = "\<lambda>res. case res of Inl x \<Rightarrow> system_failure x \<or> x = poll_error | Inr s' \<Rightarrow> copied n inp out s'"
  have "p = sys_poll \<longrightarrow> ?left l s \<longrightarrow> ?done res" if "copy_loop p l s = Some res" for p l s res
    using _ that
  proof (rule copy_loop.raw_induct, goal_cases step)
    case (step loop p l s res)
    show ?case
    proof (intro impI)
      assume p: "p = sys_poll" and left: "?left l s"
      note round = copying.wait_keeps [OF left waits_poll_ok [OF polls], of "- 1"]
      show "?done res"
      proof (cases "EventLoop_wait_next_event sys_poll l (- 1) s")
        case (Inl x)
        then show ?thesis using step(2) round p by auto
      next
        case (Inr v)
        obtain ret l' s' where v: "v = (ret, l', s')" by (cases v)
        have next_: "?left l' s'" "ret = Exit \<longrightarrow> (\<forall>r \<in> set (EL_rules (copy_rules S)). open_for r s' \<longrightarrow> RL_interest r s' = Inr False)"
          using round unfolding Inr v by simp_all
        then have "ret = Exit \<longrightarrow> copied n inp out s'" using copied_at_rest [of n inp out s' S] by (simp add: rules_left_def)
        then show ?thesis using step(1) [of sys_poll l' s' res] step(2) next_(1) Inr v p by (auto split: if_splits)
      qed
    qed
  qed
  then show ?thesis using assms(2,3) by blast
qed


text \<open>A system where both inputs are at their end from the start, for use as an example: reading gives
  nothing, writing takes two bytes at most, and every descriptor polled is ready.\<close>

definition example_system :: "((int \<Rightarrow> bytes) \<times> (int \<Rightarrow> bytes)) copy_system" where
  "example_system = \<lparr>cs_read = \<lambda>k fd n. (0, 0, [], k),
     cs_writev = \<lambda>k fd iov. (let data = take 2 (concat (map fst iov)) in (int (length data), 0, (fst k, (snd k)(fd := snd k fd @ data)))),
     cs_shutdown = \<lambda>k fd how. (0, 0, k), cs_close = \<lambda>k fd. (0, 0, k), cs_getfl = \<lambda>k fd. (2, 0, k), cs_setfl = \<lambda>k fd n. (0, 0, k)\<rparr>"

definition example_poll :: "'e sys_poll" where
  "example_poll s ps t = (1, 0, map (\<lambda>p. p\<lparr>PF_revents := PF_events p\<rparr>) ps, s)"

lemma example_system_ok: "system_ok fst snd example_system"
  unfolding system_ok_def by (intro conjI allI impI) (simp_all add: example_system_def Let_def, auto simp: min_def split: if_splits)

lemma example_poll_ok: "waits inp out example_poll"
  unfolding waits_def
proof (intro allI impI)
  fix s :: "'a copy_state" and ps t ret errno ps' s'
  assume "example_poll s ps t = (ret, errno, ps', s')"
  then have eqs: "errno = 0" "ps' = map (\<lambda>p. p\<lparr>PF_revents := PF_events p\<rparr>) ps" "s' = s\<lparr>CP_kernel := CP_kernel s\<rparr>"
    by (simp_all add: example_poll_def)
  have "list_all no_hangup ps'" by (simp add: eqs(2) list_all_iff no_hangup_def)
  then show "errno \<noteq> EINTR \<and> length ps' = length ps \<and> list_all no_hangup ps'
      \<and> (\<exists>k'. s' = s\<lparr>CP_kernel := k'\<rparr> \<and> inp k' = inp (CP_kernel s) \<and> out k' = out (CP_kernel s))"
    using eqs by (intro conjI exI [of _ "CP_kernel s"]) (simp_all add: EINTR_def)
qed

lemma example_calls: "cs_shutdown example_system k fd how = (0, 0, k)" "cs_close example_system k fd = (0, 0, k)"
  by (simp_all add: example_system_def)

lemma example_in:
  "copy_in example_system k fd (ByteStream_new copy_buffer_size)
     = Inr (ByteStream_end_input (ByteStream_new copy_buffer_size), fd\<lparr>FD_eof := True, FD_read_count := FD_read_count fd + 1\<rparr>, k)"
proof -
  let ?st = "ByteStream_new copy_buffer_size"
  have "ByteStream_remaining_capacity ?st = 1048576" by (simp add: ByteStream_remaining_capacity_def ByteStream_new_def copy_buffer_size_def)
  moreover have "read_gives (cs_read example_system) k (FD_fd fd) n [] k" for n by (simp add: read_gives_def example_system_def)
  ultimately have "FileDescriptor_read (cs_read example_system) k fd (ByteStream_remaining_capacity ?st)
      = Inr ([], fd\<lparr>FD_eof := True, FD_read_count := FD_read_count fd + 1\<rparr>, k)"
    using FileDescriptor_read_ok [of "cs_read example_system" k fd 1048576 "[]" k] by simp
  moreover have "ByteStream_write ?st [] = Inr (0, ?st)" by (simp add: ByteStream_write_def str_size_def ByteStream_new_def)
  ultimately show ?thesis by (simp add: copy_in_def)
qed

lemma example_out:
  "copy_out example_system k fd (ByteStream_end_input (ByteStream_new copy_buffer_size))
     = Inr (ByteStream_end_input (ByteStream_new copy_buffer_size), FileDescriptor_register_write fd, k)"
proof -
  let ?st = "ByteStream_end_input (ByteStream_new copy_buffer_size)"
  have st: "ByteStream_buffer_size ?st = 0" "ByteStream_peek_output ?st 0 = []" "ByteStream_pop_output ?st 0 = Inr ?st"
    by (simp_all add: ByteStream_buffer_size_def ByteStream_end_input_def ByteStream_new_def ByteStream_peek_output_def str_head_def
        ByteStream_pop_output_def ByteStream_pop_loop.simps)
  have "write_once (cs_writev example_system) k fd (BufferViewList_of_view [])
      = Inr (0, BufferViewList_of_view [], FileDescriptor_register_write fd, k)"
    by (simp add: write_once_def example_system_def BufferViewList_of_view_def BufferViewList_as_iovecs_def BufferViewList_size_def
        BufferViewList_remove_prefix_def SystemCall_def to_int_def str_size_def Let_def)
  then have "FileDescriptor_write (cs_writev example_system) k fd (BufferViewList_of_view []) False = Inr (0, FileDescriptor_register_write fd, k)"
    by (simp add: FileDescriptor_write_def FileDescriptor_write_loop.simps)
  then show ?thesis using st by (simp add: copy_out_def)
qed

text \<open>The states of the example: at the start, when both ends have been read, and when both have been written.\<close>

definition example_copy :: "bool \<Rightarrow> bool \<Rightarrow> ((int \<Rightarrow> bytes) \<times> (int \<Rightarrow> bytes)) copy_state" where
  "example_copy ended done =
     (let st = (if ended then ByteStream_end_input (ByteStream_new copy_buffer_size) else ByteStream_new copy_buffer_size)
      in \<lparr>CP_kernel = (\<lambda>_. [], \<lambda>_. []),
          CP_input = \<lparr>FD_fd = 0, FD_eof = ended, FD_closed = False, FD_read_count = of_bool ended, FD_write_count = 0\<rparr>,
          CP_output = \<lparr>FD_fd = 1, FD_eof = done, FD_closed = done, FD_read_count = 0, FD_write_count = of_bool done\<rparr>,
          CP_socket = \<lparr>FD_fd = 3, FD_eof = ended, FD_closed = False, FD_read_count = of_bool ended, FD_write_count = 2 * of_bool done\<rparr>,
          CP_outbound = st, CP_inbound = st, CP_outbound_shutdown = done, CP_inbound_shutdown = done\<rparr>)"

lemma example_stream [simp]:
  "ByteStream_error (ByteStream_new copy_buffer_size) = False" "ByteStream_remaining_capacity (ByteStream_new copy_buffer_size) > 0"
  "ByteStream_buffer_empty (ByteStream_new copy_buffer_size)" "\<not> ByteStream_eof (ByteStream_new copy_buffer_size)"
  "ByteStream_eof (ByteStream_end_input (ByteStream_new copy_buffer_size))"
  "ByteStream_buffer_empty (ByteStream_end_input (ByteStream_new copy_buffer_size))"
  "ByteStream_end_input (ByteStream_end_input st) = ByteStream_end_input st"
  by (simp_all add: ByteStream_error_def ByteStream_new_def ByteStream_remaining_capacity_def ByteStream_buffer_empty_def ByteStream_eof_def
      ByteStream_end_input_def copy_buffer_size_def)

lemmas example_simps = EventLoop_wait_next_event_def example_copy_def example_poll_def SystemCall_def to_int_def
  copy1_interest_def copy2_interest_def copy3_interest_def copy4_interest_def copy1_callback_def copy2_callback_def copy3_callback_def
  copy4_callback_def example_in example_out end_outbound_def end_inbound_def Let_def copy_rules_eq serve_ready_def Rule_service_count_def
  POLLIN_def POLLOUT_def POLLERR_def POLLNVAL_def POLLHUP_def Socket_shutdown_wr FDWrapper_close_def FileDescriptor_register_write_def

lemma example_rounds:
  "EventLoop_wait_next_event example_poll (copy_rules example_system) (- 1) (example_copy False False)
     = Inr (Success, copy_rules example_system, example_copy True False)"
  "\<exists>l. EventLoop_wait_next_event example_poll (copy_rules example_system) (- 1) (example_copy True False)
     = Inr (Success, l, example_copy True True) \<and> EL_rules l = [EL_rules (copy_rules example_system) ! 1, EL_rules (copy_rules example_system) ! 3]"
  "EL_rules l = [EL_rules (copy_rules example_system) ! 1, EL_rules (copy_rules example_system) ! 3] \<Longrightarrow>
     \<exists>l'. EventLoop_wait_next_event example_poll l (- 1) (example_copy True True) = Inr (Exit, l', example_copy True True)"
  by (simp_all add: example_simps example_calls)


end
