(* ===== verification/Lab7.thy ===== *)
theory Lab7
  imports Simulator_Success Socket_Lifecycle Stream_Copy
begin

text \<open>
  The program of \<^verbatim>\<open>apps/lab7.cc\<close>: a socket on a network interface of its own, a router between
  that interface and a tunnel to the same program elsewhere, and the rules that move frames between them. The
  random addresses are those of \<open>Network_Simulator\<close>, whose functions the program repeats word for word. The
  system calls, the random generator and the functions that resolve and name addresses are arguments. Shown
  here: what the routers of the two programs are, and that a segment written at one end is read unchanged at the
  other, through both of them and in either direction.
\<close>

section \<open>The summary of a frame\<close>

definition tcp_summary :: "IPv4Datagram \<Rightarrow> string result" where
  "tcp_summary dgram =
     (if IP_proto (DG_header dgram) = PROTO_TCP
      then bindR (TCPSegment_parse TCPSegment_new (Buffer_of (BufferList_concatenate (DG_payload dgram)))
                    (IPv4Header_pseudo_cksum (DG_header dgram))) (\<lambda>(r, tcp_seg).
           Inr (if r = NoError then '' '' @ TCPHeader_summary (TS_header tcp_seg) else ''''))
      else Inr '''')"

definition lab7_summary :: "netdb \<Rightarrow> EthernetFrame \<Rightarrow> string result" where
  "lab7_summary db frame =
     (let ret = EthernetHeader_to_string (EF_header frame)
      in if EH_type (EF_header frame) = TYPE_IPv4
         then bindR (IPv4Datagram_parse IPv4Datagram_new (Buffer_of (BufferList_concatenate (EF_payload frame)))) (\<lambda>(r, dgram).
              if r = NoError
              then bindR (tcp_summary dgram) (\<lambda>s. Inr (ret @ '' '' @ IPv4Header_summary (inet_ntoa db) (DG_header dgram) @ s))
              else Inr (ret @ '' (bad IPv4)''))
         else if EH_type (EF_header frame) = TYPE_ARP
         then bindR (BufferList_to_Buffer (EF_payload frame)) (\<lambda>b.
              bindR (ARPMessage_parse ARPMessage_new b) (\<lambda>(r, arp).
              Inr (ret @ (if r = NoError then '' '' @ ARPMessage_to_string (inet_ntoa db) arp else '' (bad ARP)''))))
         else Inr ret)"

section \<open>The adapter\<close>

text \<open>As for the other adapters, the bytes read are an argument and what is written is appended to a list.\<close>

record NetworkInterfaceAdapter = FdAdapterBase +
  NA_interface :: NetworkInterface
  NA_next_hop :: Address
  NA_written :: "BufferList list"

function NetworkInterfaceAdapter_send_pending :: "NetworkInterfaceAdapter \<Rightarrow> NetworkInterfaceAdapter" where
  "NetworkInterfaceAdapter_send_pending a =
     (case NI_frames_out (NA_interface a) of
        [] \<Rightarrow> a
      | frame # frames \<Rightarrow>
          NetworkInterfaceAdapter_send_pending (a\<lparr>NA_written := NA_written a @ [EthernetFrame_serialize frame],
                          NA_interface := (NA_interface a)\<lparr>NI_frames_out := frames\<rparr>\<rparr>))"
  by pat_completeness auto
termination by (relation "measure (\<lambda>a. length (NI_frames_out (NA_interface a)))") auto

declare NetworkInterfaceAdapter_send_pending.simps [simp del]

definition NetworkInterfaceAdapter_new ::
    "netdb \<Rightarrow> 'g generator \<Rightarrow> 'g \<Rightarrow> Address \<Rightarrow> Address \<Rightarrow> (NetworkInterfaceAdapter \<times> 'g) result" where
  "NetworkInterfaceAdapter_new db rd g ip_address next_hop =
     bindR (FdAdapterBase_new db) (\<lambda>base.
     let (eth, g) = random_host_ethernet_address rd g
     in Inr (\<lparr>FA_cfg = FA_cfg base, FA_listen = FA_listen base, NA_interface = NetworkInterface_new eth ip_address,
              NA_next_hop = next_hop, NA_written = []\<rparr>, g))"

definition NetworkInterfaceAdapter_read ::
    "netdb \<Rightarrow> NetworkInterfaceAdapter \<Rightarrow> bytes \<Rightarrow> (TCPSegment option \<times> NetworkInterfaceAdapter) result" where
  "NetworkInterfaceAdapter_read db a data =
     bindR (EthernetFrame_parse EthernetFrame_new (Buffer_of data)) (\<lambda>(r, frame).
     if r \<noteq> NoError then Inr (None, a)
     else bindR (recv_frame (NA_interface a) frame) (\<lambda>(ip_dgram, iface).
          let a = NetworkInterfaceAdapter_send_pending (a\<lparr>NA_interface := iface\<rparr>)
          in case ip_dgram of None \<Rightarrow> Inr (None, a) | Some d \<Rightarrow> unwrap_tcp_in_ip db a d))"

definition NetworkInterfaceAdapter_write ::
    "netdb \<Rightarrow> NetworkInterfaceAdapter \<Rightarrow> TCPSegment \<Rightarrow> (TCPSegment \<times> NetworkInterfaceAdapter) result" where
  "NetworkInterfaceAdapter_write db a seg =
     bindR (wrap_tcp_in_ip db a seg) (\<lambda>(ip_dgram, seg).
     bindR (send_datagram (NA_interface a) ip_dgram (NA_next_hop a)) (\<lambda>iface.
     Inr (seg, NetworkInterfaceAdapter_send_pending (a\<lparr>NA_interface := iface\<rparr>))))"

definition NetworkInterfaceAdapter_tick :: "NetworkInterfaceAdapter \<Rightarrow> u64 \<Rightarrow> NetworkInterfaceAdapter" where
  "NetworkInterfaceAdapter_tick a ms_since_last_tick =
     NetworkInterfaceAdapter_send_pending (a\<lparr>NA_interface := NetworkInterface_tick (NA_interface a) ms_since_last_tick\<rparr>)"

section \<open>The socket\<close>

record 'k TCPSocketLab7 =
  L7_socket :: "('k, NetworkInterfaceAdapter) loop_state"
  L7_frame_fd :: FDWrapper
  L7_local_address :: Address

definition TCPSocketLab7_new ::
    "'k socket_system \<Rightarrow> netdb \<Rightarrow> 'g generator \<Rightarrow> 'g \<Rightarrow> 'k \<Rightarrow> Address \<Rightarrow> Address \<Rightarrow> ('k TCPSocketLab7 \<times> 'g) result" where
  "TCPSocketLab7_new S db rd g k ip_address next_hop =
     bindR (NetworkInterfaceAdapter_new db rd g ip_address next_hop) (\<lambda>(adapter, g).
     bindR (socket_pair_helper (ss_socketpair S) k SOCK_DGRAM) (\<lambda>(first, second, k).
     bindR (TCPSpongeSocket_new S k first adapter) (\<lambda>ls.
     Inr (\<lparr>L7_socket = ls, L7_frame_fd = second, L7_local_address = ip_address\<rparr>, g))))"

definition lab7_client_config ::
    "netdb \<Rightarrow> u32 \<Rightarrow> Address \<Rightarrow> 'k TCPSocketLab7 \<Rightarrow> (FdAdapterConfig \<times> 'k TCPSocketLab7) result" where
  "lab7_client_config db port_random address s =
     bindR (FdAdapterConfig_new db) (\<lambda>multiplexer_config.
     bindR (Address_ip (getnameinfo db) (L7_local_address s)) (\<lambda>ip.
     bindR (Address_of_ip (getaddrinfo db) ip (ucast port_random)) (\<lambda>local_address.
     bindR (Address_to_string (getnameinfo db) local_address) (\<lambda>_.
     Inr (multiplexer_config\<lparr>AC_source := local_address, AC_destination := address\<rparr>, s\<lparr>L7_local_address := local_address\<rparr>)))))"

definition TCPSocketLab7_connect ::
    "('k, NetworkInterfaceAdapter) platform \<Rightarrow> ('k, NetworkInterfaceAdapter) TCPSpongeSocket sys_poll \<Rightarrow> u32 \<Rightarrow> u32 \<Rightarrow> Address
      \<Rightarrow> 'k TCPSocketLab7 \<Rightarrow> 'k TCPSocketLab7 result option" where
  "TCPSocketLab7_connect P sys_poll random port_random address s =
     (case lab7_client_config (p_netdb P) port_random address s of
        Inl e \<Rightarrow> Some (Inl e)
      | Inr (multiplexer_config, s) \<Rightarrow>
          map_option (\<lambda>r. bindR r (\<lambda>ls. Inr (s\<lparr>L7_socket := ls\<rparr>)))
            (TCPSpongeSocket_connect P sys_poll TCPConfig_new random multiplexer_config (L7_socket s)))"

definition TCPSocketLab7_bind :: "netdb \<Rightarrow> Address \<Rightarrow> 'k TCPSocketLab7 \<Rightarrow> 'k TCPSocketLab7 result" where
  "TCPSocketLab7_bind db address s =
     bindR (Address_ip (getnameinfo db) address) (\<lambda>ip.
     bindR (Address_ip (getnameinfo db) (L7_local_address s)) (\<lambda>local_ip.
     if ip \<noteq> local_ip
     then bindR (Address_to_string (getnameinfo db) address) (\<lambda>name. Inl (RuntimeError (''Cannot bind to '' @ name)))
     else bindR (Address_port (getnameinfo db) address) (\<lambda>port.
          bindR (Address_of_ip (getaddrinfo db) local_ip port) (\<lambda>local_address.
          Inr (s\<lparr>L7_local_address := local_address\<rparr>)))))"

definition TCPSocketLab7_listen_and_accept ::
    "('k, NetworkInterfaceAdapter) platform \<Rightarrow> ('k, NetworkInterfaceAdapter) TCPSpongeSocket sys_poll \<Rightarrow> u32
      \<Rightarrow> 'k TCPSocketLab7 \<Rightarrow> 'k TCPSocketLab7 result option" where
  "TCPSocketLab7_listen_and_accept P sys_poll random s =
     (case FdAdapterConfig_new (p_netdb P) of
        Inl e \<Rightarrow> Some (Inl e)
      | Inr multiplexer_config \<Rightarrow>
          map_option (\<lambda>r. bindR r (\<lambda>ls. Inr (s\<lparr>L7_socket := ls\<rparr>)))
            (TCPSpongeSocket_listen_and_accept P sys_poll TCPConfig_new random
               (multiplexer_config\<lparr>AC_source := L7_local_address s\<rparr>) (L7_socket s)))"

section \<open>The router\<close>

definition new_interface :: "netdb \<Rightarrow> 'g generator \<Rightarrow> 'g \<Rightarrow> Router \<Rightarrow> string \<Rightarrow> (u32 \<times> Router \<times> 'g) result" where
  "new_interface db rd g router address =
     (let (eth, g) = random_router_ethernet_address rd g
      in bindR (Address_of_ip (getaddrinfo db) address 0) (\<lambda>a.
         let (n, router) = Router_add_interface router (AsyncNetworkInterface_of (NetworkInterface_new eth a)) in Inr (ucast n, router, g)))"

definition direct_route :: "netdb \<Rightarrow> Router \<Rightarrow> string \<Rightarrow> u8 \<Rightarrow> u32 \<Rightarrow> Router result" where
  "direct_route db router pfx len side = bindR (ip_of db pfx) (\<lambda>p. Inr (Router_add_route router p len None (ucast side)))"

definition route_through :: "netdb \<Rightarrow> Router \<Rightarrow> string \<Rightarrow> u8 \<Rightarrow> string \<Rightarrow> u32 \<Rightarrow> Router result" where
  "route_through db router pfx len next_hop side =
     bindR (ip_of db pfx) (\<lambda>p. bindR (Address_of_ip (getaddrinfo db) next_hop 0) (\<lambda>hop.
     Inr (Router_add_route router p len (Some hop) (ucast side))))"

definition lab7_router :: "netdb \<Rightarrow> 'g generator \<Rightarrow> 'g \<Rightarrow> bool \<Rightarrow> (u32 \<times> u32 \<times> Router \<times> 'g) result" where
  "lab7_router db rd g is_client =
     (if is_client
      then bindR (new_interface db rd g Router_new ''192.168.0.1'') (\<lambda>(host_side, router, g).
           bindR (new_interface db rd g router ''10.0.0.192'') (\<lambda>(internet_side, router, g).
           bindR (direct_route db router ''192.168.0.0'' 16 host_side) (\<lambda>router.
           bindR (direct_route db router ''10.0.0.0'' 8 internet_side) (\<lambda>router.
           bindR (route_through db router ''172.16.0.0'' 12 ''10.0.0.172'' internet_side) (\<lambda>router.
           Inr (host_side, internet_side, router, g))))))
      else bindR (new_interface db rd g Router_new ''172.16.0.1'') (\<lambda>(host_side, router, g).
           bindR (new_interface db rd g router ''10.0.0.172'') (\<lambda>(internet_side, router, g).
           bindR (direct_route db router ''172.16.0.0'' 12 host_side) (\<lambda>router.
           bindR (direct_route db router ''10.0.0.0'' 8 internet_side) (\<lambda>router.
           bindR (route_through db router ''192.168.0.0'' 16 ''10.0.0.192'' internet_side) (\<lambda>router.
           Inr (host_side, internet_side, router, g)))))))"

definition lab7_socket ::
    "'k socket_system \<Rightarrow> netdb \<Rightarrow> 'g generator \<Rightarrow> 'g \<Rightarrow> 'k \<Rightarrow> bool \<Rightarrow> ('k TCPSocketLab7 \<times> 'g) result" where
  "lab7_socket S db rd g k is_client =
     bindR (Address_of_ip (getaddrinfo db) (if is_client then ''192.168.0.50'' else ''172.16.0.100'') 0) (\<lambda>ip_address.
     bindR (Address_of_ip (getaddrinfo db) (if is_client then ''192.168.0.1'' else ''172.16.0.1'') 0) (\<lambda>next_hop.
     TCPSocketLab7_new S db rd g k ip_address next_hop))"

section \<open>Moving frames\<close>

text \<open>A frame that comes in at one side of the router, and one that goes out there.\<close>

definition debug_line :: "netdb \<Rightarrow> bool \<Rightarrow> EthernetFrame \<Rightarrow> unit result" where
  "debug_line db debug frame = (if debug then bindR (lab7_summary db frame) (\<lambda>_. Inr ()) else Inr ())"

definition frame_in :: "netdb \<Rightarrow> bool \<Rightarrow> u32 \<Rightarrow> bytes \<Rightarrow> Router \<Rightarrow> Router result" where
  "frame_in db debug side data router =
     bindR (EthernetFrame_parse EthernetFrame_new (Buffer_of data)) (\<lambda>(r, frame).
     if r \<noteq> NoError then Inr router
     else bindR (debug_line db debug frame) (\<lambda>_.
          bindR (Router_interface router (ucast side)) (\<lambda>a.
          bindR (AsyncNetworkInterface_recv_frame a frame) (\<lambda>a.
          Router_route (router\<lparr>RT_interfaces := (RT_interfaces router)[unat side := a]\<rparr>)))))"

definition frame_out :: "netdb \<Rightarrow> bool \<Rightarrow> u32 \<Rightarrow> Router \<Rightarrow> (BufferList \<times> Router) result" where
  "frame_out db debug side router =
     bindR (Router_interface router (ucast side)) (\<lambda>a.
     case frames_out a of
       [] \<Rightarrow> Inl OutOfBounds
     | f # fs \<Rightarrow> bindR (debug_line db debug f) (\<lambda>_.
         Inr (EthernetFrame_serialize f,
              router\<lparr>RT_interfaces := (RT_interfaces router)[unat side := a\<lparr>AI_base := (AI_base a)\<lparr>NI_frames_out := fs\<rparr>\<rparr>]\<rparr>)))"

definition side_pending :: "u32 \<Rightarrow> Router \<Rightarrow> bool result" where
  "side_pending side router = bindR (Router_interface router (ucast side)) (\<lambda>a. Inr (frames_out a \<noteq> []))"

record 'k lab7_system =
  l7_read :: "'k sys_read"
  l7_writev :: "'k sys_writev"
  l7_sendmsg :: "'k sys_sendmsg"
  l7_socket :: "'k \<Rightarrow> int \<Rightarrow> int \<Rightarrow> int \<times> int \<times> 'k"
  l7_exit :: "'k \<Rightarrow> bool"

record 'k lab7_state =
  N7_kernel :: 'k
  N7_frame_fd :: FDWrapper
  N7_internet :: FDWrapper
  N7_bounce :: Address
  N7_router :: Router
  N7_host_side :: u32
  N7_internet_side :: u32

definition host_to_router :: "'k lab7_system \<Rightarrow> netdb \<Rightarrow> bool \<Rightarrow> 'k lab7_state \<Rightarrow> 'k lab7_state result" where
  "host_to_router S db debug s =
     bindR (FileDescriptor_read (l7_read S) (N7_kernel s) (N7_frame_fd s) (- 1)) (\<lambda>(data, fd, k).
     bindR (frame_in db debug (N7_host_side s) data (N7_router s)) (\<lambda>router.
     Inr (s\<lparr>N7_kernel := k, N7_frame_fd := fd, N7_router := router\<rparr>)))"

definition router_to_host :: "'k lab7_system \<Rightarrow> netdb \<Rightarrow> bool \<Rightarrow> 'k lab7_state \<Rightarrow> 'k lab7_state result" where
  "router_to_host S db debug s =
     bindR (frame_out db debug (N7_host_side s) (N7_router s)) (\<lambda>(data, router).
     bindR (FileDescriptor_write (l7_writev S) (N7_kernel s) (N7_frame_fd s) (BufferViewList_of_BufferList data) True) (\<lambda>(_, fd, k).
     Inr (s\<lparr>N7_kernel := k, N7_frame_fd := fd, N7_router := router\<rparr>)))"

definition router_to_internet :: "'k lab7_system \<Rightarrow> netdb \<Rightarrow> bool \<Rightarrow> 'k lab7_state \<Rightarrow> 'k lab7_state result" where
  "router_to_internet S db debug s =
     bindR (frame_out db debug (N7_internet_side s) (N7_router s)) (\<lambda>(data, router).
     bindR (UDPSocket_sendto (l7_sendmsg S) (N7_kernel s) (N7_internet s) (N7_bounce s) (BufferViewList_of_BufferList data)) (\<lambda>(fd, k).
     Inr (s\<lparr>N7_kernel := k, N7_internet := fd, N7_router := router\<rparr>)))"

definition internet_to_router :: "'k lab7_system \<Rightarrow> netdb \<Rightarrow> bool \<Rightarrow> 'k lab7_state \<Rightarrow> 'k lab7_state result" where
  "internet_to_router S db debug s =
     bindR (FileDescriptor_read (l7_read S) (N7_kernel s) (N7_internet s) (- 1)) (\<lambda>(data, fd, k).
     bindR (frame_in db debug (N7_internet_side s) data (N7_router s)) (\<lambda>router.
     Inr (s\<lparr>N7_kernel := k, N7_internet := fd, N7_router := router\<rparr>)))"

definition lab7_rules :: "'k lab7_system \<Rightarrow> netdb \<Rightarrow> bool \<Rightarrow> 'k lab7_state EventLoop" where
  "lab7_rules S db debug =
     (let l = EventLoop_new;
          l = EventLoop_add_rule l N7_frame_fd DirIn (host_to_router S db debug) default_interest default_cancel;
          l = EventLoop_add_rule l N7_frame_fd DirOut (router_to_host S db debug)
                (\<lambda>s. side_pending (N7_host_side s) (N7_router s)) default_cancel;
          l = EventLoop_add_rule l N7_internet DirOut (router_to_internet S db debug)
                (\<lambda>s. side_pending (N7_internet_side s) (N7_router s)) default_cancel;
          l = EventLoop_add_rule l N7_internet DirIn (internet_to_router S db debug) default_interest default_cancel
      in l)"

definition tick_side :: "u32 \<Rightarrow> u64 \<Rightarrow> Router \<Rightarrow> Router result" where
  "tick_side side ms router =
     bindR (Router_interface router (ucast side)) (\<lambda>a.
     Inr (router\<lparr>RT_interfaces := (RT_interfaces router)[unat side := a\<lparr>AI_base := NetworkInterface_tick (AI_base a) ms\<rparr>]\<rparr>))"

text \<open>The thread of the network; whether the flag to exit is set is seen in the state of the system.\<close>

partial_function (option) network_thread ::
    "'k lab7_system \<Rightarrow> 'k lab7_state sys_poll \<Rightarrow> 'k lab7_state EventLoop \<Rightarrow> 'k lab7_state \<Rightarrow> 'k lab7_state result option" where
  "network_thread S sys_poll l s =
     (case EventLoop_wait_next_event sys_poll l 50 s of
        Inl e \<Rightarrow> Some (Inl e)
      | Inr round \<Rightarrow>
          if fst round = Exit then Some (Inr (snd (snd round)))
          else (case bindR (tick_side (N7_host_side (snd (snd round))) 50 (N7_router (snd (snd round))))
                      (tick_side (N7_internet_side (snd (snd round))) 50) of
                  Inl e \<Rightarrow> Some (Inl e)
                | Inr router \<Rightarrow>
                    (if l7_exit S (N7_kernel (snd (snd round))) then Some (Inr ((snd (snd round))\<lparr>N7_router := router\<rparr>))
                     else network_thread S sys_poll (fst (snd round)) ((snd (snd round))\<lparr>N7_router := router\<rparr>))))"

section \<open>The program\<close>

definition lab7_begin ::
    "'k lab7_system \<Rightarrow> 'k socket_system \<Rightarrow> netdb \<Rightarrow> 'g generator \<Rightarrow> 'g \<Rightarrow> 'k \<Rightarrow> bool \<Rightarrow> string \<Rightarrow> string
      \<Rightarrow> ('k lab7_state \<times> 'k TCPSocketLab7 \<times> 'g) result" where
  "lab7_begin S SS db rd g k is_client bounce_host bounce_port =
     bindR (UDPSocket_new (l7_socket S) k) (\<lambda>(internet_socket, k).
     bindR (Address_of_hostname (getaddrinfo db) bounce_host bounce_port) (\<lambda>bounce_address.
     bindR (UDPSocket_sendto (l7_sendmsg S) k internet_socket bounce_address (BufferViewList_of_view [])) (\<lambda>(internet_socket, k).
     bindR (UDPSocket_sendto (l7_sendmsg S) k internet_socket bounce_address (BufferViewList_of_view [])) (\<lambda>(internet_socket, k).
     bindR (UDPSocket_sendto (l7_sendmsg S) k internet_socket bounce_address (BufferViewList_of_view [])) (\<lambda>(internet_socket, k).
     bindR (lab7_router db rd g is_client) (\<lambda>(host_side, internet_side, router, g).
     bindR (lab7_socket SS db rd g k is_client) (\<lambda>(sock, g).
     Inr (\<lparr>N7_kernel = SS_kernel (snd (L7_socket sock)), N7_frame_fd = L7_frame_fd sock, N7_internet = internet_socket,
           N7_bounce = bounce_address, N7_router = router, N7_host_side = host_side, N7_internet_side = internet_side\<rparr>, sock, g))))))))"

text \<open>What the other thread does with the socket before it copies the terminal: connect, or wait for a connection.\<close>

definition lab7_open ::
    "('k, NetworkInterfaceAdapter) platform \<Rightarrow> ('k, NetworkInterfaceAdapter) TCPSpongeSocket sys_poll \<Rightarrow> u32 \<Rightarrow> u32 \<Rightarrow> bool
      \<Rightarrow> 'k TCPSocketLab7 \<Rightarrow> 'k TCPSocketLab7 result option" where
  "lab7_open P sys_poll random port_random is_client sock =
     (case Address_of_ip (getaddrinfo (p_netdb P)) ''172.16.0.100'' 1234 of
        Inl e \<Rightarrow> Some (Inl e)
      | Inr address \<Rightarrow>
          if is_client then TCPSocketLab7_connect P sys_poll random port_random address sock
          else (case TCPSocketLab7_bind (p_netdb P) address sock of
                  Inl e \<Rightarrow> Some (Inl e)
                | Inr sock \<Rightarrow> TCPSocketLab7_listen_and_accept P sys_poll random sock))"

text \<open>The command line: usage errors are \<open>None\<close>.\<close>

definition lab7_arguments :: "string list \<Rightarrow> (bool \<times> string \<times> string \<times> bool) option" where
  "lab7_arguments argv =
     (let argc = length argv
      in if argc \<noteq> 4 \<and> argc \<noteq> 5 then None
         else if argv ! 1 \<noteq> ''client'' \<and> argv ! 1 \<noteq> ''server'' then None
         else Some (argv ! 1 = ''client'', argv ! 2, argv ! 3, argc = 5))"

section \<open>Frames on the wire\<close>

lemma parse_ip:
  assumes "dgram_ok d" and "IPv4Datagram_serialize d = Inr bl" and "Buffer_inv b" and "Buffer_str b = BufferList_concatenate bl"
  obtains d' pl where "IPv4Datagram_parse IPv4Datagram_new b = Inr (NoError, d')" "arrived d d'"
    "DG_payload d' = BufferList_of_Buffer pl" "Buffer_inv pl"
proof -
  obtain bl' where bl': "IPv4Datagram_serialize d = Inr bl'" "length (BufferList_concatenate bl') < 65536"
    "\<forall>b d0. Buffer_inv b \<and> Buffer_str b = BufferList_concatenate bl' \<longrightarrow>
      (\<exists>pl. IPv4Datagram_parse d0 b
          = Inr (NoError, \<lparr>DG_header = (DG_header d)\<lparr>IP_cksum := IPv4Header_checksum (DG_header d)\<rparr>, DG_payload = pl\<rparr>)
        \<and> BufferList_inv pl \<and> BufferList_concatenate pl = BufferList_concatenate (DG_payload d))"
    using assms(1) unfolding dgram_ok_def by (elim conjE) (rule IPv4Datagram_wire)
  obtain r d' pl where d': "IPv4Datagram_parse IPv4Datagram_new b = Inr (r, d')" "DG_payload d' = BufferList_of_Buffer pl" "Buffer_inv pl"
    by (rule IPv4Datagram_parse_any [OF assms(3)])
  have "bl' = bl" using bl'(1) assms(2) by simp
  then obtain pl' where "IPv4Datagram_parse IPv4Datagram_new b
        = Inr (NoError, \<lparr>DG_header = (DG_header d)\<lparr>IP_cksum := IPv4Header_checksum (DG_header d)\<rparr>, DG_payload = pl'\<rparr>)"
      "BufferList_inv pl'" "BufferList_concatenate pl' = BufferList_concatenate (DG_payload d)"
    using bl'(3) [rule_format, of b IPv4Datagram_new] assms(3,4) by auto
  then show thesis using that d' by (auto simp: arrived_def)
qed

lemma same_text_inv: "Buffer_inv b \<Longrightarrow> Buffer_inv (Buffer_of (Buffer_str b))"
  by (auto simp: Buffer_inv_def Buffer_of_def Buffer_str_def split: option.splits)

lemma tcp_summary_total: "DG_payload d = BufferList_of_Buffer pl \<Longrightarrow> Buffer_inv pl \<Longrightarrow> \<exists>s. tcp_summary d = Inr s"
proof -
  assume pl: "DG_payload d = BufferList_of_Buffer pl" "Buffer_inv pl"
  obtain r seg where "TCPSegment_parse TCPSegment_new (Buffer_of (Buffer_str pl)) (IPv4Header_pseudo_cksum (DG_header d)) = Inr (r, seg)"
    by (rule TCPSegment_parse_any [OF same_text_inv [OF pl(2)]])
  then show ?thesis by (simp add: tcp_summary_def pl(1))
qed

lemma lab7_summary_ip:
  assumes "EH_type (EF_header f) \<noteq> TYPE_ARP" and "length (BufferList_concatenate (EF_payload f)) < 2 ^ 64"
  shows "\<exists>s. lab7_summary db f = Inr s"
proof -
  have inv: "Buffer_inv (Buffer_of (BufferList_concatenate (EF_payload f)))" using assms(2) by simp
  obtain r d pl where d: "IPv4Datagram_parse IPv4Datagram_new (Buffer_of (BufferList_concatenate (EF_payload f))) = Inr (r, d)"
    "DG_payload d = BufferList_of_Buffer pl" "Buffer_inv pl" by (rule IPv4Datagram_parse_any [OF inv])
  obtain s where "tcp_summary d = Inr s" using tcp_summary_total [OF d(2,3)] by blast
  then show ?thesis using assms(1) by (simp add: lab7_summary_def Let_def d(1))
qed

lemma debug_line_ip:
  "EH_type (EF_header f) = TYPE_IPv4 \<Longrightarrow> length (BufferList_concatenate (EF_payload f)) < 65536 \<Longrightarrow> debug_line db debug f = Inr ()"
  using lab7_summary_ip [of f db] by (auto simp: debug_line_def TYPE_ARP_def TYPE_IPv4_def)

section \<open>Forwarding\<close>

text \<open>A router of the program: interface 0 is that to the host, and interface 1 that to the Internet.\<close>

definition relay :: "Route_Information list \<Rightarrow> (nat \<Rightarrow> AsyncNetworkInterface) \<Rightarrow> Router" where
  "relay T X = \<lparr>RT_interfaces = [X 0, X 1], RT_routing_table = T\<rparr>"

lemma relay_interface: "s < 2 \<Longrightarrow> Router_interface (relay T X) (ucast (word_of_nat s :: u32)) = Inr (X s)"
  "s < 2 \<Longrightarrow> (relay T X)\<lparr>RT_interfaces := (RT_interfaces (relay T X))[unat (word_of_nat s :: u32) := a]\<rparr> = relay T (X(s := a))"
  by (auto simp: less_2_cases_iff relay_def Router_interface_def)

text \<open>Where a table sends a destination: out of interface \<open>t\<close>, to the next hop \<open>k\<close>.\<close>

definition leads :: "Route_Information list \<Rightarrow> u32 \<Rightarrow> nat \<Rightarrow> u32 \<Rightarrow> bool" where
  "leads T dst t k \<longleftrightarrow> (\<exists>ch hop. route_scan dst T no_choice = Inr ch \<and> is_matched ch \<and> CH_interface_num ch = word_of_nat t
     \<and> (case CH_next_hop ch of Some a \<Rightarrow> Inr a | None \<Rightarrow> Address_from_ipv4_numeric dst) = (Inr hop :: Address result)
     \<and> Address_ipv4_numeric hop = Inr k)"

lemma relay_route_one:
  assumes "leads T (IP_dst (DG_header d)) t k" and t: "t < 2" and ttl: "\<not> IP_ttl (DG_header d) \<le> 1"
    and n: "NI_ip2eth (AI_base (X t)) k = Some (e, tm)" and bl: "IPv4Datagram_serialize (forwarded d) = Inr bl"
  shows "Router_route_one_datagram (relay T X) d
    = Inr (relay T (X(t := (X t)\<lparr>AI_base := (AI_base (X t))\<lparr>NI_frames_out := frames_out (X t) @ [ip_frame (AI_base (X t)) e bl]\<rparr>\<rparr>)))"
proof -
  let ?dst = "IP_dst (DG_header d)"
  obtain ch hop where ch: "route_scan ?dst T no_choice = Inr ch" "is_matched ch" "CH_interface_num ch = word_of_nat t"
    "(case CH_next_hop ch of Some a \<Rightarrow> Inr a | None \<Rightarrow> Address_from_ipv4_numeric ?dst) = (Inr hop :: Address result)"
    "Address_ipv4_numeric hop = Inr k" using assms(1) by (auto simp: leads_def)
  have at: "Router_interface (relay T X) (word_of_nat t) = Inr (X t)"
    "(relay T X)\<lparr>RT_interfaces := (RT_interfaces (relay T X))[unat (word_of_nat t :: u64) := a]\<rparr> = relay T (X(t := a))" for a
    using t by (auto simp: less_2_cases_iff relay_def Router_interface_def)
  have dst: "IP_dst (DG_header (forwarded d)) = ?dst" and tab: "RT_routing_table (relay T X) = T"
    by (simp_all add: forwarded_def relay_def)
  show ?thesis
    unfolding Router_route_one_datagram_def if_not_P [OF ttl] Let_def forwarded_def [symmetric] dst tab
    by (simp add: ch at send_datagram_known [OF ch(5) n bl] del: fun_upd_apply)
qed

lemma relay_route:
  assumes "s < 2" "AI_datagrams_out (X s) = [d]" "t < 2" "t \<noteq> s" "AI_datagrams_out (X t) = []"
    and one: "Router_route_one_datagram (relay T X) d = Inr (relay T (X(t := x)))" and x: "AI_datagrams_out x = []"
  shows "Router_route (relay T X) = Inr (relay T (X(t := x, s := unqueued (X s))))"
proof -
  have two: "[0..<length (RT_interfaces (relay T X))] = [0, 1]" by (simp add: relay_def upt_rec)
  have "s = 0 \<and> t = 1 \<or> s = 1 \<and> t = 0" using assms(1,3,4) by auto
  then show ?thesis
    unfolding Router_route_def two using assms
    by (auto simp: relay_def pop_datagram_def)
qed

definition resting_relay :: "(nat \<Rightarrow> AsyncNetworkInterface) \<Rightarrow> bool" where
  "resting_relay X \<longleftrightarrow> (\<forall>i < 2. frames_out (X i) = [] \<and> AI_datagrams_out (X i) = [] \<and> address_ok (eth (X i)))"

text \<open>A frame with a datagram comes in: the datagram is queued and routed.\<close>

lemma relay_takes:
  assumes X: "resting_relay X" and s: "s < 2" and d: "dgram_ok d" "IPv4Datagram_serialize d = Inr bl" and n: "address_ok (NI_ethernet_address n)"
  obtains d' where "arrived d d'"
    "frame_in db debug (word_of_nat s) (BufferList_concatenate (EthernetFrame_serialize (ip_frame n (eth (X s)) bl))) (relay T X)
      = Router_route (relay T (X(s := (X s)\<lparr>AI_datagrams_out := [d']\<rparr>)))"
proof -
  let ?f = "ip_frame n (eth (X s)) bl"
  obtain d0 where len: "length (BufferList_concatenate bl) < 65536" by (rule cable_ip [OF d])
  have "EthernetHeader_ok (EF_header ?f)" "length (BufferList_concatenate (EF_payload ?f)) < 65536"
    using X s n len by (simp_all add: ip_frame_def EthernetHeader_ok_def resting_relay_def)
  then obtain pl where pl: "wire ?f = Inr (NoError, \<lparr>EF_header = EF_header ?f, EF_payload = BufferList_of_Buffer pl\<rparr>)"
    "Buffer_inv pl" "Buffer_str pl = BufferList_concatenate (EF_payload ?f)" by (rule wire_ok)
  have tx: "Buffer_str pl = BufferList_concatenate bl" using pl(3) by (simp add: ip_frame_def)
  obtain d' q where d': "IPv4Datagram_parse IPv4Datagram_new pl = Inr (NoError, d')" "arrived d d'" by (rule parse_ip [OF d pl(2) tx])
  let ?g = "\<lparr>EF_header = EF_header ?f, EF_payload = BufferList_of_Buffer pl\<rparr>"
  have "recv_frame (AI_base (X s)) ?g = Inr (Some d', AI_base (X s))" by (rule recv_frame_ip [OF _ _ _ d'(1)]) (simp_all add: ip_frame_def)
  then have "AsyncNetworkInterface_recv_frame (X s) ?g = Inr ((X s)\<lparr>AI_datagrams_out := [d']\<rparr>)"
    using X s by (simp add: AsyncNetworkInterface_recv_frame_def resting_relay_def)
  moreover have "debug_line db debug ?g = Inr ()" using len tx by (intro debug_line_ip) (simp_all add: ip_frame_def)
  ultimately have "frame_in db debug (word_of_nat s) (BufferList_concatenate (EthernetFrame_serialize ?f)) (relay T X)
      = Router_route (relay T (X(s := (X s)\<lparr>AI_datagrams_out := [d']\<rparr>)))"
    using pl(1) s by (simp add: frame_in_def wire_def relay_interface del: fun_upd_apply)
  then show thesis using that d'(2) by blast
qed

lemma relay_passes:
  assumes X: "resting_relay X" and st: "s < 2" "t < 2" "t \<noteq> s" and d: "dgram_ok d" "IPv4Datagram_serialize d = Inr bl"
    and n: "address_ok (NI_ethernet_address n)" and to: "leads T (IP_dst (DG_header d)) t k" "NI_ip2eth (AI_base (X t)) k = Some (e, tm)"
    and ttl: "\<not> IP_ttl (DG_header d) \<le> 1"
  obtains d' bl' where "arrived d d'" "IPv4Datagram_serialize (forwarded d') = Inr bl'"
    "bindR (frame_in db debug (word_of_nat s) (BufferList_concatenate (EthernetFrame_serialize (ip_frame n (eth (X s)) bl))) (relay T X))
       (frame_out db debug (word_of_nat t)) = Inr (EthernetFrame_serialize (ip_frame (AI_base (X t)) e bl'), relay T X)"
proof -
  obtain d' where d': "arrived d d'" "frame_in db debug (word_of_nat s) (BufferList_concatenate (EthernetFrame_serialize (ip_frame n (eth (X s)) bl))) (relay T X)
      = Router_route (relay T (X(s := (X s)\<lparr>AI_datagrams_out := [d']\<rparr>)))"
    by (rule relay_takes [OF X st(1) d n])
  let ?X = "X(s := (X s)\<lparr>AI_datagrams_out := [d']\<rparr>)"
  have same: "IP_dst (DG_header d') = IP_dst (DG_header d)" "IP_ttl (DG_header d') = IP_ttl (DG_header d)" using d'(1) by (simp_all add: arrived_def)
  have fwd: "dgram_ok (forwarded d')" by (rule forwarded_ok [OF arrived_ok [OF d(1) d'(1)]])
  obtain bl' where bl': "IPv4Datagram_serialize (forwarded d') = Inr bl'" using wire_bytes_ok(1) [OF fwd] by (auto simp: serializes_def)
  obtain d0 where len: "length (BufferList_concatenate bl') < 65536" by (rule cable_ip [OF fwd bl'])
  let ?f = "ip_frame (AI_base (X t)) e bl'"
  let ?x = "(X t)\<lparr>AI_base := (AI_base (X t))\<lparr>NI_frames_out := [?f]\<rparr>\<rparr>"
  have idle: "frames_out (X t) = []" "AI_datagrams_out (X t) = []" "AI_datagrams_out (X s) = []" using X st by (simp_all add: resting_relay_def)
  have "Router_route_one_datagram (relay T ?X) d' = Inr (relay T (?X(t := ?x)))"
    using relay_route_one [of T d' t k ?X e tm bl'] to ttl st bl' idle by (simp add: same)
  then have "Router_route (relay T ?X) = Inr (relay T (?X(t := ?x, s := unqueued (?X s))))"
    using st idle by (intro relay_route) auto
  moreover have "?X(t := ?x, s := unqueued (?X s)) = X(t := ?x)" using st(3) idle(3) by (auto simp: fun_eq_iff)
  ultimately have "Router_route (relay T ?X) = Inr (relay T (X(t := ?x)))" by simp
  moreover have "frame_out db debug (word_of_nat t) (relay T (X(t := ?x))) = Inr (EthernetFrame_serialize ?f, relay T X)"
  proof -
    have "debug_line db debug ?f = Inr ()" using len by (intro debug_line_ip) (simp_all add: ip_frame_def)
    moreover have "(X(t := ?x))(t := ?x\<lparr>AI_base := (AI_base ?x)\<lparr>NI_frames_out := []\<rparr>\<rparr>) = X" using idle(1) by (auto simp: fun_eq_iff)
    ultimately show ?thesis using relay_interface(1) [OF st(2), of T "X(t := ?x)"] relay_interface(2) [OF st(2), of T "X(t := ?x)"]
      by (simp add: frame_out_def)
  qed
  ultimately show thesis using that d' bl' by simp
qed

section \<open>The ends\<close>

lemma adapter_pending_eq:
  "NetworkInterfaceAdapter_send_pending a = a\<lparr>NA_written := NA_written a @ map EthernetFrame_serialize (NI_frames_out (NA_interface a)),
     NA_interface := (NA_interface a)\<lparr>NI_frames_out := []\<rparr>\<rparr>"
proof (induction a rule: NetworkInterfaceAdapter_send_pending.induct)
  case (1 a)
  show ?case
  proof (cases "NI_frames_out (NA_interface a)")
    case Nil
    then have "(NA_interface a)\<lparr>NI_frames_out := []\<rparr> = NA_interface a" by (cases "NA_interface a") simp
    then show ?thesis using Nil by (subst NetworkInterfaceAdapter_send_pending.simps) (cases a, simp)
  next
    case (Cons f fs)
    then show ?thesis using 1 [OF Cons] by (subst NetworkInterfaceAdapter_send_pending.simps) simp
  qed
qed

text \<open>A wrapped segment is unwrapped by the peer also when routers have reduced the time to live on the way.\<close>

lemma wrap_carried:
  assumes db: "netdb_ok db" and a: "between a here there" and b: "takes b there here seg" and seg: "packable seg"
  obtains d where "wrap_tcp_in_ip db a seg = Inr (d, with_ports seg (snd here) (snd there))" "dgram_ok d"
    "IP_dst (DG_header d) = fst there" "IP_ttl (DG_header d) = DEFAULT_TTL"
    "\<forall>d' ttl c pl. DG_header d' = (DG_header d)\<lparr>IP_ttl := ttl, IP_cksum := c\<rparr> \<and> DG_payload d' = BufferList_of_Buffer pl \<and> Buffer_inv pl
       \<and> Buffer_str pl = BufferList_concatenate (DG_payload d) \<longrightarrow>
       (\<exists>got. unwrap_tcp_in_ip db b d' = Inr (Some got, if FA_listen b then accepted b there here else b)
        \<and> same_segment got seg \<and> TH_sport (TS_header got) = snd here \<and> TH_dport (TS_header got) = snd there)"
proof -
  let ?seg = "with_ports seg (snd here) (snd there)"
  let ?h = "ip_header (fst here) (fst there) ?seg"
  obtain bl where bl: "wrap_tcp_in_ip db a seg = Inr (\<lparr>DG_header = ?h, DG_payload = bl\<rparr>, ?seg)"
    "IPv4Header_for ?h (BufferList_concatenate bl)" "BufferList_inv bl"
    "\<forall>b. Buffer_inv b \<and> Buffer_str b = BufferList_concatenate bl \<longrightarrow>
      (\<exists>pl. TCPSegment_parse TCPSegment_new b (IPv4Header_pseudo_cksum ?h)
          = Inr (NoError, \<lparr>TS_header = checked ?seg (IPv4Header_pseudo_cksum ?h), TS_payload = pl\<rparr>)
        \<and> Buffer_inv pl \<and> Buffer_str pl = Buffer_str (TS_payload seg))"
    by (rule wrap_ok [OF db a seg])
  show thesis
  proof (rule that [OF bl(1)], goal_cases)
    case 4
    show ?case
    proof (intro allI impI, elim conjE)
      fix d' :: IPv4Datagram and ttl c pl assume d': "DG_header d' = (DG_header \<lparr>DG_header = ?h, DG_payload = bl\<rparr>)\<lparr>IP_ttl := ttl, IP_cksum := c\<rparr>"
        "DG_payload d' = BufferList_of_Buffer pl" "Buffer_inv pl" "Buffer_str pl = BufferList_concatenate (DG_payload \<lparr>DG_header = ?h, DG_payload = bl\<rparr>)"
      obtain q where q: "TCPSegment_parse TCPSegment_new pl (IPv4Header_pseudo_cksum ?h)
          = Inr (NoError, \<lparr>TS_header = checked ?seg (IPv4Header_pseudo_cksum ?h), TS_payload = q\<rparr>)" "Buffer_str q = Buffer_str (TS_payload seg)"
        using bl(4) d'(3,4) by auto
      let ?got = "\<lparr>TS_header = checked ?seg (IPv4Header_pseudo_cksum ?h), TS_payload = q\<rparr>"
      have "unwrap_tcp_in_ip db b d' = Inr (Some ?got, if FA_listen b then accepted b there here else b)"
        by (rule unwrap_wrapped [OF db b _ d'(2) q(1)]) (use d'(1) in \<open>simp_all add: checked_fields\<close>)
      then show "\<exists>got. unwrap_tcp_in_ip db b d' = Inr (Some got, if FA_listen b then accepted b there here else b)
          \<and> same_segment got seg \<and> TH_sport (TS_header got) = snd here \<and> TH_dport (TS_header got) = snd there"
        using q(2) by (intro exI [of _ ?got]) (simp add: same_segment_def checked_same checked_fields)
    qed
  qed (use bl in \<open>simp_all add: dgram_ok_def ip_header_def IPv4Header_new_def\<close>)
qed

lemma adapter_writes:
  assumes d: "wrap_tcp_in_ip db a seg = Inr (d, seg')" "IPv4Datagram_serialize d = Inr bl"
    and hop: "Address_ipv4_numeric (NA_next_hop a) = Inr k" "NI_ip2eth (NA_interface a) k = Some (e, t)" and idle: "NI_frames_out (NA_interface a) = []"
  shows "NetworkInterfaceAdapter_write db a seg
    = Inr (seg', a\<lparr>NA_written := NA_written a @ [EthernetFrame_serialize (ip_frame (NA_interface a) e bl)]\<rparr>)"
proof -
  have quiet: "(NA_interface a)\<lparr>NI_frames_out := []\<rparr> = NA_interface a" using idle by (cases "NA_interface a") simp
  have "NetworkInterfaceAdapter_send_pending (a\<lparr>NA_interface := (NA_interface a)\<lparr>NI_frames_out := [f]\<rparr>\<rparr>)
      = a\<lparr>NA_written := NA_written a @ [EthernetFrame_serialize f]\<rparr>" for f
    using quiet by (cases a) (simp add: adapter_pending_eq)
  then show ?thesis using send_datagram_known [OF hop d(2)] idle by (simp add: NetworkInterfaceAdapter_write_def d(1))
qed

lemma adapter_reads:
  assumes d: "dgram_ok d" "IPv4Datagram_serialize d = Inr bl"
    and n: "address_ok (NI_ethernet_address n)" "address_ok (NI_ethernet_address (NA_interface b))" and idle: "NI_frames_out (NA_interface b) = []"
  obtains d' pl where "arrived d d'" "DG_payload d' = BufferList_of_Buffer pl" "Buffer_inv pl"
    "NetworkInterfaceAdapter_read db b (BufferList_concatenate (EthernetFrame_serialize (ip_frame n (NI_ethernet_address (NA_interface b)) bl)))
      = unwrap_tcp_in_ip db b d'"
proof -
  let ?B = "NA_interface b"
  let ?f = "ip_frame n (NI_ethernet_address ?B) bl"
  obtain d0 where len: "length (BufferList_concatenate bl) < 65536" by (rule cable_ip [OF d])
  have "EthernetHeader_ok (EF_header ?f)" "length (BufferList_concatenate (EF_payload ?f)) < 65536"
    using n len by (simp_all add: ip_frame_def EthernetHeader_ok_def)
  then obtain pl where pl: "wire ?f = Inr (NoError, \<lparr>EF_header = EF_header ?f, EF_payload = BufferList_of_Buffer pl\<rparr>)"
    "Buffer_inv pl" "Buffer_str pl = BufferList_concatenate (EF_payload ?f)" by (rule wire_ok)
  have tx: "Buffer_str pl = BufferList_concatenate bl" using pl(3) by (simp add: ip_frame_def)
  obtain d' q where d': "IPv4Datagram_parse IPv4Datagram_new pl = Inr (NoError, d')" "arrived d d'" "DG_payload d' = BufferList_of_Buffer q" "Buffer_inv q"
    by (rule parse_ip [OF d pl(2) tx])
  have "?B\<lparr>NI_frames_out := []\<rparr> = ?B" using idle by (cases ?B) simp
  then have "NetworkInterfaceAdapter_send_pending b = b" using idle by (cases b) (simp add: adapter_pending_eq)
  moreover have "recv_frame ?B \<lparr>EF_header = EF_header ?f, EF_payload = BufferList_of_Buffer pl\<rparr> = Inr (Some d', ?B)"
    by (rule recv_frame_ip [OF _ _ _ d'(1)]) (simp_all add: ip_frame_def)
  ultimately show thesis using that [OF d'(2-4)] pl(1) by (simp add: NetworkInterfaceAdapter_read_def wire_def)
qed

section \<open>The routers of the two programs\<close>

text \<open>The addresses of the hosts and of the tunnel, by whether the program is the client, and the tables.\<close>

definition lab7_host :: "bool \<Rightarrow> u32" where
  "lab7_host is_client = (if is_client then 0xc0a80032 else 0xac100064)"

definition lab7_tunnel :: "bool \<Rightarrow> u32" where
  "lab7_tunnel is_client = (if is_client then 0x0a0000c0 else 0x0a0000ac)"

definition lab7_routes :: "bool \<Rightarrow> Route_Information list" where
  "lab7_routes is_client =
     (if is_client
      then [route 0xc0a80000 16 None 0, route 0x0a000000 8 None 1, route 0xac100000 12 (Some (inet_address 0x0a0000ac 0)) 1]
      else [route 0xac100000 12 None 0, route 0x0a000000 8 None 1, route 0xc0a80000 16 (Some (inet_address 0x0a0000c0 0)) 1])"

lemma leads_by:
  assumes "route_scan dst T no_choice = Inr \<lparr>is_matched = True, matched_length = n, CH_interface_num = word_of_nat t, CH_next_hop = hop\<rparr>"
    and "hop = None \<and> k = dst \<or> hop = Some (inet_address k 0)"
  shows "leads T dst t k"
  using assms by (auto simp: leads_def from_ipv4_numeric)

lemma lab7_scans:
  "route_scan 0xc0a80032 (lab7_routes True) no_choice = Inr \<lparr>is_matched = True, matched_length = 16, CH_interface_num = 0, CH_next_hop = None\<rparr>"
  "route_scan 0xac100064 (lab7_routes True) no_choice
    = Inr \<lparr>is_matched = True, matched_length = 12, CH_interface_num = 1, CH_next_hop = Some (inet_address 0x0a0000ac 0)\<rparr>"
  "route_scan 0xac100064 (lab7_routes False) no_choice = Inr \<lparr>is_matched = True, matched_length = 12, CH_interface_num = 0, CH_next_hop = None\<rparr>"
  "route_scan 0xc0a80032 (lab7_routes False) no_choice
    = Inr \<lparr>is_matched = True, matched_length = 16, CH_interface_num = 1, CH_next_hop = Some (inet_address 0x0a0000c0 0)\<rparr>"
  by (simp_all add: lab7_routes_def route_def route_matches_def no_choice_def word_le_nat_alt word_less_nat_alt)

lemma lab7_leads: "leads (lab7_routes c) (lab7_host c) 0 (lab7_host c)" "leads (lab7_routes c) (lab7_host (\<not> c)) 1 (lab7_tunnel (\<not> c))"
  using lab7_scans by (cases c; auto simp: lab7_host_def lab7_tunnel_def intro!: leads_by)+

lemma lab7_names: "dotted (be_bytes (0x0a0000c0 :: u32)) = ''10.0.0.192''" "dotted (be_bytes (0x0a0000ac :: u32)) = ''10.0.0.172''"
  by (simp_all add: dotted_def be_bytes_32 digits.simps digit_chars)

lemma lab7_router_eq:
  assumes db: "numeric_names db"
  obtains x y g' where "lab7_router db rd g c = Inr (0, 1, \<lparr>RT_interfaces = [x, y], RT_routing_table = lab7_routes c\<rparr>, g')"
    "\<forall>a \<in> {x, y}. frames_out a = [] \<and> AI_datagrams_out a = [] \<and> address_ok (eth a)"
proof -
  obtain e g1 e' g2 where draws: "random_router_ethernet_address rd g = (e, g1)" "random_router_ethernet_address rd g1 = (e', g2)"
    by (meson surj_pair)
  then have ok: "address_ok e" "address_ok e'" using random_addresses(1) [of rd g] random_addresses(1) [of rd g1] by simp_all
  let ?i = "\<lambda>e ip. AsyncNetworkInterface_of (NetworkInterface_new e (inet_address ip 0))"
  note names = names_resolve(3,4,15-17) [OF db] resolves [OF db lab7_names(1)] resolves [OF db lab7_names(2)]
  have "lab7_router db rd g c = Inr (0, 1, \<lparr>RT_interfaces = [?i e (if c then 0xc0a80001 else 0xac100001), ?i e' (lab7_tunnel c)],
      RT_routing_table = lab7_routes c\<rparr>, g2)"
    by (simp add: lab7_router_def new_interface_def direct_route_def route_through_def draws names ip_of_def Router_add_interface_def
        Router_add_route_def Router_new_def lab7_routes_def lab7_tunnel_def route_def)
  then show thesis by (rule that) (simp add: ok AsyncNetworkInterface_of_def NetworkInterface_new_def)
qed

text \<open>A router some time after it was set up: it has learned addresses and is otherwise as it was.\<close>

definition acquainted :: "Router \<Rightarrow> Router \<Rightarrow> bool" where
  "acquainted R R' \<longleftrightarrow> RT_routing_table R' = RT_routing_table R
     \<and> list_all2 (\<lambda>a a'. \<exists>c t. a' = a\<lparr>AI_base := (AI_base a)\<lparr>NI_ip2eth := c, NI_time_passed := t\<rparr>\<rparr>) (RT_interfaces R) (RT_interfaces R')"

lemma acquainted_relay:
  assumes "acquainted \<lparr>RT_interfaces = [x, y], RT_routing_table = T\<rparr> R" and "\<forall>a \<in> {x, y}. frames_out a = [] \<and> AI_datagrams_out a = [] \<and> address_ok (eth a)"
  obtains X where "R = relay T X" "resting_relay X"
proof -
  obtain x' y' where R: "RT_interfaces R = [x', y']" "RT_routing_table R = T"
    using assms(1) by (auto simp: acquainted_def list_all2_Cons1)
  let ?X = "\<lambda>i :: nat. if i = 0 then x' else y'"
  have "R = relay T ?X" using R by (cases R) (simp add: relay_def)
  moreover have "resting_relay ?X" using assms R by (auto simp: acquainted_def resting_relay_def)
  ultimately show thesis by (rule that)
qed

text \<open>The addresses that the two hosts and the two routers between them have to know for one direction.\<close>

definition has_learned :: "NetworkInterface \<Rightarrow> u32 \<Rightarrow> EthernetAddress \<Rightarrow> bool" where
  "has_learned n ip e \<longleftrightarrow> (\<exists>t. NI_ip2eth n ip = Some (e, t))"

definition path_known :: "bool \<Rightarrow> NetworkInterfaceAdapter \<Rightarrow> Router \<Rightarrow> Router \<Rightarrow> NetworkInterfaceAdapter \<Rightarrow> bool" where
  "path_known c a R R' b \<longleftrightarrow>
     (\<exists>k. Address_ipv4_numeric (NA_next_hop a) = Inr k \<and> has_learned (NA_interface a) k (eth (RT_interfaces R ! 0)))
   \<and> has_learned (AI_base (RT_interfaces R ! 1)) (lab7_tunnel (\<not> c)) (eth (RT_interfaces R' ! 1))
   \<and> has_learned (AI_base (RT_interfaces R' ! 0)) (lab7_host (\<not> c)) (NI_ethernet_address (NA_interface b))
   \<and> NI_frames_out (NA_interface a) = [] \<and> NI_frames_out (NA_interface b) = []
   \<and> address_ok (NI_ethernet_address (NA_interface a)) \<and> address_ok (NI_ethernet_address (NA_interface b))"

section \<open>From one host to the other\<close>

lemma forwarded_fields [simp]:
  "IP_dst (DG_header (forwarded d)) = IP_dst (DG_header d)" "IP_ttl (DG_header (forwarded d)) = IP_ttl (DG_header d) - 1"
  "DG_payload (forwarded d) = DG_payload d"
  by (simp_all add: forwarded_def)

lemma three_cables:
  assumes "arrived d d1" "arrived (forwarded d1) d2" "arrived (forwarded d2) d3"
  shows "\<exists>ttl c. DG_header d3 = (DG_header d)\<lparr>IP_ttl := ttl, IP_cksum := c\<rparr>"
    "BufferList_concatenate (DG_payload d3) = BufferList_concatenate (DG_payload d)"
proof -
  have "DG_header d3 = (DG_header d)\<lparr>IP_ttl := IP_ttl (DG_header d3), IP_cksum := IP_cksum (DG_header d3)\<rparr>"
    using assms by (cases "DG_header d") (simp add: arrived_def forwarded_def)
  then show "\<exists>ttl c. DG_header d3 = (DG_header d)\<lparr>IP_ttl := ttl, IP_cksum := c\<rparr>" by blast
qed (use assms in \<open>simp add: arrived_def\<close>)

lemma relays_carry:
  assumes db: "netdb_ok db" and a: "between a (lab7_host c, p) (lab7_host (\<not> c), q)"
    and b: "takes b (lab7_host (\<not> c), q) (lab7_host c, p) seg" and seg: "packable seg"
    and X: "resting_relay X" "resting_relay X'" and known: "path_known c a (relay (lab7_routes c) X) (relay (lab7_routes (\<not> c)) X') b"
  obtains w w1 w2 got where
    "NetworkInterfaceAdapter_write db a seg = Inr (with_ports seg p q, a\<lparr>NA_written := NA_written a @ [w]\<rparr>)"
    "bindR (frame_in db debug 0 (BufferList_concatenate w) (relay (lab7_routes c) X)) (frame_out db debug 1) = Inr (w1, relay (lab7_routes c) X)"
    "bindR (frame_in db debug' 1 (BufferList_concatenate w1) (relay (lab7_routes (\<not> c)) X')) (frame_out db debug' 0)
      = Inr (w2, relay (lab7_routes (\<not> c)) X')"
    "NetworkInterfaceAdapter_read db b (BufferList_concatenate w2)
      = Inr (Some got, if FA_listen b then accepted b (lab7_host (\<not> c), q) (lab7_host c, p) else b)"
    "same_segment got seg" "TH_sport (TS_header got) = p" "TH_dport (TS_header got) = q"
proof -
  let ?A = "NA_interface a" and ?B = "NA_interface b"
  obtain k t0 t1 t2 where hop: "Address_ipv4_numeric (NA_next_hop a) = Inr k" "NI_ip2eth ?A k = Some (eth (X 0), t0)"
    and hops: "NI_ip2eth (AI_base (X 1)) (lab7_tunnel (\<not> c)) = Some (eth (X' 1), t1)" "NI_ip2eth (AI_base (X' 0)) (lab7_host (\<not> c)) = Some (NI_ethernet_address ?B, t2)"
    and idle: "NI_frames_out ?A = []" "NI_frames_out ?B = []" and ok: "address_ok (NI_ethernet_address ?A)" "address_ok (NI_ethernet_address ?B)"
    using known by (auto simp: path_known_def has_learned_def relay_def)
  have rok: "address_ok (eth (X 1))" "address_ok (eth (X' 0))" using X by (simp_all add: resting_relay_def)
  obtain d where d: "wrap_tcp_in_ip db a seg = Inr (d, with_ports seg p q)" "dgram_ok d" "IP_dst (DG_header d) = lab7_host (\<not> c)" "IP_ttl (DG_header d) = DEFAULT_TTL"
    and un: "\<forall>d' ttl c' pl. DG_header d' = (DG_header d)\<lparr>IP_ttl := ttl, IP_cksum := c'\<rparr> \<and> DG_payload d' = BufferList_of_Buffer pl \<and> Buffer_inv pl
       \<and> Buffer_str pl = BufferList_concatenate (DG_payload d) \<longrightarrow>
       (\<exists>got. unwrap_tcp_in_ip db b d' = Inr (Some got, if FA_listen b then accepted b (lab7_host (\<not> c), q) (lab7_host c, p) else b)
        \<and> same_segment got seg \<and> TH_sport (TS_header got) = p \<and> TH_dport (TS_header got) = q)"
    using wrap_carried [OF db a b seg] by auto
  obtain bl where bl: "IPv4Datagram_serialize d = Inr bl" using wire_bytes_ok(1) [OF d(2)] by (auto simp: serializes_def)
  have lead: "leads (lab7_routes c) (IP_dst (DG_header d)) 1 (lab7_tunnel (\<not> c))" using lab7_leads(2) by (simp add: d(3))
  have ttl: "\<not> IP_ttl (DG_header d) \<le> 1" by (simp add: d(4) DEFAULT_TTL_def word_le_nat_alt)
  obtain d1 bl1 where d1: "arrived d d1" "IPv4Datagram_serialize (forwarded d1) = Inr bl1"
    "bindR (frame_in db debug (word_of_nat 0) (BufferList_concatenate (EthernetFrame_serialize (ip_frame ?A (eth (X 0)) bl))) (relay (lab7_routes c) X))
       (frame_out db debug (word_of_nat 1)) = Inr (EthernetFrame_serialize (ip_frame (AI_base (X 1)) (eth (X' 1)) bl1), relay (lab7_routes c) X)"
    using relay_passes [OF X(1), of 0 1 d bl ?A "lab7_routes c" "lab7_tunnel (\<not> c)" "eth (X' 1)" t1 db debug] d(2) bl ok(1) lead hops(1) ttl by auto
  have f1: "dgram_ok (forwarded d1)" by (rule forwarded_ok [OF arrived_ok [OF d(2) d1(1)]])
  have s1: "IP_dst (DG_header (forwarded d1)) = lab7_host (\<not> c)" "IP_ttl (DG_header (forwarded d1)) = DEFAULT_TTL - 1"
    using d1(1) d(3,4) by (simp_all add: arrived_def)
  have lead: "leads (lab7_routes (\<not> c)) (IP_dst (DG_header (forwarded d1))) 0 (lab7_host (\<not> c))" using lab7_leads(1) by (simp only: s1)
  have ttl: "\<not> IP_ttl (DG_header (forwarded d1)) \<le> 1" unfolding s1 by (simp add: DEFAULT_TTL_def word_le_nat_alt)
  obtain d2 bl2 where d2: "arrived (forwarded d1) d2" "IPv4Datagram_serialize (forwarded d2) = Inr bl2"
    "bindR (frame_in db debug' (word_of_nat 1) (BufferList_concatenate (EthernetFrame_serialize (ip_frame (AI_base (X 1)) (eth (X' 1)) bl1))) (relay (lab7_routes (\<not> c)) X'))
       (frame_out db debug' (word_of_nat 0)) = Inr (EthernetFrame_serialize (ip_frame (AI_base (X' 0)) (NI_ethernet_address ?B) bl2), relay (lab7_routes (\<not> c)) X')"
    using relay_passes [OF X(2), of 1 0 "forwarded d1" bl1 "AI_base (X 1)" "lab7_routes (\<not> c)" "lab7_host (\<not> c)" "NI_ethernet_address ?B" t2 db debug']
      f1 d1(2) rok(1) lead hops(2) ttl by auto
  have f2: "dgram_ok (forwarded d2)" by (rule forwarded_ok [OF arrived_ok [OF f1 d2(1)]])
  obtain d3 pl where d3: "arrived (forwarded d2) d3" "DG_payload d3 = BufferList_of_Buffer pl" "Buffer_inv pl"
    "NetworkInterfaceAdapter_read db b (BufferList_concatenate (EthernetFrame_serialize (ip_frame (AI_base (X' 0)) (NI_ethernet_address ?B) bl2)))
      = unwrap_tcp_in_ip db b d3"
    by (rule adapter_reads [OF f2 d2(2) rok(2) ok(2) idle(2)])
  obtain ttl c' where h: "DG_header d3 = (DG_header d)\<lparr>IP_ttl := ttl, IP_cksum := c'\<rparr>" using three_cables(1) [OF d1(1) d2(1) d3(1)] by blast
  have "Buffer_str pl = BufferList_concatenate (DG_payload d)" using three_cables(2) [OF d1(1) d2(1) d3(1)] d3(2) by simp
  with un h d3(2,3) obtain got where "unwrap_tcp_in_ip db b d3 = Inr (Some got, if FA_listen b then accepted b (lab7_host (\<not> c), q) (lab7_host c, p) else b)"
    "same_segment got seg" "TH_sport (TS_header got) = p" "TH_dport (TS_header got) = q" by blast
  then show thesis using that adapter_writes [OF d(1) bl hop idle(1)] d1(3) d2(3) d3(4) by simp
qed

text \<open>An instance: a client whose segment opens a connection to a server that listens, and routers that have learned some addresses.\<close>

definition example_lab7 :: "u32 \<times> u16 \<Rightarrow> u32 \<times> u16 \<Rightarrow> bool \<Rightarrow> EthernetAddress \<Rightarrow> u32 \<Rightarrow> EthernetAddress \<Rightarrow> NetworkInterfaceAdapter" where
  "example_lab7 here there listen e hop other = \<lparr>FA_cfg = example_config here there, FA_listen = listen,
     NA_interface = (NetworkInterface_new e (inet_address (fst here) 0))\<lparr>NI_ip2eth := [hop \<mapsto> (other, 0)]\<rparr>,
     NA_next_hop = inet_address hop 0, NA_written = []\<rparr>"

definition meet :: "(u32 \<rightharpoonup> EthernetAddress \<times> u64) \<Rightarrow> Router \<Rightarrow> Router" where
  "meet cache R = R\<lparr>RT_interfaces := map (\<lambda>a. a\<lparr>AI_base := (AI_base a)\<lparr>NI_ip2eth := cache\<rparr>\<rparr>) (RT_interfaces R)\<rparr>"

lemma meet_acquainted: "acquainted R (meet cache R)"
proof -
  have "\<exists>c t. a\<lparr>AI_base := (AI_base a)\<lparr>NI_ip2eth := cache\<rparr>\<rparr> = a\<lparr>AI_base := (AI_base a)\<lparr>NI_ip2eth := c, NI_time_passed := t\<rparr>\<rparr>" for a :: AsyncNetworkInterface
    by (intro exI [of _ cache] exI [of _ "NI_time_passed (AI_base a)"]) (cases "AI_base a", simp)
  then show ?thesis by (simp add: acquainted_def meet_def list_all2_map2 list_all2_same)
qed

lemma example_lab7_fields [simp]:
  "between (example_lab7 here there l e hop other) here there" "FA_listen (example_lab7 here there l e hop other) = l"
  by (simp_all add: between_def example_lab7_def example_config_def)

section \<open>Properties\<close>

text \<open>C10: when the hosts and the routers have learned the addresses of their neighbours, a segment that the adapter of
  one program writes is routed by that program into the tunnel and by the other program to its host, whose adapter
  reads the same segment between the same ports. The routers are those that the programs set up, of a client and of
  a server in either direction, and the hosts have the addresses that the programs give them.\<close>

theorem lab7_carries:
  assumes "numeric_names db" and "packable seg"
    and "lab7_router db rd g c = Inr (host_side, internet_side, R0, g1)" and "acquainted R0 R"
    and "lab7_router db rd' g' (\<not> c) = Inr (host_side', internet_side', R0', g1')" and "acquainted R0' R'"
    and "between a (lab7_host c, p) (lab7_host (\<not> c), q)" and "takes b (lab7_host (\<not> c), q) (lab7_host c, p) seg"
    and "path_known c a R R' b"
  shows "\<exists>w w1 w2 got.
     NetworkInterfaceAdapter_write db a seg = Inr (with_ports seg p q, a\<lparr>NA_written := NA_written a @ [w]\<rparr>)
   \<and> bindR (frame_in db debug host_side (BufferList_concatenate w) R) (frame_out db debug internet_side) = Inr (w1, R)
   \<and> bindR (frame_in db debug' internet_side' (BufferList_concatenate w1) R') (frame_out db debug' host_side') = Inr (w2, R')
   \<and> NetworkInterfaceAdapter_read db b (BufferList_concatenate w2)
       = Inr (Some got, if FA_listen b then accepted b (lab7_host (\<not> c), q) (lab7_host c, p) else b)
   \<and> same_segment got seg \<and> TH_sport (TS_header got) = p \<and> TH_dport (TS_header got) = q"
proof -
  obtain X where X: "host_side = 0" "internet_side = 1" "R = relay (lab7_routes c) X" "resting_relay X"
    using lab7_router_eq [OF assms(1), of rd g c] acquainted_relay [of _ _ "lab7_routes c" R] assms(3,4) by (metis Pair_inject sum.inject(2))
  obtain X' where X': "host_side' = 0" "internet_side' = 1" "R' = relay (lab7_routes (\<not> c)) X'" "resting_relay X'"
    using lab7_router_eq [OF assms(1), of rd' g' "\<not> c"] acquainted_relay [of _ _ "lab7_routes (\<not> c)" R'] assms(5,6) by (metis Pair_inject sum.inject(2))
  have db: "netdb_ok db" using assms(1) by (simp add: numeric_names_def)
  show ?thesis
    by (rule relays_carry [OF db assms(7,8,2) X(4) X'(4) assms(9) [unfolded X(3) X'(3)], of debug debug']) (use X X' in blast)
qed

theorem lab7_carries_witness:
  "let a = example_lab7 (0xc0a80032, 4000) (0xac100064, 1234) False; b = example_lab7 (0xac100064, 1234) (0, 0) True; db = simulator_netdb
   in \<exists>e R R' w w1 w2 got. packable example_syn
   \<and> NetworkInterfaceAdapter_write db (a [2, 1, 1, 1, 1, 1] 0xc0a80001 e) example_syn
       = Inr (with_ports example_syn 4000 1234, (a [2, 1, 1, 1, 1, 1] 0xc0a80001 e)\<lparr>NA_written := [w]\<rparr>)
   \<and> bindR (frame_in db True 0 (BufferList_concatenate w) R) (frame_out db True 1) = Inr (w1, R)
   \<and> bindR (frame_in db True 1 (BufferList_concatenate w1) R') (frame_out db True 0) = Inr (w2, R')
   \<and> NetworkInterfaceAdapter_read db (b [2, 2, 2, 2, 2, 2] 0xac100001 []) (BufferList_concatenate w2)
       = Inr (Some got, accepted (b [2, 2, 2, 2, 2, 2] 0xac100001 []) (0xac100064, 1234) (0xc0a80032, 4000))
   \<and> same_segment got example_syn"
proof -
  let ?db = simulator_netdb
  let ?b = "example_lab7 (0xac100064, 1234) (0, 0) True [2, 2, 2, 2, 2, 2] 0xac100001 []"
  obtain x y g x' y' g' where r: "lab7_router ?db counter 0 True = Inr (0, 1, \<lparr>RT_interfaces = [x, y], RT_routing_table = lab7_routes True\<rparr>, g)"
    "lab7_router ?db counter 100 (\<not> True) = Inr (0, 1, \<lparr>RT_interfaces = [x', y'], RT_routing_table = lab7_routes False\<rparr>, g')"
    using lab7_router_eq [OF simulator_netdb_ok] by (metis (full_types))
  let ?a = "example_lab7 (0xc0a80032, 4000) (0xac100064, 1234) False [2, 1, 1, 1, 1, 1] 0xc0a80001 (eth x)"
  let ?R = "meet [0x0a0000ac \<mapsto> (eth y', 0)] \<lparr>RT_interfaces = [x, y], RT_routing_table = lab7_routes True\<rparr>"
  let ?R' = "meet [0xac100064 \<mapsto> ([2, 2, 2, 2, 2, 2], 0)] \<lparr>RT_interfaces = [x', y'], RT_routing_table = lab7_routes False\<rparr>"
  have "takes ?b (lab7_host (\<not> True), 1234) (lab7_host True, 4000) example_syn"
    unfolding takes_def by (simp, intro exI, rule example_lab7_fields(1))
  moreover have "between ?a (lab7_host True, 4000) (lab7_host (\<not> True), 1234)" by (simp add: lab7_host_def)
  moreover have "path_known True ?a ?R ?R' ?b"
    by (simp add: path_known_def has_learned_def meet_def example_lab7_def NetworkInterface_new_def lab7_host_def lab7_tunnel_def address_ok_def)
  ultimately show ?thesis
    using lab7_carries [OF simulator_netdb_ok example_segments(1) r(1) meet_acquainted r(2) meet_acquainted, where a = ?a and b = ?b and debug = True and debug' = True] example_segments(1)
    unfolding Let_def by (simp add: lab7_host_def example_lab7_def) blast
qed

end
