(* ===== verification/Spec2Isabelle.thy ===== *)
theory Spec2Isabelle
  imports Benchmark Lab7
begin

text \<open>
  A verification library for Sponge, a TCP/IP stack in user space. Paths are relative to
  \<^verbatim>\<open>src/libsponge\<close> unless they start with \<^verbatim>\<open>apps\<close>.

  \<^bold>\<open>The program.\<close> An application writes bytes into a byte stream. The sender cuts them into segments
  with wrapping 32-bit sequence numbers and retransmits what is not acknowledged; the receiver unwraps the
  sequence numbers and hands the payloads to a reassembler, which writes the bytes in order into a byte stream
  for the application at the other side. A connection owns one sender and one receiver. Its segments are
  serialized with a checksum, put in IPv4 datagrams by an adapter and sent on a TUN device, in UDP payloads, or
  in Ethernet frames by a network interface that resolves addresses with ARP. A router forwards datagrams
  between interfaces. A socket runs a connection in an event loop over file descriptors. The applications use
  the socket, or drive connections and routers directly.

  \<^bold>\<open>How code is modelled.\<close> A class is a record with the prefix of the class in its fields, a member function
  \<^verbatim>\<open>C::f\<close> is \<open>C_f\<close> (or \<open>f\<close> where the name is unique), and takes and returns the object it changes. A
  queue, a vector and a string are lists, a \<^verbatim>\<open>string\<close> of bytes is \<open>bytes\<close>. Machine integers are words
  of the same width and wrap. What may throw returns a \<open>result\<close>, the exceptions being values of \<open>cpp_error\<close>;
  \<open>OutOfBounds\<close> stands for an access C++ leaves undefined. Functions of the C library that are not written in
  the sources (system calls, the resolver, the random generator, \<^verbatim>\<open>poll\<close>) are arguments, and where a
  theorem relies on them their documented behaviour is a named hypothesis. Printing on the error stream is
  left out; that computing the text may throw is kept.

  \<^bold>\<open>The theories.\<close>
  \<^item> \<open>Sponge_Prelude\<close>: machine types, \<open>result\<close>, C++ strings, lemmas on words and lists.
  \<^item> \<open>Wrapping_Integers\<close> (\<^verbatim>\<open>wrapping_integers\<close>): \<open>wrap\<close> and \<open>unwrap\<close> are inverse near the
    checkpoint (locale \<open>seqno_codec\<close>) and \<open>unwrap\<close> gives the closest candidate.
  \<^item> \<open>Byte_Stream\<close> (\<^verbatim>\<open>byte_stream\<close>): the buffer with its 32-bit counters refines an abstract bounded queue
    (locale \<open>bounded_fifo\<close>).
  \<^item> \<open>Stream_Reassembler\<close> (\<^verbatim>\<open>stream_reassembler\<close>): what one push does, and that any run of
    overlapping, reordered and repeated pushes delivers a prefix, all of it once covered, and the end of the
    stream at the right place, except after an empty last substring.
  \<^item> \<open>TCP_Receiver\<close>, \<open>TCP_Sender\<close>, \<open>TCP_State\<close>, \<open>TCP_Connection\<close> (files of the same names and
    \<^verbatim>\<open>tcp_helpers/tcp_state\<close>): the two halves, the named states and the connection. The receiver
    delivers a prefix of the peer's stream; every segment the sender makes is a piece of its own stream; it
    fills exactly the window, and keeps the outstanding segments in a queue (locale \<open>min_queue\<close>). The
    connection gives up after the maximal number of retransmissions, lingers, and stops at a reset.
  \<^item> \<open>TCP_End_To_End\<close>: two connections and a network that loses, repeats and reorders; safety for every
    schedule, and the three-way handshake.
  \<^item> \<open>Net_Buffer\<close>, \<open>Net_Parser\<close>, \<open>Internet_Checksum\<close> (\<^verbatim>\<open>util/buffer\<close>,
    \<^verbatim>\<open>util/parser\<close>, \<^verbatim>\<open>util/util\<close>): strings as shared pieces (locale \<open>discardable\<close>),
    big-endian integers (locale \<open>wire_codec\<close>), the checksum.
  \<^item> \<open>TCP_Segment\<close>, \<open>IPv4_Datagram\<close>, \<open>Ethernet_Frame\<close>, \<open>Printing\<close> (\<^verbatim>\<open>tcp_helpers\<close>): round
    trips of all packet formats, totality of the parsers, and that the printed summaries and dumps determine what
    they print.
  \<^item> \<open>Address\<close>, \<open>Network_Interface\<close>, \<open>Router\<close> (\<^verbatim>\<open>util/address\<close>,
    \<^verbatim>\<open>network_interface\<close>, \<^verbatim>\<open>router\<close>): datagrams are neither lost nor made up while addresses
    are resolved; the router takes the longest prefix, and drains its queues.
  \<^item> \<open>Network_Simulator\<close> (\<^verbatim>\<open>apps/network_simulator.cc\<close>): a router with seven interfaces, six
    hosts and their cables, and the tests run on them; the check of a host is exact. \<open>Simulator_Cables\<close> is about
    two interfaces on a cable, \<open>Simulator_Run\<close> about the rounds of the simulation, \<open>Simulator_Tests\<close> about
    datagrams between hosts on different cables, \<open>Simulator_Segment\<close> about the cable with two hosts (locale
    \<open>overheard\<close>, interpreted for both directions), and \<open>Simulator_Success\<close> shows that all tests succeed.
  \<^item> \<open>TCP_Over_IP\<close> (\<^verbatim>\<open>tcp_helpers/fd_adapter\<close>, \<^verbatim>\<open>tcp_over_ip\<close>,
    \<^verbatim>\<open>tuntap_adapter\<close>, \<^verbatim>\<open>lossy_fd_adapter\<close>): the adapters carry segments unchanged (locale
    \<open>carrier\<close>, interpreted for TUN, UDP and Ethernet) and let nothing foreign through.
  \<^item> \<open>File_Descriptor\<close>, \<open>Sockets\<close>, \<open>Event_Loop\<close> (\<^verbatim>\<open>util/file_descriptor\<close>,
    \<^verbatim>\<open>util/socket\<close>, \<^verbatim>\<open>util/tun\<close>, \<^verbatim>\<open>util/eventloop\<close>): writing ends and hands over
    everything, datagrams are received whole, and a round of the event loop (locales \<open>progressing\<close>,
    \<open>orderly\<close>).
  \<^item> \<open>Sponge_Socket\<close>, \<open>Socket_Lifecycle\<close> (\<^verbatim>\<open>tcp_helpers/tcp_sponge_socket\<close>): the rules of
    the socket never make the loop busy, it leaves the loop only when nothing is left to do, and its destructor
    gets the thread back after one more round.
  \<^item> \<open>Stream_Copy\<close>, \<open>Benchmark\<close> (\<^verbatim>\<open>apps/bidirectional_stream_copy.cc\<close>,
    \<^verbatim>\<open>apps/tcp_benchmark.cc\<close>): copying
    that ends without a failure has moved everything, and the benchmark's loop is a schedule of two connections, so
    that what it receives is always a prefix of what it sends.
  \<^item> \<open>Lab7\<close> (\<^verbatim>\<open>apps/lab7.cc\<close>): a socket behind a router, joined by a tunnel to the same
    program elsewhere. The routers are set up as the code says, and a segment written at one end passes both and
    is read unchanged at the other, whose adapter accepts a time to live that the routers have reduced.

  \<^bold>\<open>Bounds.\<close> Streams shorter than \<open>2 ^ 31\<close> bytes and capacities below \<open>2 ^ 32\<close> are assumed where sequence
  numbers are unwrapped: beyond, \<open>unwrap\<close> needs a checkpoint that the code takes from the receiver. Loops of the
  code are recursions with termination proofs. Fuel occurs in two places: the loop of \<open>ByteStream_write\<close>
  counts in 32 bits towards a bound of 64, and gets one turn more than the bound, so it runs out exactly where the
  code loops for ever; \<open>write_input\<close> of the benchmark gets one turn more than there are bytes left, and is shown
  not to run out. Loops that may not end (of the socket, of the copying, of the benchmark, of the network thread
  of \<open>Lab7\<close>) are partial functions into \<open>option\<close>.

  \<^bold>\<open>Not modelled.\<close> The socket's thread is the function it runs, and runs when it is joined: the code of the
  thread and that of its owner share nothing but the pair of descriptors and the abort flag. The two threads of
  \<^verbatim>\<open>apps/lab7.cc\<close> are likewise separate functions, and their interleaving is left out. The remaining
  programs under \<^verbatim>\<open>apps\<close>: command lines, printing and fixed scripts on the devices of the host. The
  tests and examples under \<^verbatim>\<open>tests\<close> and \<^verbatim>\<open>doctests\<close>. The random generator of
  \<^verbatim>\<open>util/util.cc\<close> and the clock, which are arguments.
\<close>

end
